(* ===== verification/Prelude.thy ===== *)
theory Prelude
  imports Main "HOL-Library.AList" "HOL-Library.Char_ord" "HOL-Library.List_Lexorder"
begin

text \<open>
  What the components share.  A Go \<open>map[K]V\<close> is an association list with distinct keys
  (\<open>go_map_ok\<close>): \<open>mget\<close>, \<open>mput\<close>, \<open>mdel\<close> and \<open>mmerge\<close> are the index expression, the
  assignment, \<open>delete\<close> and the copying loop \<open>for k, v := range src { dst[k] = v }\<close>; the
  order of the list is one of the iteration orders Go leaves unspecified, and the lemmas
  about sorted keys show where that order cannot be observed.  A Go \<open>int64\<close> (so also a
  \<open>time.Duration\<close>) is an \<open>int\<close> between \<open>-2^63\<close> and \<open>2^63 - 1\<close>; \<open>wrap64\<close> is the
  two's-complement wrap-around of an operation on it, written where the code can reach it.
\<close>

named_theorems map_simps
named_theorems wf_intros

section \<open>Maps\<close>

type_synonym ('k, 'v) gomap = "('k \<times> 'v) list"

abbreviation mget :: "('k, 'v) gomap \<Rightarrow> 'k \<Rightarrow> 'v option" where
  "mget m k \<equiv> map_of m k"

definition mput :: "'k \<Rightarrow> 'v \<Rightarrow> ('k, 'v) gomap \<Rightarrow> ('k, 'v) gomap" where
  "mput k v m = AList.update k v m"

definition mdel :: "'k \<Rightarrow> ('k, 'v) gomap \<Rightarrow> ('k, 'v) gomap" where
  "mdel k m = AList.delete k m"

fun mmerge :: "('k, 'v) gomap \<Rightarrow> ('k, 'v) gomap \<Rightarrow> ('k, 'v) gomap" where
  "mmerge m [] = m"
| "mmerge m ((k, v) # xs) = mmerge (mput k v m) xs"

text \<open>The index expression \<open>m[k]\<close> of a string-valued map: the zero value when absent.\<close>

definition mstr :: "('k, string) gomap \<Rightarrow> 'k \<Rightarrow> string" where
  "mstr m k = (case mget m k of None \<Rightarrow> '''' | Some v \<Rightarrow> v)"

definition go_map_ok :: "('k, 'v) gomap \<Rightarrow> bool" where
  "go_map_ok m = distinct (map fst m)"

definition sorted_keys :: "('k::linorder, 'v) gomap \<Rightarrow> 'k list" where
  "sorted_keys m = sort (map fst m)"

lemma mget_mput [simp, map_simps]: "mget (mput k v m) k' = (if k' = k then Some v else mget m k')"
  by (simp add: mput_def update_conv)

lemma mget_mdel [simp, map_simps]: "mget (mdel k m) k' = (if k' = k then None else mget m k')"
  by (simp add: mdel_def delete_conv')

lemma go_map_ok_Nil [simp, wf_intros]: "go_map_ok []"
  by (simp add: go_map_ok_def)

lemma go_map_ok_mput [simp, wf_intros]: "go_map_ok m \<Longrightarrow> go_map_ok (mput k v m)"
  by (simp add: go_map_ok_def mput_def distinct_update)

lemma go_map_ok_mdel [simp, wf_intros]: "go_map_ok m \<Longrightarrow> go_map_ok (mdel k m)"
  by (simp add: go_map_ok_def mdel_def distinct_delete)

lemma go_map_ok_mmerge [simp, wf_intros]: "go_map_ok m \<Longrightarrow> go_map_ok (mmerge m xs)"
  by (induction m xs rule: mmerge.induct) auto

lemma keys_mput [simp]: "set (map fst (mput k v m)) = insert k (set (map fst m))"
  by (auto simp: mput_def dom_update)

lemma fst_image_mput [simp]: "fst ` set (mput k v m) = insert k (fst ` set m)"
  using keys_mput [of k v m] by simp

lemma fst_image_mdel [simp]: "fst ` set (mdel k m) = fst ` set m - {k}"
  by (force simp: mdel_def AList.delete_eq)

lemma keys_mdel: "set (map fst (mdel k m)) = set (map fst m) - {k}"
  by simp

lemma mget_None_iff: "mget m k = None \<longleftrightarrow> k \<notin> fst ` set m"
  by (simp add: map_of_eq_None_iff)

lemma mget_mmerge: "mget (mmerge m xs) k = (case mget (rev xs) k of None \<Rightarrow> mget m k | Some v \<Rightarrow> Some v)"
  by (induction m xs rule: mmerge.induct) (auto simp: map_add_def split: option.splits)

lemma mget_rev: "go_map_ok xs \<Longrightarrow> mget (rev xs) k = mget xs k"
proof (induction xs)
  case Nil
  then show ?case by simp
next
  case (Cons p xs)
  obtain a b where p: "p = (a, b)" by force
  from Cons.prems p have a: "a \<notin> fst ` set xs" and ok: "go_map_ok xs"
    by (auto simp: go_map_ok_def)
  from a have "mget xs a = None" by (simp add: mget_None_iff)
  with p Cons.IH [OF ok] show ?case
    by (auto simp: map_add_def split: option.splits)
qed

lemma mget_mmerge_ok:
  "go_map_ok xs \<Longrightarrow> mget (mmerge m xs) k = (case mget xs k of None \<Rightarrow> mget m k | Some v \<Rightarrow> Some v)"
  by (simp add: mget_mmerge mget_rev)

lemma mput_length: "length (mput k v m) = (if mget m k = None then Suc (length m) else length m)"
  by (induction m) (auto simp: mput_def)

lemma mdel_length_le: "length (mdel k m) \<le> length m"
  by (simp add: mdel_def AList.delete_eq)

lemma mget_in_dom: "mget m k = Some v \<Longrightarrow> 0 < length m"
  by (cases m) auto

lemma mdel_length: "go_map_ok m \<Longrightarrow> length (mdel k m) = (if mget m k = None then length m else length m - 1)"
proof (induction m)
  case Nil
  then show ?case by (simp add: mdel_def)
next
  case (Cons p m)
  obtain a b where p: "p = (a, b)" by force
  from Cons.prems p have a: "a \<notin> fst ` set m" and ok: "go_map_ok m"
    by (auto simp: go_map_ok_def)
  show ?case
  proof (cases "a = k")
    case True
    with a have "mget m k = None" by (simp add: mget_None_iff)
    with True p Cons.IH [OF ok] show ?thesis by (simp add: mdel_def)
  next
    case False
    with p Cons.IH [OF ok] show ?thesis
      by (auto simp: mdel_def dest!: mget_in_dom)
  qed
qed

lemma mget_Some_in: "mget m k = Some v \<Longrightarrow> (k, v) \<in> set m"
  by (rule map_of_SomeD)

lemma mget_in_iff: "go_map_ok m \<Longrightarrow> (k, v) \<in> set m \<longleftrightarrow> mget m k = Some v"
  by (simp add: go_map_ok_def map_of_eq_Some_iff)

text \<open>The sorted key list does not depend on the iteration order.\<close>

lemma sorted_keys_cong:
  assumes "go_map_ok m" and "go_map_ok m'" and eq: "\<And>k. mget m k = mget m' k"
  shows "sorted_keys m = sorted_keys m'"
proof -
  have "k \<in> fst ` set m \<longleftrightarrow> k \<in> fst ` set m'" for k
    using eq [of k] mget_None_iff [of m k] mget_None_iff [of m' k] by auto
  then have "set (sort (map fst m)) = set (sort (map fst m'))"
    by (simp add: set_eq_iff)
  moreover have "distinct (sort (map fst m))" "distinct (sort (map fst m'))"
    using assms(1,2) by (simp_all add: go_map_ok_def)
  ultimately show ?thesis
    unfolding sorted_keys_def
    by (intro sorted_distinct_set_unique) simp_all
qed

lemma set_sorted_keys [simp]: "set (sorted_keys m) = fst ` set m"
  by (simp add: sorted_keys_def)

lemma sorted_sorted_keys [simp]: "sorted (sorted_keys m)"
  by (simp add: sorted_keys_def)

section \<open>64-bit integers\<close>

definition wrap64 :: "int \<Rightarrow> int" where
  "wrap64 x = (x + 2 ^ 63) mod 2 ^ 64 - 2 ^ 63"

definition int64_ok :: "int \<Rightarrow> bool" where
  "int64_ok x \<longleftrightarrow> - (2 ^ 63) \<le> x \<and> x < 2 ^ 63"

lemma wrap64_id [simp]: "int64_ok x \<Longrightarrow> wrap64 x = x"
  by (simp add: wrap64_def int64_ok_def)

lemma wrap64_ok [simp]: "int64_ok (wrap64 x)"
proof -
  have "0 \<le> (x + 2 ^ 63) mod 2 ^ 64" "(x + 2 ^ 63) mod (2::int) ^ 64 < 2 ^ 64"
    by (auto intro: pos_mod_bound)
  then show ?thesis by (simp add: wrap64_def int64_ok_def)
qed

text \<open>Go's \<open>/\<close> on integers truncates towards zero.\<close>

definition quot :: "int \<Rightarrow> int \<Rightarrow> int" where
  "quot a b = sgn a * sgn b * (\<bar>a\<bar> div \<bar>b\<bar>)"

lemma quot_pos: "0 \<le> a \<Longrightarrow> 0 < b \<Longrightarrow> quot a b = a div b"
  by (cases "a = 0") (auto simp: quot_def)

text \<open>Units of \<open>time.Duration\<close>, in nanoseconds.\<close>

definition millisecond :: int where
  "millisecond = 1000000"

definition second :: int where
  "second = 1000000000"

definition minute :: int where
  "minute = 60 * second"

definition hour :: int where
  "hour = 60 * minute"

lemmas duration_units = millisecond_def second_def minute_def hour_def

section \<open>Lists\<close>

lemma take_drop_split: "n \<le> m \<Longrightarrow> take n xs @ take (m - n) (drop n xs) = take m xs"
  by (metis le_add_diff_inverse take_add)

end
