(* ===== verification/SafeQueue.thy ===== *)
theory SafeQueue
  imports Prelude
begin

text \<open>
  The generic queue (\<open>pkg/safe/queue.go\<close>): a \<open>container/list\<close> under a mutex, front to
  back, so each method is one atomic step on a list.  The locale \<open>fifo\<close> is the contract the
  event pipeline relies on: what is pushed at the front comes out at the back, in the order
  of the pushes.  \<open>QueueLimited\<close> takes the length and then pushes in two separately locked
  steps; the limit is stated both for a sequential caller and for that interleaving.
\<close>

type_synonym 'a squeue = "'a list"

definition new_queue :: "'a squeue" where
  "new_queue = []"

definition push_front :: "'a \<Rightarrow> 'a squeue \<Rightarrow> 'a squeue" where
  "push_front v q = v # q"

fun push_front_n :: "'a list \<Rightarrow> 'a squeue \<Rightarrow> 'a squeue" where
  "push_front_n [] q = q"
| "push_front_n (v # vs) q = push_front_n vs (push_front v q)"

definition pop_back :: "'a squeue \<Rightarrow> 'a option \<times> 'a squeue" where
  "pop_back q = (if q = [] then (None, q) else (Some (last q), butlast q))"

text \<open>
  \<open>count\<close> removals at the back.  \<open>Back()\<close> of an empty list is nil and \<open>Remove(nil)\<close> panics;
  the callers keep \<open>count\<close> within the length, so that branch is never taken (\<open>pop_loop_some\<close>).
\<close>

fun pop_loop :: "nat \<Rightarrow> 'a squeue \<Rightarrow> ('a list \<times> 'a squeue) option" where
  "pop_loop 0 q = Some ([], q)"
| "pop_loop (Suc k) q =
     (if q = [] then None
      else case pop_loop k (butlast q) of
        None \<Rightarrow> None
      | Some (items, q') \<Rightarrow> Some (last q # items, q'))"

text \<open>\<open>PopBackN\<close>; \<open>None\<close> is the panic of \<open>make\<close> with a negative capacity.\<close>

definition pop_back_n :: "int \<Rightarrow> 'a squeue \<Rightarrow> ('a list \<times> 'a squeue) option" where
  "pop_back_n n q =
     (let count = int (length q) in
      if count = 0 then Some ([], q)
      else let count = (if count > n then n else count)
        in if count < 0 then None else pop_loop (nat count) q)"

definition pop_back_all :: "'a squeue \<Rightarrow> ('a list \<times> 'a squeue) option" where
  "pop_back_all q = (if length q = 0 then Some ([], q) else pop_loop (length q) q)"

definition remove_all :: "'a squeue \<Rightarrow> 'a squeue" where
  "remove_all q = []"

definition queue_len :: "'a squeue \<Rightarrow> nat" where
  "queue_len q = length q"

section \<open>The bounded variant\<close>

record 'a queue_limited =
  ql_max :: int
  ql_queue :: "'a squeue"

definition new_queue_limited :: "int \<Rightarrow> 'a queue_limited" where
  "new_queue_limited m = \<lparr>ql_max = m, ql_queue = new_queue\<rparr>"

definition ql_push_front :: "'a \<Rightarrow> 'a queue_limited \<Rightarrow> bool \<times> 'a queue_limited" where
  "ql_push_front v ql =
     (if int (queue_len (ql_queue ql)) \<ge> ql_max ql then (False, ql)
      else (True, ql\<lparr>ql_queue := push_front v (ql_queue ql)\<rparr>))"

definition ql_push_front_n :: "'a list \<Rightarrow> 'a queue_limited \<Rightarrow> bool \<times> 'a queue_limited" where
  "ql_push_front_n vs ql =
     (if int (queue_len (ql_queue ql)) \<ge> ql_max ql then (False, ql)
      else (True, ql\<lparr>ql_queue := push_front_n vs (ql_queue ql)\<rparr>))"

definition ql_pop_back :: "'a queue_limited \<Rightarrow> 'a option \<times> 'a queue_limited" where
  "ql_pop_back ql = (let r = pop_back (ql_queue ql) in (fst r, ql\<lparr>ql_queue := snd r\<rparr>))"

definition ql_pop_back_n :: "int \<Rightarrow> 'a queue_limited \<Rightarrow> ('a list \<times> 'a queue_limited) option" where
  "ql_pop_back_n n ql =
     map_option (\<lambda>(xs, q). (xs, ql\<lparr>ql_queue := q\<rparr>)) (pop_back_n n (ql_queue ql))"

definition ql_pop_back_all :: "'a queue_limited \<Rightarrow> ('a list \<times> 'a queue_limited) option" where
  "ql_pop_back_all ql =
     map_option (\<lambda>(xs, q). (xs, ql\<lparr>ql_queue := q\<rparr>)) (pop_back_all (ql_queue ql))"

definition ql_remove_all :: "'a queue_limited \<Rightarrow> 'a queue_limited" where
  "ql_remove_all ql = ql\<lparr>ql_queue := remove_all (ql_queue ql)\<rparr>"

definition ql_len :: "'a queue_limited \<Rightarrow> nat" where
  "ql_len ql = queue_len (ql_queue ql)"

section \<open>The contract\<close>

lemma push_front_n_rev: "push_front_n vs q = rev vs @ q"
  by (induction vs q rule: push_front_n.induct) (simp_all add: push_front_def)

lemma pop_loop_some: "k \<le> length q \<Longrightarrow> pop_loop k q = Some (take k (rev q), rev (drop k (rev q)))"
proof (induction k arbitrary: q)
  case 0
  then show ?case by simp
next
  case (Suc k)
  then obtain x xs where q: "rev q = x # xs" by (cases "rev q") auto
  then have "q = rev xs @ [x]" by (metis rev.simps(2) rev_rev_ident)
  with Suc show ?case by simp
qed

lemma pop_back_all_some: "pop_back_all q = Some (rev q, [])"
  by (simp add: pop_back_all_def pop_loop_some)

lemma pop_back_n_some: "pop_back_n (int n) q = Some (take n (rev q), rev (drop n (rev q)))"
  by (auto simp: pop_back_n_def Let_def pop_loop_some)

locale fifo =
  fixes put :: "'e \<Rightarrow> 'q \<Rightarrow> 'q"
    and take_all :: "'q \<Rightarrow> ('e list \<times> 'q) option"
    and take_some :: "nat \<Rightarrow> 'q \<Rightarrow> ('e list \<times> 'q) option"
    and size_of :: "'q \<Rightarrow> nat"
    and queued :: "'q \<Rightarrow> 'e list"
  assumes queued_put: "queued (put v q) = queued q @ [v]"
    and size_queued: "size_of q = length (queued q)"
    and take_all_law: "\<exists>q'. take_all q = Some (queued q, q') \<and> queued q' = []"
    and take_some_law: "\<exists>q'. take_some n q = Some (take n (queued q), q') \<and> queued q' = drop n (queued q)"
begin

lemma puts_queued: "queued (fold put vs q) = queued q @ vs"
  by (induction vs arbitrary: q) (simp_all add: queued_put)

lemma puts_take_all: "\<exists>q'. take_all (fold put vs q) = Some (queued q @ vs, q') \<and> size_of q' = 0"
  using take_all_law [of "fold put vs q"] by (auto simp: puts_queued size_queued)

lemma take_some_rest: "take_some n q = Some (xs, q') \<Longrightarrow> xs @ queued q' = queued q"
  using take_some_law [of n q] by auto

end

interpretation event_queue: fifo push_front pop_back_all "\<lambda>n. pop_back_n (int n)" queue_len rev
  by unfold_locales (simp_all add: push_front_def pop_back_all_some pop_back_n_some queue_len_def)

text \<open>
  First in, first out: \<open>PushFrontN\<close> and then \<open>PopBackAll\<close> return what was queued before,
  oldest first, and then the pushed items in the order of the slice, and leave the queue empty;
  \<open>PopBackN\<close> returns the oldest ones only and loses none.
\<close>

theorem queue_fifo:
  "pop_back_all (push_front_n vs q) = Some (rev q @ vs, [])
   \<and> (\<exists>q'. pop_back_n (int n) (push_front_n vs q) = Some (take n (rev q @ vs), q')
        \<and> rev q' = drop n (rev q @ vs))"
  using event_queue.take_some_law [of n "push_front_n vs q"]
  by (simp add: push_front_n_rev pop_back_all_some)

text \<open>
  The limit of \<open>QueueLimited\<close>: a single push is refused exactly when the queue is full and
  never takes a queue within its (non-negative) limit beyond it; a bulk push checks the length
  before only, so it may exceed the limit by all but one of its items, and by no more.
\<close>

theorem queue_limit:
  assumes "0 \<le> ql_max ql" and "int (ql_len ql) \<le> ql_max ql"
  shows "(fst (ql_push_front v ql) \<longleftrightarrow> int (ql_len ql) < ql_max ql)
    \<and> int (ql_len (snd (ql_push_front v ql))) \<le> ql_max ql
    \<and> int (ql_len (snd (ql_push_front_n vs ql))) \<le> max (ql_max ql) (ql_max ql + int (length vs) - 1)"
  using assms
  by (auto simp: ql_push_front_def ql_push_front_n_def ql_len_def queue_len_def push_front_def push_front_n_rev)

theorem queue_limit_witness:
  "\<exists>ql. 0 \<le> ql_max ql \<and> int (ql_len ql) \<le> ql_max ql
     \<and> int (ql_len (snd (ql_push_front_n [1, 2, 3 :: nat] ql))) = ql_max ql + 2
     \<and> int (ql_len (snd (ql_push_front_n [1, 2, 3] ql))) \<le> max (ql_max ql) (ql_max ql + int (length [1, 2, 3 :: nat]) - 1)"
proof -
  let ?ql = "snd (ql_push_front (0 :: nat) (new_queue_limited 2))"
  have h: "0 \<le> ql_max ?ql" "int (ql_len ?ql) \<le> ql_max ?ql"
    by (simp_all add: ql_push_front_def new_queue_limited_def new_queue_def ql_len_def queue_len_def push_front_def)
  moreover have "int (ql_len (snd (ql_push_front_n [1, 2, 3] ?ql))) = ql_max ?ql + 2"
    by (simp add: ql_push_front_def ql_push_front_n_def new_queue_limited_def new_queue_def ql_len_def
        queue_len_def push_front_def)
  ultimately show ?thesis using queue_limit [OF h, of 0 "[1, 2, 3]"] by blast
qed

end
