(* ===== verification/GoStrings.thy ===== *)
theory GoStrings
  imports Prelude
begin

text \<open>
  The part of Go's string semantics the sources use.  A Go string is a byte sequence: here a
  \<open>string\<close>, one \<open>char\<close> per byte, so that \<open>length\<close> is \<open>len\<close>.  \<open>decode_rune\<close> is
  \<open>utf8.DecodeRuneInString\<close> (rune and width, \<open>(U+FFFD, 1)\<close> for an invalid byte),
  \<open>rune_count\<close> is \<open>utf8.RuneCountInString\<close>, \<open>to_runes\<close> and \<open>of_runes\<close> are the
  conversions \<open>[]rune(s)\<close> and \<open>string(r)\<close>.  The lemmas show that a cut at a byte that
  starts a rune keeps a string valid, which every truncation of the program relies on.
\<close>

section \<open>Prefixes, suffixes, joins, numbers\<close>

definition has_prefix :: "string \<Rightarrow> string \<Rightarrow> bool" where
  "has_prefix s p \<longleftrightarrow> take (length p) s = p"

definition has_suffix :: "string \<Rightarrow> string \<Rightarrow> bool" where
  "has_suffix s p \<longleftrightarrow> length p \<le> length s \<and> drop (length s - length p) s = p"

fun contains :: "string \<Rightarrow> string \<Rightarrow> bool" where
  "contains [] p = (p = [])"
| "contains (c # s) p = (has_prefix (c # s) p \<or> contains s p)"

definition contains_rune :: "string \<Rightarrow> nat \<Rightarrow> bool" where
  "contains_rune s r \<longleftrightarrow> r \<in> set (map (of_char :: char \<Rightarrow> nat) s)"

fun join :: "string \<Rightarrow> string list \<Rightarrow> string" where
  "join sep [] = ''''"
| "join sep [x] = x"
| "join sep (x # y # xs) = x @ sep @ join sep (y # xs)"

fun trim_right :: "char set \<Rightarrow> string \<Rightarrow> string" where
  "trim_right cs s = rev (dropWhile (\<lambda>c. c \<in> cs) (rev s))"

definition nl :: string where
  "nl = [CHR 0x0A]"

definition dquote :: string where
  "dquote = [CHR 0x22]"

fun digits :: "nat \<Rightarrow> string" where
  "digits n = (if n < 10 then [char_of (48 + n)] else digits (n div 10) @ [char_of (48 + n mod 10)])"

declare digits.simps [simp del]

definition itoa :: "int \<Rightarrow> string" where
  "itoa i = (if i < 0 then ''-'' @ digits (nat (- i)) else digits (nat i))"

lemma has_prefix_append [simp]: "has_prefix (p @ s) p"
  by (simp add: has_prefix_def)

lemma has_prefixE: "has_prefix s p \<Longrightarrow> \<exists>t. s = p @ t"
  unfolding has_prefix_def by (metis append_take_drop_id)

lemma contains_Nil [simp]: "contains s []"
  by (cases s) (auto simp: has_prefix_def)

lemma contains_iff: "contains s p \<longleftrightarrow> (\<exists>a b. s = a @ p @ b)"
proof (induction s)
  case Nil
  then show ?case by auto
next
  case (Cons c s)
  show ?case
  proof
    assume "contains (c # s) p"
    then consider "has_prefix (c # s) p" | "contains s p" by auto
    then show "\<exists>a b. c # s = a @ p @ b"
    proof cases
      case 1
      then show ?thesis by (metis append_Nil has_prefixE)
    next
      case 2
      then show ?thesis using Cons.IH by (metis append_Cons)
    qed
  next
    assume "\<exists>a b. c # s = a @ p @ b"
    then obtain a b where ab: "c # s = a @ p @ b" by blast
    show "contains (c # s) p"
    proof (cases a)
      case Nil
      with ab have "c # s = p @ b" by simp
      then show ?thesis by (metis contains.simps(2) has_prefix_append)
    next
      case (Cons x a')
      with ab have "s = a' @ p @ b" by simp
      with \<open>contains s p = (\<exists>a b. s = a @ p @ b)\<close> show ?thesis by auto
    qed
  qed
qed

section \<open>Paths\<close>

text \<open>\<open>strings.Split\<close> at one byte, and the lexical \<open>filepath.Clean\<close> and \<open>filepath.Join\<close> of Unix.\<close>

fun split_on :: "char \<Rightarrow> string \<Rightarrow> string list" where
  "split_on c [] = [[]]"
| "split_on c (x # s) =
     (if x = c then [] # split_on c s
      else case split_on c s of [] \<Rightarrow> [[x]] | w # ws \<Rightarrow> (x # w) # ws)"

definition clean_step :: "bool \<Rightarrow> string list \<Rightarrow> string \<Rightarrow> string list" where
  "clean_step rooted out w =
     (if w = [] \<or> w = ''.'' then out
      else if w = ''..'' then
        (if out \<noteq> [] \<and> last out \<noteq> ''..'' then butlast out
         else if rooted then out else out @ [w])
      else out @ [w])"

definition path_clean :: "string \<Rightarrow> string" where
  "path_clean p =
     (if p = [] then ''.''
      else let rooted = (hd p = CHR ''/'');
               out = foldl (clean_step rooted) [] (split_on (CHR ''/'') p);
               r = (if rooted then ''/'' else []) @ join ''/'' out
        in if r = [] then ''.'' else r)"

definition path_join :: "string list \<Rightarrow> string" where
  "path_join ws =
     (let ws = dropWhile (\<lambda>w. w = []) ws in
      if ws = [] then [] else path_clean (join ''/'' ws))"

lemma split_on_ne [simp]: "split_on c s \<noteq> []"
  by (induction s) (auto split: list.splits)

lemma split_on_none: "c \<notin> set s \<Longrightarrow> split_on c s = [s]"
  by (induction s) auto

lemma split_on_append: "split_on c (s @ c # t) = split_on c s @ split_on c t"
  by (induction s) (auto split: list.splits)

lemma join_split_on: "join [c] (split_on c s) = s"
proof (induction s)
  case Nil
  then show ?case by simp
next
  case (Cons x s)
  obtain w ws where "split_on c s = w # ws" by (cases "split_on c s") auto
  with Cons show ?case by (cases ws) auto
qed

lemma split_on_no_sep: "w \<in> set (split_on c s) \<Longrightarrow> c \<notin> set w"
  by (induction s arbitrary: w) (auto split: list.splits if_splits)

section \<open>UTF-8\<close>

definition byte :: "char \<Rightarrow> nat" where
  "byte c = of_char c"

definition rune_error :: nat where
  "rune_error = 65533"

text \<open>\<open>utf8.RuneStart\<close>: \<open>b&0xC0 != 0x80\<close>.\<close>

definition rune_start :: "char \<Rightarrow> bool" where
  "rune_start c \<longleftrightarrow> byte c div 64 \<noteq> 2"

text \<open>The size a first byte announces and the range its second byte must lie in.\<close>

definition first_info :: "nat \<Rightarrow> (nat \<times> nat \<times> nat) option" where
  "first_info b =
     (if b < 194 then None
      else if b < 224 then Some (2, 128, 191)
      else if b = 224 then Some (3, 160, 191)
      else if b = 237 then Some (3, 128, 159)
      else if b < 240 then Some (3, 128, 191)
      else if b = 240 then Some (4, 144, 191)
      else if b < 244 then Some (4, 128, 191)
      else if b = 244 then Some (4, 128, 143)
      else None)"

definition decode_rune :: "string \<Rightarrow> nat \<times> nat" where
  "decode_rune s =
     (if s = [] then (rune_error, 0)
      else let b0 = byte (s ! 0) in
        if b0 < 128 then (b0, 1)
        else case first_info b0 of
          None \<Rightarrow> (rune_error, 1)
        | Some (sz, lo, hi) \<Rightarrow>
            if length s < sz then (rune_error, 1)
            else let b1 = byte (s ! 1) in
              if b1 < lo \<or> hi < b1 then (rune_error, 1)
              else if sz = 2 then ((b0 mod 32) * 64 + b1 mod 64, 2)
              else let b2 = byte (s ! 2) in
                if b2 < 128 \<or> 191 < b2 then (rune_error, 1)
                else if sz = 3 then ((b0 mod 16) * 4096 + (b1 mod 64) * 64 + b2 mod 64, 3)
                else let b3 = byte (s ! 3) in
                  if b3 < 128 \<or> 191 < b3 then (rune_error, 1)
                  else ((b0 mod 8) * 262144 + (b1 mod 64) * 4096 + (b2 mod 64) * 64 + b3 mod 64, 4))"

abbreviation rune_width :: "string \<Rightarrow> nat" where
  "rune_width s \<equiv> snd (decode_rune s)"

lemma rune_width_Nil [simp]: "rune_width [] = 0"
  by (simp add: decode_rune_def)

lemma first_info_size: "first_info b = Some (sz, lo, hi) \<Longrightarrow> 2 \<le> sz \<and> sz \<le> 4"
  by (auto simp: first_info_def split: if_splits)

lemma rune_width_pos: "s \<noteq> [] \<Longrightarrow> 0 < rune_width s"
  by (auto simp: decode_rune_def Let_def split: option.splits)

lemma rune_width_le: "rune_width s \<le> length s"
  by (cases s) (auto simp: decode_rune_def Let_def Suc_le_eq dest: first_info_size split: option.splits)

lemma rune_width_pos_Cons [simp]: "0 < rune_width (c # s)"
  by (rule rune_width_pos) simp

fun to_runes :: "string \<Rightarrow> nat list" where
  "to_runes [] = []"
| "to_runes (c # s) = fst (decode_rune (c # s)) # to_runes (drop (rune_width (c # s) - 1) s)"

definition rune_count :: "string \<Rightarrow> nat" where
  "rune_count s = length (to_runes s)"

text \<open>\<open>utf8.ValidString\<close>: no position decodes to the error rune of width 1.\<close>

definition rune_ok :: "string \<Rightarrow> bool" where
  "rune_ok s \<longleftrightarrow> decode_rune s \<noteq> (rune_error, 1)"

fun valid_utf8 :: "string \<Rightarrow> bool" where
  "valid_utf8 [] = True"
| "valid_utf8 (c # s) = (rune_ok (c # s) \<and> valid_utf8 (drop (rune_width (c # s) - 1) s))"

definition encode_rune :: "nat \<Rightarrow> string" where
  "encode_rune r =
     (if r < 128 then [char_of r]
      else if r < 2048 then [char_of (192 + r div 64), char_of (128 + r mod 64)]
      else if (55296 \<le> r \<and> r < 57344) \<or> 1114112 \<le> r then [CHR 0xEF, CHR 0xBF, CHR 0xBD]
      else if r < 65536 then
        [char_of (224 + r div 4096), char_of (128 + r div 64 mod 64), char_of (128 + r mod 64)]
      else
        [char_of (240 + r div 262144), char_of (128 + r div 4096 mod 64),
         char_of (128 + r div 64 mod 64), char_of (128 + r mod 64)])"

definition of_runes :: "nat list \<Rightarrow> string" where
  "of_runes rs = concat (map encode_rune rs)"

lemma drop_width_Cons: "drop (rune_width (c # s) - 1) s = drop (rune_width (c # s)) (c # s)"
  using rune_width_pos_Cons [of c s] by (cases "rune_width (c # s)") auto

lemma valid_utf8_step: "s \<noteq> [] \<Longrightarrow> valid_utf8 s \<longleftrightarrow> rune_ok s \<and> valid_utf8 (drop (rune_width s) s)"
  by (cases s) (simp_all add: drop_width_Cons del: One_nat_def)

lemma to_runes_step: "s \<noteq> [] \<Longrightarrow> to_runes s = fst (decode_rune s) # to_runes (drop (rune_width s) s)"
  by (cases s) (simp_all add: drop_width_Cons del: One_nat_def)


section \<open>Cuts at rune starts\<close>

lemma byte_less [simp]: "byte c < 256"
  unfolding byte_def by (rule nat_of_char_less_256)

lemma rune_ok_cases:
  assumes "rune_ok s" and "s \<noteq> []"
  obtains (one) "rune_width s = 1" "byte (s ! 0) < 128" "fst (decode_rune s) = byte (s ! 0)"
  | (multi) sz lo hi where "first_info (byte (s ! 0)) = Some (sz, lo, hi)"
      "rune_width s = sz" "sz \<le> length s" "lo \<le> byte (s ! 1)" "byte (s ! 1) \<le> hi"
      "\<And>i. 2 \<le> i \<Longrightarrow> i < sz \<Longrightarrow> 128 \<le> byte (s ! i) \<and> byte (s ! i) \<le> 191"
proof (cases "byte (s ! 0) < 128")
  case True
  with assms(2) show thesis by (intro one) (auto simp: decode_rune_def Let_def)
next
  case False
  with assms obtain sz lo hi where info: "first_info (byte (s ! 0)) = Some (sz, lo, hi)"
    by (cases "first_info (byte (s ! 0))") (auto simp: rune_ok_def decode_rune_def Let_def)
  have szs: "sz = 2 \<or> sz = 3 \<or> sz = 4"
    using first_info_size [OF info] by auto
  have i2: "2 \<le> i \<Longrightarrow> i < 3 \<longleftrightarrow> i = 2" "2 \<le> i \<Longrightarrow> i < 4 \<longleftrightarrow> i = 2 \<or> i = 3" for i :: nat
    by auto
  show thesis
    using assms False info szs
    by (intro multi [OF info])
      (auto simp: rune_ok_def decode_rune_def Let_def i2 split: if_splits)
qed

lemma first_info_hi: "first_info b = Some (sz, lo, hi) \<Longrightarrow> 128 \<le> lo \<and> hi \<le> 191"
  by (auto simp: first_info_def split: if_splits)

lemma rune_start_cont: "128 \<le> byte c \<Longrightarrow> byte c \<le> 191 \<Longrightarrow> \<not> rune_start c"
proof -
  assume "128 \<le> byte c" "byte c \<le> 191"
  then have "byte c div 64 = 2" by simp
  then show ?thesis by (simp add: rune_start_def)
qed

lemma rune_ok_continuation:
  assumes "rune_ok s" "s \<noteq> []" "0 < i" "i < rune_width s"
  shows "\<not> rune_start (s ! i)"
  using assms(1,2)
proof (cases rule: rune_ok_cases)
  case one
  with assms show ?thesis by simp
next
  case (multi sz lo hi)
  show ?thesis
  proof (cases "i = 1")
    case True
    with multi first_info_hi [OF multi(1)] show ?thesis by (intro rune_start_cont) auto
  next
    case False
    with multi(2) multi(6) [of i] assms(3,4) show ?thesis by (intro rune_start_cont) auto
  qed
qed

lemma decode_take:
  assumes "rune_ok s" "s \<noteq> []" "rune_width s \<le> k"
  shows "decode_rune (take k s) = decode_rune s"
proof -
  have k: "0 < k" using rune_width_pos [OF assms(2)] assms(3) by simp
  have w: "\<And>i. i < rune_width s \<Longrightarrow> take k s ! i = s ! i"
    using assms(3) by simp
  have len: "sz \<le> length s \<Longrightarrow> sz \<le> rune_width s \<Longrightarrow> sz \<le> length (take k s)" for sz
    using assms(3) by simp
  show ?thesis
    using assms(1,2)
  proof (cases rule: rune_ok_cases)
    case one
    with k assms(2) show ?thesis by (simp add: decode_rune_def Let_def)
  next
    case (multi sz lo hi)
    have szs: "2 \<le> sz" "sz \<le> 4" using first_info_size [OF multi(1)] by auto
    have ge: "\<not> byte (s ! 0) < 128"
      using multi(1) by (auto simp: first_info_def split: if_splits)
    have k: "sz \<le> k" using multi(2) assms(3) by simp
    have ne: "take k s \<noteq> []" and ln: "sz \<le> length (take k s)"
      using k szs assms(2) multi(3) by auto
    have eq: "\<And>i. i < sz \<Longrightarrow> take k s ! i = s ! i" using k by simp
    from szs consider "sz = 2" | "sz = 3" | "sz = 4" by linarith
    then show ?thesis
    proof cases
      case 1
      show ?thesis
        using assms(2) ne ge ln multi(1,3) eq [of 0] eq [of 1] unfolding 1
        by (simp add: decode_rune_def Let_def min_less_iff_disj)
    next
      case 2
      show ?thesis
        using assms(2) ne ge ln multi(1,3) eq [of 0] eq [of 1] eq [of 2] unfolding 2
        by (simp add: decode_rune_def Let_def min_less_iff_disj)
    next
      case 3
      show ?thesis
        using assms(2) ne ge ln multi(1,3) eq [of 0] eq [of 1] eq [of 2] eq [of 3] unfolding 3
        by (simp add: decode_rune_def Let_def min_less_iff_disj)
    qed
  qed
qed

text \<open>A cut at the end or at a byte that starts a rune keeps a valid string valid.\<close>

lemma valid_utf8_take:
  "valid_utf8 s \<Longrightarrow> k \<le> length s \<Longrightarrow> k = length s \<or> rune_start (s ! k) \<Longrightarrow> valid_utf8 (take k s)"
proof (induction s arbitrary: k rule: length_induct)
  case (1 s)
  show ?case
  proof (cases "s = [] \<or> k = 0")
    case True
    then show ?thesis by auto
  next
    case False
    then have s: "s \<noteq> []" and k: "0 < k" by auto
    let ?w = "rune_width s"
    from "1.prems"(1) s have ok: "rune_ok s" and rest: "valid_utf8 (drop ?w s)"
      by (simp_all add: valid_utf8_step)
    have wpos: "0 < ?w" and wle: "?w \<le> length s"
      using s by (simp_all add: rune_width_pos rune_width_le)
    have wk: "?w \<le> k"
    proof (rule ccontr)
      assume "\<not> ?w \<le> k"
      with ok s k have "\<not> rune_start (s ! k)" by (intro rune_ok_continuation) auto
      with "1.prems"(3) \<open>\<not> ?w \<le> k\<close> wle show False by auto
    qed
    have IH: "valid_utf8 (take (k - ?w) (drop ?w s))"
    proof (rule "1.IH" [rule_format])
      show "length (drop ?w s) < length s" using wpos s by simp
      show "valid_utf8 (drop ?w s)" by (rule rest)
      show "k - ?w \<le> length (drop ?w s)" using "1.prems"(2) by simp
      show "k - ?w = length (drop ?w s) \<or> rune_start (drop ?w s ! (k - ?w))"
        using "1.prems"(2,3) wk by auto
    qed
    have dec: "decode_rune (take k s) = decode_rune s"
      using ok s wk by (rule decode_take)
    have "take k s \<noteq> []" using k s by simp
    then have "valid_utf8 (take k s) \<longleftrightarrow> rune_ok (take k s) \<and> valid_utf8 (drop ?w (take k s))"
      by (simp add: valid_utf8_step dec)
    with IH ok show ?thesis by (simp add: rune_ok_def dec drop_take)
  qed
qed


lemma decode_append:
  assumes "rune_ok s" "s \<noteq> []"
  shows "decode_rune (s @ t) = decode_rune s"
  using assms
proof (cases rule: rune_ok_cases)
  case one
  with assms(2) show ?thesis by (simp add: decode_rune_def Let_def nth_append)
next
  case (multi sz lo hi)
  have szs: "2 \<le> sz" "sz \<le> 4" using first_info_size [OF multi(1)] by auto
  have ge: "\<not> byte (s ! 0) < 128"
    using multi(1) by (auto simp: first_info_def split: if_splits)
  have eq: "\<And>i. i < sz \<Longrightarrow> (s @ t) ! i = s ! i" using multi(3) by (simp add: nth_append)
  have ln: "\<not> length s + length t < sz" "\<not> length s < sz" using multi(3) by auto
  from szs consider "sz = 2" | "sz = 3" | "sz = 4" by linarith
  then show ?thesis
  proof cases
    case 1
    show ?thesis
      using assms(2) ge ln multi(1) eq [of 0] eq [of 1] unfolding 1
      by (simp add: decode_rune_def Let_def)
  next
    case 2
    show ?thesis
      using assms(2) ge ln multi(1) eq [of 0] eq [of 1] eq [of 2] unfolding 2
      by (simp add: decode_rune_def Let_def)
  next
    case 3
    show ?thesis
      using assms(2) ge ln multi(1) eq [of 0] eq [of 1] eq [of 2] eq [of 3] unfolding 3
      by (simp add: decode_rune_def Let_def)
  qed
qed

lemma valid_utf8_append: "valid_utf8 s \<Longrightarrow> valid_utf8 t \<Longrightarrow> valid_utf8 (s @ t)"
proof (induction s rule: length_induct)
  case (1 s)
  show ?case
  proof (cases "s = []")
    case True
    with "1.prems" show ?thesis by simp
  next
    case False
    with "1.prems" have ok: "rune_ok s" and rest: "valid_utf8 (drop (rune_width s) s)"
      by (simp_all add: valid_utf8_step)
    have dec: "decode_rune (s @ t) = decode_rune s"
      using ok False by (rule decode_append)
    have "valid_utf8 (drop (rune_width s) s @ t)"
      using "1.IH" rest "1.prems"(2) False rune_width_pos [OF False]
      by (metis diff_less length_drop length_greater_0_conv)
    with ok False rune_width_le [of s] show ?thesis
      by (simp add: valid_utf8_step rune_ok_def dec)
  qed
qed

lemma rune_ok_ascii: "byte c < 128 \<Longrightarrow> rune_ok (c # s) \<and> rune_width (c # s) = 1"
  by (auto simp: rune_ok_def decode_rune_def Let_def rune_error_def)

lemma valid_utf8_ascii: "\<forall>c \<in> set s. byte c < 128 \<Longrightarrow> valid_utf8 s"
  by (induction s) (auto simp: rune_ok_ascii)

lemma set_digits: "set (digits n) \<subseteq> {char_of (48 + d) | d::nat. d < 10}"
proof (induction n rule: digits.induct)
  case (1 n)
  have m: "n mod 10 < 10" by simp
  show ?case
  proof (cases "n < 10")
    case True
    then show ?thesis by (subst digits.simps) (auto intro!: exI [of _ n])
  next
    case False
    with m 1 show ?thesis by (subst digits.simps) (auto intro!: exI [of _ "n mod 10"])
  qed
qed

lemma valid_utf8_digits: "valid_utf8 (digits n)"
proof (rule valid_utf8_ascii, rule ballI)
  fix c assume "c \<in> set (digits n)"
  then obtain d where "c = char_of (48 + d)" "(d::nat) < 10" using set_digits [of n] by blast
  then show "byte c < 128" by (simp add: byte_def)
qed

lemma valid_utf8_itoa: "valid_utf8 (itoa i)"
  by (auto simp: itoa_def valid_utf8_digits rune_ok_ascii byte_def)

lemma rune_count_ascii: "\<forall>c \<in> set s. byte c < 128 \<Longrightarrow> rune_count s = length s"
  unfolding rune_count_def by (induction s) (auto simp: rune_ok_ascii)

section \<open>Encoding and decoding\<close>

lemma char_of_byte [simp]: "char_of (byte c) = c"
  by (simp add: byte_def)

lemma byte_char_of: "n < 256 \<Longrightarrow> byte (char_of n) = n"
  by (simp add: byte_def)

lemma char_eq_byte: "n = byte c \<Longrightarrow> char_of n = c"
  by simp

lemma mod_offset: "(x::nat) < m \<Longrightarrow> (k * m + x) mod m = x"
  by simp

lemma sextets2:
  assumes "(y::nat) < 64"
  shows "(x * 64 + y) div 64 = x" "(x * 64 + y) mod 64 = y"
  using assms by simp_all

lemma sextets3:
  assumes "(y::nat) < 64" "z < 64"
  shows "(x * 4096 + y * 64 + z) div 4096 = x" "(x * 4096 + y * 64 + z) div 64 mod 64 = y"
    "(x * 4096 + y * 64 + z) mod 64 = z"
proof -
  have eq: "x * 4096 + y * 64 + z = (x * 64 + y) * 64 + z" by simp
  have d: "(x * 4096 + y * 64 + z) div 64 = x * 64 + y"
    unfolding eq using assms(2) by (rule sextets2)
  have "(x * 4096 + y * 64 + z) div 4096 = (x * 4096 + y * 64 + z) div 64 div 64"
    by (simp flip: div_mult2_eq)
  also have "\<dots> = x" unfolding d using assms(1) by (rule sextets2)
  finally show "(x * 4096 + y * 64 + z) div 4096 = x" .
  show "(x * 4096 + y * 64 + z) div 64 mod 64 = y"
    unfolding d using assms(1) by (rule sextets2)
  show "(x * 4096 + y * 64 + z) mod 64 = z"
    unfolding eq using assms(2) by (rule sextets2)
qed

lemma sextets4:
  assumes "(x::nat) < 64" "y < 64" "z < 64"
  shows "(w * 262144 + x * 4096 + y * 64 + z) div 262144 = w"
    "(w * 262144 + x * 4096 + y * 64 + z) div 4096 mod 64 = x"
    "(w * 262144 + x * 4096 + y * 64 + z) div 64 mod 64 = y"
    "(w * 262144 + x * 4096 + y * 64 + z) mod 64 = z"
proof -
  have eq: "w * 262144 + x * 4096 + y * 64 + z = (w * 64 + x) * 4096 + y * 64 + z" by simp
  note s3 = sextets3 [OF assms(2,3), of "w * 64 + x"]
  have d: "(w * 262144 + x * 4096 + y * 64 + z) div 4096 = w * 64 + x"
    unfolding eq by (rule s3)
  have "(w * 262144 + x * 4096 + y * 64 + z) div 262144
      = (w * 262144 + x * 4096 + y * 64 + z) div 4096 div 64"
    by (simp flip: div_mult2_eq)
  also have "\<dots> = w" unfolding d using assms(1) by (rule sextets2)
  finally show "(w * 262144 + x * 4096 + y * 64 + z) div 262144 = w" .
  show "(w * 262144 + x * 4096 + y * 64 + z) div 4096 mod 64 = x"
    unfolding d using assms(1) by (rule sextets2)
  show "(w * 262144 + x * 4096 + y * 64 + z) div 64 mod 64 = y" unfolding eq by (rule s3)
  show "(w * 262144 + x * 4096 + y * 64 + z) mod 64 = z" unfolding eq by (rule s3)
qed

lemma encode_decode:
  assumes "rune_ok s" "s \<noteq> []"
  shows "encode_rune (fst (decode_rune s)) = take (rune_width s) s"
  using assms
proof (cases rule: rune_ok_cases)
  case one
  with assms(2) show ?thesis by (cases s) (auto simp: encode_rune_def)
next
  case (multi sz lo hi)
  let ?b = "\<lambda>i. byte (s ! i)"
  have b0: "\<not> ?b 0 < 128" using multi(1) by (auto simp: first_info_def split: if_splits)
  have cont: "\<And>i. 128 \<le> ?b i \<Longrightarrow> ?b i \<le> 191 \<Longrightarrow> ?b i mod 64 = ?b i - 128 \<and> ?b i mod 64 < 64"
    by (simp add: mod_if [of _ 64] not_less)
  define y1 y2 y3 where "y1 = ?b 1 mod 64" and "y2 = ?b 2 mod 64" and "y3 = ?b 3 mod 64"
  have y: "y1 < 64" "y2 < 64" "y3 < 64" by (simp_all add: y1_def y2_def y3_def)
  have b1: "128 \<le> ?b 1" "?b 1 \<le> 191"
    using multi(4,5) first_info_hi [OF multi(1)] by auto
  then have y1: "?b 1 = 128 + y1" using cont [of 1] by (simp add: y1_def)
  from first_info_size [OF multi(1)] consider "sz = 2" | "sz = 3" | "sz = 4" by linarith
  then show ?thesis
  proof cases
    case 1
    define x where "x = ?b 0 - 192"
    have x: "?b 0 = 192 + x" "2 \<le> x" "x < 32"
      using multi(1) 1 by (auto simp: first_info_def x_def split: if_splits)
    have xm: "(192 + x) mod 32 = x" using mod_offset [of x 32 6] x by simp
    have d: "fst (decode_rune s) = x * 64 + y1"
      using multi assms(2) b0 1 x xm by (simp add: decode_rune_def Let_def y1_def)
    have "encode_rune (x * 64 + y1) = [char_of (192 + x), char_of (128 + y1)]"
      using x y sextets2 [OF y(1), of x] by (simp add: encode_rune_def)
    also have "\<dots> = [s ! 0, s ! 1]"
      using x y1 by (metis char_of_byte)
    also have "\<dots> = take 2 s"
      using multi(3) 1 by (cases s; cases "tl s") auto
    finally show ?thesis using multi(2) 1 d by simp
  next
    case 2
    define x where "x = ?b 0 - 224"
    have x: "?b 0 = 224 + x" "x < 16" "x = 0 \<longrightarrow> 32 \<le> y1" "x = 13 \<longrightarrow> y1 < 32"
      using multi(1,4,5) 2 y1 by (auto simp: first_info_def x_def split: if_splits)
    have y2: "?b 2 = 128 + y2" using cont [of 2] multi(6) [of 2] 2 by (simp add: y2_def)
    have c2: "\<not> ?b 2 < 128" "\<not> 191 < ?b 2" using multi(6) [of 2] 2 by auto
    have xm: "(224 + x) mod 16 = x" using mod_offset [of x 16 14] x by simp
    have d: "fst (decode_rune s) = x * 4096 + y1 * 64 + y2"
      using multi(1-5) c2 assms(2) b0 2 x xm by (simp add: decode_rune_def Let_def y1_def y2_def)
    have lim: "2048 \<le> x * 4096 + y1 * 64 + y2" "x * 4096 + y1 * 64 + y2 < 65536"
      using x y by linarith+
    have surr: "\<not> (55296 \<le> x * 4096 + y1 * 64 + y2 \<and> x * 4096 + y1 * 64 + y2 < 57344)"
    proof (cases "x \<le> 12")
      case True
      with y show ?thesis by linarith
    next
      case False
      with x y show ?thesis by (cases "x = 13") linarith+
    qed
    have "encode_rune (x * 4096 + y1 * 64 + y2)
        = [char_of (224 + x), char_of (128 + y1), char_of (128 + y2)]"
      using lim surr sextets3 [OF y(1,2), of x] unfolding encode_rune_def by auto
    also have "\<dots> = [s ! 0, s ! 1, s ! 2]"
      using x y1 y2 by (metis char_of_byte)
    also have "\<dots> = take 3 s"
      using multi(3) 2 by (cases s; cases "tl s"; cases "tl (tl s)") (auto simp: eval_nat_numeral)
    finally show ?thesis using multi(2) 2 d by simp
  next
    case 3
    define x where "x = ?b 0 - 240"
    have x: "?b 0 = 240 + x" "x < 5" "x = 0 \<longrightarrow> 16 \<le> y1" "x = 4 \<longrightarrow> y1 < 16"
      using multi(1,4,5) 3 y1 by (auto simp: first_info_def x_def split: if_splits)
    have y2: "?b 2 = 128 + y2" using cont [of 2] multi(6) [of 2] 3 by (simp add: y2_def)
    have y3: "?b 3 = 128 + y3" using cont [of 3] multi(6) [of 3] 3 by (simp add: y3_def)
    have c2: "\<not> ?b 2 < 128" "\<not> 191 < ?b 2" using multi(6) [of 2] 3 by auto
    have c3: "\<not> ?b 3 < 128" "\<not> 191 < ?b 3" using multi(6) [of 3] 3 by auto
    have xm: "(240 + x) mod 8 = x" using mod_offset [of x 8 30] x by simp
    have d: "fst (decode_rune s) = x * 262144 + y1 * 4096 + y2 * 64 + y3"
      using multi(1-5) c2 c3 assms(2) b0 3 x xm by (simp add: decode_rune_def Let_def y1_def y2_def y3_def)
    have lim: "65536 \<le> x * 262144 + y1 * 4096 + y2 * 64 + y3"
      "x * 262144 + y1 * 4096 + y2 * 64 + y3 < 1114112"
      using x y by linarith+
    have "encode_rune (x * 262144 + y1 * 4096 + y2 * 64 + y3)
        = [char_of (240 + x), char_of (128 + y1), char_of (128 + y2), char_of (128 + y3)]"
      using lim sextets4 [OF y(1,2,3), of x] unfolding encode_rune_def by auto
    also have "\<dots> = [s ! 0, s ! 1, s ! 2, s ! 3]"
      using x y1 y2 y3 by (metis char_of_byte)
    also have "\<dots> = take 4 s"
      using multi(3) 3
      by (cases s; cases "tl s"; cases "tl (tl s)"; cases "tl (tl (tl s))") (auto simp: eval_nat_numeral)
    finally show ?thesis using multi(2) 3 d by simp
  qed
qed

lemma of_runes_to_runes: "valid_utf8 s \<Longrightarrow> of_runes (to_runes s) = s"
proof (induction s rule: length_induct)
  case (1 s)
  show ?case
  proof (cases "s = []")
    case True
    then show ?thesis by (simp add: of_runes_def)
  next
    case False
    with "1.prems" have ok: "rune_ok s" and rest: "valid_utf8 (drop (rune_width s) s)"
      by (simp_all add: valid_utf8_step)
    have "length (drop (rune_width s) s) < length s"
      using rune_width_pos [OF False] False by simp
    with "1.IH" rest have "of_runes (to_runes (drop (rune_width s) s)) = drop (rune_width s) s"
      by blast
    with False encode_decode [OF ok False] show ?thesis
      by (simp add: to_runes_step of_runes_def)
  qed
qed

lemma rune_count_le: "rune_count s \<le> length s"
proof (induction s rule: length_induct)
  case (1 s)
  show ?case
  proof (cases "s = []")
    case False
    have w: "0 < rune_width s" "rune_width s \<le> length s"
      using False by (simp_all add: rune_width_pos rune_width_le)
    have "length (drop (rune_width s) s) < length s" using w False by simp
    with 1 have "rune_count (drop (rune_width s) s) \<le> length (drop (rune_width s) s)" by blast
    with w False show ?thesis by (simp add: rune_count_def to_runes_step)
  qed (simp add: rune_count_def)
qed

lemma encode_rune_length: "length (encode_rune r) \<le> 4"
  by (simp add: encode_rune_def)

lemma of_runes_length: "length (of_runes rs) \<le> 4 * length rs"
proof (induction rs)
  case (Cons r rs)
  with encode_rune_length [of r] show ?case by (simp add: of_runes_def)
qed (simp add: of_runes_def)


section \<open>White space\<close>

text \<open>
  \<open>strings.TrimSpace\<close>: the encodings of the runes \<open>unicode.IsSpace\<close> accepts are removed at
  both ends.
\<close>

definition space_encodings :: "string list" where
  "space_encodings =
     [[CHR 0x09], [CHR 0x0A], [CHR 0x0B], [CHR 0x0C], [CHR 0x0D], [CHR 0x20], [CHR 0xC2, CHR 0x85], [CHR 0xC2, CHR 0xA0],
      [CHR 0xE1, CHR 0x9A, CHR 0x80], [CHR 0xE2, CHR 0x80, CHR 0x80], [CHR 0xE2, CHR 0x80, CHR 0x81],
      [CHR 0xE2, CHR 0x80, CHR 0x82], [CHR 0xE2, CHR 0x80, CHR 0x83], [CHR 0xE2, CHR 0x80, CHR 0x84],
      [CHR 0xE2, CHR 0x80, CHR 0x85], [CHR 0xE2, CHR 0x80, CHR 0x86], [CHR 0xE2, CHR 0x80, CHR 0x87],
      [CHR 0xE2, CHR 0x80, CHR 0x88], [CHR 0xE2, CHR 0x80, CHR 0x89], [CHR 0xE2, CHR 0x80, CHR 0x8A],
      [CHR 0xE2, CHR 0x80, CHR 0xA8], [CHR 0xE2, CHR 0x80, CHR 0xA9], [CHR 0xE2, CHR 0x80, CHR 0xAF],
      [CHR 0xE2, CHR 0x81, CHR 0x9F], [CHR 0xE3, CHR 0x80, CHR 0x80]]"

function trim_front :: "string list \<Rightarrow> string \<Rightarrow> string" where
  "trim_front es s =
     (case find (\<lambda>e. e \<noteq> '''' \<and> has_prefix s e) es of
        None \<Rightarrow> s
      | Some e \<Rightarrow> trim_front es (drop (length e) s))"
  by pat_completeness auto
termination
proof (relation "measure (\<lambda>(es, s). length s)")
  fix es s e
  assume "find (\<lambda>e. e \<noteq> '''' \<and> has_prefix s e) es = Some e"
  then have "e \<noteq> ''''" "has_prefix s e" by (auto simp: find_Some_iff)
  then have "0 < length s" "0 < length e" by (auto simp: has_prefix_def)
  then show "((es, drop (length e) s), (es, s)) \<in> measure (\<lambda>(es, s). length s)" by simp
qed simp

declare trim_front.simps [simp del]

definition trim_space :: "string \<Rightarrow> string" where
  "trim_space s = rev (trim_front (map rev space_encodings) (rev (trim_front space_encodings s)))"

lemma trim_front_length: "length (trim_front es s) \<le> length s"
proof (induction es s rule: trim_front.induct)
  case (1 es s)
  show ?case
    by (subst trim_front.simps) (use 1 in \<open>auto split: option.split intro: order_trans\<close>)
qed

text \<open>A string that begins and ends with a printable ASCII byte is not changed.\<close>

definition printable :: "char \<Rightarrow> bool" where
  "printable c \<longleftrightarrow> 33 \<le> byte c \<and> byte c \<le> 126"

lemma trim_front_stop:
  assumes "\<forall>e \<in> set es. e = '''' \<or> hd e \<noteq> hd s" "s \<noteq> ''''"
  shows "trim_front es s = s"
proof -
  have "\<not> has_prefix s e" if "e \<in> set es" "e \<noteq> ''''" for e
    using assms that by (cases s; cases e) (auto simp: has_prefix_def)
  then have "find (\<lambda>e. e \<noteq> '''' \<and> has_prefix s e) es = None" by (auto simp: find_None_iff)
  then show ?thesis by (subst trim_front.simps) simp
qed

lemma spaces_not_printable: "\<forall>e \<in> set space_encodings. e \<noteq> '''' \<and> \<not> printable (hd e) \<and> \<not> printable (last e)"
  by (simp add: space_encodings_def printable_def byte_def)

lemma trim_space_printable:
  assumes "s \<noteq> ''''" "printable (hd s)" "printable (last s)"
  shows "trim_space s = s"
proof -
  have "trim_front space_encodings s = s"
    by (rule trim_front_stop) (use assms spaces_not_printable in auto)
  moreover have "trim_front (map rev space_encodings) (rev s) = rev s"
    by (rule trim_front_stop) (use assms spaces_not_printable in \<open>auto simp: hd_rev\<close>)
  ultimately show ?thesis by (simp add: trim_space_def)
qed

lemma trim_space_newline:
  assumes "s \<noteq> ''''" "printable (hd s)" "printable (last s)"
  shows "trim_space (s @ nl) = s"
proof -
  have "trim_front space_encodings (s @ nl) = s @ nl"
    by (rule trim_front_stop) (use assms spaces_not_printable in auto)
  moreover have "trim_front (map rev space_encodings) (CHR 0x0A # rev s) = trim_front (map rev space_encodings) (rev s)"
    by (subst trim_front.simps) (simp add: space_encodings_def has_prefix_def)
  moreover have "trim_front (map rev space_encodings) (rev s) = rev s"
    by (rule trim_front_stop) (use assms spaces_not_printable in \<open>auto simp: hd_rev\<close>)
  ultimately show ?thesis by (simp add: trim_space_def nl_def)
qed

lemma has_suffix_append: "length p = length q \<Longrightarrow> has_suffix (s @ p) q \<longleftrightarrow> p = q"
  by (simp add: has_suffix_def)

section \<open>Letter case\<close>

text \<open>The lower and upper case of an ASCII letter.\<close>

definition lower_char :: "char \<Rightarrow> char" where
  "lower_char c = (if 65 \<le> byte c \<and> byte c \<le> 90 then char_of (byte c + 32) else c)"

definition upper_char :: "char \<Rightarrow> char" where
  "upper_char c = (if 97 \<le> byte c \<and> byte c \<le> 122 then char_of (byte c - 32) else c)"

section \<open>Columns\<close>

text \<open>The verbs \<open>%-ns\<close> and \<open>%ns\<close>, which count runes.\<close>

definition pad_right :: "nat \<Rightarrow> string \<Rightarrow> string" where
  "pad_right n s = s @ replicate (n - rune_count s) (CHR '' '')"

definition pad_left :: "nat \<Rightarrow> string \<Rightarrow> string" where
  "pad_left n s = replicate (n - rune_count s) (CHR '' '') @ s"

section \<open>Reading numbers\<close>

fun digits_value :: "nat \<Rightarrow> string \<Rightarrow> nat option" where
  "digits_value n [] = Some n"
| "digits_value n (c # cs) =
     (if 48 \<le> byte c \<and> byte c \<le> 57 then digits_value (10 * n + (byte c - 48)) cs else None)"

text \<open>\<open>strconv.ParseInt(s, 10, 64)\<close>.\<close>

definition parse_int :: "string \<Rightarrow> int option" where
  "parse_int s =
     (let neg = has_prefix s ''-'';
          ds = (if neg \<or> has_prefix s ''+'' then drop 1 s else s)
      in if ds = [] then None
         else case digits_value 0 ds of
           None \<Rightarrow> None
         | Some n \<Rightarrow> let i = (if neg then - int n else int n) in if int64_ok i then Some i else None)"

lemma digits_value_append: "digits_value n (xs @ ys) = (case digits_value n xs of None \<Rightarrow> None | Some k \<Rightarrow> digits_value k ys)"
  by (induction xs arbitrary: n) auto

lemma digits_value_digits: "digits_value 0 (digits n) = Some n"
proof (induction n rule: digits.induct)
  case (1 n)
  show ?case
  proof (cases "n < 10")
    case True
    then show ?thesis by (subst digits.simps) (simp add: byte_def)
  next
    case False
    with 1 show ?thesis by (subst digits.simps) (simp add: digits_value_append byte_def)
  qed
qed

lemma digits_ne [simp]: "digits n \<noteq> []"
  by (subst digits.simps) simp

lemma digits_bytes: "c \<in> set (digits n) \<Longrightarrow> 48 \<le> byte c \<and> byte c \<le> 57"
  using set_digits [of n] by (auto simp: byte_def)

lemma parse_int_itoa: "int64_ok i \<Longrightarrow> parse_int (itoa i) = Some i"
proof -
  assume i: "int64_ok i"
  have d: "hd (digits n) \<noteq> CHR ''-'' \<and> hd (digits n) \<noteq> CHR ''+''" for n
    using digits_bytes [of "hd (digits n)" n] by (auto simp: byte_def)
  have "\<not> has_prefix (digits n) ''-''" "\<not> has_prefix (digits n) ''+''" for n
    using d [of n] by (cases "digits n"; simp add: has_prefix_def)+
  then show ?thesis using i by (auto simp: parse_int_def itoa_def digits_value_digits has_prefix_def)
qed

end
