(* ===== verification/Events.thy ===== *)
theory Events
  imports Complex_Main GoStrings
begin

text \<open>
  Events and the event cache: \<open>types/event.go\<close>, \<open>engine/cache.go\<close>, the alerting part of
  \<open>config/inline.go\<close> and \<open>SeverityRank\<close> of \<open>diagnose/types.go\<close>.  A Go map that may be nil is
  \<open>None\<close> or \<open>Some m\<close>.  Events are handled by pointer: an address is a \<open>nat\<close>, the objects
  live in an \<open>event_heap\<close>, and the cache maps an alert key to an address, so that a field
  written through one pointer is seen through the other.
\<close>

section \<open>Events\<close>

definition EventStatusCritical :: string where "EventStatusCritical = ''Critical''"
definition EventStatusWarning :: string where "EventStatusWarning = ''Warning''"
definition EventStatusInfo :: string where "EventStatusInfo = ''Info''"
definition EventStatusOk :: string where "EventStatusOk = ''Ok''"
definition DescFormatMarkdown :: string where "DescFormatMarkdown = ''markdown''"
definition AttrCurrentValue :: string where "AttrCurrentValue = ''current_value''"
definition AttrThresholdDesc :: string where "AttrThresholdDesc = ''threshold_desc''"

lemmas event_statuses =
  EventStatusCritical_def EventStatusWarning_def EventStatusInfo_def EventStatusOk_def

record event =
  event_time :: int
  event_status :: string
  alert_key :: string
  labels :: "(string, string) gomap option"
  attrs :: "(string, string) gomap option"
  description :: string
  description_format :: string
  first_fire_time :: int
  notify_count :: int
  last_sent :: int

text \<open>Reading a possibly nil map: \<open>m[k]\<close> and \<open>range m\<close>.\<close>

definition nil_map :: "('k, 'v) gomap option \<Rightarrow> ('k, 'v) gomap" where
  "nil_map m = (case m of None \<Rightarrow> [] | Some x \<Rightarrow> x)"

lemma nil_map_simps [simp]: "nil_map None = []" "nil_map (Some m) = m"
  by (simp_all add: nil_map_def)

definition event_status_valid :: "string \<Rightarrow> bool" where
  "event_status_valid status \<longleftrightarrow>
     status = EventStatusCritical \<or> status = EventStatusWarning
     \<or> status = EventStatusInfo \<or> status = EventStatusOk"

definition set_event_status :: "event \<Rightarrow> string \<Rightarrow> event" where
  "set_event_status e status = e\<lparr>event_status := status\<rparr>"

definition set_event_time :: "event \<Rightarrow> int \<Rightarrow> event" where
  "set_event_time e t = e\<lparr>event_time := t\<rparr>"

definition set_attrs :: "event \<Rightarrow> (string, string) gomap \<Rightarrow> event" where
  "set_attrs e ats =
     (let e = (if attrs e = None then e\<lparr>attrs := Some []\<rparr> else e)
      in e\<lparr>attrs := Some (mmerge (nil_map (attrs e)) ats)\<rparr>)"

definition set_current_value :: "event \<Rightarrow> string \<Rightarrow> event" where
  "set_current_value e v =
     (let e = (if attrs e = None then e\<lparr>attrs := Some []\<rparr> else e)
      in e\<lparr>attrs := Some (mput AttrCurrentValue v (nil_map (attrs e)))\<rparr>)"

definition set_description :: "event \<Rightarrow> string \<Rightarrow> event" where
  "set_description e desc = e\<lparr>description := desc\<rparr>"

text \<open>The values of a \<open>float64\<close> a threshold comparison tells apart; a NaN compares false.\<close>

datatype float64 = NaN | NInf | Fin real | PInf

fun f64_less :: "float64 \<Rightarrow> float64 \<Rightarrow> bool" where
  "f64_less NaN _ = False"
| "f64_less _ NaN = False"
| "f64_less (Fin a) (Fin b) = (a < b)"
| "f64_less NInf b = (b \<noteq> NInf)"
| "f64_less (Fin a) b = (b = PInf)"
| "f64_less PInf _ = False"

definition f64_le :: "float64 \<Rightarrow> float64 \<Rightarrow> bool" where
  "f64_le a b \<longleftrightarrow> f64_less a b \<or> (a = b \<and> a \<noteq> NaN)"

definition evaluate_ge_threshold :: "float64 \<Rightarrow> float64 \<Rightarrow> float64 \<Rightarrow> string" where
  "evaluate_ge_threshold value warn_ge critical_ge =
     (if f64_less (Fin 0) critical_ge \<and> f64_le critical_ge value then EventStatusCritical
      else if f64_less (Fin 0) warn_ge \<and> f64_le warn_ge value then EventStatusWarning
      else EventStatusOk)"

fun merge_all :: "(string, string) gomap \<Rightarrow> (string, string) gomap list \<Rightarrow> (string, string) gomap" where
  "merge_all m [] = m"
| "merge_all m (l # ls) = merge_all (mmerge m l) ls"

definition zero_event :: event where
  "zero_event = \<lparr>event_time = 0, event_status = '''', alert_key = '''', labels = None, attrs = None,
     description = '''', description_format = '''', first_fire_time = 0, notify_count = 0, last_sent = 0\<rparr>"

definition build_event :: "(string, string) gomap list \<Rightarrow> event" where
  "build_event label_maps =
     zero_event\<lparr>event_status := EventStatusOk, labels := Some (merge_all [] label_maps)\<rparr>"

definition severity_rank :: "string \<Rightarrow> int" where
  "severity_rank status =
     (if status = EventStatusCritical then 3
      else if status = EventStatusWarning then 2
      else if status = EventStatusInfo then 1
      else 0)"

section \<open>Configuration of an instance\<close>

record alerting =
  al_disabled :: bool
  for_duration :: int
  repeat_interval :: int
  repeat_number :: int
  disable_recovery_notification :: bool

record diagnose_config =
  dc_enabled :: bool
  min_severity :: string
  dc_timeout :: int
  dc_cooldown :: int

record internal_config =
  ic_labels :: "(string, string) gomap option"
  ic_interval :: int
  ic_alerting :: alerting
  ic_diagnose :: diagnose_config

definition get_labels :: "internal_config \<Rightarrow> (string, string) gomap" where
  "get_labels ic = (case ic_labels ic of Some l \<Rightarrow> l | None \<Rightarrow> [])"

definition get_interval :: "internal_config \<Rightarrow> int" where
  "get_interval ic = ic_interval ic"

definition get_alerting :: "internal_config \<Rightarrow> alerting" where
  "get_alerting ic = ic_alerting ic"

definition get_diagnose_config :: "internal_config \<Rightarrow> diagnose_config" where
  "get_diagnose_config ic = ic_diagnose ic"

section \<open>The event cache\<close>

type_synonym addr = nat

type_synonym event_heap = "addr \<Rightarrow> event"

type_synonym event_cache = "(string, addr) gomap"

definition cache_get :: "event_cache \<Rightarrow> string \<Rightarrow> addr option" where
  "cache_get c key = mget c key"

definition cache_set :: "event_heap \<Rightarrow> addr \<Rightarrow> event_cache \<Rightarrow> event_cache" where
  "cache_set h p c = mput (alert_key (h p)) p c"

definition cache_del :: "string \<Rightarrow> event_cache \<Rightarrow> event_cache" where
  "cache_del key c = mdel key c"

text \<open>
  The interface of a keyed store, as the alert engine (over the cache) and the session handler
  (over the session table) use it.
\<close>

locale keyed_store =
  fixes get :: "'s \<Rightarrow> 'k \<Rightarrow> 'v option"
    and put :: "'k \<Rightarrow> 'v \<Rightarrow> 's \<Rightarrow> 's"
    and del :: "'k \<Rightarrow> 's \<Rightarrow> 's"
    and keys :: "'s \<Rightarrow> 'k set"
    and ok :: "'s \<Rightarrow> bool"
  assumes get_put: "get (put k v s) k' = (if k' = k then Some v else get s k')"
    and get_del: "ok s \<Longrightarrow> get (del k s) k' = (if k' = k then None else get s k')"
    and get_keys: "get s k \<noteq> None \<longleftrightarrow> k \<in> keys s"
    and ok_put: "ok s \<Longrightarrow> ok (put k v s)"
    and ok_del: "ok s \<Longrightarrow> ok (del k s)"
begin

lemma keys_put: "keys (put k v s) = insert k (keys s)"
  by (auto simp: get_put simp flip: get_keys split: if_splits)

lemma keys_del: "ok s \<Longrightarrow> keys (del k s) = keys s - {k}"
  by (auto simp: get_del simp flip: get_keys split: if_splits)

lemma put_other: "k' \<noteq> k \<Longrightarrow> get (put k v s) k' = get s k'"
  by (simp add: get_put)

lemma del_absent: "ok s \<Longrightarrow> get (del k s) k = None"
  by (simp add: get_del)

end

interpretation go_map_store: keyed_store mget mput mdel "\<lambda>m. fst ` set m" go_map_ok
  by unfold_locales (auto simp: mget_None_iff)

interpretation event_records: keyed_store cache_get mput cache_del "\<lambda>c. fst ` set c" go_map_ok
  by unfold_locales (auto simp: cache_get_def cache_del_def mget_None_iff)

section \<open>Lemmas\<close>

lemma severity_rank_range: "0 \<le> severity_rank s \<and> severity_rank s \<le> 3"
  by (simp add: severity_rank_def)

lemma mget_merge_all:
  "\<forall>m \<in> set ms. go_map_ok m \<Longrightarrow>
   mget (merge_all m0 ms) k = (case find (\<lambda>m. mget m k \<noteq> None) (rev ms) of
      None \<Rightarrow> mget m0 k | Some m \<Rightarrow> mget m k)"
proof (induction ms arbitrary: m0)
  case Nil
  then show ?case by simp
next
  case (Cons m ms)
  have fa: "find P (xs @ [y]) = (case find P xs of None \<Rightarrow> (if P y then Some y else None) | Some z \<Rightarrow> Some z)"
    for P and xs :: "'a list" and y
    by (induction xs) auto
  have sm: "find (\<lambda>m. mget m k \<noteq> None) (rev ms) = Some z \<Longrightarrow> mget z k \<noteq> None" for z
    by (auto simp: find_Some_iff)
  from Cons show ?case
    by (auto simp: fa mget_mmerge_ok split: option.splits dest: sm)
qed

text \<open>
  \<open>BuildEvent\<close>: the status is Ok and each label has the value of the last label map that
  sets it; \<open>SetAttrs\<close> adds to the attributes, its own values winning, whether or not the map
  was nil before.
\<close>

theorem build_event_labels:
  assumes "\<forall>m \<in> set ms. go_map_ok m" and "go_map_ok ats"
  shows "event_status (build_event ms) = EventStatusOk
    \<and> mget (nil_map (labels (build_event ms))) k
        = (case find (\<lambda>m. mget m k \<noteq> None) (rev ms) of None \<Rightarrow> None | Some m \<Rightarrow> mget m k)
    \<and> mget (nil_map (attrs (set_attrs e ats))) k
        = (case mget ats k of None \<Rightarrow> mget (nil_map (attrs e)) k | Some v \<Rightarrow> Some v)"
  using assms
  by (auto simp: build_event_def mget_merge_all set_attrs_def Let_def mget_mmerge_ok split: option.splits)

theorem build_event_labels_witness:
  "mget (nil_map (labels (build_event [[(''check'', ''cpu''), (''target'', ''a'')], [(''target'', ''b'')]]))) ''target''
     = Some ''b''"
  using build_event_labels [of "[[(''check'', ''cpu''), (''target'', ''a'')], [(''target'', ''b'')]]" "[]" "''target''" zero_event]
  by (simp add: go_map_ok_def)

text \<open>
  A greater-or-equal threshold pair classifies monotonically: a value at least as large is
  never ranked lower, and a zero, negative or NaN threshold is disabled.
\<close>

theorem threshold_monotone:
  assumes "f64_le v v'"
  shows "severity_rank (evaluate_ge_threshold v w c) \<le> severity_rank (evaluate_ge_threshold v' w c)
    \<and> (\<not> f64_less (Fin 0) w \<and> \<not> f64_less (Fin 0) c \<longrightarrow> evaluate_ge_threshold v' w c = EventStatusOk)"
proof -
  have trans: "f64_le a v \<Longrightarrow> f64_le a v'" for a
    using assms by (cases a; cases v; cases v') (auto simp: f64_le_def)
  show ?thesis
    using trans [of c] trans [of w]
    by (auto simp: evaluate_ge_threshold_def severity_rank_def event_statuses)
qed

theorem threshold_monotone_witness:
  "severity_rank (evaluate_ge_threshold (Fin 85) (Fin 80) (Fin 95))
     \<le> severity_rank (evaluate_ge_threshold (Fin 96) (Fin 80) (Fin 95))"
  using threshold_monotone [of "Fin 85" "Fin 96" "Fin 80" "Fin 95"] by (simp add: f64_le_def)

end
