(* ===== verification/TextLimits.thy ===== *)
theory TextLimits
  imports GoStrings
begin

text \<open>
  Every routine that cuts text to a budget: \<open>TruncateUTF8\<close> (\<open>diagnose/report.go\<close>) and the
  byte budgets built on it (\<open>diagnose/executor.go\<close>, \<open>diagnose/selftest.go\<close>), \<open>truncStr\<close>
  (\<open>diagnose/aiclient/client.go\<close>), the rune budgets of \<open>notify/console.go\<close>,
  \<open>pkg/term/progress.go\<close> and \<open>mcp/client.go\<close>, and the line handling of \<open>mcp/client.go\<close>
  and \<open>pkg/cmdx/cmdx.go\<close>.
\<close>

section \<open>Byte budgets\<close>

text \<open>The loop \<open>for maxBytes > 0 && !utf8.RuneStart(s[maxBytes]) { maxBytes-- }\<close>.\<close>

fun back_to_start :: "string \<Rightarrow> nat \<Rightarrow> nat" where
  "back_to_start s 0 = 0"
| "back_to_start s (Suc n) = (if \<not> rune_start (s ! Suc n) then back_to_start s n else Suc n)"

definition truncate_utf8 :: "string \<Rightarrow> int \<Rightarrow> string" where
  "truncate_utf8 s max_bytes =
     (if int (length s) \<le> max_bytes then s
      else if max_bytes \<le> 0 then ''''
      else take (back_to_start s (nat max_bytes)) s)"

definition trunc_str :: "string \<Rightarrow> nat \<Rightarrow> string" where
  "trunc_str s max_bytes =
     (if length s \<le> max_bytes then s
      else take (back_to_start s max_bytes) s @ ''...'')"

definition trunc_body :: "string \<Rightarrow> string" where
  "trunc_body b = trunc_str b 200"

definition maxToolOutputBytes :: int where
  "maxToolOutputBytes = 32 * 1024"

definition maxRecordResultBytes :: int where
  "maxRecordResultBytes = 64 * 1024"

definition truncate_output :: "string \<Rightarrow> string" where
  "truncate_output s =
     (if int (length s) \<le> maxToolOutputBytes then s
      else truncate_utf8 s maxToolOutputBytes @ nl @ ''...[output truncated]'')"

definition truncate_for_record :: "string \<Rightarrow> string" where
  "truncate_for_record s =
     (if int (length s) \<le> maxRecordResultBytes then s
      else truncate_utf8 s maxRecordResultBytes @ nl @ ''...[record truncated]'')"

definition trunc_message :: "string \<Rightarrow> int \<Rightarrow> string" where
  "trunc_message s max_bytes =
     (if int (length s) \<le> max_bytes then s else truncate_utf8 s (max_bytes - 3) @ ''...'')"

section \<open>Rune budgets\<close>

definition ellipsis_head :: "bool \<Rightarrow> string" where
  "ellipsis_head zh =
     (if zh then nl @ ''... ['' @ [CHR 0xE7, CHR 0x9C, CHR 0x81, CHR 0xE7, CHR 0x95, CHR 0xA5] @ '' ''
      else nl @ ''... ['')"

definition ellipsis_tail :: "bool \<Rightarrow> string" where
  "ellipsis_tail zh =
     (if zh then '' '' @ [CHR 0xE5, CHR 0xAD, CHR 0x97, CHR 0xE7, CHR 0xAC, CHR 0xA6] @ ''] ...'' @ nl
      else '' chars omitted] ...'' @ nl)"

text \<open>\<open>zh\<close> is \<open>config.Config != nil && config.Config.AI.Language == "zh"\<close>.\<close>

definition truncate_head_tail :: "bool \<Rightarrow> string \<Rightarrow> nat \<Rightarrow> nat \<Rightarrow> string" where
  "truncate_head_tail zh s head_runes tail_runes =
     (let runes = to_runes s; total = length runes in
      if total \<le> head_runes + tail_runes then s
      else let omitted = total - head_runes - tail_runes in
        of_runes (take head_runes runes)
        @ (ellipsis_head zh @ itoa (int omitted) @ ellipsis_tail zh)
        @ of_runes (drop (total - tail_runes) runes))"

text \<open>\<open>None\<close> is the panic of slicing with a negative bound.\<close>

definition trunc_line :: "string \<Rightarrow> int \<Rightarrow> string option" where
  "trunc_line s max_runes =
     (if int (rune_count s) \<le> max_runes then Some s
      else let runes = to_runes s in
        if max_runes - 3 < 0 then None
        else Some (of_runes (take (nat (max_runes - 3)) runes) @ ''...''))"

definition trunc_raw :: "string \<Rightarrow> string" where
  "trunc_raw b =
     (let runes = to_runes b in
      if length runes \<le> 200 then b else of_runes (take 200 runes) @ ''...'')"

section \<open>Lines\<close>

fun trim_line :: "string \<Rightarrow> string" where
  "trim_line b = rev (dropWhile (\<lambda>c. c = CHR 0x0A \<or> c = CHR 0x0D) (rev b))"

definition MaxStderrBytes :: nat where
  "MaxStderrBytes = 512"

text \<open>\<open>bytes.IndexByte\<close>; \<open>None\<close> for -1.\<close>

fun index_byte :: "string \<Rightarrow> char \<Rightarrow> nat option" where
  "index_byte [] c = None"
| "index_byte (x # s) c = (if x = c then Some 0 else map_option Suc (index_byte s c))"

definition truncate_stderr :: "string \<Rightarrow> string" where
  "truncate_stderr buf0 =
     (let did0 = length buf0 > MaxStderrBytes;
          buf1 = (if length buf0 > MaxStderrBytes then take MaxStderrBytes buf0 else buf0);
          cut = (case index_byte buf1 (CHR 0x0A) of
              Some i \<Rightarrow> if i > 0 then ((if i < length buf1 - 1 then True else did0), take i buf1) else (did0, buf1)
            | None \<Rightarrow> (did0, buf1))
      in if fst cut then snd cut @ ''...'' else snd cut)"

section \<open>Lemmas\<close>

lemma back_to_start_le: "back_to_start s n \<le> n"
  by (induction s n rule: back_to_start.induct) auto

lemma back_to_start_start: "back_to_start s n = 0 \<or> rune_start (s ! back_to_start s n)"
  by (induction s n rule: back_to_start.induct) auto

lemma back_to_start_max: "k \<le> n \<Longrightarrow> back_to_start s n < k \<Longrightarrow> \<not> rune_start (s ! k)"
  by (induction s n rule: back_to_start.induct) (auto split: if_splits simp: le_Suc_eq)

lemma valid_utf8_cut:
  assumes "valid_utf8 s" "n < length s"
  shows "valid_utf8 (take (back_to_start s n) s)"
  using assms back_to_start_le [of s n] back_to_start_start [of s n]
  by (cases "back_to_start s n = 0") (auto intro: valid_utf8_take)

lemma truncate_utf8_take: "\<exists>k. truncate_utf8 s n = take k s"
  by (auto simp: truncate_utf8_def intro: exI [of _ "length s"] exI [of _ 0])

lemma truncate_utf8_length: "int (length (truncate_utf8 s n)) \<le> max 0 n"
  using back_to_start_le [of s "nat n"] by (auto simp: truncate_utf8_def)

lemma truncate_utf8_valid: "valid_utf8 s \<Longrightarrow> valid_utf8 (truncate_utf8 s n)"
  unfolding truncate_utf8_def
  by (simp del: valid_utf8.simps(2)) (intro impI valid_utf8_cut, simp_all)



end
