(* ===== verification/Notify.thy ===== *)
theory Notify
  imports Events TextLimits
begin

text \<open>
  The notification back ends (\<open>notify/*.go\<close>).  \<open>notify_forward\<close> is \<open>Forward\<close> over the
  registered notifiers.  Each HTTP notifier is a classification of one request's outcome
  (\<open>doPost\<close>, \<open>doRequest\<close>) under the same retry loop; the outcome of attempt \<open>k\<close>, \<open>post k\<close>,
  is the environment's.  The three loops of the sources are one definition, the contract of a
  classification is the locale \<open>retrying_transport\<close>, interpreted for each notifier.
\<close>

section \<open>Dispatch\<close>

type_synonym notifier = "string \<times> (event \<Rightarrow> bool)"

definition notify_register :: "notifier \<Rightarrow> notifier list \<Rightarrow> notifier list" where
  "notify_register n ns = ns @ [n]"

fun any_ok :: "bool list \<Rightarrow> bool" where
  "any_ok [] = False"
| "any_ok (r # rs) = (if r then True else any_ok rs)"

definition notify_forward :: "notifier list \<Rightarrow> event \<Rightarrow> bool" where
  "notify_forward ns e =
     (if length ns = 0 then False
      else if length ns = 1 then snd (ns ! 0) e
      else any_ok (map (\<lambda>n. snd n e) ns))"

lemma any_ok_iff [simp]: "any_ok rs \<longleftrightarrow> True \<in> set rs"
  by (induction rs) auto

lemma notify_forward_iff: "notify_forward ns e \<longleftrightarrow> (\<exists>n \<in> set ns. snd n e)"
  by (auto simp: notify_forward_def image_iff length_Suc_conv)

section \<open>Retries\<close>

text \<open>The outcome of one request, as far as the sources look at it.\<close>

datatype http_result =
  NewRequestFail
| DoFail
| BodyFail int
| Response int

text \<open>
  The loop \<open>for attempt := 0; attempt <= MaxRetries; attempt++\<close> with \<open>n\<close> iterations left: the
  result and the waits between the attempts.
\<close>

fun retry_loop ::
  "(http_result \<Rightarrow> bool \<times> bool) \<Rightarrow> (nat \<Rightarrow> http_result) \<Rightarrow> nat \<Rightarrow> nat \<Rightarrow> bool \<times> int list" where
  "retry_loop classify post attempt 0 = (False, [])"
| "retry_loop classify post attempt (Suc n) =
     (let slept = (if attempt > 0 then [int attempt * second] else []);
          (ok, retryable) = classify (post attempt)
      in if ok then (True, slept)
         else if \<not> retryable then (False, slept)
         else let (r, more) = retry_loop classify post (Suc attempt) n in (r, slept @ more))"

definition attempts :: "int \<Rightarrow> nat" where
  "attempts max_retries = nat (max_retries + 1)"

definition flashduty_do_post :: "http_result \<Rightarrow> bool \<times> bool" where
  "flashduty_do_post r =
     (case r of
        NewRequestFail \<Rightarrow> (False, False)
      | DoFail \<Rightarrow> (False, True)
      | BodyFail st \<Rightarrow> (False, True)
      | Response st \<Rightarrow> if st \<ge> 500 then (False, True) else if st \<ge> 400 then (False, False) else (True, False))"

definition pagerduty_do_post :: "http_result \<Rightarrow> bool \<times> bool" where
  "pagerduty_do_post r =
     (case r of
        NewRequestFail \<Rightarrow> (False, False)
      | DoFail \<Rightarrow> (False, True)
      | BodyFail st \<Rightarrow> (False, True)
      | Response st \<Rightarrow>
          if st = 202 then (True, False)
          else if st = 429 \<or> st \<ge> 500 then (False, True) else (False, False))"

text \<open>The web API notifier ignores an error while reading the body.\<close>

definition webapi_do_request :: "http_result \<Rightarrow> bool \<times> bool" where
  "webapi_do_request r =
     (let by_status = (\<lambda>st :: int.
          if st \<ge> 200 \<and> st < 300 then (True, False)
          else if st = 429 \<or> st \<ge> 500 then (False, True) else (False, False))
      in case r of
        NewRequestFail \<Rightarrow> (False, False)
      | DoFail \<Rightarrow> (False, True)
      | BodyFail st \<Rightarrow> by_status st
      | Response st \<Rightarrow> by_status st)"

text \<open>\<open>marshal_ok\<close>: whether \<open>json.Marshal\<close> of the payload succeeded.\<close>

definition flashduty_forward :: "bool \<Rightarrow> int \<Rightarrow> (nat \<Rightarrow> http_result) \<Rightarrow> bool \<times> int list" where
  "flashduty_forward marshal_ok max_retries post =
     (if \<not> marshal_ok then (False, []) else retry_loop flashduty_do_post post 0 (attempts max_retries))"

definition pagerduty_forward :: "bool \<Rightarrow> int \<Rightarrow> (nat \<Rightarrow> http_result) \<Rightarrow> bool \<times> int list" where
  "pagerduty_forward marshal_ok max_retries post =
     (if \<not> marshal_ok then (False, []) else retry_loop pagerduty_do_post post 0 (attempts max_retries))"

definition webapi_forward :: "bool \<Rightarrow> int \<Rightarrow> (nat \<Rightarrow> http_result) \<Rightarrow> bool \<times> int list" where
  "webapi_forward marshal_ok max_retries post =
     (if \<not> marshal_ok then (False, []) else retry_loop webapi_do_request post 0 (attempts max_retries))"

section \<open>Payloads\<close>

definition flashdutyAttrPrefix :: string where
  "flashdutyAttrPrefix = ''_attr_''"

record flash_duty_payload =
  fp_event_time :: int
  fp_event_status :: string
  fp_alert_key :: string
  fp_labels :: "(string, string) gomap"
  fp_title_rule :: string
  fp_description :: string

definition flashduty_payload :: "event \<Rightarrow> flash_duty_payload" where
  "flashduty_payload e =
     (let lbs = mmerge (mmerge [] (nil_map (labels e)))
                  (map (\<lambda>(k, v). (flashdutyAttrPrefix @ k, v)) (nil_map (attrs e)));
          title_rule = (if mstr (nil_map (labels e)) ''target'' \<noteq> ''''
             then ''[TPL]${check} ${from_hostip} ${target}'' else ''[TPL]${check} ${from_hostip}'');
          desc = (if description_format e = DescFormatMarkdown then ''[MD]'' @ description e else description e)
      in \<lparr>fp_event_time = event_time e, fp_event_status = event_status e, fp_alert_key = alert_key e,
          fp_labels = lbs, fp_title_rule = title_rule, fp_description = desc\<rparr>)"

record pd_payload =
  pd_summary :: string
  pd_severity :: string
  pd_source :: string
  pd_timestamp :: string
  pd_custom_details :: "(string, string) gomap"

record pd_envelope =
  pd_routing_key :: string
  pd_event_action :: string
  pd_dedup_key :: string
  pd_body :: pd_payload

definition trim_prefix :: "string \<Rightarrow> string \<Rightarrow> string" where
  "trim_prefix s p = (if has_prefix s p then drop (length p) s else s)"

definition pd_summary_of :: "event \<Rightarrow> string" where
  "pd_summary_of e =
     (let s = (if description_format e = DescFormatMarkdown then trim_prefix (description e) ''[MD]'' else description e);
          check = mstr (nil_map (labels e)) ''check'';
          s = (if check \<noteq> '''' then check @ '' '' @ s else s)
      in if length s > 1024 then take 1024 s else s)"

text \<open>\<open>rfc3339\<close> formats a Unix time in UTC.\<close>

definition pagerduty_payload ::
  "(int \<Rightarrow> string) \<Rightarrow> string \<Rightarrow> (string, string) gomap \<Rightarrow> event \<Rightarrow> pd_envelope" where
  "pagerduty_payload rfc3339 routing_key severity_map e =
     (let action = (if event_status e = EventStatusOk then ''resolve'' else ''trigger'');
          severity = (case mget severity_map (event_status e) of Some mapped \<Rightarrow> mapped | None \<Rightarrow> ''warning'');
          src = mstr (nil_map (labels e)) ''from_hostip'';
          src = (if src = '''' then mstr (nil_map (labels e)) ''from_hostname'' else src);
          src = (if src = '''' then ''catpaw'' else src);
          details = mmerge (mmerge [] (nil_map (labels e))) (nil_map (attrs e))
      in \<lparr>pd_routing_key = routing_key, pd_event_action = action, pd_dedup_key = alert_key e,
          pd_body = \<lparr>pd_summary = pd_summary_of e, pd_severity = severity, pd_source = src,
            pd_timestamp = rfc3339 (event_time e), pd_custom_details = details\<rparr>\<rparr>)"

section \<open>Console\<close>

definition esc :: "string \<Rightarrow> string" where
  "esc code = [CHR 0x1B] @ ''['' @ code @ ''m''"

definition colorReset :: string where "colorReset = esc ''0''"
definition colorRed :: string where "colorRed = esc ''31''"
definition colorYellow :: string where "colorYellow = esc ''33''"
definition colorCyan :: string where "colorCyan = esc ''36''"
definition colorGreen :: string where "colorGreen = esc ''32''"
definition colorGray :: string where "colorGray = esc ''90''"
definition colorBold :: string where "colorBold = esc ''1''"

definition status_color :: "string \<Rightarrow> string" where
  "status_color status =
     (if status = EventStatusCritical then colorRed
      else if status = EventStatusWarning then colorYellow
      else if status = EventStatusInfo then colorCyan
      else if status = EventStatusOk then colorGreen
      else colorReset)"

definition colorize :: "bool \<Rightarrow> string \<Rightarrow> string \<Rightarrow> string" where
  "colorize tty color txt = (if \<not> tty then txt else color @ txt @ colorReset)"

text \<open>\<open>fmt.Sprintf("%-8s", s)\<close> pads on the right to eight runes.\<close>

definition pad8 :: "string \<Rightarrow> string" where
  "pad8 s = s @ replicate (8 - rune_count s) (CHR '' '')"

fun kv_lines :: "bool \<Rightarrow> (string, string) gomap \<Rightarrow> string list \<Rightarrow> string" where
  "kv_lines tty m [] = ''''"
| "kv_lines tty m (k # ks) =
     ''    '' @ colorize tty colorGray (k @ ''='') @ mstr m k @ nl @ kv_lines tty m ks"

text \<open>What \<open>printEvent\<close> writes; \<open>fmt_local\<close> formats a Unix time in the local zone.\<close>

definition print_event :: "(int \<Rightarrow> string) \<Rightarrow> bool \<Rightarrow> bool \<Rightarrow> event \<Rightarrow> string" where
  "print_event fmt_local tty zh e =
     (let desc = truncate_head_tail zh (description e) 500 200 in
      colorize tty colorGray (fmt_local (event_time e)) @ ''  ''
      @ colorize tty (colorBold @ status_color (event_status e)) (pad8 (event_status e)) @ ''  ''
      @ colorize tty colorBold (alert_key e) @ nl
      @ kv_lines tty (nil_map (labels e)) (sorted_keys (nil_map (labels e)))
      @ (if length (nil_map (attrs e)) > 0
         then kv_lines tty (nil_map (attrs e)) (sorted_keys (nil_map (attrs e))) else '''')
      @ (if desc \<noteq> '''' then ''    '' @ desc @ nl else ''''))"

definition console_forward :: "(int \<Rightarrow> string) \<Rightarrow> bool \<Rightarrow> bool \<Rightarrow> event \<Rightarrow> bool \<times> string" where
  "console_forward fmt_local tty zh e = (True, print_event fmt_local tty zh e)"

section \<open>The contract of a classification\<close>

locale retrying_transport =
  fixes classify :: "http_result \<Rightarrow> bool \<times> bool"
  assumes exclusive: "fst (classify r) \<Longrightarrow> \<not> snd (classify r)"
    and network_error: "classify DoFail = (False, True)"
    and server_error: "500 \<le> st \<Longrightarrow> classify (Response st) = (False, True)"
    and bad_request: "classify (Response 400) = (False, False)"
begin

lemma loop_succeeds_iff:
  "fst (retry_loop classify post a n) \<longleftrightarrow>
     (\<exists>k < n. fst (classify (post (a + k))) \<and> (\<forall>j < k. classify (post (a + j)) = (False, True)))"
proof (induction n arbitrary: a)
  case 0
  then show ?case by simp
next
  case (Suc n)
  obtain ok rt where c: "classify (post a) = (ok, rt)" by force
  obtain r w where rw: "retry_loop classify post (Suc a) n = (r, w)" by force
  from Suc.IH [of "Suc a"] c rw show ?case
    by (cases ok; cases rt) (auto simp: Ex_less_Suc2 All_less_Suc2)
qed

text \<open>The waits are one second longer after each attempt: the loop makes \<open>m\<close> attempts.\<close>

lemma loop_waits:
  "\<exists>m \<le> n. snd (retry_loop classify post a n) = map (\<lambda>k. int k * second) (filter (\<lambda>k. 0 < k) [a ..< a + m])"
proof (induction n arbitrary: a)
  case 0
  then show ?case by simp
next
  case (Suc n)
  obtain ok rt where c: "classify (post a) = (ok, rt)" by force
  obtain r w where rw: "retry_loop classify post (Suc a) n = (r, w)" by force
  from Suc.IH [of "Suc a"] rw obtain m where m: "m \<le> n"
      "w = map (\<lambda>k. int k * second) (filter (\<lambda>k. 0 < k) [Suc a ..< Suc a + m])" by auto
  show ?case
  proof (cases "ok \<or> \<not> rt")
    case True
    with c show ?thesis by (intro exI [of _ 1]) auto
  next
    case False
    with c rw m show ?thesis by (intro exI [of _ "Suc m"]) (auto simp: upt_conv_Cons simp del: upt_Suc)
  qed
qed

end

interpretation flashduty: retrying_transport flashduty_do_post
  by unfold_locales (auto simp: flashduty_do_post_def split: http_result.splits if_splits)

interpretation pagerduty: retrying_transport pagerduty_do_post
  by unfold_locales (auto simp: pagerduty_do_post_def split: http_result.splits if_splits)

interpretation webapi: retrying_transport webapi_do_request
  by unfold_locales (auto simp: webapi_do_request_def Let_def split: http_result.splits if_splits)

section \<open>Properties\<close>

text \<open>
  Forwarding succeeds when some notifier accepts the event; an HTTP notifier accepts it
  exactly when one of its at most \<open>MaxRetries + 1\<close> attempts does and every earlier one failed in
  a way that may pass, and it waits 1, 2, 3, ... seconds between its attempts.
\<close>

theorem forward_outcome:
  "(notify_forward ns e \<longleftrightarrow> (\<exists>n \<in> set ns. snd n e))
   \<and> (fst (flashduty_forward True mr post) \<longleftrightarrow> (\<exists>k < attempts mr. fst (flashduty_do_post (post k))
        \<and> (\<forall>j < k. flashduty_do_post (post j) = (False, True))))
   \<and> (fst (pagerduty_forward True mr post) \<longleftrightarrow> (\<exists>k < attempts mr. fst (pagerduty_do_post (post k))
        \<and> (\<forall>j < k. pagerduty_do_post (post j) = (False, True))))
   \<and> (fst (webapi_forward True mr post) \<longleftrightarrow> (\<exists>k < attempts mr. fst (webapi_do_request (post k))
        \<and> (\<forall>j < k. webapi_do_request (post j) = (False, True))))
   \<and> (\<exists>m \<le> attempts mr. snd (pagerduty_forward True mr post) = map (\<lambda>k. int k * second) [1 ..< m])"
proof -
  have "filter (\<lambda>k. 0 < k) [0 ..< m] = [1 ..< m]" for m :: nat
    by (cases m) (auto simp: upt_conv_Cons simp del: upt_Suc)
  then show ?thesis
    using flashduty.loop_succeeds_iff [of post 0 "attempts mr"] pagerduty.loop_succeeds_iff [of post 0 "attempts mr"]
      webapi.loop_succeeds_iff [of post 0 "attempts mr"] pagerduty.loop_waits [of "attempts mr" post 0]
    by (simp add: notify_forward_iff flashduty_forward_def pagerduty_forward_def webapi_forward_def)
qed

theorem forward_outcome_witness:
  "notify_forward [(''a'', \<lambda>e. False), (''b'', \<lambda>e. True)] zero_event
   \<and> fst (flashduty_forward True 2 (\<lambda>k. if k = 0 then DoFail else Response 200))"
proof -
  have "\<exists>k < attempts 2. fst (flashduty_do_post (if k = 0 then DoFail else Response 200))
      \<and> (\<forall>j < k. flashduty_do_post (if j = 0 then DoFail else Response 200) = (False, True))"
    by (intro exI [of _ 1]) (simp add: attempts_def flashduty_do_post_def)
  then show ?thesis
    using forward_outcome [of "[(''a'', \<lambda>e. False), (''b'', \<lambda>e. True)]" zero_event 2 "\<lambda>k. if k = 0 then DoFail else Response 200"]
    by simp
qed

text \<open>The byte cut of the PagerDuty summary can split a character.\<close>

lemma valid_replicate: "valid_utf8 (replicate n (CHR ''a'') @ s) \<longleftrightarrow> valid_utf8 s"
  by (induction n) (auto simp: rune_ok_ascii byte_def)

lemma pd_summary_splits_character:
  defines "d \<equiv> replicate 1023 (CHR ''a'') @ [CHR 0xC3, CHR 0xA9]"
  shows "valid_utf8 d \<and> \<not> valid_utf8 (pd_summary_of (zero_event\<lparr>description := d\<rparr>))"
proof -
  have "take 1024 d = replicate 1023 (CHR ''a'') @ [CHR 0xC3]"
    by (simp add: d_def)
  moreover have "valid_utf8 [CHR 0xC3, CHR 0xA9]" "\<not> valid_utf8 [CHR 0xC3]"
    by (simp_all add: rune_ok_def decode_rune_def first_info_def byte_def rune_error_def)
  ultimately show ?thesis
    by (simp add: pd_summary_of_def zero_event_def DescFormatMarkdown_def mstr_def valid_replicate d_def
        del: valid_utf8.simps)
qed

end
