(* ===== verification/DiagnoseTypes.thy ===== *)
theory DiagnoseTypes
  imports Events
begin

text \<open>
  The data of the diagnosis subsystem (\<open>diagnose/types.go\<close>) and the construction of a
  record (\<open>diagnose/record.go\<close>).  A Go \<open>error\<close> is a message, \<open>None\<close> for nil.  A tool
  carries handles of its two Go functions (\<open>None\<close> for a nil function); what the functions do
  is a parameter of the executor.  An event pointer is an address of the event heap.
\<close>

section \<open>Tools\<close>

type_synonym tool_scope = int

definition ToolScopeLocal :: tool_scope where "ToolScopeLocal = 0"
definition ToolScopeRemote :: tool_scope where "ToolScopeRemote = 1"

definition scope_string :: "tool_scope \<Rightarrow> string" where
  "scope_string s =
     (if s = ToolScopeLocal then ''local'' else if s = ToolScopeRemote then ''remote'' else ''unknown'')"

record tool_param =
  tp_name :: string
  tp_type :: string
  tp_description :: string
  tp_required :: bool

record diagnose_tool =
  dt_name :: string
  dt_description :: string
  dt_parameters :: "tool_param list"
  dt_scope :: tool_scope
  dt_supported_os :: "string list"
  dt_execute :: "nat option"
  dt_remote_execute :: "nat option"

fun os_loop :: "string list \<Rightarrow> string \<Rightarrow> bool" where
  "os_loop [] goos = False"
| "os_loop (x # xs) goos = (if x = goos then True else os_loop xs goos)"

definition supports_os :: "diagnose_tool \<Rightarrow> string \<Rightarrow> bool" where
  "supports_os t goos =
     (if length (dt_supported_os t) = 0 then True else os_loop (dt_supported_os t) goos)"

lemma supports_os_iff: "supports_os t goos \<longleftrightarrow> dt_supported_os t = [] \<or> goos \<in> set (dt_supported_os t)"
proof -
  have "os_loop xs goos \<longleftrightarrow> goos \<in> set xs" for xs by (induction xs) auto
  then show ?thesis by (simp add: supports_os_def)
qed

record tool_category =
  tc_name :: string
  tc_plugin :: string
  tc_description :: string
  tc_scope :: tool_scope
  tc_tools :: "diagnose_tool list"

section \<open>Requests and records\<close>

record check_snapshot =
  cs_check :: string
  cs_status :: string
  cs_current_value :: string
  cs_threshold_desc :: string
  cs_description :: string

definition ModeAlert :: string where "ModeAlert = ''alert''"
definition ModeInspect :: string where "ModeInspect = ''inspect''"

datatype progress_event_type = ProgressAIStart | ProgressAIDone | ProgressToolStart | ProgressToolDone

record progress_event =
  pe_type :: progress_event_type
  pe_round :: int
  pe_tool_name :: string
  pe_tool_args :: string
  pe_reasoning :: string
  pe_result_len :: int
  pe_is_error :: bool
  pe_tool_output :: string

record diagnose_request =
  rq_mode :: string
  rq_events :: "addr list"
  rq_plugin :: string
  rq_target :: string
  rq_runtime_os :: string
  rq_checks :: "check_snapshot list"
  rq_instance :: "nat option"
  rq_timeout :: int
  rq_cooldown :: int
  rq_descriptions :: string
  rq_on_progress :: bool

record alert_record =
  ar_plugin :: string
  ar_target :: string
  ar_checks :: "check_snapshot list"

record ai_record =
  air_model :: string
  total_rounds :: int
  input_tokens :: int
  output_tokens :: int

record tool_call_record =
  tcr_name :: string
  tcr_args :: "(string, string) gomap"
  tcr_result :: string
  tcr_duration_ms :: int

record round_record =
  rr_round :: int
  rr_tool_calls :: "tool_call_record list"
  rr_ai_reasoning :: string

record diagnose_record =
  rec_id :: string
  rec_mode :: string
  rec_status :: string
  rec_error :: string
  created_at :: int
  duration_ms :: int
  rec_alert :: alert_record
  rec_ai :: ai_record
  rec_rounds :: "round_record list"
  rec_report :: string

text \<open>\<open>Accessor\<close>: \<open>None\<close>, or a handle and whether it implements \<open>io.Closer\<close>.\<close>

record diagnose_session =
  accessor :: "(nat \<times> bool) option"
  sess_record :: diagnose_record
  start_time :: int

text \<open>The accessors closed by \<open>DiagnoseSession.Close\<close>.\<close>

definition session_close :: "diagnose_session \<Rightarrow> nat list" where
  "session_close s = (case accessor s of Some (h, True) \<Rightarrow> [h] | _ \<Rightarrow> [])"

section \<open>Building a record\<close>

definition safe_char :: "char \<Rightarrow> bool" where
  "safe_char c \<longleftrightarrow>
     (byte (CHR ''a'') \<le> byte c \<and> byte c \<le> byte (CHR ''z''))
     \<or> (byte (CHR ''A'') \<le> byte c \<and> byte c \<le> byte (CHR ''Z''))
     \<or> (byte (CHR ''0'') \<le> byte c \<and> byte c \<le> byte (CHR ''9''))
     \<or> c = CHR ''-'' \<or> c = CHR ''_''"

fun sanitize_target :: "string \<Rightarrow> string" where
  "sanitize_target [] = []"
| "sanitize_target (c # s) = (if safe_char c then c # sanitize_target s else CHR ''_'' # sanitize_target s)"

definition hex_digit :: "nat \<Rightarrow> char" where
  "hex_digit d = (if d < 10 then char_of (48 + d) else char_of (87 + d))"

text \<open>\<open>hex.EncodeToString\<close> of the two random bytes.\<close>

definition rand_hex4 :: "nat \<Rightarrow> nat \<Rightarrow> string" where
  "rand_hex4 b0 b1 =
     [hex_digit (b0 div 16), hex_digit (b0 mod 16), hex_digit (b1 div 16), hex_digit (b1 mod 16)]"

text \<open>\<open>now\<close> is \<open>time.Now()\<close> in nanoseconds, \<open>b0\<close> and \<open>b1\<close> the bytes of \<open>rand.Read\<close>.\<close>

definition new_diagnose_record :: "int \<Rightarrow> nat \<Rightarrow> nat \<Rightarrow> diagnose_request \<Rightarrow> diagnose_record" where
  "new_diagnose_record now b0 b1 req =
     (let mode = (if rq_mode req = '''' then ModeAlert else rq_mode req) in
      \<lparr>rec_id = mode @ ''_'' @ rq_plugin req @ ''_'' @ sanitize_target (rq_target req) @ ''_''
                  @ itoa (now div millisecond) @ ''_'' @ rand_hex4 b0 b1,
       rec_mode = mode,
       rec_status = ''running'',
       rec_error = '''',
       created_at = now,
       duration_ms = 0,
       rec_alert = \<lparr>ar_plugin = rq_plugin req, ar_target = rq_target req, ar_checks = rq_checks req\<rparr>,
       rec_ai = \<lparr>air_model = '''', total_rounds = 0, input_tokens = 0, output_tokens = 0\<rparr>,
       rec_rounds = [],
       rec_report = ''''\<rparr>)"

definition file_path :: "string \<Rightarrow> diagnose_record \<Rightarrow> string" where
  "file_path state_dir r = path_join [state_dir, ''diagnoses'', rec_id r @ ''.json'']"

section \<open>Lemmas\<close>

lemma sanitize_target_length: "length (sanitize_target s) = length s"
  by (induction s) auto

lemma sanitize_target_safe: "\<forall>c \<in> set (sanitize_target s). safe_char c"
  by (induction s) (auto simp: safe_char_def)

lemma sanitize_target_id: "\<forall>c \<in> set s. safe_char c \<Longrightarrow> sanitize_target s = s"
  by (induction s) auto

lemma slash_unsafe: "safe_char c \<Longrightarrow> c \<noteq> CHR ''/''"
  by (auto simp: safe_char_def byte_def)

lemma slash_digits: "CHR ''/'' \<notin> set (digits n)"
proof
  assume "CHR ''/'' \<in> set (digits n)"
  then obtain d :: nat where "CHR ''/'' = char_of (48 + d)" "d < 10" using set_digits [of n] by blast
  then have "byte (CHR ''/'') = 48 + d" by (simp only: byte_char_of)
  then show False by (simp add: byte_def)
qed

lemma slash_itoa: "CHR ''/'' \<notin> set (itoa i)"
  by (simp add: itoa_def slash_digits)

lemma slash_hex: "d < 16 \<Longrightarrow> hex_digit d \<noteq> CHR ''/''"
proof
  assume d: "d < 16" and h: "hex_digit d = CHR ''/''"
  have b: "byte (CHR ''/'') = 47" by (simp add: byte_def)
  show False
  proof (cases "d < 10")
    case True
    then have "byte (hex_digit d) = 48 + d"
      unfolding hex_digit_def by (simp only: if_True) (rule byte_char_of, simp)
    with h b show False by simp
  next
    case False
    then have "byte (hex_digit d) = 87 + d"
      using d unfolding hex_digit_def by (simp only: if_False) (rule byte_char_of, simp)
    with h b show False by simp
  qed
qed

lemma foldl_clean_last:
  "w \<noteq> [] \<Longrightarrow> w \<noteq> ''.'' \<Longrightarrow> w \<noteq> ''..'' \<Longrightarrow>
   foldl (clean_step r) out (ws @ [w]) = foldl (clean_step r) out ws @ [w]"
  by (simp add: clean_step_def)

lemma join_snoc: "ws \<noteq> [] \<Longrightarrow> join sep (ws @ [w]) = join sep ws @ sep @ w"
  by (induction sep ws rule: join.induct) auto

text \<open>A last path element without a slash ends up directly below the cleaned directory.\<close>

lemma path_join_child:
  assumes d: "CHR ''/'' \<notin> set d" "d \<noteq> []" "d \<noteq> ''.''" "d \<noteq> ''..''"
    and w: "CHR ''/'' \<notin> set w" "w \<noteq> []" "w \<noteq> ''.''" "w \<noteq> ''..''"
  shows "path_join [s, d, w] = path_join [s, d] @ ''/'' @ w"
proof -
  define p where "p = (if s = [] then d else s @ ''/'' @ d)"
  have "p \<noteq> []" using d(2) by (simp add: p_def)
  have joins: "path_join [s, d, w] = path_clean (p @ CHR ''/'' # w)" "path_join [s, d] = path_clean p"
    using d(2) w(2) by (auto simp: path_join_def p_def)
  have split: "split_on (CHR ''/'') (p @ CHR ''/'' # w) = split_on (CHR ''/'') p @ [w]"
    using split_on_append [of "CHR ''/''" p w] split_on_none [OF w(1)] by simp
  obtain ws where ws: "split_on (CHR ''/'') p = ws @ [d]"
  proof (cases "s = []")
    case True
    then show thesis using that [of "[]"] split_on_none [OF d(1)] by (simp add: p_def)
  next
    case False
    then show thesis
      using that split_on_append [of "CHR ''/''" s d] split_on_none [OF d(1)] by (simp add: p_def)
  qed
  let ?r = "hd p = CHR ''/''"
  have out: "foldl (clean_step ?r) [] (split_on (CHR ''/'') p) = foldl (clean_step ?r) [] ws @ [d]"
    unfolding ws using d(2-) by (rule foldl_clean_last)
  have out2: "foldl (clean_step ?r) [] (split_on (CHR ''/'') (p @ CHR ''/'' # w))
      = foldl (clean_step ?r) [] (split_on (CHR ''/'') p) @ [w]"
    unfolding split using w(2-) by (rule foldl_clean_last)
  have "join ''/'' (xs @ [d]) \<noteq> []" for xs
    using d(2) join_snoc [of xs "''/''" d] by (cases "xs = []") simp_all
  moreover have "join ''/'' (xs @ [d, w]) = join ''/'' (xs @ [d]) @ ''/'' @ w" for xs
    using join_snoc [of "xs @ [d]" "''/''" w] by simp
  ultimately show ?thesis
    using \<open>p \<noteq> []\<close> out out2 unfolding joins path_clean_def Let_def by (simp add: join_snoc)
qed

text \<open>
  A record is identified by its mode, plugin, target, time and a random suffix: when the
  mode and the plugin name contain no slash, whatever the target is, the record's file lies
  directly in the \<open>diagnoses\<close> directory, under the name of the record.
\<close>

theorem record_file_in_directory:
  assumes "CHR ''/'' \<notin> set (rq_mode req)" and "CHR ''/'' \<notin> set (rq_plugin req)"
    and "b0 < 256" and "b1 < 256"
  shows "file_path dir (new_diagnose_record now b0 b1 req)
      = path_join [dir, ''diagnoses''] @ ''/'' @ rec_id (new_diagnose_record now b0 b1 req) @ ''.json''
    \<and> rec_status (new_diagnose_record now b0 b1 req) = ''running''"
proof -
  let ?id = "rec_id (new_diagnose_record now b0 b1 req)"
  have hex: "hex_digit (b0 div 16) \<noteq> CHR ''/''" "hex_digit (b0 mod 16) \<noteq> CHR ''/''"
      "hex_digit (b1 div 16) \<noteq> CHR ''/''" "hex_digit (b1 mod 16) \<noteq> CHR ''/''"
    using assms(3,4) by (auto intro!: slash_hex simp del: One_nat_def)
  have "\<not> safe_char (CHR ''/'')" using slash_unsafe by blast
  then have "CHR ''/'' \<notin> set (sanitize_target (rq_target req))"
    using sanitize_target_safe by blast
  then have "CHR ''/'' \<notin> set ?id"
    using assms(1,2) hex [symmetric] slash_itoa
    by (simp add: new_diagnose_record_def Let_def rand_hex4_def ModeAlert_def)
  then have "path_join [dir, ''diagnoses'', ?id @ ''.json'']
      = path_join [dir, ''diagnoses''] @ ''/'' @ (?id @ ''.json'')"
    by (intro path_join_child) (auto simp: append_eq_Cons_conv)
  then show ?thesis
    by (simp add: file_path_def new_diagnose_record_def Let_def)
qed

definition example_request :: "string \<Rightarrow> string \<Rightarrow> diagnose_request" where
  "example_request plugin target =
     \<lparr>rq_mode = '''', rq_events = [], rq_plugin = plugin, rq_target = target, rq_runtime_os = '''',
      rq_checks = [], rq_instance = None, rq_timeout = 0, rq_cooldown = 0, rq_descriptions = '''',
      rq_on_progress = False\<rparr>"

theorem record_file_in_directory_witness:
  "file_path ''/s'' (new_diagnose_record 0 1 2 (example_request ''disk'' ''../x''))
      = path_join [''/s'', ''diagnoses''] @ ''/''
          @ rec_id (new_diagnose_record 0 1 2 (example_request ''disk'' ''../x'')) @ ''.json''"
  using record_file_in_directory [of "example_request ''disk'' ''../x''" 1 2 "''/s''" 0]
  by (simp add: example_request_def)

text \<open>The plugin name, unlike the target, is not sanitised: slashes in it leave the directory.\<close>

lemma char_of_48: "char_of (48::nat) = CHR ''0''"
  by (rule char_eq_byte) (simp add: byte_def)

lemma record_file_escapes:
  "file_path ''/s'' (new_diagnose_record 0 0 0 (example_request ''a/../../../etc/x'' ''t''))
     = ''/etc/x_t_0_0000.json''"
  by (simp add: file_path_def new_diagnose_record_def example_request_def ModeAlert_def Let_def itoa_def
      digits.simps rand_hex4_def hex_digit_def safe_char_def byte_def millisecond_def path_join_def
      path_clean_def clean_step_def char_of_48)

end
