(* ===== verification/Aggregator.thy ===== *)
theory Aggregator
  imports DiagnoseTypes "HOL-Library.Multiset"
begin

text \<open>
  \<open>diagnose/aggregator.go\<close>: alerts of one plugin and target that arrive within a time window
  become one request.  \<open>pending\<close> and \<open>timers\<close> are the two maps; \<open>armed\<close> is the run-time
  system's list of timers that were started and neither fired nor stopped, each with the key its
  callback closes over.  The mutex makes \<open>Submit\<close>, the callback and \<open>Shutdown\<close> atomic;
  \<open>agg_step\<close> is their interleaving.  What \<open>engine.Submit\<close> receives is the result of
  the callback.
\<close>

record aggregator =
  pending :: "(string, diagnose_request) gomap"
  timers :: "(string, nat) gomap"
  window :: int
  armed :: "(nat \<times> string) list"
  next_timer :: nat

definition new_aggregator :: "int \<Rightarrow> aggregator" where
  "new_aggregator win =
     (let win = (if win \<le> 0 then 5 * second else win) in
      \<lparr>pending = [], timers = [], window = win, armed = [], next_timer = 0\<rparr>)"

definition should_trigger :: "diagnose_config \<Rightarrow> string \<Rightarrow> bool" where
  "should_trigger cfg status =
     (if \<not> dc_enabled cfg then False
      else let ms = (if min_severity cfg = '''' then EventStatusWarning else min_severity cfg)
           in severity_rank status \<ge> severity_rank ms)"

definition extract_attr :: "event \<Rightarrow> string \<Rightarrow> string \<Rightarrow> string" where
  "extract_attr e key fallback =
     (case attrs e of
        Some a \<Rightarrow> (case mget a key of Some v \<Rightarrow> if v \<noteq> '''' then v else fallback | None \<Rightarrow> fallback)
      | None \<Rightarrow> fallback)"

definition extract_check_snapshot :: "event \<Rightarrow> check_snapshot" where
  "extract_check_snapshot e =
     \<lparr>cs_check = mstr (nil_map (labels e)) ''check'',
      cs_status = event_status e,
      cs_current_value = extract_attr e AttrCurrentValue '''',
      cs_threshold_desc = extract_attr e AttrThresholdDesc '''',
      cs_description = description e\<rparr>"

definition agg_target :: "event \<Rightarrow> string \<Rightarrow> string" where
  "agg_target e plugin_name =
     (let t = mstr (nil_map (labels e)) ''target'' in if t = '''' then plugin_name else t)"

definition agg_key :: "event \<Rightarrow> string \<Rightarrow> string" where
  "agg_key e plugin_name = plugin_name @ ''::'' @ agg_target e plugin_name"

text \<open>\<open>ai_enabled\<close> is \<open>config.Config.AI.Enabled\<close>; \<open>p\<close> is the pointer to the event \<open>e\<close>.\<close>

definition agg_submit ::
  "bool \<Rightarrow> event \<Rightarrow> addr \<Rightarrow> check_snapshot \<Rightarrow> string \<Rightarrow> nat option \<Rightarrow> diagnose_config \<Rightarrow> aggregator \<Rightarrow> aggregator" where
  "agg_submit ai_enabled e p snapshot plugin_name ins cfg a =
     (if \<not> ai_enabled then a
      else if event_status e = EventStatusOk then a
      else if \<not> should_trigger cfg (event_status e) then a
      else
        let target = agg_target e plugin_name; key = agg_key e plugin_name in
        case mget (pending a) key of
          Some req \<Rightarrow>
            a\<lparr>pending := mput key (req\<lparr>rq_events := rq_events req @ [p], rq_checks := rq_checks req @ [snapshot]\<rparr>)
                (pending a)\<rparr>
        | None \<Rightarrow>
            let tmo = (if dc_timeout cfg = 0 then 60 * second else dc_timeout cfg);
                cooldown = (if dc_cooldown cfg = 0 then 10 * minute else dc_cooldown cfg);
                req = \<lparr>rq_mode = '''', rq_events = [p], rq_plugin = plugin_name, rq_target = target,
                       rq_runtime_os = '''', rq_checks = [snapshot], rq_instance = ins, rq_timeout = tmo,
                       rq_cooldown = cooldown, rq_descriptions = '''', rq_on_progress = False\<rparr>
            in a\<lparr>pending := mput key req (pending a),
                 timers := mput key (next_timer a) (timers a),
                 armed := (next_timer a, key) # armed a,
                 next_timer := Suc (next_timer a)\<rparr>)"

text \<open>The callback of a timer; the result is the request handed to \<open>engine.Submit\<close>, if any.\<close>

definition agg_fire :: "nat \<Rightarrow> string \<Rightarrow> aggregator \<Rightarrow> diagnose_request option \<times> aggregator" where
  "agg_fire t key a =
     (mget (pending a) key,
      a\<lparr>pending := mdel key (pending a), timers := mdel key (timers a), armed := remove1 (t, key) (armed a)\<rparr>)"

text \<open>
  The loop of \<open>Shutdown\<close> over the timers.  \<open>Stop\<close> removes an armed timer; a callback that is
  already running (\<open>late\<close>) is not stopped and only waits for the mutex.
\<close>

fun shutdown_loop :: "(string \<times> nat) list \<Rightarrow> (nat \<times> string \<Rightarrow> bool) \<Rightarrow> aggregator \<Rightarrow> aggregator" where
  "shutdown_loop [] late a = a"
| "shutdown_loop ((key, t) # ts) late a =
     shutdown_loop ts late
       (a\<lparr>armed := filter (\<lambda>x. x \<noteq> (t, key) \<or> late x) (armed a),
          timers := mdel key (timers a),
          pending := mdel key (pending a)\<rparr>)"

definition agg_shutdown :: "(nat \<times> string \<Rightarrow> bool) \<Rightarrow> aggregator \<Rightarrow> aggregator" where
  "agg_shutdown late a = shutdown_loop (timers a) late a"

section \<open>Interleavings\<close>

text \<open>
  A history: the aggregator, the events accepted so far, the requests handed over, and the
  requests a shutdown discarded.
\<close>

record agg_hist =
  agg :: aggregator
  accepted :: "addr list"
  handed :: "diagnose_request list"
  discarded :: "diagnose_request list"

definition accepts :: "bool \<Rightarrow> event \<Rightarrow> diagnose_config \<Rightarrow> bool" where
  "accepts ai e cfg \<longleftrightarrow> ai \<and> event_status e \<noteq> EventStatusOk \<and> should_trigger cfg (event_status e)"

inductive agg_step :: "agg_hist \<Rightarrow> agg_hist \<Rightarrow> bool" where
  Submit: "agg_step h (h\<lparr>agg := agg_submit ai e p snap pl ins cfg (agg h),
      accepted := accepted h @ (if accepts ai e cfg then [p] else [])\<rparr>)"
| Fire: "(t, key) \<in> set (armed (agg h)) \<Longrightarrow> agg_fire t key (agg h) = (r, a') \<Longrightarrow>
    agg_step h (h\<lparr>agg := a', handed := handed h @ (case r of None \<Rightarrow> [] | Some q \<Rightarrow> [q])\<rparr>)"
| Shutdown: "agg_step h (h\<lparr>agg := agg_shutdown late (agg h),
      discarded := discarded h @ map snd (pending (agg h))\<rparr>)"

inductive_cases agg_stepE: "agg_step h h'"

inductive agg_reach :: "int \<Rightarrow> agg_hist \<Rightarrow> bool" for w :: int where
  start: "agg_reach w \<lparr>agg = new_aggregator w, accepted = [], handed = [], discarded = []\<rparr>"
| step: "agg_reach w h \<Longrightarrow> agg_step h h' \<Longrightarrow> agg_reach w h'"

section \<open>Invariant\<close>

text \<open>
  Both maps have the same keys; a pending request has a timer that is still armed, so that it is
  handed over or discarded; a request is never empty, carries one snapshot per event and the key
  it is stored under.
\<close>

definition req_ok :: "string \<Rightarrow> diagnose_request \<Rightarrow> bool" where
  "req_ok key r \<longleftrightarrow> rq_events r \<noteq> [] \<and> length (rq_checks r) = length (rq_events r)
     \<and> key = rq_plugin r @ ''::'' @ rq_target r \<and> rq_timeout r \<noteq> 0 \<and> rq_cooldown r \<noteq> 0"

definition agg_ok :: "aggregator \<Rightarrow> bool" where
  "agg_ok a \<longleftrightarrow> go_map_ok (pending a) \<and> go_map_ok (timers a)
     \<and> fst ` set (pending a) = fst ` set (timers a)
     \<and> (\<forall>key t. mget (timers a) key = Some t \<longrightarrow> (t, key) \<in> set (armed a))
     \<and> (\<forall>key r. mget (pending a) key = Some r \<longrightarrow> req_ok key r)
     \<and> (\<forall>x \<in> set (armed a). fst x < next_timer a) \<and> distinct (map fst (armed a))"

definition events_of :: "diagnose_request list \<Rightarrow> addr multiset" where
  "events_of rs = mset (concat (map rq_events rs))"

lemma events_of_simps [simp]:
  "events_of [] = {#}" "events_of (r # rs) = mset (rq_events r) + events_of rs"
  "events_of (rs @ rs') = events_of rs + events_of rs'"
  by (simp_all add: events_of_def)

lemma events_of_mput_new:
  "mget m k = None \<Longrightarrow> events_of (map snd (mput k r m)) = events_of (map snd m) + mset (rq_events r)"
  by (induction m) (auto simp: mput_def)

lemma events_of_mput_old:
  "go_map_ok m \<Longrightarrow> mget m k = Some r \<Longrightarrow> mset (rq_events r') = mset (rq_events r) + d \<Longrightarrow>
   events_of (map snd (mput k r' m)) = events_of (map snd m) + d"
  by (induction m) (auto simp: mput_def go_map_ok_def ac_simps)

lemma mdel_absent: "mget m k = None \<Longrightarrow> mdel k m = m"
  by (simp add: mdel_def mget_None_iff delete_id)

lemma events_of_mdel:
  "go_map_ok m \<Longrightarrow> mget m k = Some r \<Longrightarrow>
   events_of (map snd m) = mset (rq_events r) + events_of (map snd (mdel k m))"
proof (induction m)
  case Nil
  then show ?case by simp
next
  case (Cons x m)
  obtain a b where x: "x = (a, b)" by force
  show ?case
  proof (cases "a = k")
    case True
    with Cons.prems x have "mget m k = None" by (auto simp: go_map_ok_def mget_None_iff)
    then have "mdel k ((a, b) # m) = m" using True mdel_absent [of m k] by (simp add: mdel_def)
    with x True Cons.prems show ?thesis by simp
  next
    case False
    with x have "mdel k (x # m) = x # mdel k m" by (simp add: mdel_def)
    with False x Cons show ?thesis by (auto simp: go_map_ok_def ac_simps)
  qed
qed

lemma new_aggregator_ok: "agg_ok (new_aggregator w)"
  by (simp add: agg_ok_def new_aggregator_def Let_def)

lemma agg_ok_append:
  assumes "agg_ok a" "mget (pending a) key = Some r" "req_ok key r'"
  shows "agg_ok (a\<lparr>pending := mput key r' (pending a)\<rparr>)"
proof -
  have "key \<in> fst ` set (pending a)" using assms(2) mget_None_iff [of "pending a" key] by auto
  with assms show ?thesis by (simp add: agg_ok_def insert_absorb)
qed

lemma agg_ok_insert:
  assumes "agg_ok a" "req_ok key r"
  shows "agg_ok (a\<lparr>pending := mput key r (pending a), timers := mput key (next_timer a) (timers a),
    armed := (next_timer a, key) # armed a, next_timer := Suc (next_timer a)\<rparr>)"
proof -
  have A: "go_map_ok (pending a)" "go_map_ok (timers a)" "fst ` set (pending a) = fst ` set (timers a)"
      "\<And>k t. mget (timers a) k = Some t \<Longrightarrow> (t, k) \<in> set (armed a)"
      "\<And>k q. mget (pending a) k = Some q \<Longrightarrow> req_ok k q"
      "\<And>x. x \<in> set (armed a) \<Longrightarrow> fst x < next_timer a" "distinct (map fst (armed a))"
    using assms(1) unfolding agg_ok_def by blast+
  have "next_timer a \<notin> set (map fst (armed a))" using A(6) by fastforce
  then show ?thesis
    unfolding agg_ok_def
    apply (intro conjI)
    subgoal using A by simp
    subgoal using A by simp
    subgoal using A(3) by simp
    subgoal by (simp add: A(4))
    subgoal by (simp add: A(5) assms(2))
    subgoal using A(6) by (auto intro: less_SucI)
    subgoal using A(7) by simp
    done
qed

lemma req_ok_append: "req_ok key r \<Longrightarrow>
    req_ok key (r\<lparr>rq_events := rq_events r @ [p], rq_checks := rq_checks r @ [snap]\<rparr>)"
  by (simp add: req_ok_def)

lemma agg_submit_ok:
  assumes "agg_ok a"
  shows "agg_ok (agg_submit ai e p snap pl ins cfg a)"
proof (cases "accepts ai e cfg")
  case False
  with assms show ?thesis by (auto simp: agg_submit_def accepts_def)
next
  case True
  then have acc: "\<not> \<not> ai" "event_status e \<noteq> EventStatusOk" "\<not> \<not> should_trigger cfg (event_status e)"
    by (simp_all add: accepts_def)
  show ?thesis
  proof (cases "mget (pending a) (agg_key e pl)")
    case None
    show ?thesis
      unfolding agg_submit_def Let_def None option.case if_not_P [OF acc(1)] if_not_P [OF acc(2)] if_not_P [OF acc(3)]
      by (rule agg_ok_insert [OF assms]) (simp add: req_ok_def agg_key_def duration_units)
  next
    case (Some r)
    have "req_ok (agg_key e pl) r" using assms Some by (simp add: agg_ok_def)
    then show ?thesis
      unfolding agg_submit_def Let_def Some option.case if_not_P [OF acc(1)] if_not_P [OF acc(2)] if_not_P [OF acc(3)]
      by (intro agg_ok_append [OF assms Some] req_ok_append)
  qed
qed

lemma agg_fire_ok:
  assumes "agg_ok a" "(t, key) \<in> set (armed a)"
  shows "agg_ok (snd (agg_fire t key a))"
proof -
  have "(t', k') \<in> set (remove1 (t, key) (armed a))" if "k' \<noteq> key" "mget (timers a) k' = Some t'" for t' k'
    using assms(1) that by (auto simp: agg_ok_def in_set_remove1)
  moreover have "distinct (map fst (remove1 (t, key) (armed a)))" if "distinct (map fst (armed a))"
    using that by (simp add: distinct_map inj_on_def)
  moreover have "\<forall>x \<in> set (remove1 (t, key) (armed a)). fst x < next_timer a"
    using assms(1) by (meson agg_ok_def notin_set_remove1)
  ultimately show ?thesis
    using assms by (auto simp: agg_ok_def agg_fire_def)
qed

lemma shutdown_loop_frame:
  "go_map_ok (pending a) \<Longrightarrow> go_map_ok (timers a) \<Longrightarrow>
   let a' = shutdown_loop ts late a in
     go_map_ok (pending a') \<and> go_map_ok (timers a') \<and> next_timer a' = next_timer a
     \<and> (\<forall>k. mget (pending a') k = (if k \<in> fst ` set ts then None else mget (pending a) k))
     \<and> (\<forall>k. mget (timers a') k = (if k \<in> fst ` set ts then None else mget (timers a) k))
     \<and> set (armed a') \<subseteq> set (armed a) \<and> (distinct (map fst (armed a)) \<longrightarrow> distinct (map fst (armed a')))"
  by (induction ts late a rule: shutdown_loop.induct) (auto simp: Let_def distinct_map_filter)

lemma mget_all_None: "(\<And>k. mget m k = None) \<Longrightarrow> m = []"
proof (cases m)
  case (Cons x m')
  moreover assume "\<And>k. mget m k = None"
  ultimately have "mget (x # m') (fst x) = None" by blast
  then show ?thesis by simp
qed

lemma agg_shutdown_clears:
  assumes "agg_ok a"
  shows "pending (agg_shutdown late a) = []" "timers (agg_shutdown late a) = []"
    "agg_ok (agg_shutdown late a)"
proof -
  note fr = shutdown_loop_frame [of a "timers a" late, folded agg_shutdown_def, unfolded Let_def]
  have ok: "go_map_ok (pending a)" "go_map_ok (timers a)" "fst ` set (pending a) = fst ` set (timers a)"
    using assms by (simp_all add: agg_ok_def)
  show t: "timers (agg_shutdown late a) = []"
    by (rule mget_all_None) (use fr ok in \<open>auto simp: mget_None_iff\<close>)
  show p: "pending (agg_shutdown late a) = []"
    by (rule mget_all_None) (use fr ok in \<open>auto simp: mget_None_iff\<close>)
  show "agg_ok (agg_shutdown late a)"
    using fr ok assms t p by (auto simp: agg_ok_def)
qed

section \<open>Properties\<close>

lemma agg_reach_ok: "agg_reach w h \<Longrightarrow> agg_ok (agg h)"
proof (induction rule: agg_reach.induct)
  case start
  then show ?case by (simp add: new_aggregator_ok)
next
  case (step h h')
  from step(2,3) show ?case
    by (cases rule: agg_step.cases)
      (auto simp: agg_submit_ok agg_shutdown_clears dest: agg_fire_ok)
qed

lemma agg_submit_events:
  "agg_ok a \<Longrightarrow> events_of (map snd (pending (agg_submit ai e p snap pl ins cfg a)))
     = events_of (map snd (pending a)) + (if accepts ai e cfg then {#p#} else {#})"
  by (auto simp: agg_submit_def accepts_def Let_def agg_ok_def events_of_mput_new
      events_of_mput_old [where d = "{#p#}"] split: option.splits)

lemma agg_fire_events:
  "agg_ok a \<Longrightarrow> agg_fire t k a = (r, a') \<Longrightarrow>
   events_of (map snd (pending a)) = events_of (case r of None \<Rightarrow> [] | Some q \<Rightarrow> [q]) + events_of (map snd (pending a'))"
  by (auto simp: agg_fire_def agg_ok_def mdel_absent events_of_mdel split: option.splits)

text \<open>
  C4. No alert is lost or diagnosed twice by the aggregation: in every interleaving of
  submissions, window timers and shutdowns, the accepted events are exactly those handed to the
  engine, those discarded by a shutdown and those still pending, and every pending request is
  non-empty, has one snapshot per event and a timer that is still going to fire.
\<close>

theorem aggregation_conserves:
  assumes "agg_reach w h"
  shows "mset (accepted h) = events_of (handed h) + events_of (discarded h) + events_of (map snd (pending (agg h)))
    \<and> (\<forall>key r. mget (pending (agg h)) key = Some r \<longrightarrow> req_ok key r \<and> (\<exists>t. (t, key) \<in> set (armed (agg h))))"
proof
  show "mset (accepted h) = events_of (handed h) + events_of (discarded h) + events_of (map snd (pending (agg h)))"
    using assms
  proof (induction rule: agg_reach.induct)
    case start
    then show ?case by (simp add: new_aggregator_def Let_def)
  next
    case (step h h')
    have ok: "agg_ok (agg h)" using step(1) by (rule agg_reach_ok)
    from step(2,3) show ?case
      by (cases rule: agg_step.cases)
        (auto simp: ok agg_submit_events agg_shutdown_clears dest: agg_fire_events [OF ok])
  qed
  have ok: "agg_ok (agg h)" using assms by (rule agg_reach_ok)
  show "\<forall>key r. mget (pending (agg h)) key = Some r \<longrightarrow> req_ok key r \<and> (\<exists>t. (t, key) \<in> set (armed (agg h)))"
  proof (intro allI impI)
    fix key r assume r: "mget (pending (agg h)) key = Some r"
    then have "key \<in> fst ` set (timers (agg h))"
      using ok mget_None_iff [of "pending (agg h)" key] by (auto simp: agg_ok_def)
    then obtain t where "mget (timers (agg h)) key = Some t"
      using mget_None_iff [of "timers (agg h)" key] by auto
    with ok r show "req_ok key r \<and> (\<exists>t. (t, key) \<in> set (armed (agg h)))"
      unfolding agg_ok_def by blast
  qed
qed

definition example_alert :: event where
  "example_alert = zero_event\<lparr>event_status := EventStatusWarning, labels := Some [(''target'', ''db'')]\<rparr>"

definition example_cfg :: diagnose_config where
  "example_cfg = \<lparr>dc_enabled = True, min_severity = '''', dc_timeout = 0, dc_cooldown = 0\<rparr>"

theorem aggregation_conserves_witness:
  "\<exists>h :: agg_hist. accepted h = [7] \<and> mset (accepted h) =
     events_of (handed h) + events_of (discarded h) + events_of (map snd (pending (agg h)))"
proof -
  let ?h0 = "\<lparr>agg = new_aggregator 0, accepted = [], handed = [], discarded = []\<rparr>"
  let ?h = "?h0\<lparr>agg := agg_submit True example_alert 7 (extract_check_snapshot example_alert) ''disk'' None
      example_cfg (agg ?h0), accepted := accepted ?h0 @ (if accepts True example_alert example_cfg then [7] else [])\<rparr>"
  have reach: "agg_reach 0 ?h"
    by (rule agg_reach.step [OF agg_reach.start], rule agg_step.Submit)
  have "accepts True example_alert example_cfg"
    by (simp add: accepts_def example_alert_def example_cfg_def should_trigger_def event_statuses severity_rank_def)
  then have "accepted ?h = [7]" by simp
  with reach obtain h where "agg_reach 0 h" and "accepted h = [7]" by blast
  with aggregation_conserves [of 0 h] show ?thesis by blast
qed

end
