(* ===== verification/AlertEngine.thy ===== *)
theory AlertEngine
  imports Events SafeQueue Notify Aggregator
begin

text \<open>
  The alerting engine (\<open>engine/engine.go\<close>): what happens to the raw events a plugin queued.
  The state is the heap of event objects, the event cache (alert key to pointer), the keys whose
  alert already started a diagnosis, the aggregator and the log of what was forwarded and with
  which outcome.  The registered notifiers are a function of that log, so that their outcomes
  may depend in any way on what was sent before.  \<open>md5\<close> is \<open>str.MD5\<close> of a third-party
  package.  Each event object owns its label map, as the maps \<open>BuildEvent\<close> makes.
\<close>

type_synonym send_log = "(event \<times> bool) list"

record engine_env =
  notifiers_at :: "send_log \<Rightarrow> notifier list"
  md5 :: "string \<Rightarrow> string"
  global_labels :: "(string, string) gomap"
  agent_ip :: string
  agent_hostname :: string
  from_agent :: string
  env_ai_enabled :: bool

record plugin =
  pl_name :: string
  pl_labels :: "(string, string) gomap"

record instance_ref =
  in_id :: nat
  in_config :: internal_config

record world =
  heap :: event_heap
  cache :: event_cache
  diagnosed :: "(string, unit) gomap"
  sent_log :: send_log
  global_agg :: "aggregator option"

section \<open>Cleaning\<close>

fun key_text :: "(string, string) gomap \<Rightarrow> string list \<Rightarrow> string" where
  "key_text m [] = ''''"
| "key_text m (k # ks) = k @ '':'' @ mstr m k @ '':'' @ key_text m ks"

definition full_labels :: "engine_env \<Rightarrow> plugin \<Rightarrow> internal_config \<Rightarrow> (string, string) gomap \<Rightarrow> (string, string) gomap" where
  "full_labels env pl ic m =
     (let m = mput ''from_plugin'' (pl_name pl) m;
          m = mmerge m (pl_labels pl);
          m = mmerge m (get_labels ic);
          m = mmerge m (global_labels env);
          m = mput ''from_hostip'' (agent_ip env) m;
          m = mput ''from_hostname'' (agent_hostname env) m
      in mput ''from_agent'' (from_agent env) m)"

text \<open>\<open>clean\<close> on the event object: the object afterwards and whether there was no error.\<close>

definition clean_event :: "engine_env \<Rightarrow> int \<Rightarrow> plugin \<Rightarrow> internal_config \<Rightarrow> event \<Rightarrow> event \<times> bool" where
  "clean_event env now pl ic e =
     (let e = (if event_time e = 0 then e\<lparr>event_time := now\<rparr> else e) in
      if \<not> event_status_valid (event_status e) then (e, False)
      else
        let m = full_labels env pl ic (nil_map (labels e)) in
        (e\<lparr>labels := Some m, alert_key := md5 env (key_text m (sorted_keys m))\<rparr>, True))"

section \<open>Forwarding, alerts and recoveries\<close>

definition engine_forward :: "engine_env \<Rightarrow> addr \<Rightarrow> world \<Rightarrow> bool \<times> world" where
  "engine_forward env p w =
     (let e = heap w p; ok = notify_forward (notifiers_at env (sent_log w)) e
      in (ok, w\<lparr>sent_log := sent_log w @ [(e, ok)]\<rparr>))"

definition may_trigger_diagnose :: "engine_env \<Rightarrow> addr \<Rightarrow> string \<Rightarrow> instance_ref \<Rightarrow> world \<Rightarrow> world" where
  "may_trigger_diagnose env p plugin_name ins w =
     (case global_agg w of
        None \<Rightarrow> w
      | Some a \<Rightarrow>
          let e = heap w p in
          if mget (diagnosed w) (alert_key e) \<noteq> None then w
          else
            let snapshot = extract_check_snapshot e;
                cfg = get_diagnose_config (in_config ins);
                a' = agg_submit (env_ai_enabled env) e p snapshot plugin_name (Some (in_id ins)) cfg a
            in w\<lparr>global_agg := Some a', diagnosed := mput (alert_key e) () (diagnosed w)\<rparr>)"

definition handle_recovery_event :: "engine_env \<Rightarrow> instance_ref \<Rightarrow> addr \<Rightarrow> world \<Rightarrow> world" where
  "handle_recovery_event env ins p w =
     (let w = w\<lparr>diagnosed := mdel (alert_key (heap w p)) (diagnosed w)\<rparr> in
      case cache_get (cache w) (alert_key (heap w p)) of
        None \<Rightarrow> w
      | Some old \<Rightarrow>
          let w = w\<lparr>cache := cache_del (alert_key (heap w old)) (cache w)\<rparr> in
          if \<not> disable_recovery_notification (get_alerting (in_config ins)) \<and> last_sent (heap w old) > 0
          then snd (engine_forward env p w) else w)"

definition set_event :: "addr \<Rightarrow> event \<Rightarrow> world \<Rightarrow> world" where
  "set_event p e w = w\<lparr>heap := (heap w)(p := e)\<rparr>"

definition handle_alert_event :: "engine_env \<Rightarrow> instance_ref \<Rightarrow> addr \<Rightarrow> world \<Rightarrow> bool \<times> world" where
  "handle_alert_event env ins p w =
     (let al = get_alerting (in_config ins) in
      case cache_get (cache w) (alert_key (heap w p)) of
        None \<Rightarrow>
          let w = set_event p ((heap w p)\<lparr>first_fire_time := event_time (heap w p)\<rparr>) w;
              w = w\<lparr>cache := cache_set (heap w) p (cache w)\<rparr>
          in if for_duration al = 0 then
               (case engine_forward env p w of
                  (True, w) \<Rightarrow>
                    (True, set_event p ((heap w p)\<lparr>last_sent := event_time (heap w p),
                       notify_count := wrap64 (notify_count (heap w p) + 1)\<rparr>) w)
                | (False, w) \<Rightarrow> (False, w))
             else (False, w)
      | Some old \<Rightarrow>
          if for_duration al > 0
             \<and> wrap64 (event_time (heap w p) - first_fire_time (heap w old)) < quot (for_duration al) second
          then (False, w)
          else if repeat_number al > 0 \<and> notify_count (heap w old) \<ge> repeat_number al then (False, w)
          else if repeat_interval al > 0
             \<and> wrap64 (event_time (heap w p) - last_sent (heap w old)) < quot (repeat_interval al) second
          then (False, w)
          else
            let w = set_event p ((heap w p)\<lparr>first_fire_time := first_fire_time (heap w old),
                      notify_count := wrap64 (notify_count (heap w old) + 1)\<rparr>) w
            in case engine_forward env p w of
                 (True, w) \<Rightarrow>
                   let w = set_event p ((heap w p)\<lparr>last_sent := event_time (heap w p)\<rparr>) w
                   in (True, w\<lparr>cache := cache_set (heap w) p (cache w)\<rparr>)
               | (False, w) \<Rightarrow> (False, w))"

definition process_event :: "engine_env \<Rightarrow> int \<Rightarrow> plugin \<Rightarrow> instance_ref \<Rightarrow> addr \<Rightarrow> world \<Rightarrow> world" where
  "process_event env now pl ins p w =
     (case clean_event env now pl (in_config ins) (heap w p) of
        (e, False) \<Rightarrow> set_event p e w
      | (e, True) \<Rightarrow>
          let w = set_event p e w in
          if al_disabled (get_alerting (in_config ins)) then w
          else if event_status (heap w p) = EventStatusOk then handle_recovery_event env ins p w
          else (case handle_alert_event env ins p w of
              (True, w) \<Rightarrow> may_trigger_diagnose env p (pl_name pl) ins w
            | (False, w) \<Rightarrow> w))"

fun push_loop :: "engine_env \<Rightarrow> int \<Rightarrow> plugin \<Rightarrow> instance_ref \<Rightarrow> addr option list \<Rightarrow> world \<Rightarrow> world" where
  "push_loop env now pl ins [] w = w"
| "push_loop env now pl ins (None # ps) w = push_loop env now pl ins ps w"
| "push_loop env now pl ins (Some p # ps) w = push_loop env now pl ins ps (process_event env now pl ins p w)"

text \<open>\<open>None\<close> would be a panic in the queue; \<open>now\<close> is \<open>time.Now().Unix()\<close>.\<close>

definition push_raw_events ::
  "engine_env \<Rightarrow> int \<Rightarrow> plugin \<Rightarrow> instance_ref \<Rightarrow> addr option squeue \<Rightarrow> world \<Rightarrow> (addr option squeue \<times> world) option" where
  "push_raw_events env now pl ins q w =
     (if queue_len q = 0 then Some (q, w)
      else map_option (\<lambda>(events, q). (q, push_loop env now pl ins events w)) (pop_back_all q))"

section \<open>Labels and alert keys\<close>

lemma full_labels_ok: "go_map_ok m \<Longrightarrow> go_map_ok (full_labels env pl ic m)"
  by (simp add: full_labels_def Let_def)

lemma mget_full_labels:
  assumes "go_map_ok (pl_labels pl)" "go_map_ok (get_labels ic)" "go_map_ok (global_labels env)"
  shows "mget (full_labels env pl ic m) k =
     (if k = ''from_agent'' then Some (from_agent env)
      else if k = ''from_hostname'' then Some (agent_hostname env)
      else if k = ''from_hostip'' then Some (agent_ip env)
      else case mget (global_labels env) k of Some v \<Rightarrow> Some v
      | None \<Rightarrow> (case mget (get_labels ic) k of Some v \<Rightarrow> Some v
      | None \<Rightarrow> (case mget (pl_labels pl) k of Some v \<Rightarrow> Some v
      | None \<Rightarrow> if k = ''from_plugin'' then Some (pl_name pl) else mget m k)))"
  using assms by (simp add: full_labels_def Let_def mget_mmerge_ok split: option.splits)

lemma key_text_cong: "(\<And>k. mget m k = mget m' k) \<Longrightarrow> key_text m ks = key_text m' ks"
  by (induction ks) (auto simp: mstr_def)

text \<open>
  Cleaning keeps the labels of an event under a fixed precedence (identity over global over
  instance over plugin over the plugin's name over the event's own), and the alert key depends
  only on the resulting label values, not on any map's iteration order.
\<close>

theorem clean_labels_and_key:
  assumes "event_status_valid (event_status e)" and "go_map_ok (nil_map (labels e))"
    and "go_map_ok (pl_labels pl)" "go_map_ok (get_labels ic)" "go_map_ok (global_labels env)"
    and "go_map_ok m" and "\<And>k. mget m k = mget (nil_map (labels e)) k"
  shows "snd (clean_event env now pl ic e)
    \<and> mget (nil_map (labels (fst (clean_event env now pl ic e)))) k =
        (if k = ''from_agent'' then Some (from_agent env)
         else if k = ''from_hostname'' then Some (agent_hostname env)
         else if k = ''from_hostip'' then Some (agent_ip env)
         else case mget (global_labels env) k of Some v \<Rightarrow> Some v
         | None \<Rightarrow> (case mget (get_labels ic) k of Some v \<Rightarrow> Some v
         | None \<Rightarrow> (case mget (pl_labels pl) k of Some v \<Rightarrow> Some v
         | None \<Rightarrow> if k = ''from_plugin'' then Some (pl_name pl) else mget (nil_map (labels e)) k)))
    \<and> alert_key (fst (clean_event env now pl ic (e\<lparr>labels := Some m\<rparr>)))
        = alert_key (fst (clean_event env now pl ic e))"
proof -
  let ?m1 = "full_labels env pl ic (nil_map (labels e))" and ?m2 = "full_labels env pl ic m"
  have eq: "mget ?m2 k = mget ?m1 k" for k
    using assms by (simp add: mget_full_labels split: option.split)
  have "sorted_keys ?m2 = sorted_keys ?m1"
    using assms eq by (intro sorted_keys_cong full_labels_ok)
  then have "key_text ?m2 (sorted_keys ?m2) = key_text ?m1 (sorted_keys ?m1)"
    using key_text_cong [of ?m2 ?m1] eq by simp
  then show ?thesis
    using assms by (simp add: clean_event_def Let_def mget_full_labels split: option.split)
qed

definition example_env :: engine_env where
  "example_env = \<lparr>notifiers_at = (\<lambda>l. [(''n'', \<lambda>e. True)]), md5 = (\<lambda>s. s), global_labels = [],
     agent_ip = ''10.0.0.1'', agent_hostname = ''h'', from_agent = ''a'', env_ai_enabled = True\<rparr>"

definition example_config :: "string \<Rightarrow> internal_config" where
  "example_config sev =
     \<lparr>ic_labels = None, ic_interval = 0,
      ic_alerting = \<lparr>al_disabled = False, for_duration = 0, repeat_interval = 0, repeat_number = 0,
         disable_recovery_notification = False\<rparr>,
      ic_diagnose = \<lparr>dc_enabled = True, min_severity = sev, dc_timeout = 0, dc_cooldown = 0\<rparr>\<rparr>"

definition example_plugin :: plugin where
  "example_plugin = \<lparr>pl_name = ''disk'', pl_labels = [(''team'', ''db'')]\<rparr>"

theorem clean_labels_and_key_witness:
  "mget (nil_map (labels (fst (clean_event example_env 5 example_plugin (example_config '''')
      (build_event [[(''check'', ''c''), (''target'', ''t'')]]))))) ''team'' = Some ''db''"
  using clean_labels_and_key [of "build_event [[(''check'', ''c''), (''target'', ''t'')]]" example_plugin
      "example_config ''''" example_env "[(''target'', ''t''), (''check'', ''c'')]" 5 "''team''"]
  by (simp add: build_event_def zero_event_def mput_def event_status_valid_def go_map_ok_def example_plugin_def
      example_config_def get_labels_def example_env_def)

text \<open>
  The text the key is computed from is not injective: the separator may occur in labels.
\<close>

lemma key_text_collision:
  "key_text [(''a'', ''b:c:d'')] (sorted_keys [(''a'', ''b:c:d'')])
   = key_text [(''a'', ''b''), (''c'', ''d'')] (sorted_keys [(''a'', ''b''), (''c'', ''d'')])"
  by (simp add: sorted_keys_def mstr_def)

section \<open>Throttling\<close>

text \<open>The alerts of one key that were delivered, oldest first.\<close>

definition delivered :: "string \<Rightarrow> send_log \<Rightarrow> event list" where
  "delivered k l = map fst (filter (\<lambda>(e, ok). ok \<and> alert_key e = k \<and> event_status e \<noteq> EventStatusOk) l)"

lemma delivered_append [simp]: "delivered k (l @ l') = delivered k l @ delivered k l'"
  by (simp add: delivered_def)

lemma delivered_Nil [simp]: "delivered k [] = []"
  by (simp add: delivered_def)

lemma delivered_one [simp]: "delivered k [(e, ok)] =
    (if ok \<and> alert_key e = k \<and> event_status e \<noteq> EventStatusOk then [e] else [])"
  by (simp add: delivered_def)

fun spaced :: "int \<Rightarrow> event list \<Rightarrow> bool" where
  "spaced d (a # b # es) = (d \<le> wrap64 (event_time b - event_time a) \<and> spaced d (b # es))"
| "spaced d es = True"

lemma spaced_snoc: "es \<noteq> [] \<Longrightarrow> spaced d (es @ [e]) \<longleftrightarrow> spaced d es \<and> d \<le> wrap64 (event_time e - event_time (last es))"
  by (induction d es rule: spaced.induct) auto

text \<open>What the deliveries of a key satisfy under its alerting settings.\<close>

definition throttled :: "alerting \<Rightarrow> event list \<Rightarrow> bool" where
  "throttled al es \<longleftrightarrow>
     (repeat_number al > 0 \<longrightarrow> int (length es) \<le> repeat_number al)
     \<and> (repeat_interval al > 0 \<longrightarrow> spaced (quot (repeat_interval al) second) es)
     \<and> (for_duration al > 0 \<longrightarrow>
          (\<forall>e \<in> set es. quot (for_duration al) second \<le> wrap64 (event_time e - first_fire_time e)))"

text \<open>The state of one key: its cached event, if any, sums up the deliveries \<open>es\<close>.\<close>

definition key_state :: "world \<Rightarrow> string \<Rightarrow> event list \<Rightarrow> bool" where
  "key_state w k es \<longleftrightarrow>
     (case mget (cache w) k of
        None \<Rightarrow> es = []
      | Some q \<Rightarrow> notify_count (heap w q) = wrap64 (int (length es))
          \<and> (es \<noteq> [] \<longrightarrow> last_sent (heap w q) = event_time (last es)))"

text \<open>Cached events are stored under their key and are not objects still to be pushed.\<close>

definition cache_inv :: "world \<Rightarrow> addr set \<Rightarrow> bool" where
  "cache_inv w fresh \<longleftrightarrow> go_map_ok (cache w)
     \<and> (\<forall>k q. mget (cache w) k = Some q \<longrightarrow> alert_key (heap w q) = k \<and> q \<notin> fresh)"

lemma wrap64_Suc: "wrap64 (wrap64 x + 1) = wrap64 (x + 1)"
proof -
  have 1: "wrap64 x + 1 + 2 ^ 63 = (x + 2 ^ 63) mod 2 ^ 64 + 1" by (simp add: wrap64_def)
  have 2: "x + 1 + 2 ^ 63 = (x + 2 ^ 63) + (1::int)" by simp
  have "(wrap64 x + 1 + 2 ^ 63) mod 2 ^ 64 = (x + 1 + 2 ^ 63) mod 2 ^ 64"
    unfolding 1 2 by (rule mod_add_left_eq)
  then show ?thesis by (simp only: wrap64_def [of "wrap64 x + 1"] wrap64_def [of "x + 1"])
qed

lemma throttled_snoc:
  assumes t: "throttled al es"
    and rn: "\<not> (repeat_number al > 0 \<and> wrap64 (int (length es)) \<ge> repeat_number al)" "int64_ok (repeat_number al)"
    and ri: "es \<noteq> [] \<Longrightarrow> \<not> (repeat_interval al > 0 \<and> wrap64 (event_time e - event_time (last es)) < quot (repeat_interval al) second)"
    and fd: "\<not> (for_duration al > 0 \<and> wrap64 (event_time e - first_fire_time e) < quot (for_duration al) second)"
  shows "throttled al (es @ [e])"
proof -
  have "int (length es) < repeat_number al" if "repeat_number al > 0"
  proof -
    have "int64_ok (int (length es))"
      using t that rn(2) by (simp add: throttled_def int64_ok_def)
    with rn(1) that show ?thesis by simp
  qed
  then show ?thesis
    using t ri fd by (cases "es = []") (auto simp: throttled_def spaced_snoc)
qed

definition step_ok :: "alerting \<Rightarrow> string \<Rightarrow> addr set \<Rightarrow> world \<Rightarrow> event list \<Rightarrow> world \<Rightarrow> bool" where
  "step_ok al k F w es w' \<longleftrightarrow>
     (\<exists>new. sent_log w' = sent_log w @ new \<and> key_state w' k (es @ delivered k new)
        \<and> throttled al (es @ delivered k new)) \<and> cache_inv w' F \<and> (\<forall>q \<in> F. heap w' q = heap w q)"

lemma step_ok_quiet:
  "sent_log w' = sent_log w \<Longrightarrow> key_state w' k es \<Longrightarrow> throttled al es \<Longrightarrow> cache_inv w' F \<Longrightarrow>
   (\<And>q. q \<in> F \<Longrightarrow> heap w' q = heap w q) \<Longrightarrow> step_ok al k F w es w'"
  unfolding step_ok_def by (auto intro!: exI [of _ "[]"])

lemma sent_log_frame [simp]:
  "key_state (w\<lparr>sent_log := l\<rparr>) = key_state w" "cache_inv (w\<lparr>sent_log := l\<rparr>) = cache_inv w"
  by (auto simp: key_state_def cache_inv_def fun_eq_iff split: option.splits)

lemma state_cong:
  "cache w' = cache w \<Longrightarrow> heap w' = heap w \<Longrightarrow> key_state w' = key_state w \<and> cache_inv w' = cache_inv w"
  by (auto simp: key_state_def cache_inv_def fun_eq_iff split: option.splits)

lemma cache_inv_mono: "cache_inv w F \<Longrightarrow> G \<subseteq> F \<Longrightarrow> cache_inv w G"
  by (auto simp: cache_inv_def)

lemma set_event_fresh:
  assumes "cache_inv w F" "p \<in> F"
  shows "cache_inv (set_event p e w) F" "key_state (set_event p e w) k es = key_state w k es"
  using assms by (auto simp: cache_inv_def key_state_def set_event_def split: option.splits)

text \<open>Putting the object \<open>p\<close> into the cache.\<close>

lemma cache_put_inv:
  assumes "cache_inv w F" "p \<in> F"
  shows "cache_inv (w\<lparr>cache := cache_set (heap w) p (cache w)\<rparr>) (F - {p})"
  using assms by (auto simp: cache_inv_def cache_set_def)

lemma handle_alert_first:
  assumes inv: "cache_inv w F" "p \<in> F" and ks: "key_state w k es" and th: "throttled al es"
    and mine: "alert_key (heap w p) = k \<Longrightarrow> get_alerting (in_config ins) = al \<and> notify_count (heap w p) = 0"
    and rn: "int64_ok (repeat_number al)" and st: "event_status (heap w p) \<noteq> EventStatusOk"
    and new: "mget (cache w) (alert_key (heap w p)) = None"
  shows "step_ok al k (F - {p}) w es (snd (handle_alert_event env ins p w))"
proof -
  let ?e = "(heap w p)\<lparr>first_fire_time := event_time (heap w p)\<rparr>"
  let ?w1 = "set_event p ?e w"
  let ?w2 = "?w1\<lparr>cache := cache_set (heap ?w1) p (cache ?w1)\<rparr>"
  let ?ok = "notify_forward (notifiers_at env (sent_log w)) ?e"
  let ?e' = "?e\<lparr>last_sent := event_time (heap w p), notify_count := wrap64 (notify_count (heap w p) + 1)\<rparr>"
  let ?w3 = "set_event p ?e' (?w2\<lparr>sent_log := sent_log w @ [(?e, True)]\<rparr>)"
  have inv2: "cache_inv ?w2 (F - {p})"
    using cache_put_inv [OF set_event_fresh(1) [OF inv, of ?e] inv(2)] by simp
  have inv3: "cache_inv ?w3 (F - {p})"
    using inv by (auto simp: cache_inv_def set_event_def cache_set_def split: if_splits)
  have kq: "\<And>q. mget (cache w) k = Some q \<Longrightarrow> q \<noteq> p"
    using inv by (auto simp: cache_inv_def)
  have ks2: "key_state ?w2 k es"
    using ks kq mine new by (auto simp: key_state_def set_event_def cache_set_def wrap64_def split: option.splits)
  consider (quiet) "for_duration (get_alerting (in_config ins)) \<noteq> 0"
    | (sent) "for_duration (get_alerting (in_config ins)) = 0" ?ok
    | (fail) "for_duration (get_alerting (in_config ins)) = 0" "\<not> ?ok" by blast
  then show ?thesis
  proof cases
    case quiet
    then have r: "snd (handle_alert_event env ins p w) = ?w2"
      using new by (simp add: handle_alert_event_def cache_get_def Let_def set_event_def)
    show ?thesis unfolding r
      by (rule step_ok_quiet) (use ks2 th inv2 in \<open>auto simp: set_event_def\<close>)
  next
    case sent
    then have r: "snd (handle_alert_event env ins p w) = ?w3"
      using new by (simp add: handle_alert_event_def cache_get_def engine_forward_def Let_def set_event_def)
    have "key_state ?w3 k (es @ delivered k [(?e, True)]) \<and> throttled al (es @ delivered k [(?e, True)])"
    proof (cases "alert_key (heap w p) = k")
      case True
      then have "es = []" using new ks by (simp add: key_state_def)
      with True mine sent(1) st th show ?thesis
        using throttled_snoc [OF th _ rn, where e = ?e]
        by (auto simp: key_state_def set_event_def cache_set_def wrap64_def)
    next
      case False
      with ks kq th show ?thesis
        by (auto simp: key_state_def set_event_def cache_set_def split: option.splits)
    qed
    then show ?thesis unfolding r step_ok_def
      using inv3 by (intro conjI exI [of _ "[(?e, True)]"]) (auto simp: set_event_def)
  next
    case fail
    then have r: "snd (handle_alert_event env ins p w) = ?w2\<lparr>sent_log := sent_log w @ [(?e, False)]\<rparr>"
      using new by (simp add: handle_alert_event_def cache_get_def engine_forward_def Let_def set_event_def)
    show ?thesis unfolding r step_ok_def
      using inv2 ks2 th by (intro conjI exI [of _ "[(?e, False)]"]) (simp_all, simp_all add: set_event_def)
  qed
qed

lemma handle_alert_again:
  assumes inv: "cache_inv w F" "p \<in> F" and ks: "key_state w k es" and th: "throttled al es"
    and mine: "alert_key (heap w p) = k \<Longrightarrow> get_alerting (in_config ins) = al"
    and rn: "int64_ok (repeat_number al)" and st: "event_status (heap w p) \<noteq> EventStatusOk"
    and old: "mget (cache w) (alert_key (heap w p)) = Some old"
  shows "step_ok al k (F - {p}) w es (snd (handle_alert_event env ins p w))"
proof -
  let ?al = "get_alerting (in_config ins)"
  let ?e = "(heap w p)\<lparr>first_fire_time := first_fire_time (heap w old), notify_count := wrap64 (notify_count (heap w old) + 1)\<rparr>"
  let ?w1 = "set_event p ?e w"
  let ?ok = "notify_forward (notifiers_at env (sent_log w)) ?e"
  let ?e' = "?e\<lparr>last_sent := event_time (heap w p)\<rparr>"
  let ?w2 = "set_event p ?e' (w\<lparr>sent_log := sent_log w @ [(?e, True)]\<rparr>)"
  let ?w3 = "?w2\<lparr>cache := cache_set (heap ?w2) p (cache ?w2)\<rparr>"
  define early where "early \<longleftrightarrow>
      (for_duration ?al > 0 \<and> wrap64 (event_time (heap w p) - first_fire_time (heap w old)) < quot (for_duration ?al) second)
    \<or> (repeat_number ?al > 0 \<and> notify_count (heap w old) \<ge> repeat_number ?al)
    \<or> (repeat_interval ?al > 0 \<and> wrap64 (event_time (heap w p) - last_sent (heap w old)) < quot (repeat_interval ?al) second)"
  have if3: "(if a then x else if b then x else if c then x else y) = (if a \<or> b \<or> c then x else y)"
    for a b c and x y :: 'c by simp
  have early: "handle_alert_event env ins p w = (if early then (False, w)
      else case engine_forward env p ?w1 of
          (True, w) \<Rightarrow> (True, (set_event p ((heap w p)\<lparr>last_sent := event_time (heap w p)\<rparr>) w)
              \<lparr>cache := cache_set (heap (set_event p ((heap w p)\<lparr>last_sent := event_time (heap w p)\<rparr>) w)) p
                 (cache (set_event p ((heap w p)\<lparr>last_sent := event_time (heap w p)\<rparr>) w))\<rparr>)
        | (False, w) \<Rightarrow> (False, w))"
    unfolding handle_alert_event_def cache_get_def old option.case Let_def early_def if3 ..
  have inv1: "cache_inv ?w1 (F - {p})" and ks1: "key_state ?w1 k es"
    using set_event_fresh [OF inv] ks cache_inv_mono [of _ F "F - {p}"] by auto
  have po: "p \<noteq> old" and kq: "\<And>q. mget (cache w) k = Some q \<Longrightarrow> q \<noteq> p"
    using inv old by (auto simp: cache_inv_def)
  consider (quiet) early | (sent) "\<not> early" ?ok | (fail) "\<not> early" "\<not> ?ok" by blast
  then show ?thesis
  proof cases
    case quiet
    then have r: "snd (handle_alert_event env ins p w) = w"
      by (simp add: early)
    show ?thesis unfolding r
      by (rule step_ok_quiet) (use ks th inv cache_inv_mono [of w F "F - {p}"] in auto)
  next
    case sent
    then have r: "snd (handle_alert_event env ins p w) = ?w3"
      by (simp add: early engine_forward_def Let_def set_event_def)
    have inv3: "cache_inv ?w3 (F - {p})"
      using inv by (auto simp: cache_inv_def set_event_def cache_set_def split: if_splits)
    have "key_state ?w3 k (es @ delivered k [(?e, True)]) \<and> throttled al (es @ delivered k [(?e, True)])"
    proof (cases "alert_key (heap w p) = k")
      case True
      with old ks have cnt: "notify_count (heap w old) = wrap64 (int (length es))"
          "es \<noteq> [] \<Longrightarrow> last_sent (heap w old) = event_time (last es)"
        by (auto simp: key_state_def)
      have "throttled al (es @ [?e])"
        using sent(1) mine [OF True] cnt by (intro throttled_snoc [OF th _ rn]) (auto simp: early_def)
      with True st cnt show ?thesis
        using wrap64_Suc [of "int (length es)"] by (simp add: key_state_def set_event_def cache_set_def add.commute)
    next
      case False
      with ks kq th show ?thesis
        by (auto simp: key_state_def set_event_def cache_set_def split: option.splits)
    qed
    then show ?thesis unfolding r step_ok_def
      using inv3 by (intro conjI exI [of _ "[(?e, True)]"]) (auto simp: set_event_def)
  next
    case fail
    then have r: "snd (handle_alert_event env ins p w) = ?w1\<lparr>sent_log := sent_log w @ [(?e, False)]\<rparr>"
      by (simp add: early engine_forward_def Let_def set_event_def)
    show ?thesis unfolding r step_ok_def
      using inv1 ks1 th by (intro conjI exI [of _ "[(?e, False)]"]) (simp_all, simp_all add: set_event_def)
  qed
qed

lemma may_trigger_frame [simp]:
  "sent_log (may_trigger_diagnose env p pl ins w) = sent_log w"
  "cache (may_trigger_diagnose env p pl ins w) = cache w"
  "heap (may_trigger_diagnose env p pl ins w) = heap w"
  by (simp_all add: may_trigger_diagnose_def Let_def split: option.splits)

lemma may_trigger_step:
  assumes "step_ok al k F w es w'"
  shows "step_ok al k F w es (may_trigger_diagnose env p pl ins w')"
proof -
  have "key_state (may_trigger_diagnose env p pl ins w') = key_state w'"
      "cache_inv (may_trigger_diagnose env p pl ins w') = cache_inv w'"
    using state_cong [of "may_trigger_diagnose env p pl ins w'" w'] by simp_all
  with assms show ?thesis by (simp add: step_ok_def)
qed

lemma handle_recovery_other:
  assumes inv: "cache_inv w F" "p \<in> F" and ks: "key_state w k es" and th: "throttled al es"
    and st: "event_status (heap w p) = EventStatusOk" and other: "alert_key (heap w p) \<noteq> k"
  shows "step_ok al k (F - {p}) w es (handle_recovery_event env ins p w)"
proof -
  let ?d = "mdel (alert_key (heap w p)) (diagnosed w)"
  have inv1: "cache_inv (w\<lparr>diagnosed := ?d\<rparr>) (F - {p})" and ks1: "key_state (w\<lparr>diagnosed := ?d\<rparr>) k es"
    using inv ks cache_inv_mono [of w F "F - {p}"] state_cong [of "w\<lparr>diagnosed := ?d\<rparr>" w] by auto
  show ?thesis
  proof (cases "mget (cache w) (alert_key (heap w p))")
    case None
    then have r: "handle_recovery_event env ins p w = w\<lparr>diagnosed := ?d\<rparr>"
      by (simp add: handle_recovery_event_def cache_get_def Let_def)
    show ?thesis unfolding r by (rule step_ok_quiet) (use inv1 ks1 th in auto)
  next
    case (Some old)
    let ?w1 = "w\<lparr>diagnosed := ?d, cache := cache_del (alert_key (heap w p)) (cache w)\<rparr>"
    have key: "alert_key (heap w old) = alert_key (heap w p)" using Some inv by (auto simp: cache_inv_def)
    have inv2: "cache_inv ?w1 (F - {p})" and ks2: "key_state ?w1 k es"
      using inv ks other by (auto simp: cache_inv_def key_state_def cache_del_def split: option.splits)
    have "handle_recovery_event env ins p w = ?w1 \<or>
        (\<exists>ok. handle_recovery_event env ins p w = ?w1\<lparr>sent_log := sent_log w @ [(heap w p, ok)]\<rparr>)"
      using Some key by (auto simp: handle_recovery_event_def cache_get_def engine_forward_def Let_def)
    then show ?thesis
    proof (elim disjE exE)
      assume r: "handle_recovery_event env ins p w = ?w1"
      show ?thesis unfolding r by (rule step_ok_quiet) (use inv2 ks2 th in auto)
    next
      fix ok assume r: "handle_recovery_event env ins p w = ?w1\<lparr>sent_log := sent_log w @ [(heap w p, ok)]\<rparr>"
      show ?thesis unfolding r step_ok_def
        using inv2 ks2 th st by (intro conjI exI [of _ "[(heap w p, ok)]"]) simp_all
    qed
  qed
qed

text \<open>One raw event, as the loop of \<open>PushRawEvents\<close> handles it.\<close>

record item =
  it_now :: int
  it_plugin :: plugin
  it_instance :: instance_ref
  it_event :: addr

definition process_item :: "engine_env \<Rightarrow> item \<Rightarrow> world \<Rightarrow> world" where
  "process_item env it w = process_event env (it_now it) (it_plugin it) (it_instance it) (it_event it) w"

fun process_items :: "engine_env \<Rightarrow> item list \<Rightarrow> world \<Rightarrow> world" where
  "process_items env [] w = w"
| "process_items env (it # its) w = process_items env its (process_item env it w)"

definition items_of :: "int \<Rightarrow> plugin \<Rightarrow> instance_ref \<Rightarrow> addr option list \<Rightarrow> item list" where
  "items_of now pl ins ps =
     map (\<lambda>p. \<lparr>it_now = now, it_plugin = pl, it_instance = ins, it_event = p\<rparr>) (List.map_filter id ps)"

lemma push_loop_items: "push_loop env now pl ins ps w = process_items env (items_of now pl ins ps) w"
  by (induction env now pl ins ps w rule: push_loop.induct)
    (simp_all add: items_of_def process_item_def List.map_filter_def)

lemma push_raw_events_items:
  "push_raw_events env now pl ins q w = Some ([], process_items env (items_of now pl ins (rev q)) w)"
  by (simp add: push_raw_events_def queue_len_def pop_back_all_some push_loop_items items_of_def List.map_filter_def)

lemma clean_event_keeps [simp]:
  "event_status (fst (clean_event env now pl ic e)) = event_status e"
  "notify_count (fst (clean_event env now pl ic e)) = notify_count e"
  by (simp_all add: clean_event_def Let_def)

lemma process_item_step:
  fixes env w it
  defines "p \<equiv> it_event it" and "ic \<equiv> in_config (it_instance it)"
  defines "c \<equiv> clean_event env (it_now it) (it_plugin it) ic (heap w p)"
  assumes inv: "cache_inv w F" "p \<in> F" and ks: "key_state w k es" and th: "throttled al es"
    and mine: "alert_key (fst c) = k \<Longrightarrow> snd c \<Longrightarrow> get_alerting ic = al \<and> event_status (heap w p) \<noteq> EventStatusOk"
    and fresh: "notify_count (heap w p) = 0"
    and rn: "int64_ok (repeat_number al)"
  shows "step_ok al k (F - {p}) w es (process_item env it w)"
proof -
  obtain e ok where c: "c = (e, ok)" by force
  let ?w1 = "set_event p e w"
  have e: "event_status e = event_status (heap w p)" "notify_count e = 0"
    using fresh arg_cong [OF c, of fst, symmetric] by (simp_all add: c_def del: fst_conv) (simp_all)
  have w1: "cache_inv ?w1 F" "key_state ?w1 k es" "heap ?w1 p = e"
    using set_event_fresh [OF inv] ks by (auto simp: set_event_def)
  have tr: "step_ok al k (F - {p}) w es w'" if "step_ok al k (F - {p}) ?w1 es w'" for w'
    using that by (auto simp: step_ok_def set_event_def)
  have idle: "step_ok al k (F - {p}) ?w1 es ?w1"
    by (rule step_ok_quiet) (use w1 th cache_inv_mono [of ?w1 F "F - {p}"] in auto)
  have c': "clean_event env (it_now it) (it_plugin it) (in_config (it_instance it)) (heap w (it_event it)) = (e, ok)"
    using c by (simp add: c_def p_def ic_def)
  consider (stop) "\<not> ok \<or> al_disabled (get_alerting ic)"
    | (recovery) "ok" "\<not> al_disabled (get_alerting ic)" "event_status e = EventStatusOk"
    | (alert) "ok" "\<not> al_disabled (get_alerting ic)" "event_status e \<noteq> EventStatusOk" by blast
  then show ?thesis
  proof cases
    case stop
    then have "process_item env it w = ?w1"
      by (cases ok) (simp_all add: process_item_def process_event_def c' ic_def p_def)
    then show ?thesis using tr idle by simp
  next
    case recovery
    then have r: "process_item env it w = handle_recovery_event env (it_instance it) p ?w1"
      using w1(3) by (simp add: process_item_def process_event_def c' ic_def p_def)
    have "step_ok al k (F - {p}) ?w1 es (handle_recovery_event env (it_instance it) p ?w1)"
      using recovery mine c w1 e by (intro handle_recovery_other [OF w1(1) inv(2) w1(2) th]) auto
    then show ?thesis unfolding r by (rule tr)
  next
    case alert
    obtain s w2 where h: "handle_alert_event env (it_instance it) p ?w1 = (s, w2)" by force
    have r: "process_item env it w = (if s then may_trigger_diagnose env p (pl_name (it_plugin it)) (it_instance it) w2 else w2)"
      using alert w1(3) h by (simp add: process_item_def process_event_def c' ic_def p_def)
    have m: "alert_key (heap ?w1 p) = k \<Longrightarrow> get_alerting (in_config (it_instance it)) = al \<and> notify_count (heap ?w1 p) = 0"
      using alert mine c w1(3) e by (simp add: ic_def)
    have "step_ok al k (F - {p}) ?w1 es (snd (handle_alert_event env (it_instance it) p ?w1))"
    proof (cases "mget (cache ?w1) (alert_key (heap ?w1 p))")
      case None
      with alert m w1 show ?thesis
        by (intro handle_alert_first [OF w1(1) inv(2) w1(2) th _ rn]) simp_all
    next
      case (Some old)
      with alert m w1 show ?thesis
        by (intro handle_alert_again [OF w1(1) inv(2) w1(2) th _ rn]) simp_all
    qed
    then have "step_ok al k (F - {p}) ?w1 es w2" by (simp add: h)
    then show ?thesis unfolding r using may_trigger_step tr by simp
  qed
qed

lemma process_items_throttled:
  assumes "cache_inv w (it_event ` set its)" "distinct (map it_event its)" "key_state w k es" "throttled al es"
    and "int64_ok (repeat_number al)"
    and "\<forall>it \<in> set its. notify_count (heap w (it_event it)) = 0 \<and>
      (let c = clean_event env (it_now it) (it_plugin it) (in_config (it_instance it)) (heap w (it_event it)) in
       alert_key (fst c) = k \<and> snd c \<longrightarrow> get_alerting (in_config (it_instance it)) = al
         \<and> event_status (heap w (it_event it)) \<noteq> EventStatusOk)"
  shows "\<exists>new. sent_log (process_items env its w) = sent_log w @ new \<and> throttled al (es @ delivered k new)"
  using assms
proof (induction its arbitrary: w es)
  case Nil
  then show ?case by (auto intro: exI [of _ "[]"])
next
  case (Cons it its)
  let ?F = "it_event ` set its" and ?w' = "process_item env it w"
  have ne: "insert (it_event it) ?F - {it_event it} = ?F" using Cons.prems(2) by auto
  have "step_ok al k (insert (it_event it) ?F - {it_event it}) w es ?w'"
    using Cons.prems by (intro process_item_step) (simp_all add: Let_def)
  then obtain new where s: "sent_log ?w' = sent_log w @ new" "key_state ?w' k (es @ delivered k new)"
      "throttled al (es @ delivered k new)" "cache_inv ?w' ?F" "\<forall>q \<in> ?F. heap ?w' q = heap w q"
    unfolding ne step_ok_def by blast
  have "\<forall>it' \<in> set its. heap ?w' (it_event it') = heap w (it_event it')" using s(5) by blast
  with Cons.prems have "\<exists>new'. sent_log (process_items env its ?w') = sent_log ?w' @ new'
      \<and> throttled al ((es @ delivered k new) @ delivered k new')"
    by (intro Cons.IH s) simp_all
  then obtain new' where "sent_log (process_items env its ?w') = sent_log ?w' @ new'"
      "throttled al ((es @ delivered k new) @ delivered k new')" by blast
  then show ?case by (intro exI [of _ "new @ new'"]) (simp add: s(1))
qed

section \<open>Properties\<close>


definition example_item :: "nat \<Rightarrow> item" where
  "example_item p = \<lparr>it_now = 5, it_plugin = example_plugin, it_instance = \<lparr>in_id = 1, in_config = example_config ''''\<rparr>,
     it_event = p\<rparr>"

definition example_world :: "(addr \<Rightarrow> event) \<Rightarrow> world" where
  "example_world h = \<lparr>heap = h, cache = [], diagnosed = [], sent_log = [], global_agg = Some (new_aggregator 0)\<rparr>"


text \<open>
  A recovery forgets the alert: the key leaves the cache and may be diagnosed again; the
  recovery is forwarded, once, exactly when the alert was delivered before and the instance does
  not disable recovery notifications; a recovery of a key that is not firing sends nothing.
\<close>

theorem recovery_forgets:
  assumes "cache_inv w F"
  shows "mget (cache (handle_recovery_event env ins p w)) (alert_key (heap w p)) = None
    \<and> mget (diagnosed (handle_recovery_event env ins p w)) (alert_key (heap w p)) = None
    \<and> (\<forall>k. k \<noteq> alert_key (heap w p) \<longrightarrow> mget (cache (handle_recovery_event env ins p w)) k = mget (cache w) k)
    \<and> sent_log (handle_recovery_event env ins p w) = sent_log w @
        (case mget (cache w) (alert_key (heap w p)) of
           None \<Rightarrow> []
         | Some q \<Rightarrow> if \<not> disable_recovery_notification (get_alerting (in_config ins)) \<and> last_sent (heap w q) > 0
             then [(heap w p, notify_forward (notifiers_at env (sent_log w)) (heap w p))] else [])"
proof (cases "mget (cache w) (alert_key (heap w p))")
  case None
  then show ?thesis by (simp add: handle_recovery_event_def cache_get_def Let_def)
next
  case (Some q)
  with assms have "alert_key (heap w q) = alert_key (heap w p)" by (simp add: cache_inv_def)
  with Some show ?thesis
    by (simp add: handle_recovery_event_def cache_get_def cache_del_def engine_forward_def Let_def)
qed

theorem recovery_forgets_witness:
  "sent_log (handle_recovery_event example_env \<lparr>in_id = 1, in_config = example_config ''''\<rparr> 0
     ((example_world (\<lambda>p. if p = 1 then zero_event\<lparr>last_sent := 7\<rparr> else build_event []))\<lparr>cache := [('''', 1)]\<rparr>))
   = [(build_event [], True)]"
proof -
  let ?w = "(example_world (\<lambda>p. if p = 1 then zero_event\<lparr>last_sent := 7\<rparr> else build_event []))\<lparr>cache := [('''', 1)]\<rparr>"
  have inv: "cache_inv ?w {}"
    by (simp add: cache_inv_def example_world_def zero_event_def go_map_ok_def)
  show ?thesis
    using recovery_forgets [OF inv, of example_env "\<lparr>in_id = 1, in_config = example_config ''''\<rparr>" 0]
    by (simp add: example_world_def example_config_def get_alerting_def example_env_def build_event_def
        zero_event_def notify_forward_def)
qed

text \<open>
  Whether an alert is forwarded is decided by the settings alone: a first alert exactly when
  there is no \<open>ForDuration\<close>, a repeated one exactly when the three limits allow it; a failed
  forward of a repeated alert leaves the cached event as it was, so that the next one is tried.
\<close>

theorem alert_decision:
  fixes w :: world and ins :: instance_ref and p :: addr
  defines "al \<equiv> get_alerting (in_config ins)" and "e \<equiv> heap w p"
  shows "(case mget (cache w) (alert_key e) of
      None \<Rightarrow>
        length (sent_log (snd (handle_alert_event env ins p w)))
          = length (sent_log w) + (if for_duration al = 0 then 1 else 0)
        \<and> mget (cache (snd (handle_alert_event env ins p w))) (alert_key e) = Some p
    | Some old \<Rightarrow>
        length (sent_log (snd (handle_alert_event env ins p w))) = length (sent_log w) +
          (if (for_duration al > 0 \<and> wrap64 (event_time e - first_fire_time (heap w old)) < quot (for_duration al) second)
             \<or> (repeat_number al > 0 \<and> notify_count (heap w old) \<ge> repeat_number al)
             \<or> (repeat_interval al > 0 \<and> wrap64 (event_time e - last_sent (heap w old)) < quot (repeat_interval al) second)
           then 0 else 1)
        \<and> mget (cache (snd (handle_alert_event env ins p w))) (alert_key e)
            = Some (if fst (handle_alert_event env ins p w) then p else old))"
proof (cases "mget (cache w) (alert_key e)")
  case None
  then show ?thesis
    by (simp add: handle_alert_event_def cache_get_def cache_set_def engine_forward_def set_event_def Let_def e_def al_def
        split: bool.split)
next
  case (Some old)
  then show ?thesis
    by (simp add: handle_alert_event_def cache_get_def cache_set_def engine_forward_def set_event_def Let_def e_def al_def
        split: bool.split)
qed

text \<open>
  A key is marked as diagnosed even when the aggregator declines the alert: with a minimum
  severity of Critical, a Warning followed by a Critical alert of the same key, both delivered,
  leaves the aggregator empty, although the Critical alert alone is aggregated.
\<close>

definition example_event :: "string \<Rightarrow> event" where
  "example_event st = zero_event\<lparr>event_time := 1, event_status := st, labels := Some []\<rparr>"

definition example_run :: "string list \<Rightarrow> world" where
  "example_run sts =
     (let ins = \<lparr>in_id = 1, in_config = example_config EventStatusCritical\<rparr> in
      push_loop (example_env\<lparr>md5 := (\<lambda>s. ''k'')\<rparr>) 5 \<lparr>pl_name = ''disk'', pl_labels = []\<rparr> ins
        (map Some [0 ..< length sts]) (example_world (\<lambda>p. example_event (sts ! p))))"

theorem escalation_not_diagnosed:
  "map snd (sent_log (example_run [EventStatusWarning, EventStatusCritical])) = [True, True]
   \<and> map_option pending (global_agg (example_run [EventStatusWarning, EventStatusCritical])) = Some []
   \<and> map_option (length \<circ> pending) (global_agg (example_run [EventStatusCritical])) = Some 1"
  by (simp add: example_run_def example_world_def example_event_def example_env_def example_config_def zero_event_def
      process_event_def clean_event_def event_status_valid_def event_statuses get_alerting_def get_labels_def
      get_diagnose_config_def handle_alert_event_def may_trigger_diagnose_def engine_forward_def set_event_def
      cache_get_def cache_set_def notify_forward_def new_aggregator_def agg_submit_def should_trigger_def
      severity_rank_def Let_def quot_def wrap64_def agg_key_def agg_target_def mput_def upt_rec)

end
