(* ===== verification/Sha256.thy ===== *)
theory Sha256
  imports GoStrings DiagnoseTypes "HOL-Library.Word"
begin

text \<open>
  The two functions of Go's \<open>crypto\<close> packages that the signing of requests calls: SHA-256 and
  HMAC on byte strings, and \<open>hex.EncodeToString\<close>.  A keyed hash needs of its hash only the length
  of the digest: that is the locale \<open>digest\<close>, interpreted by \<open>sha256\<close> below.
\<close>

unbundle bit_operations_syntax

section \<open>The hash\<close>

type_synonym w32 = "32 word"

definition sha_k :: "w32 list" where
  "sha_k =
     [1116352408, 1899447441, 3049323471, 3921009573, 961987163, 1508970993, 2453635748, 2870763221,
      3624381080, 310598401, 607225278, 1426881987, 1925078388, 2162078206, 2614888103, 3248222580,
      3835390401, 4022224774, 264347078, 604807628, 770255983, 1249150122, 1555081692, 1996064986,
      2554220882, 2821834349, 2952996808, 3210313671, 3336571891, 3584528711, 113926993, 338241895,
      666307205, 773529912, 1294757372, 1396182291, 1695183700, 1986661051, 2177026350, 2456956037,
      2730485921, 2820302411, 3259730800, 3345764771, 3516065817, 3600352804, 4094571909, 275423344,
      430227734, 506948616, 659060556, 883997877, 958139571, 1322822218, 1537002063, 1747873779,
      1955562222, 2024104815, 2227730452, 2361852424, 2428436474, 2756734187, 3204031479, 3329325298]"

definition sha_init :: "w32 list" where
  "sha_init = [1779033703, 3144134277, 1013904242, 2773480762,
     1359893119, 2600822924, 528734635, 1541459225]"

text \<open>
  The tables are the leading 32 bits of the fractional parts of the cube roots of the first 64 primes,
  and of the square roots of the first 8.
\<close>

definition first_primes :: "nat list" where
  "first_primes = [2, 3, 5, 7, 11, 13, 17, 19, 23, 29, 31, 37, 41, 43, 47, 53,
     59, 61, 67, 71, 73, 79, 83, 89, 97, 101, 103, 107, 109, 113, 127, 131,
     137, 139, 149, 151, 157, 163, 167, 173, 179, 181, 191, 193, 197, 199, 211, 223,
     227, 229, 233, 239, 241, 251, 257, 263, 269, 271, 277, 281, 283, 293, 307, 311]"

definition root_bits :: "nat \<Rightarrow> nat \<Rightarrow> w32 \<Rightarrow> bool" where
  "root_bits n p w =
     (let whole = length (takeWhile (\<lambda>i. i ^ n \<le> p) [1, 2, 3, 4, 5, 6, 7]); r = whole * 2 ^ 32 + unat w
      in r ^ n \<le> p * (2 ^ 32) ^ n \<and> p * (2 ^ 32) ^ n < (r + 1) ^ n)"

lemma sha_k_roots: "list_all2 (root_bits 3) first_primes sha_k"
  by (simp add: first_primes_def sha_k_def root_bits_def)

lemma sha_init_roots: "list_all2 (root_bits 2) (take 8 first_primes) sha_init"
  by (simp add: first_primes_def sha_init_def root_bits_def)

definition low_sigma0 :: "w32 \<Rightarrow> w32" where
  "low_sigma0 x = word_rotr 7 x XOR word_rotr 18 x XOR drop_bit 3 x"

definition low_sigma1 :: "w32 \<Rightarrow> w32" where
  "low_sigma1 x = word_rotr 17 x XOR word_rotr 19 x XOR drop_bit 10 x"

definition up_sigma0 :: "w32 \<Rightarrow> w32" where
  "up_sigma0 x = word_rotr 2 x XOR word_rotr 13 x XOR word_rotr 22 x"

definition up_sigma1 :: "w32 \<Rightarrow> w32" where
  "up_sigma1 x = word_rotr 6 x XOR word_rotr 11 x XOR word_rotr 25 x"

fun be_word :: "string \<Rightarrow> w32" where
  "be_word bs = foldl (\<lambda>w b. 256 * w + word_of_nat (byte b)) 0 bs"

definition word_bytes :: "w32 \<Rightarrow> string" where
  "word_bytes w = map (\<lambda>k. char_of (unat (drop_bit k w AND 255))) [24, 16, 8, 0]"

text \<open>The schedule is kept newest first.\<close>

fun schedule :: "nat \<Rightarrow> w32 list \<Rightarrow> w32 list" where
  "schedule 0 ws = ws"
| "schedule (Suc n) ws =
     schedule n ((low_sigma1 (ws ! 1) + ws ! 6 + low_sigma0 (ws ! 14) + ws ! 15) # ws)"

fun sha_round :: "w32 list \<Rightarrow> w32 \<times> w32 \<Rightarrow> w32 list" where
  "sha_round [a, b, c, d, e, f, g, h] (k, w) =
     (let t1 = h + up_sigma1 e + ((e AND f) XOR (NOT e AND g)) + k + w;
          t2 = up_sigma0 a + ((a AND b) XOR (a AND c) XOR (b AND c))
      in [t1 + t2, a, b, c, d + t1, e, f, g])"
| "sha_round s kw = s"

fun chunks :: "nat \<Rightarrow> nat \<Rightarrow> 'a list \<Rightarrow> 'a list list" where
  "chunks k 0 xs = []"
| "chunks k (Suc n) xs = take k xs # chunks k n (drop k xs)"

definition sha_block :: "w32 list \<Rightarrow> string \<Rightarrow> w32 list" where
  "sha_block hs blk =
     (let ws = rev (schedule 48 (rev (map be_word (chunks 4 16 blk))))
      in map2 (+) hs (foldl sha_round hs (zip sha_k ws)))"

definition sha_pad :: "string \<Rightarrow> string" where
  "sha_pad m =
     m @ char_of (128::nat) # replicate ((119 - length m mod 64) mod 64) (char_of (0::nat))
       @ map (\<lambda>k. char_of (8 * length m div 256 ^ k)) [7, 6, 5, 4, 3, 2, 1, 0]"

definition sha256 :: "string \<Rightarrow> string" where
  "sha256 m =
     (let p = sha_pad m
      in concat (map word_bytes (foldl sha_block sha_init (chunks 64 (length p div 64) p))))"

section \<open>Hexadecimal and the keyed hash\<close>

definition hex :: "string \<Rightarrow> string" where
  "hex bs = concat (map (\<lambda>b. [hex_digit (byte b div 16), hex_digit (byte b mod 16)]) bs)"

definition xor_byte :: "nat \<Rightarrow> char \<Rightarrow> char" where
  "xor_byte p c = char_of (p XOR byte c)"

definition hmac :: "(string \<Rightarrow> string) \<Rightarrow> string \<Rightarrow> string \<Rightarrow> string" where
  "hmac h key text =
     (let key = (if length key > 64 then h key else key);
          key = key @ replicate (64 - length key) (char_of (0::nat))
      in h (map (xor_byte 0x5c) key @ h (map (xor_byte 0x36) key @ text)))"

locale digest =
  fixes h :: "string \<Rightarrow> string" and size :: nat
  assumes digest_length: "length (h m) = size"
begin

lemma hmac_digest: "length (hmac h key text) = size"
  by (simp add: hmac_def Let_def digest_length)

lemma hex_digest: "length (hex (h m)) = 2 * size \<and> length (hex (hmac h key text)) = 2 * size"
proof -
  have "length (hex bs) = 2 * length bs" for bs by (induction bs) (simp_all add: hex_def)
  then show ?thesis by (simp add: digest_length hmac_digest)
qed

end

lemma sha_round_length [simp]: "length (sha_round s kw) = length s"
  by (induction s kw rule: sha_round.induct) (simp_all add: Let_def)

lemma sha_rounds_length: "length (foldl sha_round s kws) = length s"
  by (induction kws arbitrary: s) simp_all

lemma sha_block_length: "length (sha_block hs blk) = length hs"
  by (simp add: sha_block_def Let_def sha_rounds_length)

lemma sha_blocks_length: "length (foldl sha_block hs blks) = length hs"
  by (induction blks arbitrary: hs) (simp_all add: sha_block_length)

lemma sha256_length: "length (sha256 m) = 32"
proof -
  have "length (concat (map word_bytes ws)) = 4 * length ws" for ws
    by (induction ws) (simp_all add: word_bytes_def)
  then show ?thesis by (simp add: sha256_def Let_def sha_blocks_length sha_init_def)
qed

interpretation sha: digest sha256 32
  by unfold_locales (rule sha256_length)

definition hex_char :: "char \<Rightarrow> bool" where
  "hex_char c \<longleftrightarrow> 48 \<le> byte c \<and> byte c \<le> 57 \<or> 97 \<le> byte c \<and> byte c \<le> 102"

lemma hex_digit_plain: "d < 16 \<Longrightarrow> hex_char (hex_digit d)"
  by (auto simp: hex_digit_def hex_char_def byte_def)

lemma hex_plain: "list_all hex_char (hex bs)"
proof -
  have "byte b < 256" for b unfolding byte_def by (metis nat_of_char_less_256)
  then have "byte b div 16 < 16" "byte b mod 16 < 16" for b by (simp_all add: less_mult_imp_div_less)
  then show ?thesis using hex_digit_plain by (auto simp: hex_def list_all_iff)
qed

end
