(* ===== verification/AIMessages.thy ===== *)
theory AIMessages
  imports GoStrings
begin

text \<open>
  The chat protocol's data (\<open>diagnose/aiclient/types.go\<close>), the token estimate
  (\<open>token.go\<close>) and the compaction of a conversation to a token budget (\<open>compact.go\<close>).
  \<open>no_orphans\<close> is the protocol's well-formedness: a tool message answers the nearest
  preceding assistant message that made tool calls, with only tool messages between.
\<close>

section \<open>Messages\<close>

record function_call =
  fc_name :: string
  fc_arguments :: string

record tool_call =
  tcall_id :: string
  tcall_type :: string
  tcall_function :: function_call

record message =
  role :: string
  content :: string
  tool_call_id :: string
  tool_calls :: "tool_call list"

record property_schema =
  ps_type :: string
  ps_description :: string

record parameters_schema =
  prm_type :: string
  prm_properties :: "(string, property_schema) gomap"
  prm_required :: "string list"

record tool_function =
  tf_name :: string
  tf_description :: string
  tf_parameters :: "parameters_schema option"

record ai_tool =
  tool_type :: string
  tool_fn :: tool_function

record usage =
  prompt_tokens :: int
  completion_tokens :: int
  total_usage :: int

record choice =
  ch_index :: int
  ch_message :: message
  finish_reason :: string

record chat_response =
  resp_id :: string
  choices :: "choice list"
  resp_usage :: usage

definition zero_message :: message where
  "zero_message = \<lparr>role = '''', content = '''', tool_call_id = '''', tool_calls = []\<rparr>"

definition zero_usage :: usage where
  "zero_usage = \<lparr>prompt_tokens = 0, completion_tokens = 0, total_usage = 0\<rparr>"

section \<open>Token estimate\<close>

definition estimate_tokens_chinese :: "string \<Rightarrow> nat" where
  "estimate_tokens_chinese txt = (let n = rune_count txt in if n = 0 then 0 else (n + 1) div 2)"

definition perMessageOverhead :: nat where
  "perMessageOverhead = 4"

fun tool_call_tokens :: "tool_call list \<Rightarrow> nat" where
  "tool_call_tokens [] = 0"
| "tool_call_tokens (tc # tcs) =
     estimate_tokens_chinese (fc_name (tcall_function tc))
     + estimate_tokens_chinese (fc_arguments (tcall_function tc)) + 10 + tool_call_tokens tcs"

definition estimate_message_tokens :: "message \<Rightarrow> nat" where
  "estimate_message_tokens m =
     estimate_tokens_chinese (content m) + perMessageOverhead + tool_call_tokens (tool_calls m)"

fun estimate_messages_tokens :: "message list \<Rightarrow> nat" where
  "estimate_messages_tokens [] = 0"
| "estimate_messages_tokens (m # ms) = estimate_message_tokens m + estimate_messages_tokens ms"

lemma estimate_append [simp]:
  "estimate_messages_tokens (xs @ ys) = estimate_messages_tokens xs + estimate_messages_tokens ys"
  by (induction xs) auto

section \<open>Compaction\<close>

definition is_tool :: "message \<Rightarrow> bool" where
  "is_tool m \<longleftrightarrow> role m = ''tool''"

definition makes_calls :: "message \<Rightarrow> bool" where
  "makes_calls m \<longleftrightarrow> role m = ''assistant'' \<and> length (tool_calls m) > 0"

record message_group =
  start_idx :: nat
  group_tokens :: nat

function parse_groups :: "nat \<Rightarrow> message list \<Rightarrow> message_group list" where
  "parse_groups i [] = []"
| "parse_groups i (m # ms) =
     (if makes_calls m then
        let ts = takeWhile is_tool ms in
        \<lparr>start_idx = i, group_tokens = estimate_message_tokens m + estimate_messages_tokens ts\<rparr>
        # parse_groups (i + 1 + length ts) (drop (length ts) ms)
      else \<lparr>start_idx = i, group_tokens = estimate_message_tokens m\<rparr> # parse_groups (i + 1) ms)"
  by pat_completeness auto
termination by (relation "measure (\<lambda>(i, ms). length ms)") auto

definition parse_message_groups :: "message list \<Rightarrow> message_group list" where
  "parse_message_groups messages = parse_groups 1 (drop 1 messages)"

text \<open>The backward loop; \<open>j\<close> groups are still to be looked at.\<close>

fun keep_loop :: "message_group list \<Rightarrow> int \<Rightarrow> nat \<Rightarrow> int \<Rightarrow> nat \<Rightarrow> nat" where
  "keep_loop groups budget 0 tot keep_from = keep_from"
| "keep_loop groups budget (Suc j) tot keep_from =
     (if tot + int (group_tokens (groups ! j)) > budget then keep_from
      else keep_loop groups budget j (tot + int (group_tokens (groups ! j))) j)"

text \<open>
  Whether the result is the argument itself, its first element under the same backing array, or a
  new slice of the given capacity: \<open>streaming.go\<close> depends on it.
\<close>

datatype slice_origin = Whole | FirstOnly | Fresh nat

definition compact_messages :: "message list \<Rightarrow> int \<Rightarrow> message list \<times> slice_origin" where
  "compact_messages messages token_budget =
     (if length messages \<le> 1 \<or> token_budget \<le> 0 then (messages, Whole)
      else if int (estimate_messages_tokens messages) \<le> token_budget then (messages, Whole)
      else
        let groups = parse_message_groups messages;
            budget = token_budget - int (estimate_message_tokens (messages ! 0))
        in if budget \<le> 0 then (take 1 messages, FirstOnly)
           else
             let keep_from = keep_loop groups budget (length groups) 0 (length groups) in
             if keep_from = 0 then (messages, Whole)
             else if keep_from \<ge> length groups then (take 1 messages, FirstOnly)
             else (messages ! 0 # drop (start_idx (groups ! keep_from)) messages,
                   Fresh (length messages - start_idx (groups ! keep_from) + 1)))"

section \<open>Lemmas\<close>

fun no_orphans :: "bool \<Rightarrow> message list \<Rightarrow> bool" where
  "no_orphans open_calls [] = True"
| "no_orphans open_calls (m # ms) =
     (if is_tool m then open_calls \<and> no_orphans open_calls ms else no_orphans (makes_calls m) ms)"

definition tools_answered :: "message list \<Rightarrow> bool" where
  "tools_answered ms \<longleftrightarrow> no_orphans False ms"

lemma makes_calls_not_tool: "makes_calls m \<Longrightarrow> \<not> is_tool m"
  by (simp add: makes_calls_def is_tool_def)

lemma no_orphans_mono: "no_orphans False ms \<Longrightarrow> no_orphans b ms"
  by (cases ms) auto

lemma no_orphans_dropTools: "no_orphans b ms \<Longrightarrow> no_orphans False (dropWhile is_tool ms)"
  by (induction ms) auto

lemma drop_length_takeWhile: "drop (length (takeWhile P xs)) xs = dropWhile P xs"
  by (metis append_eq_conv_conj takeWhile_dropWhile_id)

text \<open>A group's tokens are those of its messages, and the groups from the \<open>j\<close>-th on cover the suffix.\<close>

lemma parse_groups_suffix:
  "j < length (parse_groups i ms) \<Longrightarrow> tools_answered ms \<Longrightarrow>
     i \<le> start_idx (parse_groups i ms ! j) \<and> start_idx (parse_groups i ms ! j) < i + length ms
     \<and> (j = 0 \<longrightarrow> start_idx (parse_groups i ms ! j) = i)
     \<and> estimate_messages_tokens (drop (start_idx (parse_groups i ms ! j) - i) ms)
         = sum_list (map group_tokens (drop j (parse_groups i ms)))
     \<and> tools_answered (drop (start_idx (parse_groups i ms ! j) - i) ms)"
proof (induction "length ms" arbitrary: i ms j rule: less_induct)
  case (less all_ms)
  obtain m ms where all_ms: "all_ms = m # ms" using less.prems(1) by (cases all_ms) auto
  note prems = less.prems [unfolded all_ms]
  define ts where "ts = (if makes_calls m then takeWhile is_tool ms else [])"
  define rest where "rest = drop (length ts) ms"
  define i' where "i' = i + 1 + length ts"
  have eq: "parse_groups i (m # ms) = \<lparr>start_idx = i, group_tokens = estimate_message_tokens m + estimate_messages_tokens ts\<rparr>
      # parse_groups i' rest"
    by (simp add: ts_def rest_def i'_def Let_def)
  have ms: "ms = ts @ rest" by (simp add: ts_def rest_def drop_length_takeWhile)
  have ne: "\<not> is_tool m" using prems(2) by (auto simp: tools_answered_def)
  have ok: "tools_answered rest"
    using prems(2) ne no_orphans_dropTools
    by (auto simp: tools_answered_def rest_def ts_def drop_length_takeWhile)
  have IH: "j' < length (parse_groups i' rest) \<Longrightarrow>
     i' \<le> start_idx (parse_groups i' rest ! j') \<and> start_idx (parse_groups i' rest ! j') < i' + length rest
     \<and> (j' = 0 \<longrightarrow> start_idx (parse_groups i' rest ! j') = i')
     \<and> estimate_messages_tokens (drop (start_idx (parse_groups i' rest ! j') - i') rest)
         = sum_list (map group_tokens (drop j' (parse_groups i' rest)))
     \<and> tools_answered (drop (start_idx (parse_groups i' rest ! j') - i') rest)" for j'
    using ok by (intro less.hyps) (simp_all add: all_ms rest_def)
  have tot: "estimate_messages_tokens rest = sum_list (map group_tokens (parse_groups i' rest))"
  proof (cases "parse_groups i' rest")
    case Nil
    then have "rest = []" by (cases rest) (auto simp: Let_def split: if_splits)
    with Nil show ?thesis by simp
  next
    case (Cons g gs)
    then show ?thesis using IH [of 0] by auto
  qed
  show ?case
  proof (cases j)
    case 0
    then show ?thesis
      unfolding all_ms eq using tot prems(2) ms by simp
  next
    case (Suc j')
    with prems(1) eq have j': "j' < length (parse_groups i' rest)" by simp
    let ?s = "start_idx (parse_groups i' rest ! j')"
    have le: "i' \<le> ?s" using IH [OF j'] by blast
    have e: "?s - i = Suc (length ts + (?s - i'))" using le i'_def by linarith
    have "drop (?s - i) (m # ms) = drop (?s - i') rest" unfolding e by (simp add: ms)
    then show ?thesis
      unfolding all_ms eq using IH [OF j'] by (simp add: Suc i'_def ms)
  qed
qed

lemma keep_loop_spec:
  "j \<le> length groups \<Longrightarrow> tot = int (sum_list (map group_tokens (drop j groups))) \<Longrightarrow> tot \<le> budget \<Longrightarrow>
   (let k = keep_loop groups budget j tot j in
      k \<le> j \<and> int (sum_list (map group_tokens (drop k groups))) \<le> budget
      \<and> (k > 0 \<longrightarrow> int (sum_list (map group_tokens (drop (k - 1) groups))) > budget))"
proof (induction j arbitrary: tot)
  case 0
  then show ?case by simp
next
  case (Suc j)
  have d: "drop j groups = groups ! j # drop (Suc j) groups"
    using Suc.prems(1) by (simp add: Cons_nth_drop_Suc)
  show ?case
  proof (cases "tot + int (group_tokens (groups ! j)) > budget")
    case True
    with Suc.prems d show ?thesis by (simp add: Let_def)
  next
    case False
    have "tot + int (group_tokens (groups ! j)) = int (sum_list (map group_tokens (drop j groups)))"
      using d Suc.prems(2) by simp
    with False Suc.IH [of "tot + int (group_tokens (groups ! j))"] Suc.prems(1) show ?thesis
      by (auto simp: Let_def)
  qed
qed

lemma compact_messages_spec:
  assumes ne: "2 \<le> length ms" and pos: "0 < budget" and wf: "tools_answered (tl ms)"
  shows "(\<exists>k \<ge> 1. fst (compact_messages ms budget) = hd ms # drop k ms)
    \<and> (int (estimate_messages_tokens (fst (compact_messages ms budget))) \<le> budget
        \<or> fst (compact_messages ms budget) = [hd ms])
    \<and> tools_answered (tl (fst (compact_messages ms budget)))
    \<and> (int (estimate_messages_tokens ms) \<le> budget \<longrightarrow> fst (compact_messages ms budget) = ms)"
proof -
  obtain m rest where ms: "ms = m # rest" "rest \<noteq> []" using ne by (cases ms; cases "tl ms") auto
  let ?g = "parse_groups 1 rest"
  let ?b = "budget - int (estimate_message_tokens m)"
  let ?k = "keep_loop ?g ?b (length ?g) 0 (length ?g)"
  have ok: "tools_answered rest" using wf ms by simp
  have all: "int (estimate_messages_tokens ms) \<le> budget \<Longrightarrow> ?thesis"
    using ms ok pos by (auto simp: compact_messages_def intro!: exI [of _ 1])
  have one: "fst (compact_messages ms budget) = [m] \<Longrightarrow> \<not> int (estimate_messages_tokens ms) \<le> budget \<Longrightarrow> ?thesis"
    using ms by (auto simp: tools_answered_def intro!: exI [of _ "length ms"])
  show ?thesis
  proof (cases "int (estimate_messages_tokens ms) \<le> budget \<or> ?b \<le> 0 \<or> ?k \<ge> length ?g")
    case True
    have g: "?g \<noteq> []" using ms(2) by (cases rest) (auto simp: Let_def)
    from True show ?thesis
      using all one ms pos g ne
      by (auto simp: compact_messages_def parse_message_groups_def Let_def)
  next
    case False
    have spec: "?k \<le> length ?g \<and> int (sum_list (map group_tokens (drop ?k ?g))) \<le> ?b"
      using keep_loop_spec [of "length ?g" ?g 0 ?b] False by (simp add: Let_def)
    have suf: "estimate_messages_tokens (drop (start_idx (?g ! ?k) - 1) rest) = sum_list (map group_tokens (drop ?k ?g))
        \<and> tools_answered (drop (start_idx (?g ! ?k) - 1) rest) \<and> 1 \<le> start_idx (?g ! ?k)
        \<and> (?k = 0 \<longrightarrow> start_idx (?g ! ?k) = 1)"
      using parse_groups_suffix [of ?k 1 rest] False ok by auto
    have "?k \<noteq> 0"
    proof
      assume "?k = 0"
      with suf spec have "int (estimate_messages_tokens rest) \<le> ?b" by auto
      with False ms show False by simp
    qed
    then have r: "fst (compact_messages ms budget) = m # drop (start_idx (?g ! ?k)) ms"
      using False ms pos ne by (simp add: compact_messages_def parse_message_groups_def Let_def)
    have "drop (start_idx (?g ! ?k)) ms = drop (start_idx (?g ! ?k) - 1) rest"
      using suf ms by (cases "start_idx (?g ! ?k)") auto
    with r suf spec ms False show ?thesis
      by (auto intro!: exI [of _ "start_idx (?g ! ?k)"])
  qed
qed


definition example_message :: "string \<Rightarrow> string \<Rightarrow> message" where
  "example_message r c = \<lparr>role = r, content = c, tool_call_id = '''', tool_calls = []\<rparr>"


end
