(* ===== verification/Registry.thy ===== *)
theory Registry
  imports DiagnoseTypes AIMessages "HOL-Library.Multiset"
begin

text \<open>
  The tool registry (\<open>diagnose/registry.go\<close>) and the tool definitions sent to the model
  (\<open>diagnose/toolconv.go\<close>).  The maps are \<open>categories\<close>, the flat \<open>tool_index\<close> and the accessor
  factories (handles).  \<open>lower\<close> is \<open>strings.ToLower\<close>, \<open>quote\<close> is the verb \<open>%q\<close>.
\<close>

record tool_registry =
  categories :: "(string, tool_category) gomap"
  tool_index :: "(string, diagnose_tool) gomap"
  accessor_factories :: "(string, nat) gomap"

definition new_tool_registry :: tool_registry where
  "new_tool_registry = \<lparr>categories = [], tool_index = [], accessor_factories = []\<rparr>"

section \<open>Registration\<close>

definition register :: "string \<Rightarrow> diagnose_tool \<Rightarrow> tool_registry \<Rightarrow> tool_registry" where
  "register category tool r =
     (if mget (tool_index r) (dt_name tool) \<noteq> None then r
      else
        let cat = (case mget (categories r) category of
              Some c \<Rightarrow> c
            | None \<Rightarrow> \<lparr>tc_name = category, tc_plugin = category, tc_description = '''', tc_scope = dt_scope tool,
                tc_tools = []\<rparr>);
            cat = cat\<lparr>tc_tools := tc_tools cat @ [tool]\<rparr>
        in r\<lparr>categories := mput category cat (categories r),
             tool_index := mput (dt_name tool) tool (tool_index r)\<rparr>)"

definition register_category :: "string \<Rightarrow> string \<Rightarrow> string \<Rightarrow> tool_scope \<Rightarrow> tool_registry \<Rightarrow> tool_registry" where
  "register_category name plugin desc scope r =
     (let cat = (case mget (categories r) name of
          Some c \<Rightarrow> c
        | None \<Rightarrow> \<lparr>tc_name = name, tc_plugin = '''', tc_description = '''', tc_scope = ToolScopeLocal, tc_tools = []\<rparr>)
      in r\<lparr>categories := mput name (cat\<lparr>tc_plugin := plugin, tc_description := desc, tc_scope := scope\<rparr>) (categories r)\<rparr>)"

definition register_accessor_factory :: "string \<Rightarrow> nat \<Rightarrow> tool_registry \<Rightarrow> tool_registry" where
  "register_accessor_factory plugin factory r =
     r\<lparr>accessor_factories := mput plugin factory (accessor_factories r)\<rparr>"

text \<open>\<open>run\<close> is what a factory returns: an accessor or an error.\<close>

definition create_accessor ::
  "(string \<Rightarrow> string) \<Rightarrow> (nat \<Rightarrow> string + (nat \<times> bool)) \<Rightarrow> string \<Rightarrow> tool_registry \<Rightarrow> string + (nat \<times> bool)" where
  "create_accessor quote run plugin r =
     (case mget (accessor_factories r) plugin of
        None \<Rightarrow> Inl (''no accessor factory registered for plugin '' @ quote plugin)
      | Some f \<Rightarrow> run f)"

definition has_accessor_factory :: "string \<Rightarrow> tool_registry \<Rightarrow> bool" where
  "has_accessor_factory plugin r \<longleftrightarrow> mget (accessor_factories r) plugin \<noteq> None"

section \<open>Lookup\<close>

definition get_tool :: "string \<Rightarrow> tool_registry \<Rightarrow> diagnose_tool option" where
  "get_tool name r = mget (tool_index r) name"

definition by_plugin :: "string \<Rightarrow> tool_registry \<Rightarrow> diagnose_tool list" where
  "by_plugin plugin r = (case mget (categories r) plugin of None \<Rightarrow> [] | Some c \<Rightarrow> tc_tools c)"

definition category_supports_os :: "(string \<Rightarrow> string) \<Rightarrow> tool_category \<Rightarrow> string \<Rightarrow> bool" where
  "category_supports_os lower c goos =
     (let desc = lower (tc_description c) in
      if contains desc ''linux only.'' then goos = ''linux''
      else if contains desc ''darwin only.'' \<or> contains desc ''macos only.'' then goos = ''darwin''
      else if contains desc ''windows only.'' then goos = ''windows''
      else True)"

definition tools_for_os :: "string \<Rightarrow> diagnose_tool list \<Rightarrow> diagnose_tool list" where
  "tools_for_os goos ts = filter (\<lambda>t. supports_os t goos) ts"

definition by_plugin_for_os :: "(string \<Rightarrow> string) \<Rightarrow> string \<Rightarrow> string \<Rightarrow> tool_registry \<Rightarrow> diagnose_tool list" where
  "by_plugin_for_os lower plugin goos r =
     (case mget (categories r) plugin of
        None \<Rightarrow> []
      | Some c \<Rightarrow> if \<not> category_supports_os lower c goos then [] else tools_for_os goos (tc_tools c))"

definition tool_count :: "tool_registry \<Rightarrow> nat" where
  "tool_count r = length (tool_index r)"

definition category_names :: "tool_registry \<Rightarrow> string list" where
  "category_names r = sorted_keys (categories r)"

definition sorted_categories :: "tool_registry \<Rightarrow> tool_category list" where
  "sorted_categories r = sort_key tc_name (map snd (categories r))"

definition categories_with_tools :: "tool_registry \<Rightarrow> tool_category list" where
  "categories_with_tools r = sorted_categories r"

text \<open>The loop over the map of categories, in whatever order it has.\<close>

fun owner_supports :: "(string \<Rightarrow> string) \<Rightarrow> string \<Rightarrow> string \<Rightarrow> tool_category list \<Rightarrow> bool" where
  "owner_supports lower name goos [] = True"
| "owner_supports lower name goos (c # cs) =
     (if list_ex (\<lambda>t. dt_name t = name) (tc_tools c) then category_supports_os lower c goos
      else owner_supports lower name goos cs)"

definition tool_supported_on :: "(string \<Rightarrow> string) \<Rightarrow> string \<Rightarrow> string \<Rightarrow> tool_registry \<Rightarrow> bool" where
  "tool_supported_on lower name goos r =
     (case mget (tool_index r) name of
        None \<Rightarrow> False
      | Some tool \<Rightarrow>
          if \<not> supports_os tool goos then False else owner_supports lower name goos (map snd (categories r)))"

section \<open>Listings\<close>

definition pad12 :: "string \<Rightarrow> string" where
  "pad12 s = s @ replicate (12 - rune_count s) (CHR '' '')"

definition category_line :: "string \<Rightarrow> nat \<Rightarrow> string \<Rightarrow> string" where
  "category_line name n desc = pad12 name @ '' ('' @ itoa (int n) @ '' tools) - '' @ desc @ nl"

definition category_desc :: "tool_category \<Rightarrow> string" where
  "category_desc c = (if tc_description c = '''' then tc_name c @ '' diagnostics'' else tc_description c)"

fun list_categories_loop :: "tool_registry \<Rightarrow> string list \<Rightarrow> string" where
  "list_categories_loop r [] = ''''"
| "list_categories_loop r (name # names) =
     (case mget (categories r) name of
        None \<Rightarrow> list_categories_loop r names
      | Some c \<Rightarrow> category_line (tc_name c) (length (tc_tools c)) (category_desc c) @ list_categories_loop r names)"

definition list_categories :: "tool_registry \<Rightarrow> string" where
  "list_categories r = list_categories_loop r (category_names r)"

fun list_categories_os_loop :: "string \<Rightarrow> tool_registry \<Rightarrow> string list \<Rightarrow> string" where
  "list_categories_os_loop goos r [] = ''''"
| "list_categories_os_loop goos r (name # names) =
     (case mget (categories r) name of
        None \<Rightarrow> list_categories_os_loop goos r names
      | Some c \<Rightarrow>
          let n = length (tools_for_os goos (tc_tools c)) in
          if n = 0 then list_categories_os_loop goos r names
          else category_line (tc_name c) n (category_desc c) @ list_categories_os_loop goos r names)"

definition list_categories_for_os :: "(string \<Rightarrow> string) \<Rightarrow> string \<Rightarrow> tool_registry \<Rightarrow> string" where
  "list_categories_for_os lower goos r =
     list_categories_os_loop goos r
       (sort (map fst (filter (\<lambda>(n, c). category_supports_os lower c goos) (categories r))))"

fun param_lines :: "tool_param list \<Rightarrow> string" where
  "param_lines [] = ''''"
| "param_lines (p # ps) =
     ''  '' @ tp_name p @ '' ('' @ tp_type p @ ''): '' @ tp_description p
     @ (if tp_required p then '' (required)'' else '''') @ nl @ param_lines ps"

fun tool_lines :: "diagnose_tool list \<Rightarrow> string" where
  "tool_lines [] = ''''"
| "tool_lines (t # ts) =
     dt_name t @ '' - '' @ dt_description t @ nl @ param_lines (dt_parameters t) @ tool_lines ts"

definition list_tools :: "(string \<Rightarrow> string) \<Rightarrow> string \<Rightarrow> tool_registry \<Rightarrow> string" where
  "list_tools quote category r =
     (case mget (categories r) category of
        None \<Rightarrow> ''unknown category: '' @ quote category
      | Some c \<Rightarrow> tool_lines (tc_tools c))"

definition list_tools_for_os ::
  "(string \<Rightarrow> string) \<Rightarrow> (string \<Rightarrow> string) \<Rightarrow> string \<Rightarrow> string \<Rightarrow> tool_registry \<Rightarrow> string" where
  "list_tools_for_os lower quote category goos r =
     (case mget (categories r) category of
        None \<Rightarrow> ''unknown category: '' @ quote category
      | Some c \<Rightarrow>
          let none = ''no tools in category '' @ quote category @ '' support os='' @ quote goos in
          if \<not> category_supports_os lower c goos then none
          else let ts = tools_for_os goos (tc_tools c) in
            if length ts = 0 then none else tool_lines ts)"

definition format_params_compact :: "tool_param list \<Rightarrow> string" where
  "format_params_compact ps =
     (if length ps = 0 then ''''
      else join '', '' (map (\<lambda>p. if tp_required p then tp_name p @ ''*'' else tp_name p) ps))"

fun catalog_lines :: "diagnose_tool list \<Rightarrow> string" where
  "catalog_lines [] = ''''"
| "catalog_lines (t # ts) =
     (let params = format_params_compact (dt_parameters t) in
      (if params \<noteq> '''' then ''  '' @ dt_name t @ ''('' @ params @ '') - '' @ dt_description t @ nl
       else ''  '' @ dt_name t @ ''() - '' @ dt_description t @ nl) @ catalog_lines ts)"

definition plain_desc :: "tool_category \<Rightarrow> string" where
  "plain_desc c = (if tc_description c = '''' then tc_name c else tc_description c)"

definition list_all_tools :: "tool_registry \<Rightarrow> string" where
  "list_all_tools r =
     concat (map (\<lambda>c. ''['' @ tc_name c @ ''] '' @ plain_desc c @ nl @ catalog_lines (tc_tools c)) (sorted_categories r))"

definition smart_entry :: "tool_category \<Rightarrow> diagnose_tool list \<Rightarrow> string" where
  "smart_entry c ts =
     (if has_prefix (tc_name c) ''mcp:'' then
        ''['' @ tc_name c @ ''] ('' @ itoa (int (length ts)) @ '' tools) '' @ plain_desc c
        @ '' '' @ [CHR 0xE2, CHR 0x80, CHR 0x94] @ '' '' @ [CHR 0xE4, CHR 0xBD, CHR 0xBF, CHR 0xE7, CHR 0x94, CHR 0xA8,
            CHR 0xE5, CHR 0x89, CHR 0x8D, CHR 0xE5, CHR 0x85, CHR 0x88] @ '' list_tools(category=''
        @ dquote @ tc_name c @ dquote @ '')'' @ nl
      else ''['' @ tc_name c @ ''] '' @ plain_desc c @ nl @ catalog_lines ts)"

definition list_tool_catalog_smart :: "tool_registry \<Rightarrow> string" where
  "list_tool_catalog_smart r = concat (map (\<lambda>c. smart_entry c (tc_tools c)) (sorted_categories r))"

definition list_tool_catalog_smart_for_os :: "(string \<Rightarrow> string) \<Rightarrow> string \<Rightarrow> tool_registry \<Rightarrow> string" where
  "list_tool_catalog_smart_for_os lower goos r =
     concat (map (\<lambda>c.
       if \<not> category_supports_os lower c goos then ''''
       else let ts = tools_for_os goos (tc_tools c) in
         if length ts = 0 then '''' else smart_entry c ts) (sorted_categories r))"

section \<open>Tool definitions for the model\<close>

definition list_tools_desc :: string where
  "list_tools_desc =
     [CHR 0xE6, CHR 0x9F, CHR 0xA5, CHR 0xE7, CHR 0x9C, CHR 0x8B, CHR 0xE6, CHR 0x9F, CHR 0x90, CHR 0xE4, CHR
      0xB8, CHR 0xAA, CHR 0xE5, CHR 0xB7, CHR 0xA5, CHR 0xE5, CHR 0x85, CHR 0xB7, CHR 0xE7, CHR 0xB1,
      CHR 0xBB, CHR 0xE5, CHR 0x88, CHR 0xAB, CHR 0xE4, CHR 0xB8, CHR 0x8B, CHR 0xE6, CHR 0x89, CHR
      0x80, CHR 0xE6, CHR 0x9C, CHR 0x89, CHR 0xE5, CHR 0xB7, CHR 0xA5, CHR 0xE5, CHR 0x85, CHR 0xB7,
      CHR 0xE7, CHR 0x9A, CHR 0x84, CHR 0xE8, CHR 0xAF, CHR 0xA6, CHR 0xE7, CHR 0xBB, CHR 0x86, CHR
      0xE5, CHR 0x8F, CHR 0x82, CHR 0xE6, CHR 0x95, CHR 0xB0, CHR 0xE8, CHR 0xAF, CHR 0xB4, CHR 0xE6,
      CHR 0x98, CHR 0x8E, CHR 0xEF, CHR 0xBC, CHR 0x88, CHR 0xE4, CHR 0xBB, CHR 0x85, CHR 0xE5, CHR
      0x9C, CHR 0xA8, CHR 0xE9, CHR 0x9C, CHR 0x80, CHR 0xE8, CHR 0xA6, CHR 0x81, CHR 0xE5, CHR 0x8F,
      CHR 0x82, CHR 0xE6, CHR 0x95, CHR 0xB0, CHR 0xE7, CHR 0xBB, CHR 0x86, CHR 0xE8, CHR 0x8A, CHR
      0x82, CHR 0xE6, CHR 0x97, CHR 0xB6, CHR 0xE4, CHR 0xBD, CHR 0xBF, CHR 0xE7, CHR 0x94, CHR 0xA8,
      CHR 0xEF, CHR 0xBC, CHR 0x89]"

definition category_desc_zh :: string where
  "category_desc_zh =
     [CHR 0xE5, CHR 0xB7, CHR 0xA5, CHR 0xE5, CHR 0x85, CHR 0xB7, CHR 0xE5, CHR 0xA4, CHR 0xA7, CHR 0xE7, CHR
      0xB1, CHR 0xBB, CHR 0xE5, CHR 0x90, CHR 0x8D, CHR 0xE7, CHR 0xA7, CHR 0xB0]"

definition call_tool_desc :: string where
  "call_tool_desc =
     [CHR 0xE8, CHR 0xB0, CHR 0x83, CHR 0xE7, CHR 0x94, CHR 0xA8, CHR 0xE4, CHR 0xB8, CHR 0x80, CHR 0xE4, CHR
      0xB8, CHR 0xAA, CHR 0xE9, CHR 0x9D, CHR 0x9E, CHR 0xE7, CHR 0x9B, CHR 0xB4, CHR 0xE6, CHR 0x8E,
      CHR 0xA5, CHR 0xE6, CHR 0xB3, CHR 0xA8, CHR 0xE5, CHR 0x85, CHR 0xA5, CHR 0xE7, CHR 0x9A, CHR
      0x84, CHR 0xE8, CHR 0xAF, CHR 0x8A, CHR 0xE6, CHR 0x96, CHR 0xAD, CHR 0xE5, CHR 0xB7, CHR 0xA5,
      CHR 0xE5, CHR 0x85, CHR 0xB7, CHR 0xEF, CHR 0xBC, CHR 0x88, CHR 0xE5, CHR 0xB7, CHR 0xA5, CHR
      0xE5, CHR 0x85, CHR 0xB7, CHR 0xE5, CHR 0x90, CHR 0x8D, CHR 0xE5, CHR 0x92, CHR 0x8C, CHR 0xE5,
      CHR 0x8F, CHR 0x82, CHR 0xE6, CHR 0x95, CHR 0xB0, CHR 0xE8, CHR 0xA7, CHR 0x81, CHR 0xE7, CHR
      0xB3, CHR 0xBB, CHR 0xE7, CHR 0xBB, CHR 0x9F, CHR 0xE6, CHR 0x8F, CHR 0x90, CHR 0xE7, CHR 0xA4,
      CHR 0xBA, CHR 0xE4, CHR 0xB8, CHR 0xAD, CHR 0xE7, CHR 0x9A, CHR 0x84, CHR 0xE5, CHR 0xB7, CHR
      0xA5, CHR 0xE5, CHR 0x85, CHR 0xB7, CHR 0xE7, CHR 0x9B, CHR 0xAE, CHR 0xE5, CHR 0xBD, CHR 0x95,
      CHR 0xEF, CHR 0xBC, CHR 0x89]"

definition name_desc :: string where
  "name_desc = [CHR 0xE5, CHR 0xB7, CHR 0xA5, CHR 0xE5, CHR 0x85, CHR 0xB7, CHR 0xE5, CHR 0x90, CHR 0x8D, CHR 0xE7, CHR
      0xA7, CHR 0xB0]"

definition args_desc :: string where
  "args_desc =
     [CHR 0xE5, CHR 0xB7, CHR 0xA5, CHR 0xE5, CHR 0x85, CHR 0xB7, CHR 0xE5, CHR 0x8F, CHR 0x82, CHR 0xE6, CHR
      0x95, CHR 0xB0, CHR 0xEF, CHR 0xBC, CHR 0x8C] @ ''JSON '' @ [CHR 0xE5, CHR 0xAD, CHR 0x97, CHR
      0xE7, CHR 0xAC, CHR 0xA6, CHR 0xE4, CHR 0xB8, CHR 0xB2, CHR 0xE6, CHR 0xA0, CHR 0xBC, CHR 0xE5,
      CHR 0xBC, CHR 0x8F]"

definition str_prop :: "string \<Rightarrow> property_schema" where
  "str_prop desc = \<lparr>ps_type = ''string'', ps_description = desc\<rparr>"

definition function_tool :: "string \<Rightarrow> string \<Rightarrow> (string, property_schema) gomap \<Rightarrow> string list \<Rightarrow> ai_tool" where
  "function_tool name desc props req =
     \<lparr>tool_type = ''function'',
      tool_fn = \<lparr>tf_name = name, tf_description = desc,
        tf_parameters = Some \<lparr>prm_type = ''object'', prm_properties = props, prm_required = req\<rparr>\<rparr>\<rparr>"

definition meta_tools :: "ai_tool list" where
  "meta_tools =
     [function_tool ''list_tools'' list_tools_desc [(''category'', str_prop category_desc_zh)] [''category''],
      function_tool ''call_tool'' call_tool_desc
        [(''name'', str_prop name_desc), (''tool_args'', str_prop args_desc)] [''name'']]"

fun tool_props :: "tool_param list \<Rightarrow> (string, property_schema) gomap \<Rightarrow> (string, property_schema) gomap" where
  "tool_props [] m = m"
| "tool_props (p # ps) m =
     tool_props ps (mput (tp_name p) \<lparr>ps_type = tp_type p, ps_description = tp_description p\<rparr> m)"

definition diagnose_tool_to_ai :: "diagnose_tool \<Rightarrow> ai_tool" where
  "diagnose_tool_to_ai t =
     \<lparr>tool_type = ''function'',
      tool_fn = \<lparr>tf_name = dt_name t, tf_description = dt_description t,
        tf_parameters = (if length (dt_parameters t) > 0
          then Some \<lparr>prm_type = ''object'', prm_properties = tool_props (dt_parameters t) [],
                 prm_required = map tp_name (filter tp_required (dt_parameters t))\<rparr>
          else None)\<rparr>\<rparr>"

definition build_tool_set ::
  "(string \<Rightarrow> string) \<Rightarrow> tool_registry \<Rightarrow> diagnose_request \<Rightarrow> ai_tool list \<times> diagnose_tool list" where
  "build_tool_set lower r req =
     (let direct = by_plugin_for_os lower (rq_plugin req) (rq_runtime_os req) r
      in (map diagnose_tool_to_ai direct @ meta_tools, direct))"

section \<open>Invariant\<close>

text \<open>
  A category is stored under its name, the index under the tools' names, and the categories hold
  exactly the indexed tools, each once.
\<close>

definition all_tools :: "(string, tool_category) gomap \<Rightarrow> diagnose_tool list" where
  "all_tools cs = concat (map (\<lambda>(n, c). tc_tools c) cs)"

definition registry_ok :: "tool_registry \<Rightarrow> bool" where
  "registry_ok r \<longleftrightarrow> go_map_ok (categories r) \<and> go_map_ok (tool_index r)
     \<and> (\<forall>n c. mget (categories r) n = Some c \<longrightarrow> tc_name c = n)
     \<and> (\<forall>n t. mget (tool_index r) n = Some t \<longrightarrow> dt_name t = n)
     \<and> mset (all_tools (categories r)) = mset (map snd (tool_index r))"

inductive registry_built :: "tool_registry \<Rightarrow> bool" where
  empty: "registry_built new_tool_registry"
| tool: "registry_built r \<Longrightarrow> registry_built (register category t r)"
| category: "registry_built r \<Longrightarrow> registry_built (register_category name plugin desc scope r)"
| factory: "registry_built r \<Longrightarrow> registry_built (register_accessor_factory plugin f r)"

lemma mput_new: "mget m k = None \<Longrightarrow> mput k v m = m @ [(k, v)]"
  by (induction m) (auto simp: mput_def)

lemma all_tools_mput:
  assumes "go_map_ok cs"
  shows "mset (all_tools (mput n c cs)) + mset (case mget cs n of Some c' \<Rightarrow> tc_tools c' | None \<Rightarrow> [])
    = mset (all_tools cs) + mset (tc_tools c)"
  using assms
proof (induction cs)
  case Nil
  then show ?case by (simp add: all_tools_def mput_def)
next
  case (Cons x cs)
  obtain a b where x: "x = (a, b)" by force
  show ?case
  proof (cases "a = n")
    case True
    with x show ?thesis by (simp add: all_tools_def mput_def)
  next
    case False
    with x Cons show ?thesis by (simp add: all_tools_def mput_def go_map_ok_def ac_simps)
  qed
qed

definition category_or_new :: "tool_registry \<Rightarrow> string \<Rightarrow> tool_category \<Rightarrow> tool_category" where
  "category_or_new r name fresh = (case mget (categories r) name of Some c \<Rightarrow> c | None \<Rightarrow> fresh)"

lemma category_or_new_tools:
  "registry_ok r \<Longrightarrow> tc_tools fresh = [] \<Longrightarrow> mset (all_tools (mput name c (categories r))) + mset (tc_tools (category_or_new r name fresh))
     = mset (all_tools (categories r)) + mset (tc_tools c)"
  using all_tools_mput [of "categories r" name c]
  by (simp add: category_or_new_def registry_ok_def split: option.splits)

lemma category_or_new_name:
  "registry_ok r \<Longrightarrow> tc_name fresh = name \<Longrightarrow> tc_name (category_or_new r name fresh) = name"
  by (auto simp: category_or_new_def registry_ok_def split: option.splits)

lemma register_ok:
  assumes "registry_ok r"
  shows "registry_ok (register category t r)"
proof (cases "mget (tool_index r) (dt_name t)")
  case (Some x)
  with assms show ?thesis by (simp add: register_def)
next
  case None
  define fresh where "fresh = \<lparr>tc_name = category, tc_plugin = category, tc_description = '''', tc_scope = dt_scope t, tc_tools = []\<rparr>"
  define cat where "cat = category_or_new r category fresh"
  let ?c = "cat\<lparr>tc_tools := tc_tools cat @ [t]\<rparr>"
  have r: "register category t r = r\<lparr>categories := mput category ?c (categories r),
      tool_index := mput (dt_name t) t (tool_index r)\<rparr>"
    using None by (simp add: register_def cat_def fresh_def category_or_new_def Let_def)
  have "mset (all_tools (mput category ?c (categories r))) = mset (all_tools (categories r)) + {#t#}"
    using category_or_new_tools [OF assms, of fresh category ?c] by (simp add: cat_def fresh_def)
  moreover have "mset (map snd (mput (dt_name t) t (tool_index r))) = mset (map snd (tool_index r)) + {#t#}"
    by (simp add: mput_new [OF None])
  ultimately show ?thesis
    unfolding r using assms category_or_new_name [OF assms, of fresh category]
    by (simp add: registry_ok_def cat_def fresh_def)
qed

lemma register_category_ok:
  assumes "registry_ok r"
  shows "registry_ok (register_category name plugin desc scope r)"
proof -
  define fresh where "fresh = \<lparr>tc_name = name, tc_plugin = '''', tc_description = '''', tc_scope = ToolScopeLocal, tc_tools = []\<rparr>"
  define cat where "cat = category_or_new r name fresh"
  let ?c = "cat\<lparr>tc_plugin := plugin, tc_description := desc, tc_scope := scope\<rparr>"
  have r: "register_category name plugin desc scope r = r\<lparr>categories := mput name ?c (categories r)\<rparr>"
    by (simp add: register_category_def cat_def fresh_def category_or_new_def Let_def)
  have "mset (all_tools (mput name ?c (categories r))) = mset (all_tools (categories r))"
    using category_or_new_tools [OF assms, of fresh name ?c] by (simp add: cat_def fresh_def)
  then show ?thesis
    unfolding r using assms category_or_new_name [OF assms, of fresh name]
    by (simp add: registry_ok_def cat_def fresh_def)
qed

lemma registry_built_ok: "registry_built r \<Longrightarrow> registry_ok r"
  by (induction rule: registry_built.induct)
    (simp_all add: register_ok register_category_ok, auto simp: registry_ok_def new_tool_registry_def
      register_accessor_factory_def all_tools_def)

lemma category_of_tool:
  assumes ok: "registry_ok r" and c: "mget (categories r) cn = Some c" and t: "t \<in> set (tc_tools c)"
  shows "mget (tool_index r) (dt_name t) = Some t"
proof -
  have "(cn, c) \<in> set (categories r)" using c by (rule map_of_SomeD)
  with t have "t \<in> set (all_tools (categories r))" by (auto simp: all_tools_def)
  also have "\<dots> = set (map snd (tool_index r))" using ok by (metis registry_ok_def set_mset_mset)
  finally obtain n where "(n, t) \<in> set (tool_index r)" by auto
  with ok have "mget (tool_index r) n = Some t" by (simp add: registry_ok_def mget_in_iff)
  with ok show ?thesis by (auto simp: registry_ok_def)
qed

text \<open>No two categories hold tools of the same name, so the loop's order does not matter.\<close>

lemma distinct_tool_names:
  assumes "registry_ok r"
  shows "distinct (map dt_name (all_tools (categories r)))"
proof -
  have "map dt_name (map snd (tool_index r)) = map fst (tool_index r)"
    using assms by (auto simp: registry_ok_def mget_in_iff [symmetric])
  moreover have "mset (map dt_name (all_tools (categories r))) = mset (map dt_name (map snd (tool_index r)))"
    using assms by (simp only: registry_ok_def mset_map)
  ultimately show ?thesis
    using assms by (metis go_map_ok_def mset_eq_imp_distinct_iff registry_ok_def)
qed

lemma owner_supports_unique:
  "distinct (map dt_name (all_tools cs)) \<Longrightarrow> (n, c) \<in> set cs \<Longrightarrow> t \<in> set (tc_tools c) \<Longrightarrow>
   owner_supports lower (dt_name t) goos (map snd cs) = category_supports_os lower c goos"
proof (induction cs)
  case Nil
  then show ?case by simp
next
  case (Cons x cs)
  obtain a b where x: "x = (a, b)" by force
  show ?case
  proof (cases "(n, c) = x")
    case True
    with x Cons.prems(3) show ?thesis by (auto simp: list_ex_iff)
  next
    case False
    with Cons.prems(2) have mem: "(n, c) \<in> set cs" by simp
    then have "dt_name t \<in> dt_name ` set (all_tools cs)"
      using Cons.prems(3) by (auto simp: all_tools_def)
    moreover have "dt_name ` set (tc_tools b) \<inter> dt_name ` set (all_tools cs) = {}"
      using Cons.prems(1) x by (simp add: all_tools_def)
    ultimately have "\<not> list_ex (\<lambda>u. dt_name u = dt_name t) (tc_tools b)"
      unfolding list_ex_iff by (metis IntI empty_iff imageI)
    with Cons.IH [OF _ mem Cons.prems(3)] Cons.prems(1) x show ?thesis
      by (simp add: all_tools_def)
  qed
qed

text \<open>
  C15. A registry keeps its three views consistent whatever is registered: the index is counted
  by the categories, a tool listed in a category is the one the index finds under its name (so
  that a duplicate name is listed nowhere), and whether a tool is supported on a system is decided
  by the tool and its one category, not by the iteration order of the map.
\<close>

theorem registry_consistent:
  assumes "registry_built r" and "mget (categories r) cn = Some c" and "t \<in> set (tc_tools c)"
  shows "tool_count r = length (all_tools (categories r))
    \<and> get_tool (dt_name t) r = Some t
    \<and> tc_name c = cn
    \<and> register category (t\<lparr>dt_description := d\<rparr>) r = r
    \<and> tool_supported_on lower (dt_name t) goos r = (supports_os t goos \<and> category_supports_os lower c goos)"
proof -
  have ok: "registry_ok r" using assms(1) by (rule registry_built_ok)
  have t: "mget (tool_index r) (dt_name t) = Some t" using category_of_tool [OF ok assms(2,3)] .
  have "length (all_tools (categories r)) = length (map snd (tool_index r))"
    using ok unfolding registry_ok_def by (metis mset_eq_length)
  moreover have "owner_supports lower (dt_name t) goos (map snd (categories r)) = category_supports_os lower c goos"
    using owner_supports_unique [OF distinct_tool_names [OF ok] map_of_SomeD [OF assms(2)] assms(3)] .
  moreover have "tc_name c = cn" using ok assms(2) by (simp add: registry_ok_def)
  ultimately show ?thesis
    using t by (simp add: tool_count_def get_tool_def register_def tool_supported_on_def)
qed

definition example_tool :: diagnose_tool where
  "example_tool = \<lparr>dt_name = ''disk_usage'', dt_description = ''d'', dt_parameters = [], dt_scope = ToolScopeLocal,
     dt_supported_os = [''linux''], dt_execute = Some 0, dt_remote_execute = None\<rparr>"

theorem registry_consistent_witness:
  "get_tool ''disk_usage'' (register ''disk'' example_tool new_tool_registry) = Some example_tool"
proof -
  have b: "registry_built (register ''disk'' example_tool new_tool_registry)"
    by (intro registry_built.intros)
  have c: "mget (categories (register ''disk'' example_tool new_tool_registry)) ''disk'' =
      Some \<lparr>tc_name = ''disk'', tc_plugin = ''disk'', tc_description = '''', tc_scope = ToolScopeLocal, tc_tools = [example_tool]\<rparr>"
    by (simp add: register_def new_tool_registry_def example_tool_def Let_def)
  show ?thesis
    using registry_consistent [OF b c, of example_tool] by (simp add: example_tool_def)
qed

end
