(* ===== verification/AIClient.thy ===== *)
theory AIClient
  imports Complex_Main AIMessages TextLimits
begin

text \<open>
  The AI clients (\<open>diagnose/aiclient\<close>): error classes, retries with exponential back-off
  (\<open>retry.go\<close>), failover over a priority list (\<open>failover.go\<close>), the request of the OpenAI
  compatible client (\<open>client.go\<close>), the reply handling of the server gateway
  (\<open>server_client.go\<close>) and the conversions of the Bedrock client (\<open>bedrock.go\<close>).

  What the \<open>i\<close>-th call of any client's \<open>Chat\<close> returns is \<open>reply i\<close> of the environment, and
  \<open>done_before i\<close> tells whether the context ends during the wait before that call; the
  counter is threaded through, so every sequence of outcomes is covered.
\<close>

section \<open>Errors\<close>

text \<open>\<open>Wrapped\<close> is \<open>fmt.Errorf\<close> with \<open>%w\<close>, which \<open>errors.As\<close> and \<open>errors.Is\<close> look through.\<close>

datatype go_error =
  APIError int string
| Canceled
| DeadlineExceeded
| Plain string
| Wrapped string go_error

fun as_api_error :: "go_error \<Rightarrow> (int \<times> string) option" where
  "as_api_error (APIError st b) = Some (st, b)"
| "as_api_error (Wrapped m e) = as_api_error e"
| "as_api_error _ = None"

fun is_canceled :: "go_error \<Rightarrow> bool" where
  "is_canceled Canceled = True"
| "is_canceled (Wrapped m e) = is_canceled e"
| "is_canceled _ = False"

fun is_deadline :: "go_error \<Rightarrow> bool" where
  "is_deadline DeadlineExceeded = True"
| "is_deadline (Wrapped m e) = is_deadline e"
| "is_deadline _ = False"

fun error_text :: "go_error \<Rightarrow> string" where
  "error_text (APIError st b) = ''AI API error (status '' @ itoa st @ ''): '' @ trunc_str b 200"
| "error_text Canceled = ''context canceled''"
| "error_text DeadlineExceeded = ''context deadline exceeded''"
| "error_text (Plain m) = m"
| "error_text (Wrapped m e) = m @ '': '' @ error_text e"

definition is_retryable :: "go_error \<Rightarrow> bool" where
  "is_retryable err =
     (case as_api_error err of
        Some (st, b) \<Rightarrow> st \<in> {429, 500, 502, 503, 504}
      | None \<Rightarrow> if is_canceled err then False else True)"

definition should_failover :: "go_error \<Rightarrow> bool" where
  "should_failover err =
     (if is_canceled err then False
      else case as_api_error err of
        Some (st, b) \<Rightarrow> st \<ge> 500 \<or> st = 429
      | None \<Rightarrow> True)"

section \<open>Retries\<close>

definition maxBackoff :: int where
  "maxBackoff = 30 * second"

record retry_config =
  max_retries :: int
  retry_backoff :: int

text \<open>\<open>cfg.RetryBackoff * time.Duration(1 << (attempt - 1))\<close>, capped; both operations wrap.\<close>

definition backoff_at :: "int \<Rightarrow> nat \<Rightarrow> int" where
  "backoff_at rb attempt =
     (let b = wrap64 (rb * wrap64 (2 ^ (attempt - 1))) in if b > maxBackoff then maxBackoff else b)"

text \<open>The jittered wait; \<open>r\<close> is \<open>rand.Float64()\<close>, the arithmetic is that of the reals.\<close>

definition jitter :: "int \<Rightarrow> real \<Rightarrow> int" where
  "jitter backoff r = (let x = of_int backoff * (3 / 4 + r * (1 / 2)) in if x < 0 then \<lceil>x\<rceil> else \<lfloor>x\<rfloor>)"

record 'a chat_env =
  reply :: "nat \<Rightarrow> go_error + 'a"
  done_before :: "nat \<Rightarrow> go_error option"
  rnd :: "nat \<Rightarrow> real"

text \<open>
  The loop with \<open>n\<close> iterations left: the pair of results as Go returns it, the call counter and
  the waits.
\<close>

fun retry_attempts ::
  "'a chat_env \<Rightarrow> int \<Rightarrow> nat \<Rightarrow> nat \<Rightarrow> go_error option \<Rightarrow> nat \<Rightarrow> ('a option \<times> go_error option) \<times> nat \<times> int list" where
  "retry_attempts env rb attempt 0 last_err i = ((None, last_err), i, [])"
| "retry_attempts env rb attempt (Suc n) last_err i =
     (let w = (if attempt > 0 then [jitter (backoff_at rb attempt) (rnd env i)] else []) in
      case (if attempt > 0 then done_before env i else None) of
        Some err \<Rightarrow> ((None, Some err), i, w)
      | None \<Rightarrow>
          (case reply env i of
             Inr resp \<Rightarrow> ((Some resp, None), Suc i, w)
           | Inl err \<Rightarrow>
               if \<not> is_retryable err then ((None, Some err), Suc i, w)
               else let (r, i', ws) = retry_attempts env rb (Suc attempt) n (Some err) (Suc i) in (r, i', w @ ws)))"

definition chat_with_retry ::
  "'a chat_env \<Rightarrow> retry_config \<Rightarrow> nat \<Rightarrow> ('a option \<times> go_error option) \<times> nat \<times> int list" where
  "chat_with_retry env cfg i = retry_attempts env (retry_backoff cfg) 0 (nat (max_retries cfg + 1)) None i"

section \<open>Failover\<close>

record failover_client =
  priority :: "string list"
  clients :: "(string, nat) gomap"
  retry_cfg :: retry_config
  pinned :: string
  fc_gateway :: bool
  init_err :: "go_error option"

fun failover_loop ::
  "'a chat_env \<Rightarrow> retry_config \<Rightarrow> nat \<Rightarrow> string list \<Rightarrow> go_error option \<Rightarrow> nat
   \<Rightarrow> ('a option \<times> string \<times> go_error option) \<times> nat" where
  "failover_loop env cfg total_n [] last_err i =
     ((None, '''', Some (case last_err of
         Some e \<Rightarrow> Wrapped (''all '' @ itoa (int total_n) @ '' models failed, last'') e
       | None \<Rightarrow> Plain ''all models failed'')), i)"
| "failover_loop env cfg total_n (name # names) last_err i =
     (case chat_with_retry env cfg i of
        ((resp, None), i', ws) \<Rightarrow> ((resp, name, None), i')
      | ((resp, Some err), i', ws) \<Rightarrow>
          if \<not> should_failover err then ((None, name, Some err), i')
          else failover_loop env cfg total_n names (Some (Wrapped (''model '' @ name) err)) i')"

definition failover_chat ::
  "'a chat_env \<Rightarrow> failover_client \<Rightarrow> nat \<Rightarrow> ('a option \<times> string \<times> go_error option) \<times> nat" where
  "failover_chat env fc i =
     (if length (priority fc) = 0 then
        (case init_err fc of
           Some e \<Rightarrow> ((None, '''', Some e), i)
         | None \<Rightarrow> ((None, '''', Some (Plain ''no ai clients configured'')), i))
      else if pinned fc \<noteq> '''' then
        (case mget (clients fc) (pinned fc) of
           None \<Rightarrow> ((None, pinned fc, Some (Plain (''pinned model '' @ dquote @ pinned fc @ dquote @ '' not found''))), i)
         | Some c \<Rightarrow>
             let ((resp, err), i', ws) = chat_with_retry env (retry_cfg fc) i in ((resp, pinned fc, err), i'))
      else failover_loop env (retry_cfg fc) (length (priority fc)) (priority fc) None i)"

definition pin_model :: "string \<Rightarrow> failover_client \<Rightarrow> failover_client \<times> string option" where
  "pin_model name fc =
     (if name \<noteq> '''' \<and> mget (clients fc) name = None
      then (fc, Some (''unknown model '' @ dquote @ name @ dquote))
      else (fc\<lparr>pinned := name\<rparr>, None))"

definition pinned_model :: "failover_client \<Rightarrow> string" where
  "pinned_model fc = pinned fc"

definition model_names :: "failover_client \<Rightarrow> string list" where
  "model_names fc = priority fc"

definition model_client :: "string \<Rightarrow> failover_client \<Rightarrow> nat option" where
  "model_client name fc = mget (clients fc) name"

definition is_gateway :: "failover_client \<Rightarrow> bool" where
  "is_gateway fc = fc_gateway fc"

text \<open>
  The constructors.  \<open>mk\<close> gives the client of a configured model, \<open>gw\<close> the gateway client or
  the error of \<open>NewServerClient\<close>.
\<close>

record ai_client_config =
  model_priority :: "string list"
  cfg_retry :: retry_config
  gateway_enabled :: bool
  gateway_fallback :: bool
  gateway_max_retries :: int

fun direct_clients :: "(string \<Rightarrow> nat) \<Rightarrow> string list \<Rightarrow> (string, nat) gomap \<Rightarrow> (string, nat) gomap" where
  "direct_clients mk [] m = m"
| "direct_clients mk (name # names) m = direct_clients mk names (mput name (mk name) m)"

definition new_gateway_failover_client ::
  "(string \<Rightarrow> nat) \<Rightarrow> go_error + nat \<Rightarrow> ai_client_config \<Rightarrow> string \<Rightarrow> failover_client" where
  "new_gateway_failover_client mk gw cfg scene =
     (let gateway_name = ''server:'' @ scene;
          (cs, prio) = (case gw of Inr c \<Rightarrow> ([(gateway_name, c)], [gateway_name]) | Inl e \<Rightarrow> ([], []));
          (cs, prio) = (if gateway_fallback cfg
             then (direct_clients mk (model_priority cfg) cs, prio @ model_priority cfg) else (cs, prio))
      in \<lparr>priority = prio, clients = cs,
          retry_cfg = \<lparr>max_retries = gateway_max_retries cfg, retry_backoff = retry_backoff (cfg_retry cfg)\<rparr>,
          pinned = '''', fc_gateway = True,
          init_err = (case gw of Inr c \<Rightarrow> None | Inl e \<Rightarrow> Some e)\<rparr>)"

definition new_failover_client_for_scene ::
  "(string \<Rightarrow> nat) \<Rightarrow> go_error + nat \<Rightarrow> ai_client_config \<Rightarrow> string \<Rightarrow> failover_client" where
  "new_failover_client_for_scene mk gw cfg scene =
     (if gateway_enabled cfg then new_gateway_failover_client mk gw cfg scene
      else \<lparr>priority = model_priority cfg, clients = direct_clients mk (model_priority cfg) [],
             retry_cfg = cfg_retry cfg, pinned = '''', fc_gateway = False, init_err = None\<rparr>)"

section \<open>The OpenAI-compatible client\<close>

text \<open>A value of the request body: what the code puts there, or a vendor field left alone.\<close>

datatype 'v body_value = BStr string | BMessages "message list" | BTools "ai_tool list" | BInt int | BExtra 'v

definition build_request_payload ::
  "(string, 'v) gomap \<Rightarrow> string \<Rightarrow> int \<Rightarrow> int \<Rightarrow> message list \<Rightarrow> ai_tool list \<Rightarrow> (string, 'v body_value) gomap" where
  "build_request_payload extra model max_tokens max_completion_tokens messages tools =
     (let body = mmerge [] (map (\<lambda>(k, v). (k, BExtra v)) extra);
          body = mput ''model'' (BStr model) body;
          body = mput ''messages'' (BMessages messages) body;
          body = (if length tools > 0 then mput ''tools'' (BTools tools) body else body)
      in if max_completion_tokens > 0 then
           mput ''max_completion_tokens'' (BInt max_completion_tokens) (mdel ''max_tokens'' body)
         else if max_tokens > 0 then
           mput ''max_tokens'' (BInt max_tokens) (mdel ''max_completion_tokens'' body)
         else body)"

text \<open>
  What an HTTP exchange gave: an error of the transport, or a status and a body.  \<open>decode\<close> is
  \<open>json.Unmarshal\<close> into the response type.
\<close>

datatype exchange = Failed go_error | Unread go_error | Reply int string

definition client_chat :: "(string \<Rightarrow> string + chat_response) \<Rightarrow> exchange \<Rightarrow> go_error + chat_response" where
  "client_chat decode x =
     (case x of
        Failed e \<Rightarrow> Inl (Wrapped ''http request'' e)
      | Unread e \<Rightarrow> Inl (Wrapped ''read response'' e)
      | Reply st body \<Rightarrow>
          if st \<noteq> 200 then Inl (APIError st (trunc_str body 1024))
          else case decode body of
            Inl e \<Rightarrow> Inl (Wrapped ''unmarshal response'' (Plain (e @ '' (body: '' @ trunc_body body @ '')'')))
          | Inr r \<Rightarrow> Inr r)"

record gateway_data =
  gd_id :: string
  gd_message :: message
  gd_finish_reason :: string
  gd_usage :: usage

record gateway_envelope =
  ge_data :: "gateway_data option"
  ge_error :: "string option"

definition server_client_chat ::
  "(string \<Rightarrow> string + gateway_envelope) \<Rightarrow> exchange \<Rightarrow> go_error + chat_response" where
  "server_client_chat decode x =
     (case x of
        Failed e \<Rightarrow> Inl (Wrapped ''http request'' e)
      | Unread e \<Rightarrow> Inl (Wrapped ''read response'' e)
      | Reply st body \<Rightarrow>
          (case decode body of
             Inl e \<Rightarrow> Inl (Wrapped ''unmarshal response'' (Plain e))
           | Inr env \<Rightarrow>
               if st \<noteq> 200 then
                 Inl (APIError st (case ge_error env of Some m \<Rightarrow> if m \<noteq> '''' then m else body | None \<Rightarrow> body))
               else case ge_data env of
                 None \<Rightarrow> Inl (Plain ''unmarshal response: missing data'')
               | Some d \<Rightarrow> Inr \<lparr>resp_id = gd_id d,
                   choices = [\<lparr>ch_index = 0, ch_message = gd_message d, finish_reason = gd_finish_reason d\<rparr>],
                   resp_usage = gd_usage d\<rparr>))"

section \<open>Lemmas on retries\<close>

definition retry_step_ok :: "'a chat_env \<Rightarrow> nat \<Rightarrow> bool" where
  "retry_step_ok env i \<longleftrightarrow> (\<exists>e. reply env i = Inl e \<and> is_retryable e)"

lemma retry_attempts_spec:
  "0 < n \<Longrightarrow> retry_attempts env rb attempt n last_err i = (r, i', ws) \<Longrightarrow>
   i \<le> i' \<and> i' \<le> i + n \<and> (\<forall>j. i \<le> j \<and> Suc j < i' \<longrightarrow> retry_step_ok env j)
   \<and> (case r of
        (Some x, None) \<Rightarrow> i < i' \<and> reply env (i' - 1) = Inr x
      | (None, Some e) \<Rightarrow>
          (done_before env i' = Some e \<and> (i < i' \<longrightarrow> retry_step_ok env (i' - 1)))
          \<or> (i < i' \<and> reply env (i' - 1) = Inl e \<and> (\<not> is_retryable e \<or> i' = i + n))
      | _ \<Rightarrow> False)"
proof (induction n arbitrary: attempt last_err i r i' ws)
  case 0
  then show ?case by simp
next
  case (Suc n)
  show ?case
  proof (cases "if attempt > 0 then done_before env i else None")
    case (Some err)
    with Suc.prems show ?thesis by (auto simp: Let_def split: if_splits)
  next
    case None
    show ?thesis
    proof (cases "reply env i")
      case (Inr x)
      with None Suc.prems show ?thesis by (auto simp: Let_def)
    next
      case (Inl e)
      show ?thesis
      proof (cases "is_retryable e \<and> n > 0")
        case False
        with None Inl Suc.prems show ?thesis by (cases n) (auto simp: Let_def split: if_splits)
      next
        case True
        obtain r2 i2 ws2 where rec: "retry_attempts env rb (Suc attempt) n (Some e) (Suc i) = (r2, i2, ws2)"
          by (metis prod_cases3)
        with None Inl True Suc.prems have eq: "r = r2" "i' = i2" by (auto simp: Let_def)
        have first: "retry_step_ok env i" using Inl True by (auto simp: retry_step_ok_def)
        have "\<forall>j. i \<le> j \<and> Suc j < i' \<longrightarrow> retry_step_ok env j"
          if "\<forall>j. Suc i \<le> j \<and> Suc j < i' \<longrightarrow> retry_step_ok env j"
          using that first by (metis le_eq_less_or_eq Suc_leI)
        moreover have "Suc i < i' \<or> i' = Suc i \<or> i' \<le> i" by linarith
        ultimately show ?thesis
          using Suc.IH [OF _ rec] True first unfolding eq
          by (auto split: prod.splits option.splits)
      qed
    qed
  qed
qed

lemma retry_attempts_waits:
  "retry_attempts env rb attempt n last_err i = (r, i', ws) \<Longrightarrow> w \<in> set ws \<Longrightarrow>
   \<exists>a j. 0 < a \<and> a < attempt + n \<and> w = jitter (backoff_at rb a) (rnd env j)"
proof (induction n arbitrary: attempt last_err i r i' ws)
  case 0
  then show ?case by simp
next
  case (Suc n)
  obtain r2 i2 ws2 where rec: "retry_attempts env rb (Suc attempt) n le2 (Suc i) = (r2, i2, ws2)"
    if "le2 = Some (projl (reply env i))" for le2
    by (metis prod_cases3)
  have here: "w = jitter (backoff_at rb attempt) (rnd env i) \<and> 0 < attempt \<or> w \<in> set ws2"
    using Suc.prems rec [OF refl]
    by (auto simp: Let_def split: if_splits option.splits sum.splits prod.splits)
  then show ?case
  proof
    assume "w = jitter (backoff_at rb attempt) (rnd env i) \<and> 0 < attempt"
    then show ?thesis by (metis add.right_neutral add_less_cancel_left zero_less_Suc)
  next
    assume "w \<in> set ws2"
    from Suc.IH [OF rec [OF refl] this] show ?thesis by auto
  qed
qed

lemma jitter_bounds:
  assumes "0 \<le> b" "0 \<le> r" "r < 1"
  shows "0 \<le> jitter b r \<and> 4 * jitter b r \<le> 5 * b"
proof -
  let ?x = "of_int b * (3 / 4 + r * (1 / 2))"
  have 0: "0 \<le> ?x" using assms by simp
  have "?x \<le> of_int b * (5 / 4)" using assms by (intro mult_left_mono) auto
  then have "4 * ?x \<le> 5 * of_int b" by simp
  moreover have "of_int \<lfloor>?x\<rfloor> \<le> ?x" by (rule of_int_floor_le)
  ultimately have "4 * of_int \<lfloor>?x\<rfloor> \<le> 5 * (of_int b :: real)" by linarith
  then have "of_int (4 * \<lfloor>?x\<rfloor>) \<le> (of_int (5 * b) :: real)" by simp
  then have "4 * \<lfloor>?x\<rfloor> \<le> 5 * b" by (simp only: of_int_le_iff)
  with 0 show ?thesis by (simp add: jitter_def Let_def)
qed

lemma backoff_bounds:
  assumes "0 \<le> rb" "rb * 2 ^ (a - 1) < 2 ^ 63"
  shows "0 \<le> backoff_at rb a \<and> backoff_at rb a = min maxBackoff (rb * 2 ^ (a - 1))"
proof (cases "rb = 0")
  case True
  then show ?thesis by (simp add: backoff_at_def wrap64_def maxBackoff_def duration_units)
next
  case False
  with assms(1) have "1 * 2 ^ (a - 1) \<le> rb * (2 :: int) ^ (a - 1)" by (intro mult_right_mono) auto
  with assms(2) have "2 ^ (a - 1) < (2 :: int) ^ 63" by linarith
  moreover have "0 \<le> (2 :: int) ^ (a - 1)" by simp
  ultimately have 1: "wrap64 (2 ^ (a - 1)) = 2 ^ (a - 1)"
    by (intro wrap64_id) (unfold int64_ok_def, linarith)
  have nn: "0 \<le> rb * 2 ^ (a - 1)" using assms(1) by simp
  have 2: "wrap64 (rb * 2 ^ (a - 1)) = rb * 2 ^ (a - 1)"
    using assms(2) nn by (intro wrap64_id) (unfold int64_ok_def, linarith)
  show ?thesis using nn
    unfolding backoff_at_def 1 2 by (simp add: Let_def maxBackoff_def duration_units min_def)
qed

text \<open>Where the product no longer fits in 64 bits the wait is negative or zero.\<close>

lemma backoff_overflow: "backoff_at (2 * second) 34 < 0 \<and> backoff_at (2 * second) 66 = 0"
  by (simp add: backoff_at_def wrap64_def maxBackoff_def duration_units)


definition example_chat_env :: "nat chat_env" where
  "example_chat_env = \<lparr>reply = (\<lambda>i. if i = 0 then Inl (APIError 503 ''busy'') else Inr i),
     done_before = (\<lambda>i. None), rnd = (\<lambda>i. 0)\<rparr>"


section \<open>Failover\<close>

text \<open>The call counter when the \<open>j\<close>-th model of the list is asked, and that model's outcome.\<close>

definition model_turn :: "'a chat_env \<Rightarrow> retry_config \<Rightarrow> nat \<Rightarrow> nat \<Rightarrow> nat" where
  "model_turn env cfg j i = ((\<lambda>c. fst (snd (chat_with_retry env cfg c))) ^^ j) i"

definition model_outcome :: "'a chat_env \<Rightarrow> retry_config \<Rightarrow> nat \<Rightarrow> nat \<Rightarrow> 'a option \<times> go_error option" where
  "model_outcome env cfg j i = fst (chat_with_retry env cfg (model_turn env cfg j i))"

definition moves_on :: "'a option \<times> go_error option \<Rightarrow> bool" where
  "moves_on r \<longleftrightarrow> (case snd r of None \<Rightarrow> False | Some e \<Rightarrow> should_failover e)"

lemma model_turn_Suc: "model_turn env cfg (Suc j) i = model_turn env cfg j (fst (snd (chat_with_retry env cfg i)))"
  by (simp only: model_turn_def funpow_Suc_right comp_apply)

lemma model_outcome_Suc: "model_outcome env cfg (Suc j) i = model_outcome env cfg j (fst (snd (chat_with_retry env cfg i)))"
  by (simp add: model_outcome_def model_turn_Suc)

lemma failover_loop_spec:
  "(\<exists>k < length names. (\<forall>j < k. moves_on (model_outcome env cfg j i)) \<and> \<not> moves_on (model_outcome env cfg k i)
      \<and> fst (failover_loop env cfg n names le i) =
          (if snd (model_outcome env cfg k i) = None
           then (fst (model_outcome env cfg k i), names ! k, None)
           else (None, names ! k, snd (model_outcome env cfg k i))))
   \<or> ((\<forall>j < length names. moves_on (model_outcome env cfg j i))
      \<and> (\<exists>e. fst (failover_loop env cfg n names le i) = (None, '''', Some e)))"
proof (induction names arbitrary: le i)
  case Nil
  then show ?case by simp
next
  case (Cons name names)
  obtain resp err i' ws where c: "chat_with_retry env cfg i = ((resp, err), i', ws)"
    by (metis prod.exhaust)
  have o0: "model_outcome env cfg 0 i = (resp, err)"
    by (simp add: model_outcome_def model_turn_def c)
  have oS: "model_outcome env cfg (Suc j) i = model_outcome env cfg j i'" for j
    by (simp add: model_outcome_Suc c)
  show ?case
  proof (cases "moves_on (resp, err)")
    case False
    then show ?thesis
      using c o0 by (intro disjI1 exI [of _ 0]) (auto simp: moves_on_def split: option.splits)
  next
    case True
    then have "failover_loop env cfg n (name # names) le i
        = failover_loop env cfg n names (Some (Wrapped (''model '' @ name) (the err))) i'"
      using c by (auto simp: moves_on_def split: option.splits)
    with Cons.IH [of i' "Some (Wrapped (''model '' @ name) (the err))"] True o0 show ?thesis
      by (auto simp: Ex_less_Suc2 All_less_Suc2 oS)
  qed
qed


definition example_failover :: failover_client where
  "example_failover = new_failover_client_for_scene (\<lambda>n. 0) (Inr 0)
     \<lparr>model_priority = [''a'', ''b''], cfg_retry = \<lparr>max_retries = 0, retry_backoff = second\<rparr>,
      gateway_enabled = False, gateway_fallback = False, gateway_max_retries = 0\<rparr> ''diagnose''"


lemma pin_model_known: "snd (pin_model name fc) = None \<longleftrightarrow> name = '''' \<or> mget (clients fc) name \<noteq> None"
  by (simp add: pin_model_def)

lemma direct_clients_known: "mget (direct_clients mk names m) name = (if name \<in> set names then Some (mk name) else mget m name)"
  by (induction mk names m rule: direct_clients.induct) auto

text \<open>Every model of the list has a client, so that the loop never meets a missing one.\<close>

lemma failover_clients_complete:
  "name \<in> set (priority (new_failover_client_for_scene mk gw cfg scene)) \<Longrightarrow>
   mget (clients (new_failover_client_for_scene mk gw cfg scene)) name \<noteq> None"
  by (auto simp: new_failover_client_for_scene_def new_gateway_failover_client_def direct_clients_known Let_def
      split: sum.splits if_splits)

section \<open>The request body\<close>

text \<open>
  The vendor's extra fields never override the model, the messages or the tools of a
  request, and a configured token limit is sent under exactly one of its two names.
\<close>

theorem payload_standard_fields:
  fixes extra :: "(string, 'v) gomap" and model :: string and mt mct :: int
    and messages :: "message list" and tools :: "ai_tool list"
  defines "b \<equiv> build_request_payload extra model mt mct messages tools"
  shows "mget b ''model'' = Some (BStr model) \<and> mget b ''messages'' = Some (BMessages messages)
    \<and> (tools \<noteq> [] \<longrightarrow> mget b ''tools'' = Some (BTools tools))
    \<and> (mct > 0 \<longrightarrow> mget b ''max_completion_tokens'' = Some (BInt mct) \<and> mget b ''max_tokens'' = None)
    \<and> (mct \<le> 0 \<and> mt > 0 \<longrightarrow> mget b ''max_tokens'' = Some (BInt mt) \<and> mget b ''max_completion_tokens'' = None)"
  by (simp add: b_def build_request_payload_def Let_def)

theorem payload_standard_fields_witness:
  "mget (build_request_payload [(''model'', 7 :: nat), (''max_tokens'', 8)] ''m'' 0 100 [] []) ''max_tokens'' = None"
  using payload_standard_fields [of "[(''model'', 7 :: nat), (''max_tokens'', 8)]" "''m''" 0 100 "[]" "[]"] by simp

text \<open>
  A gateway reply that is not JSON hides its status: a client error then looks retryable and
  worth another model.
\<close>

lemma gateway_client_error_hidden:
  "decode body = Inl e \<Longrightarrow>
   \<exists>err. server_client_chat decode (Reply 401 body) = Inl err \<and> is_retryable err \<and> should_failover err"
  by (simp add: server_client_chat_def is_retryable_def should_failover_def)

end
