(* ===== verification/Executor.thy ===== *)
theory Executor
  imports Registry TextLimits AIClient
begin

text \<open>
  Routing of the model's tool calls (\<open>diagnose/executor.go\<close>).  Arguments arrive as JSON text:
  \<open>json\<close> is a decoded value, \<open>decode\<close> is \<open>encoding/json\<close> (\<open>None\<close> for invalid text),
  \<open>fmt_num\<close> formats a number as \<open>FormatFloat(v, 'f', -1, 64)\<close> and \<open>render\<close> is
  \<open>json.Marshal\<close>.  What a tool's Go function returns is the environment's: its value and error.
\<close>

section \<open>Arguments\<close>

datatype json =
  JNull
| JBool bool
| JNum string
| JStr string
| JArr "json list"
| JObj "(string \<times> json) list"

record exec_env =
  goos :: string
  lower :: "string \<Rightarrow> string"
  quote :: "string \<Rightarrow> string"
  decode :: "string \<Rightarrow> json option"
  fmt_num :: "string \<Rightarrow> string"
  render :: "json \<Rightarrow> string"
  run_local :: "nat \<Rightarrow> (string, string) gomap option \<Rightarrow> string \<times> string option"
  run_remote :: "nat \<Rightarrow> (string, string) gomap option \<Rightarrow> string \<times> string option"

definition any_to_string :: "exec_env \<Rightarrow> json \<Rightarrow> string" where
  "any_to_string env v =
     (case v of
        JNull \<Rightarrow> ''''
      | JBool b \<Rightarrow> if b then ''true'' else ''false''
      | JNum n \<Rightarrow> fmt_num env n
      | JStr s \<Rightarrow> s
      | JArr xs \<Rightarrow> render env v
      | JObj kvs \<Rightarrow> render env v)"

text \<open>Decoding into a \<open>map[string]string\<close>: strings, and null as the empty string.\<close>

definition direct_value :: "json \<Rightarrow> string option" where
  "direct_value v = (case v of JStr s \<Rightarrow> Some s | JNull \<Rightarrow> Some '''' | _ \<Rightarrow> None)"

fun direct_map :: "(string \<times> json) list \<Rightarrow> (string, string) gomap \<Rightarrow> (string, string) gomap option" where
  "direct_map [] m = Some m"
| "direct_map ((k, v) # kvs) m =
     (case direct_value v of None \<Rightarrow> None | Some s \<Rightarrow> direct_map kvs (mput k s m))"

fun coerced_map :: "exec_env \<Rightarrow> (string \<times> json) list \<Rightarrow> (string, string) gomap \<Rightarrow> (string, string) gomap" where
  "coerced_map env [] m = m"
| "coerced_map env ((k, v) # kvs) m = coerced_map env kvs (mput k (any_to_string env v) m)"

text \<open>\<open>None\<close> is the nil map.\<close>

definition unmarshal_string_map :: "exec_env \<Rightarrow> string \<Rightarrow> (string, string) gomap option" where
  "unmarshal_string_map env raw =
     (case decode env raw of
        Some (JObj kvs) \<Rightarrow>
          (case direct_map kvs [] of Some m \<Rightarrow> Some m | None \<Rightarrow> Some (coerced_map env kvs []))
      | _ \<Rightarrow> None)"

definition parse_args :: "exec_env \<Rightarrow> string \<Rightarrow> (string, string) gomap" where
  "parse_args env raw =
     (if raw = '''' then []
      else case unmarshal_string_map env raw of None \<Rightarrow> [(''_raw'', raw)] | Some m \<Rightarrow> m)"

definition parse_tool_args :: "exec_env \<Rightarrow> string \<Rightarrow> (string, string) gomap option" where
  "parse_tool_args env raw =
     (if raw = '''' then None
      else case unmarshal_string_map env raw of None \<Rightarrow> Some [(''_raw'', raw)] | Some m \<Rightarrow> Some m)"

definition format_tool_args_display :: "exec_env \<Rightarrow> string \<Rightarrow> string \<Rightarrow> string" where
  "format_tool_args_display env name raw_args =
     (let args = parse_args env raw_args in
      if name = ''call_tool'' then
        (let tool_name = mstr args ''name''; tool_args = mstr args ''tool_args'' in
         if tool_args \<noteq> '''' \<and> tool_args \<noteq> ''{}'' then tool_name @ '' '' @ tool_args else tool_name)
      else if name = ''list_tools'' then mstr args ''category''
      else if name = ''exec_shell'' then
        (let cmd = mstr args ''command'' in
         if rune_count cmd > 80 then of_runes (take 77 (to_runes cmd)) @ ''...'' else cmd)
      else '''')"

section \<open>Execution\<close>

text \<open>A Go function's pair of a string and an error.\<close>

type_synonym tool_result = "string \<times> string option"

definition execute_tool_impl ::
  "exec_env \<Rightarrow> bool \<Rightarrow> diagnose_tool \<Rightarrow> (string, string) gomap option \<Rightarrow> tool_result" where
  "execute_tool_impl env has_session tool args =
     (if dt_scope tool = ToolScopeLocal then
        (case dt_execute tool of
           None \<Rightarrow> ('''', Some (''tool '' @ dt_name tool @ '' has no Execute function''))
         | Some f \<Rightarrow> run_local env f args)
      else case dt_remote_execute tool of
        None \<Rightarrow> ('''', Some (''tool '' @ dt_name tool @ '' has no RemoteExecute function''))
      | Some f \<Rightarrow>
          if \<not> has_session then ('''', Some (''no session available for remote tool '' @ dt_name tool))
          else run_remote env f args)"

definition execute_tool :: "exec_env \<Rightarrow> tool_registry \<Rightarrow> bool \<Rightarrow> string \<Rightarrow> string \<Rightarrow> tool_result" where
  "execute_tool env reg has_session name raw_args =
     (let args = parse_args env raw_args in
      if name = ''list_tool_categories'' then (list_categories_for_os (lower env) (goos env) reg, None)
      else if name = ''list_tools'' then
        (let category = mstr args ''category'' in
         if category = '''' then ('''', Some ''list_tools requires category parameter'')
         else (list_tools_for_os (lower env) (quote env) category (goos env) reg, None))
      else if name = ''call_tool'' then
        (let tool_name = mstr args ''name'' in
         if tool_name = '''' then ('''', Some ''call_tool requires name parameter'')
         else case get_tool tool_name reg of
           None \<Rightarrow> ('''', Some (''unknown tool: '' @ tool_name))
         | Some tool \<Rightarrow>
             if \<not> tool_supported_on (lower env) tool_name (goos env) reg
             then ('''', Some (''tool '' @ tool_name @ '' is not supported on '' @ goos env))
             else execute_tool_impl env has_session tool (parse_tool_args env (mstr args ''tool_args'')))
      else
        (case get_tool name reg of
           None \<Rightarrow> ('''', Some (''unknown tool: '' @ name))
         | Some tool \<Rightarrow>
             if \<not> tool_supported_on (lower env) name (goos env) reg
             then ('''', Some (''tool '' @ name @ '' is not supported on '' @ goos env))
             else execute_tool_impl env has_session tool (Some args)))"

text \<open>
  The chat variant (\<open>ChatStream.executeTool\<close>); \<open>shell\<close> is the configured \<open>ShellExecutor\<close>:
  output, approval and error of a command.
\<close>

definition chat_execute_tool ::
  "exec_env \<Rightarrow> tool_registry \<Rightarrow> (string \<Rightarrow> string \<times> bool \<times> string option) option \<Rightarrow> string \<Rightarrow> string \<Rightarrow> tool_result" where
  "chat_execute_tool env reg shell name raw_args =
     (let args = parse_args env raw_args in
      if name = ''list_tool_categories'' then (list_categories_for_os (lower env) (goos env) reg, None)
      else if name = ''list_tools'' then
        (let category = mstr args ''category'' in
         if category = '''' then ('''', Some ''list_tools requires category parameter'')
         else (list_tools_for_os (lower env) (quote env) category (goos env) reg, None))
      else if name = ''call_tool'' then
        (let tool_name = mstr args ''name'' in
         if tool_name = '''' then ('''', Some ''call_tool requires name parameter'')
         else case get_tool tool_name reg of
           None \<Rightarrow> ('''', Some (''unknown tool: '' @ tool_name))
         | Some tool \<Rightarrow>
             if dt_scope tool = ToolScopeRemote
             then ('''', Some (''tool '' @ dt_name tool @ '' requires a remote connection (not available in chat mode)''))
             else case dt_execute tool of
               None \<Rightarrow> ('''', Some (''tool '' @ dt_name tool @ '' has no Execute function''))
             | Some f \<Rightarrow> run_local env f (parse_tool_args env (mstr args ''tool_args'')))
      else if name = ''exec_shell'' then
        (case shell of
           None \<Rightarrow> ('''', Some ''shell execution not enabled (no ShellExecutor configured)'')
         | Some sh \<Rightarrow>
             let command = mstr args ''command'' in
             if command = '''' then ('''', Some ''exec_shell requires command parameter'')
             else case sh command of
               (out, approved, err) \<Rightarrow>
                 if \<not> approved then (''user rejected command execution'', None) else (out, err))
      else
        (case get_tool name reg of
           None \<Rightarrow> ('''', Some (''unknown tool: '' @ name))
         | Some tool \<Rightarrow>
             (case dt_execute tool of
                None \<Rightarrow> ('''', Some (''tool '' @ dt_name tool @ '' has no Execute function''))
              | Some f \<Rightarrow> run_local env f (Some args))))"

section \<open>Lemmas\<close>

text \<open>Both decodings of an object of strings agree, so that the fallback changes nothing there.\<close>

lemma direct_value_coerced: "direct_value v = Some s \<Longrightarrow> any_to_string env v = s"
  by (cases v) (auto simp: direct_value_def any_to_string_def)

lemma direct_map_coerced: "direct_map kvs m = Some m' \<Longrightarrow> coerced_map env kvs m = m'"
  by (induction kvs m rule: direct_map.induct) (auto simp: direct_value_coerced split: option.splits)

lemma coerced_map_lookup:
  "mget (coerced_map env kvs m) k =
     (case map_of (rev kvs) k of Some v \<Rightarrow> Some (any_to_string env v) | None \<Rightarrow> mget m k)"
  by (induction env kvs m rule: coerced_map.induct) (auto simp: map_add_def split: option.splits)

lemma unmarshal_object:
  "decode env raw = Some (JObj kvs) \<Longrightarrow> unmarshal_string_map env raw = Some (coerced_map env kvs [])"
  by (auto simp: unmarshal_string_map_def split: option.splits) (metis direct_map_coerced)

text \<open>A tool runs only through one of these two results.\<close>

definition refused :: "tool_result \<Rightarrow> bool" where
  "refused r \<longleftrightarrow> fst r = '''' \<and> snd r \<noteq> None"

text \<open>
  C16. Arguments and routing: a JSON object of any values becomes the map of their string forms,
  the last value of a repeated key winning; text that is no object is passed whole; and a call
  reaches a tool's function only if the tool is registered and supported on the host system,
  a remote one only within a session.
\<close>

theorem tool_routing:
  assumes obj: "decode env raw = Some (JObj kvs)" "raw \<noteq> ''''"
    and bad: "decode env txt = None" "txt \<noteq> ''''"
  shows "mget (parse_args env raw) k = map_option (any_to_string env) (map_of (rev kvs) k)
    \<and> parse_args env txt = [(''_raw'', txt)]
    \<and> (get_tool name reg = None \<or> \<not> tool_supported_on (lower env) name (goos env) reg \<longrightarrow>
         name \<notin> {''list_tool_categories'', ''list_tools'', ''call_tool''} \<longrightarrow>
         refused (execute_tool env reg s name raw))
    \<and> (let n = mstr (parse_args env raw) ''name'' in
        get_tool n reg = None \<or> \<not> tool_supported_on (lower env) n (goos env) reg \<longrightarrow>
         refused (execute_tool env reg s ''call_tool'' raw))
    \<and> (get_tool name reg = Some t \<and> tool_supported_on (lower env) name (goos env) reg
         \<and> name \<notin> {''list_tool_categories'', ''list_tools'', ''call_tool''} \<longrightarrow>
         execute_tool env reg s name raw = execute_tool_impl env s t (Some (parse_args env raw)))
    \<and> (dt_scope t \<noteq> ToolScopeLocal \<longrightarrow> refused (execute_tool_impl env False t a))"
proof -
  have 1: "mget (parse_args env raw) k = map_option (any_to_string env) (map_of (rev kvs) k)"
    using obj by (simp add: parse_args_def unmarshal_object coerced_map_lookup split: option.splits)
  have 2: "parse_args env txt = [(''_raw'', txt)]"
    using bad by (simp add: parse_args_def unmarshal_string_map_def)
  have 3: "refused (execute_tool env reg s name raw)"
    if "get_tool name reg = None \<or> \<not> tool_supported_on (lower env) name (goos env) reg"
      "name \<notin> {''list_tool_categories'', ''list_tools'', ''call_tool''}"
    using that by (auto simp: execute_tool_def refused_def Let_def split: option.splits)
  have 4: "refused (execute_tool env reg s ''call_tool'' raw)"
    if "n = mstr (parse_args env raw) ''name''"
      "get_tool n reg = None \<or> \<not> tool_supported_on (lower env) n (goos env) reg" for n
    using that by (auto simp: execute_tool_def refused_def Let_def split: option.splits)
  have 5: "execute_tool env reg s name raw = execute_tool_impl env s t (Some (parse_args env raw))"
    if "get_tool name reg = Some t" "tool_supported_on (lower env) name (goos env) reg"
      "name \<notin> {''list_tool_categories'', ''list_tools'', ''call_tool''}"
    using that by (simp add: execute_tool_def Let_def)
  have 6: "refused (execute_tool_impl env False t a)" if "dt_scope t \<noteq> ToolScopeLocal"
    using that by (simp add: execute_tool_impl_def refused_def split: option.split)
  show ?thesis
    using 1 2 3 4 5 6 by (simp add: Let_def)
qed

definition example_exec_env :: exec_env where
  "example_exec_env = \<lparr>goos = ''linux'', lower = (\<lambda>s. s), quote = (\<lambda>s. s),
     decode = (\<lambda>s. if s = ''{}'' then Some (JObj [(''n'', JNum ''1'')]) else None), fmt_num = (\<lambda>s. s),
     render = (\<lambda>v. ''''), run_local = (\<lambda>f a. (''out'', None)), run_remote = (\<lambda>f a. (''out'', None))\<rparr>"

theorem tool_routing_witness:
  "mget (parse_args example_exec_env ''{}'') ''n'' = Some ''1''
   \<and> execute_tool example_exec_env (register ''disk'' example_tool new_tool_registry) False ''disk_usage'' ''{}'' = (''out'', None)"
  using tool_routing [of example_exec_env "''{}''" "[(''n'', JNum ''1'')]" "''x''" "''n''" "''disk_usage''"
      "register ''disk'' example_tool new_tool_registry" False example_tool]
  by (simp add: example_exec_env_def any_to_string_def register_def new_tool_registry_def example_tool_def Let_def
      get_tool_def tool_supported_on_def supports_os_def category_supports_os_def execute_tool_impl_def
      has_prefix_def mput_def)

end
