(* ===== verification/Protocol.thy ===== *)
theory Protocol
  imports Executor
begin

text \<open>
  The messages between agent and server (\<open>server/proto.go\<close>).  A JSON document is a \<open>json\<close>
  value; turning it into text and back is the standard library's.  What \<open>encoding/json\<close> does
  with the declared fields is written out: encoding follows their order and leaves out the empty
  ones marked \<open>omitempty\<close>, decoding takes the members in order, finds the field by a
  case-insensitive comparison, ignores unknown members, leaves a field alone for null and fails
  for a value of another type.
\<close>

section \<open>Decoding\<close>

text \<open>
  The folding of member names: ASCII letters to lower case, and the two other characters that
  fold to an ASCII letter, the long s and the Kelvin sign.
\<close>

fun fold_name :: "string \<Rightarrow> string" where
  "fold_name [] = []"
| "fold_name (c # cs) =
     (if has_prefix (c # cs) [CHR 0xC5, CHR 0xBF] then CHR ''s'' # fold_name (drop 1 cs)
      else if has_prefix (c # cs) [CHR 0xE2, CHR 0x84, CHR 0xAA] then CHR ''k'' # fold_name (drop 2 cs)
      else lower_char c # fold_name cs)"

fun set_members :: "(string \<times> (json \<Rightarrow> 'a \<Rightarrow> 'a option)) list \<Rightarrow> (string \<times> json) list \<Rightarrow> 'a \<Rightarrow> 'a option" where
  "set_members fs [] v = Some v"
| "set_members fs ((k, j) # kvs) v =
     (case mget fs (fold_name k) of
        None \<Rightarrow> set_members fs kvs v
      | Some f \<Rightarrow> (case f j v of None \<Rightarrow> None | Some v' \<Rightarrow> set_members fs kvs v'))"

definition decode_struct :: "(string \<times> (json \<Rightarrow> 'a \<Rightarrow> 'a option)) list \<Rightarrow> 'a \<Rightarrow> json \<Rightarrow> 'a option" where
  "decode_struct fs zero j = (case j of JObj kvs \<Rightarrow> set_members fs kvs zero | JNull \<Rightarrow> Some zero | _ \<Rightarrow> None)"

definition str_field :: "(string \<Rightarrow> 'a \<Rightarrow> 'a) \<Rightarrow> json \<Rightarrow> 'a \<Rightarrow> 'a option" where
  "str_field upd j v = (case j of JStr s \<Rightarrow> Some (upd s v) | JNull \<Rightarrow> Some v | _ \<Rightarrow> None)"

definition bool_field :: "(bool \<Rightarrow> 'a \<Rightarrow> 'a) \<Rightarrow> json \<Rightarrow> 'a \<Rightarrow> 'a option" where
  "bool_field upd j v = (case j of JBool b \<Rightarrow> Some (upd b v) | JNull \<Rightarrow> Some v | _ \<Rightarrow> None)"

definition int_field :: "(int \<Rightarrow> 'a \<Rightarrow> 'a) \<Rightarrow> json \<Rightarrow> 'a \<Rightarrow> 'a option" where
  "int_field upd j v =
     (case j of JNum t \<Rightarrow> map_option (\<lambda>i. upd i v) (parse_int t) | JNull \<Rightarrow> Some v | _ \<Rightarrow> None)"

text \<open>A field of type \<open>map[string]any\<close>: null makes it nil, an object is merged into it.\<close>

definition map_field ::
  "('a \<Rightarrow> (string, json) gomap option) \<Rightarrow> ((string, json) gomap option \<Rightarrow> 'a \<Rightarrow> 'a) \<Rightarrow> json \<Rightarrow> 'a \<Rightarrow> 'a option" where
  "map_field get upd j v =
     (case j of
        JNull \<Rightarrow> Some (upd None v)
      | JObj kvs \<Rightarrow> Some (upd (Some (mmerge (case get v of None \<Rightarrow> [] | Some m \<Rightarrow> m) kvs)) v)
      | _ \<Rightarrow> None)"

definition raw_field :: "(json \<Rightarrow> 'a \<Rightarrow> 'a) \<Rightarrow> json \<Rightarrow> 'a \<Rightarrow> 'a option" where
  "raw_field upd j v = Some (upd j v)"

section \<open>The envelope\<close>

definition typeRegister :: string where "typeRegister = ''register''"
definition typeHeartbeat :: string where "typeHeartbeat = ''heartbeat''"
definition typeAlertEvents :: string where "typeAlertEvents = ''alert_events''"
definition typeSessionOutput :: string where "typeSessionOutput = ''session_output''"
definition typeSessionError :: string where "typeSessionError = ''session_error''"
definition typeAck :: string where "typeAck = ''ack''"
definition typeDisconnect :: string where "typeDisconnect = ''disconnect''"
definition typePing :: string where "typePing = ''ping''"
definition typeSessionStart :: string where "typeSessionStart = ''session_start''"
definition typeSessionInput :: string where "typeSessionInput = ''session_input''"
definition typeSessionCancel :: string where "typeSessionCancel = ''session_cancel''"

lemmas message_types =
  typeRegister_def typeHeartbeat_def typeAlertEvents_def typeSessionOutput_def typeSessionError_def typeAck_def
  typeDisconnect_def typePing_def typeSessionStart_def typeSessionInput_def typeSessionCancel_def

record ws_message =
  wm_type :: string
  wm_id :: string
  wm_ref :: string
  wm_payload :: "json option"

text \<open>The identifiers are random: \<open>uuid\<close> is the one drawn.\<close>

definition new_message :: "string \<Rightarrow> string \<Rightarrow> json \<Rightarrow> ws_message" where
  "new_message uuid typ payload = \<lparr>wm_type = typ, wm_id = uuid, wm_ref = '''', wm_payload = Some payload\<rparr>"

definition encode_message :: "ws_message \<Rightarrow> json" where
  "encode_message msg =
     JObj ([(''type'', JStr (wm_type msg)), (''id'', JStr (wm_id msg))]
       @ (if wm_ref msg \<noteq> '''' then [(''ref_id'', JStr (wm_ref msg))] else [])
       @ (case wm_payload msg of None \<Rightarrow> [] | Some j \<Rightarrow> [(''payload'', j)]))"

definition decode_message :: "json \<Rightarrow> ws_message option" where
  "decode_message =
     decode_struct
       [(''type'', str_field (\<lambda>s m. m\<lparr>wm_type := s\<rparr>)), (''id'', str_field (\<lambda>s m. m\<lparr>wm_id := s\<rparr>)),
        (''ref_id'', str_field (\<lambda>s m. m\<lparr>wm_ref := s\<rparr>)), (''payload'', raw_field (\<lambda>j m. m\<lparr>wm_payload := Some j\<rparr>))]
       \<lparr>wm_type = '''', wm_id = '''', wm_ref = '''', wm_payload = None\<rparr>"

definition decode_payload :: "(json \<Rightarrow> 'a option) \<Rightarrow> ws_message \<Rightarrow> 'a option" where
  "decode_payload dec msg = (case wm_payload msg of None \<Rightarrow> None | Some j \<Rightarrow> dec j)"

section \<open>Payloads from the agent\<close>

definition encode_map :: "(string, json) gomap \<Rightarrow> json" where
  "encode_map m = JObj (map (\<lambda>k. (k, the (mget m k))) (sorted_keys m))"

definition encode_strings :: "(string, string) gomap option \<Rightarrow> json" where
  "encode_strings m = (case m of None \<Rightarrow> JNull | Some m \<Rightarrow> encode_map (map (\<lambda>(k, v). (k, JStr v)) m))"

definition omit_str :: "string \<Rightarrow> string \<Rightarrow> (string \<times> json) list" where
  "omit_str k s = (if s = '''' then [] else [(k, JStr s)])"

record register_payload =
  rg_hostname :: string
  rg_ip :: string
  rg_os :: string
  rg_arch :: string
  rg_labels :: "(string, string) gomap option"
  rg_plugins :: "string list option"
  rg_agent_version :: string
  rg_uptime_sec :: int

definition encode_register :: "register_payload \<Rightarrow> json" where
  "encode_register p =
     JObj [(''hostname'', JStr (rg_hostname p)), (''ip'', JStr (rg_ip p)), (''os'', JStr (rg_os p)),
       (''arch'', JStr (rg_arch p)), (''labels'', encode_strings (rg_labels p)),
       (''plugins'', case rg_plugins p of None \<Rightarrow> JNull | Some ps \<Rightarrow> JArr (map JStr ps)),
       (''agent_version'', JStr (rg_agent_version p)), (''uptime_sec'', JNum (itoa (rg_uptime_sec p)))]"

text \<open>The two percentages are never set, so they are always left out.\<close>

record heartbeat_payload =
  hb_active_sessions :: int
  hb_active_alerts :: int

definition encode_heartbeat :: "heartbeat_payload \<Rightarrow> json" where
  "encode_heartbeat p =
     JObj [(''active_sessions'', JNum (itoa (hb_active_sessions p))), (''active_alerts'', JNum (itoa (hb_active_alerts p)))]"

record alert_event_item =
  it_event_time :: int
  it_event_status :: string
  it_alert_key :: string
  it_labels :: "(string, string) gomap option"
  it_attrs :: "(string, string) gomap option"
  it_description :: string
  it_description_format :: string

definition encode_item :: "alert_event_item \<Rightarrow> json" where
  "encode_item i =
     JObj ([(''event_time'', JNum (itoa (it_event_time i))), (''event_status'', JStr (it_event_status i)),
         (''alert_key'', JStr (it_alert_key i)), (''labels'', encode_strings (it_labels i))]
       @ (case it_attrs i of Some (a # as) \<Rightarrow> [(''attrs'', encode_strings (Some (a # as)))] | _ \<Rightarrow> [])
       @ [(''description'', JStr (it_description i))]
       @ omit_str ''description_format'' (it_description_format i))"

definition encode_alert_events :: "alert_event_item list \<Rightarrow> json" where
  "encode_alert_events items = JObj [(''events'', JArr (map encode_item items))]"

text \<open>Metadata as the callbacks pass it: nil, a map, or a value \<open>json.Marshal\<close> refuses.\<close>

datatype metadata = NoMeta | Meta "(string, json) gomap" | BadMeta

record session_output_payload =
  so_session_id :: string
  so_delta :: string
  so_stage :: string
  so_done :: bool
  so_report :: string
  so_metadata :: metadata

definition encode_session_output :: "session_output_payload \<Rightarrow> json option" where
  "encode_session_output p =
     (if so_metadata p = BadMeta then None
      else Some (JObj ([(''session_id'', JStr (so_session_id p)), (''delta'', JStr (so_delta p)),
          (''stage'', JStr (so_stage p)), (''done'', JBool (so_done p))]
        @ omit_str ''report'' (so_report p)
        @ (case so_metadata p of Meta (a # as) \<Rightarrow> [(''metadata'', encode_map (a # as))] | _ \<Rightarrow> []))))"

record session_error_payload =
  se_session_id :: string
  se_error :: string
  se_code :: string

definition encode_session_error :: "session_error_payload \<Rightarrow> json" where
  "encode_session_error p =
     JObj [(''session_id'', JStr (se_session_id p)), (''error'', JStr (se_error p)), (''code'', JStr (se_code p))]"

section \<open>Payloads from the server\<close>

record ack_payload =
  ack_ok :: bool
  ack_error :: string
  ack_warning :: string

definition encode_ack :: "ack_payload \<Rightarrow> json" where
  "encode_ack p =
     JObj ([(''ok'', JBool (ack_ok p))] @ omit_str ''error'' (ack_error p) @ omit_str ''warning'' (ack_warning p))"

definition decode_ack :: "json \<Rightarrow> ack_payload option" where
  "decode_ack =
     decode_struct
       [(''ok'', bool_field (\<lambda>b p. p\<lparr>ack_ok := b\<rparr>)), (''error'', str_field (\<lambda>s p. p\<lparr>ack_error := s\<rparr>)),
        (''warning'', str_field (\<lambda>s p. p\<lparr>ack_warning := s\<rparr>))]
       \<lparr>ack_ok = False, ack_error = '''', ack_warning = ''''\<rparr>"

record disconnect_payload =
  dc_reason :: string
  dc_retry_after_sec :: int

definition decode_disconnect :: "json \<Rightarrow> disconnect_payload option" where
  "decode_disconnect =
     decode_struct
       [(''reason'', str_field (\<lambda>s p. p\<lparr>dc_reason := s\<rparr>)),
        (''retry_after_sec'', int_field (\<lambda>i p. p\<lparr>dc_retry_after_sec := i\<rparr>))]
       \<lparr>dc_reason = '''', dc_retry_after_sec = 0\<rparr>"

record session_start_payload =
  st_session_id :: string
  st_session_type :: string
  st_user_name :: string
  st_params :: "(string, json) gomap option"

definition decode_session_start :: "json \<Rightarrow> session_start_payload option" where
  "decode_session_start =
     decode_struct
       [(''session_id'', str_field (\<lambda>s p. p\<lparr>st_session_id := s\<rparr>)),
        (''session_type'', str_field (\<lambda>s p. p\<lparr>st_session_type := s\<rparr>)),
        (''user_name'', str_field (\<lambda>s p. p\<lparr>st_user_name := s\<rparr>)),
        (''params'', map_field st_params (\<lambda>m p. p\<lparr>st_params := m\<rparr>))]
       \<lparr>st_session_id = '''', st_session_type = '''', st_user_name = '''', st_params = None\<rparr>"

record session_input_payload =
  si_session_id :: string
  si_message :: string

definition decode_session_input :: "json \<Rightarrow> session_input_payload option" where
  "decode_session_input =
     decode_struct
       [(''session_id'', str_field (\<lambda>s p. p\<lparr>si_session_id := s\<rparr>)), (''message'', str_field (\<lambda>s p. p\<lparr>si_message := s\<rparr>))]
       \<lparr>si_session_id = '''', si_message = ''''\<rparr>"

record session_cancel_payload =
  sc_session_id :: string
  sc_reason :: string

definition decode_session_cancel :: "json \<Rightarrow> session_cancel_payload option" where
  "decode_session_cancel =
     decode_struct
       [(''session_id'', str_field (\<lambda>s p. p\<lparr>sc_session_id := s\<rparr>)), (''reason'', str_field (\<lambda>s p. p\<lparr>sc_reason := s\<rparr>))]
       \<lparr>sc_session_id = '''', sc_reason = ''''\<rparr>"

section \<open>Round trips\<close>

lemma fold_plain: "\<forall>c \<in> set s. byte c < 128 \<and> \<not> (65 \<le> byte c \<and> byte c \<le> 90) \<Longrightarrow> fold_name s = s"
proof (induction s rule: fold_name.induct)
  case (2 c cs)
  then have "c \<noteq> CHR 0xC5" "c \<noteq> CHR 0xE2" by (auto simp: byte_def)
  then have "\<not> has_prefix (c # cs) [CHR 0xC5, CHR 0xBF]" "\<not> has_prefix (c # cs) [CHR 0xE2, CHR 0x84, CHR 0xAA]"
    by (auto simp: has_prefix_def)
  with 2 show ?case by (auto simp: lower_char_def)
qed simp

lemma fold_members [simp]:
  "fold_name ''type'' = ''type''" "fold_name ''id'' = ''id''" "fold_name ''ref_id'' = ''ref_id''"
  "fold_name ''payload'' = ''payload''" "fold_name ''ok'' = ''ok''" "fold_name ''error'' = ''error''"
  "fold_name ''warning'' = ''warning''"
  by (simp_all add: fold_plain byte_def del: fold_name.simps)

declare fold_name.simps [simp del]

lemma message_roundtrip: "decode_message (encode_message m) = Some m"
  by (cases m)
    (auto simp: decode_message_def encode_message_def decode_struct_def str_field_def raw_field_def
      split: option.split)

lemma ack_roundtrip: "decode_ack (encode_ack p) = Some p"
  by (cases p) (simp add: decode_ack_def encode_ack_def decode_struct_def str_field_def bool_field_def omit_str_def)

end
