(* ===== verification/Signing.thy ===== *)
theory Signing
  imports Sha256 Protocol
begin

text \<open>
  The signing of a request with AWS Signature Version 4 (\<open>diagnose/aiclient/sigv4.go\<close>), over the
  parts of \<open>net/http\<close> it uses.  A header map has one value per name, as \<open>Header.Set\<close> leaves it;
  the order of the association list is the iteration order of the map.  The documented form of the
  canonical request is written down beside the code's, to compare the two.
\<close>

section \<open>Requests\<close>

record http_request =
  hr_method :: string
  hr_host :: string
  hr_path :: string
  hr_raw_query :: string
  hr_header :: "(string, string) gomap"
  hr_body :: string

text \<open>\<open>textproto.CanonicalMIMEHeaderKey\<close>.\<close>

definition token_char :: "char \<Rightarrow> bool" where
  "token_char c \<longleftrightarrow> (48 \<le> byte c \<and> byte c \<le> 57) \<or> (65 \<le> byte c \<and> byte c \<le> 90) \<or> (97 \<le> byte c \<and> byte c \<le> 122) \<or> c \<in> set (''!#$%&*+-.^_`|~'' @ [CHR 0x27])"

fun canon_from :: "bool \<Rightarrow> string \<Rightarrow> string" where
  "canon_from up [] = []"
| "canon_from up (c # s) = (if up then upper_char c else lower_char c) # canon_from (c = CHR ''-'') s"

definition canonical_key :: "string \<Rightarrow> string" where
  "canonical_key s = (if list_all token_char s then canon_from True s else s)"

definition header_set :: "string \<Rightarrow> string \<Rightarrow> http_request \<Rightarrow> http_request" where
  "header_set k v rq = rq\<lparr>hr_header := mput (canonical_key k) v (hr_header rq)\<rparr>"

definition header_get :: "string \<Rightarrow> http_request \<Rightarrow> string" where
  "header_get k rq = mstr (hr_header rq) (canonical_key k)"

section \<open>Dates\<close>

text \<open>
  The civil date of a number of days since 1 January 1970, and the two layouts
  \<open>20060102\<close> and \<open>20060102T150405Z\<close> of a time in nanoseconds, in UTC.
\<close>

definition civil :: "int \<Rightarrow> int \<times> int \<times> int" where
  "civil days =
     (let z = days + 719468;
          era = z div 146097;
          doe = z mod 146097;
          yoe = (doe - doe div 1460 + doe div 36524 - doe div 146096) div 365;
          doy = doe - (365 * yoe + yoe div 4 - yoe div 100);
          mp = (5 * doy + 2) div 153;
          d = doy - (153 * mp + 2) div 5 + 1;
          m = (if mp < 10 then mp + 3 else mp - 9)
      in (yoe + era * 400 + (if m \<le> 2 then 1 else 0), m, d))"

definition pad_digits :: "nat \<Rightarrow> int \<Rightarrow> string" where
  "pad_digits k i = (let s = digits (nat i) in replicate (k - length s) (CHR ''0'') @ s)"

definition date_stamp :: "int \<Rightarrow> string" where
  "date_stamp now =
     (let (y, m, d) = civil (now div second div 86400) in pad_digits 4 y @ pad_digits 2 m @ pad_digits 2 d)"

definition amz_date :: "int \<Rightarrow> string" where
  "amz_date now =
     (let s = now div second mod 86400
      in date_stamp now @ ''T'' @ pad_digits 2 (s div 3600) @ pad_digits 2 (s div 60 mod 60) @ pad_digits 2 (s mod 60) @ ''Z'')"

section \<open>Signature Version 4\<close>

record aws_credentials =
  aws_key_id :: string
  aws_secret :: string
  aws_session :: string

definition hash_sha256 :: "string \<Rightarrow> string" where
  "hash_sha256 s = hex (sha256 s)"

definition hmac_sha256 :: "string \<Rightarrow> string \<Rightarrow> string" where
  "hmac_sha256 key text = hmac sha256 key text"

text \<open>The loop over the header map, then over the sorted names.\<close>

fun collect_headers ::
  "http_request \<Rightarrow> (string \<times> string) list \<Rightarrow> (string, string) gomap \<times> string list \<Rightarrow> (string, string) gomap \<times> string list" where
  "collect_headers rq [] s = s"
| "collect_headers rq ((k, v) # kvs) (hs, ks) =
     (let lk = map lower_char k
      in collect_headers rq kvs (mput lk (trim_space (header_get k rq)) hs, ks @ [lk]))"

fun header_lines :: "(string, string) gomap \<Rightarrow> string list \<Rightarrow> string" where
  "header_lines hs [] = ''''"
| "header_lines hs (k # ks) = k @ '':'' @ mstr hs k @ nl @ header_lines hs ks"

definition build_canonical_headers :: "http_request \<Rightarrow> string \<times> string" where
  "build_canonical_headers rq =
     (let (hs, ks) = collect_headers rq (hr_header rq) ([], []);
          (hs, ks) = (if mget hs ''host'' = None then (mput ''host'' (hr_host rq) hs, ks @ [''host'']) else (hs, ks));
          ks = sort ks
      in (join '';'' ks, header_lines hs ks))"

definition build_canonical_request :: "http_request \<Rightarrow> string \<Rightarrow> string \<Rightarrow> string \<Rightarrow> string" where
  "build_canonical_request rq names canonical payload_hash =
     (let uri = (if hr_path rq = '''' then ''/'' else hr_path rq)
      in hr_method rq @ nl @ uri @ nl @ hr_raw_query rq @ nl @ canonical @ nl @ names @ nl @ payload_hash)"

definition derive_signing_key :: "string \<Rightarrow> string \<Rightarrow> string \<Rightarrow> string \<Rightarrow> string" where
  "derive_signing_key secret datestamp region service =
     (let k_date = hmac_sha256 (''AWS4'' @ secret) datestamp;
          k_region = hmac_sha256 k_date region;
          k_service = hmac_sha256 k_region service
      in hmac_sha256 k_service ''aws4_request'')"

definition sign_v4 :: "string \<Rightarrow> string \<Rightarrow> string \<Rightarrow> aws_credentials \<Rightarrow> int \<Rightarrow> http_request \<Rightarrow> http_request" where
  "sign_v4 payload_hash region service creds now rq =
     (let datestamp = date_stamp now;
          amzdate = amz_date now;
          rq = header_set ''x-amz-date'' amzdate rq;
          rq = header_set ''x-amz-content-sha256'' payload_hash rq;
          rq = (if aws_session creds \<noteq> '''' then header_set ''x-amz-security-token'' (aws_session creds) rq else rq);
          (names, canonical) = build_canonical_headers rq;
          canonical_request = build_canonical_request rq names canonical payload_hash;
          scope = datestamp @ ''/'' @ region @ ''/'' @ service @ ''/aws4_request'';
          string_to_sign = ''AWS4-HMAC-SHA256'' @ nl @ amzdate @ nl @ scope @ nl @ hash_sha256 canonical_request;
          signing_key = derive_signing_key (aws_secret creds) datestamp region service;
          signature = hex (hmac_sha256 signing_key string_to_sign)
      in header_set ''Authorization''
           (''AWS4-HMAC-SHA256 Credential='' @ aws_key_id creds @ ''/'' @ scope @ '', SignedHeaders='' @ names
             @ '', Signature='' @ signature) rq)"


section \<open>The documented canonical request\<close>

text \<open>
  The specification encodes every byte of the path as sent but the unreserved ones and the slash;
  \<open>wire_path\<close> is the path as \<open>net/http\<close> sends it.  Header values are trimmed and runs of spaces
  shortened to one.
\<close>

definition unreserved :: "char \<Rightarrow> bool" where
  "unreserved c \<longleftrightarrow> (48 \<le> byte c \<and> byte c \<le> 57) \<or> (65 \<le> byte c \<and> byte c \<le> 90) \<or> (97 \<le> byte c \<and> byte c \<le> 122)
     \<or> c \<in> set ''-._~''"

definition percent :: "char \<Rightarrow> string" where
  "percent c = ''%'' @ map upper_char (hex [c])"

definition uri_encode :: "string \<Rightarrow> string" where
  "uri_encode s = concat (map (\<lambda>c. if unreserved c \<or> c = CHR ''/'' then [c] else percent c) s)"

definition wire_path :: "string \<Rightarrow> string" where
  "wire_path s = concat (map (\<lambda>c. if unreserved c \<or> c \<in> set ''$&+,/:;=@'' then [c] else percent c) s)"

fun squeeze :: "string \<Rightarrow> string" where
  "squeeze (a # b # s) = (if a = CHR '' '' \<and> b = CHR '' '' then squeeze (b # s) else a # squeeze (b # s))"
| "squeeze s = s"

definition aws_headers :: "http_request \<Rightarrow> (string \<times> string) list" where
  "aws_headers rq =
     sort_key fst (map (\<lambda>(k, v). (map lower_char k, squeeze (trim_space v))) (hr_header rq) @ [(''host'', hr_host rq)])"

definition aws_canonical_request :: "http_request \<Rightarrow> string \<Rightarrow> string" where
  "aws_canonical_request rq payload_hash =
     hr_method rq @ nl @ (if hr_path rq = '''' then ''/'' else uri_encode (wire_path (hr_path rq))) @ nl
       @ hr_raw_query rq @ nl
       @ concat (map (\<lambda>(k, v). k @ '':'' @ v @ nl) (aws_headers rq)) @ nl
       @ join '';'' (map fst (aws_headers rq)) @ nl @ payload_hash"

section \<open>Lemmas\<close>

definition headers_ok :: "http_request \<Rightarrow> bool" where
  "headers_ok rq \<longleftrightarrow> go_map_ok (hr_header rq)
     \<and> (\<forall>k \<in> fst ` set (hr_header rq). list_all token_char k \<and> canonical_key k = k \<and> map lower_char k \<noteq> ''host'')"

lemma lower_upper [simp]: "lower_char (upper_char c) = lower_char c" "upper_char (lower_char c) = upper_char c"
  "lower_char (lower_char c) = lower_char c"
  by (auto simp: lower_char_def upper_char_def byte_def)

lemma byte_lower: "byte (lower_char c) = (if 65 \<le> byte c \<and> byte c \<le> 90 then byte c + 32 else byte c)"
  "byte (upper_char c) = (if 97 \<le> byte c \<and> byte c \<le> 122 then byte c - 32 else byte c)"
  by (auto simp: lower_char_def upper_char_def byte_def)

lemma token_case: "token_char c \<Longrightarrow> token_char (lower_char c) \<and> token_char (upper_char c)"
proof -
  assume t: "token_char c"
  have "token_char (lower_char c)"
  proof (cases "65 \<le> byte c \<and> byte c \<le> 90")
    case True
    then show ?thesis by (simp add: token_char_def byte_lower)
  next
    case False
    then show ?thesis using t by (simp only: lower_char_def if_False)
  qed
  moreover have "token_char (upper_char c)"
  proof (cases "97 \<le> byte c \<and> byte c \<le> 122")
    case True
    then have "65 \<le> byte (upper_char c) \<and> byte (upper_char c) \<le> 90" by (auto simp: byte_lower)
    then show ?thesis unfolding token_char_def by blast
  next
    case False
    then show ?thesis using t by (simp only: upper_char_def if_False)
  qed
  ultimately show ?thesis ..
qed

lemma lower_dash: "lower_char c = CHR ''-'' \<longleftrightarrow> c = CHR ''-''" "upper_char c = CHR ''-'' \<longleftrightarrow> c = CHR ''-''"
  using byte_lower [of c] by (auto simp: lower_char_def upper_char_def byte_def)

lemma canon_from_lower: "canon_from up (map lower_char s) = canon_from up s"
  by (induction up s rule: canon_from.induct) (simp_all add: lower_dash)

lemma canon_from_idem: "canon_from up (canon_from up s) = canon_from up s"
proof -
  have idem: "upper_char (upper_char c) = upper_char c" for c
    using byte_lower(2) [of c] by (auto simp: upper_char_def [of "upper_char c"] split: if_splits)
  show ?thesis by (induction up s rule: canon_from.induct) (simp_all add: lower_dash idem)
qed

lemma canonical_key_token:
  assumes "list_all token_char k"
  shows "list_all token_char (canonical_key k)" "canonical_key (canonical_key k) = canonical_key k"
    "map lower_char (canonical_key k) = map lower_char k"
proof -
  have t: "list_all token_char (canon_from up s)" if "list_all token_char s" for up s
    using that by (induction up s rule: canon_from.induct) (auto simp: token_case)
  have lc: "map lower_char (canon_from up s) = map lower_char s" for up s
    by (induction up s rule: canon_from.induct) simp_all
  show "list_all token_char (canonical_key k)" "canonical_key (canonical_key k) = canonical_key k"
    "map lower_char (canonical_key k) = map lower_char k"
    using assms t lc canon_from_idem by (simp_all add: canonical_key_def)
qed


lemma canonical_key_lower:
  assumes "list_all token_char k" "list_all token_char k'" "canonical_key k = k" "canonical_key k' = k'"
    "map lower_char k = map lower_char k'"
  shows "k = k'"
proof -
  have "canon_from True k = k" "canon_from True k' = k'" using assms(1-4) by (simp_all add: canonical_key_def)
  then show ?thesis using canon_from_lower [of True k] canon_from_lower [of True k'] assms(5) by metis
qed


lemma header_set_ok:
  assumes "headers_ok rq" "list_all token_char k" "map lower_char k \<noteq> ''host''"
  shows "headers_ok (header_set k v rq)"
  using assms canonical_key_token [OF assms(2)]
  by (auto simp: headers_ok_def header_set_def fst_image_mput)

lemma header_get_set [simp]:
  "header_get k (header_set k' v rq) = (if canonical_key k = canonical_key k' then v else header_get k rq)"
  by (simp add: header_get_def header_set_def mstr_def)

lemma header_set_parts [simp]:
  "hr_method (header_set k v rq) = hr_method rq" "hr_host (header_set k v rq) = hr_host rq"
  "hr_path (header_set k v rq) = hr_path rq" "hr_raw_query (header_set k v rq) = hr_raw_query rq"
  "hr_body (header_set k v rq) = hr_body rq"
  by (simp_all add: header_set_def)

text \<open>What the signed names and values are, without the loop.\<close>

definition lower_headers :: "http_request \<Rightarrow> (string, string) gomap" where
  "lower_headers rq = map (\<lambda>(k, v). (map lower_char k, trim_space v)) (hr_header rq)"

lemma lower_headers_distinct: "headers_ok rq \<Longrightarrow> go_map_ok (lower_headers rq)"
proof -
  assume ok: "headers_ok rq"
  have "inj_on (map lower_char) (fst ` set (hr_header rq))"
  proof (rule inj_onI)
    fix x y
    assume xy: "x \<in> fst ` set (hr_header rq)" "y \<in> fst ` set (hr_header rq)" "map lower_char x = map lower_char y"
    have "list_all token_char k \<and> canonical_key k = k" if "k \<in> fst ` set (hr_header rq)" for k
      using ok that by (simp only: headers_ok_def)
    from this [OF xy(1)] this [OF xy(2)] show "x = y" using canonical_key_lower xy(3) by metis
  qed
  moreover have "distinct (map fst (hr_header rq))" using ok by (simp add: headers_ok_def go_map_ok_def)
  ultimately have "distinct (map (map lower_char) (map fst (hr_header rq)))"
    by (simp only: distinct_map [of "map lower_char"] set_map)
  then show ?thesis by (simp add: lower_headers_def go_map_ok_def comp_def case_prod_unfold)
qed

lemma collect_headers_spec:
  assumes "\<forall>(k, v) \<in> set kvs. header_get k rq = v" "distinct (map (\<lambda>(k, v). map lower_char k) kvs)"
  shows "snd (collect_headers rq kvs (hs, ks)) = ks @ map (\<lambda>(k, v). map lower_char k) kvs
    \<and> mget (fst (collect_headers rq kvs (hs, ks))) x =
        (case mget (map (\<lambda>(k, v). (map lower_char k, trim_space v)) kvs) x of Some v \<Rightarrow> Some v | None \<Rightarrow> mget hs x)"
  using assms
proof (induction kvs arbitrary: hs ks)
  case (Cons kv kvs)
  obtain k v where kv: "kv = (k, v)" by (cases kv)
  have new: "map lower_char k \<notin> set (map (\<lambda>(k, v). map lower_char k) kvs)" using Cons.prems(2) kv by simp
  then have none: "mget (map (\<lambda>(k, v). (map lower_char k, trim_space v)) kvs) (map lower_char k) = None"
    by (auto simp: map_of_eq_None_iff)
  show ?case
    using Cons.IH [of "mput (map lower_char k) (trim_space v) hs" "ks @ [map lower_char k]"] Cons.prems none
    by (auto simp: kv Let_def split: option.splits)
qed simp

lemma canonical_headers_closed:
  assumes "headers_ok rq"
  shows "build_canonical_headers rq =
    (let ns = sort (map fst (lower_headers rq) @ [''host''])
     in (join '';'' ns, concat (map (\<lambda>k. k @ '':'' @ mstr ((''host'', hr_host rq) # lower_headers rq) k @ nl) ns)))"
proof -
  have get: "\<forall>(k, v) \<in> set (hr_header rq). header_get k rq = v"
    using assms by (auto simp: headers_ok_def header_get_def mstr_def go_map_ok_def)
  have d: "distinct (map (\<lambda>(k, v). map lower_char k) (hr_header rq))"
    using lower_headers_distinct [OF assms] by (simp add: lower_headers_def go_map_ok_def comp_def case_prod_unfold)
  let ?c = "collect_headers rq (hr_header rq) ([], [])"
  have c: "snd ?c = map fst (lower_headers rq)" "mget (fst ?c) x = mget (lower_headers rq) x" for x
    using collect_headers_spec [OF get d, of "[]" "[]" x]
    by (auto simp: lower_headers_def comp_def case_prod_unfold split: option.splits)
  have nohost: "mget (lower_headers rq) ''host'' = None"
    using assms by (auto simp: map_of_eq_None_iff lower_headers_def headers_ok_def)
  have hl: "header_lines hs ks = concat (map (\<lambda>k. k @ '':'' @ mstr hs k @ nl) ks)" for hs ks
    by (induction ks) simp_all
  have val: "mstr (mput ''host'' (hr_host rq) (fst ?c)) = mstr ((''host'', hr_host rq) # lower_headers rq)"
    by (rule ext) (simp add: mstr_def c(2))
  show ?thesis
    using c nohost by (simp add: build_canonical_headers_def Let_def case_prod_unfold hl val)
qed

text \<open>The order in which the map is iterated does not matter.\<close>

lemma canonical_headers_order:
  assumes "headers_ok rq" "mset kvs = mset (hr_header rq)"
  shows "build_canonical_headers (rq\<lparr>hr_header := kvs\<rparr>) = build_canonical_headers rq"
proof -
  let ?rq = "rq\<lparr>hr_header := kvs\<rparr>"
  have set: "set kvs = set (hr_header rq)" using assms(2) by (rule mset_eq_setD)
  have keys: "mset (map fst kvs) = mset (map fst (hr_header rq))" using assms(2) by (simp only: mset_map)
  then have ok: "headers_ok ?rq"
    using assms(1) set mset_eq_imp_distinct_iff [OF keys] by (simp add: headers_ok_def go_map_ok_def)
  have "mset (lower_headers ?rq) = mset (lower_headers rq)" using assms(2) by (simp add: lower_headers_def)
  then have "mset (map fst (lower_headers ?rq)) = mset (map fst (lower_headers rq))"
    and "set (lower_headers ?rq) = set (lower_headers rq)"
    by (simp_all only: mset_map) (rule mset_eq_setD)
  then have "sort (map fst (lower_headers ?rq) @ [''host'']) = sort (map fst (lower_headers rq) @ [''host''])"
    and "map_of (lower_headers ?rq) = map_of (lower_headers rq)"
    using lower_headers_distinct [OF ok] lower_headers_distinct [OF assms(1)]
    by (auto intro!: properties_for_sort simp: go_map_ok_def map_of_inject_set)
  then show ?thesis
    by (simp add: canonical_headers_closed [OF ok] canonical_headers_closed [OF assms(1)] mstr_def Let_def)
qed


lemma sort_key_distinct:
  assumes "distinct (map fst xs)"
  shows "sort_key fst xs = map (\<lambda>k. (k, the (map_of xs k))) (sort (map fst xs))"
proof -
  have keys: "map fst (sort_key fst xs) = sort (map fst xs)"
    by (rule properties_for_sort [symmetric]) (simp_all only: mset_map mset_sort sorted_sort_key)
  have "(fst p, the (map_of xs (fst p))) = p" if "p \<in> set (sort_key fst xs)" for p
  proof -
    obtain k v where p: "p = (k, v)" by (cases p)
    have "(k, v) \<in> set xs" using that by (simp add: p)
    with assms have "map_of xs k = Some v" by (rule map_of_is_SomeI)
    then show ?thesis by (simp add: p)
  qed
  then have "map (\<lambda>k. (k, the (map_of xs k))) (map fst (sort_key fst xs)) = sort_key fst xs"
    unfolding map_map by (intro map_idI) (simp only: comp_apply)
  then show ?thesis by (simp only: keys)
qed

lemma encoded_path_id: "uri_encode (wire_path p) = p \<longleftrightarrow> (\<forall>c \<in> set p. unreserved c \<or> c = CHR ''/'')"
proof -
  have three: "length (percent c) = 3" for c by (simp add: percent_def hex_def)
  have grow: "length s \<le> length (uri_encode s)" for s
    by (induction s) (auto simp: uri_encode_def three)
  have app: "uri_encode (s @ t) = uri_encode s @ uri_encode t" for s t by (simp add: uri_encode_def)
  have longer: "length p < length (uri_encode (wire_path p))"
    if "c \<in> set p" "\<not> (unreserved c \<or> c = CHR ''/'')" for c p
    using that
  proof (induction p)
    case (Cons d p)
    have w: "wire_path (d # p) = wire_path [d] @ wire_path p" by (simp add: wire_path_def)
    have len: "length q \<le> length (uri_encode (wire_path q))" for q
    proof -
      have "length q \<le> length (wire_path q)" by (induction q) (auto simp: wire_path_def three)
      then show ?thesis using grow [of "wire_path q"] by linarith
    qed
    have one: "2 \<le> length (uri_encode (wire_path [c]))"
    proof (cases "c \<in> set ''$&+,/:;=@''")
      case True
      then have "wire_path [c] = [c]" by (simp add: wire_path_def)
      then show ?thesis using Cons.prems(2) by (simp add: uri_encode_def three)
    next
      case False
      then have "wire_path [c] = percent c" using Cons.prems(2) by (simp add: wire_path_def)
      then show ?thesis using grow [of "percent c"] three [of c] by simp
    qed
    show ?case
    proof (cases "c = d")
      case True
      then show ?thesis using one len [of p] by (simp add: w app)
    next
      case False
      then show ?thesis using Cons len [of "[d]"] by (simp add: w app)
    qed
  qed simp
  have same: "uri_encode (wire_path p) = p" if "\<forall>c \<in> set p. unreserved c \<or> c = CHR ''/''" for p
    using that by (induction p) (auto simp: uri_encode_def wire_path_def)
  show ?thesis using longer same by (metis less_irrefl)
qed

text \<open>
  What the code hashes and signs is the canonical request AWS specifies: the headers are
  complete, in the specified order and form, and for a path of unreserved characters and slashes
  the request agrees.  With any other character in the path it differs, because the code signs the
  path as it is where the specification signs its encoding.
\<close>

theorem canonical_request_conforms:
  assumes "headers_ok rq" and "\<forall>(k, v) \<in> set (hr_header rq). squeeze (trim_space v) = trim_space v"
    and "build_canonical_headers rq = (names, canonical)"
  shows "build_canonical_request rq names canonical ph = aws_canonical_request rq ph
    \<longleftrightarrow> (\<forall>c \<in> set (hr_path rq). unreserved c \<or> c = CHR ''/'')"
proof -
  let ?hs = "lower_headers rq @ [(''host'', hr_host rq)]"
  have "map (\<lambda>(k, v). (map lower_char k, squeeze (trim_space v))) (hr_header rq) = lower_headers rq"
    using assms(2) by (auto simp: lower_headers_def)
  then have aws: "aws_headers rq = sort_key fst ?hs" by (simp only: aws_headers_def)
  have nohost: "''host'' \<notin> set (map fst (lower_headers rq))"
    using assms(1) by (auto simp: lower_headers_def headers_ok_def)
  then have d: "distinct (map fst ?hs)" using lower_headers_distinct [OF assms(1)] by (simp add: go_map_ok_def)
  have val: "the (map_of ?hs k) = mstr ((''host'', hr_host rq) # lower_headers rq) k"
    if "k \<in> set (map fst ?hs)" for k
  proof (cases "k = ''host''")
    case True
    have "mget (lower_headers rq) ''host'' = None" using nohost by (simp add: map_of_eq_None_iff)
    then show ?thesis using True by (simp add: mstr_def map_add_def)
  next
    case False
    with that have "k \<in> set (map fst (lower_headers rq))" by auto
    then obtain v where "mget (lower_headers rq) k = Some v" using map_of_eq_None_iff [of "lower_headers rq" k] by fastforce
    then show ?thesis using False by (simp add: mstr_def map_add_def)
  qed
  have aws2: "aws_headers rq =
      map (\<lambda>k. (k, mstr ((''host'', hr_host rq) # lower_headers rq) k)) (sort (map fst (lower_headers rq) @ [''host'']))"
    unfolding aws sort_key_distinct [OF d] by (simp only: map_append list.map fst_conv) (rule map_cong, simp, use val in auto)
  have names: "names = join '';'' (map fst (aws_headers rq))"
    and lines: "canonical = concat (map (\<lambda>(k, v). k @ '':'' @ v @ nl) (aws_headers rq))"
    using assms(3) unfolding canonical_headers_closed [OF assms(1)] Let_def aws2 by (simp_all add: comp_def)
  show ?thesis
    using encoded_path_id [of "hr_path rq"]
    by (auto simp: build_canonical_request_def aws_canonical_request_def names lines Let_def)
qed


definition signed_request :: "string \<Rightarrow> aws_credentials \<Rightarrow> int \<Rightarrow> http_request \<Rightarrow> http_request" where
  "signed_request ph creds now rq =
     (let rq = header_set ''x-amz-content-sha256'' ph (header_set ''x-amz-date'' (amz_date now) rq)
      in if aws_session creds \<noteq> '''' then header_set ''x-amz-security-token'' (aws_session creds) rq else rq)"

definition signed_names :: "aws_credentials \<Rightarrow> http_request \<Rightarrow> string set" where
  "signed_names creds rq =
     map lower_char ` fst ` set (hr_header rq) \<union> {''host'', ''x-amz-date'', ''x-amz-content-sha256''}
       \<union> (if aws_session creds \<noteq> '''' then {''x-amz-security-token''} else {})"

lemma amz_tokens:
  "list_all token_char ''x-amz-date''" "list_all token_char ''x-amz-content-sha256''"
  "list_all token_char ''x-amz-security-token''" "list_all token_char ''Authorization''"
  "map lower_char ''x-amz-date'' = ''x-amz-date''" "map lower_char ''x-amz-content-sha256'' = ''x-amz-content-sha256''"
  "map lower_char ''x-amz-security-token'' = ''x-amz-security-token''"
  by (simp_all add: token_char_def lower_char_def byte_def)

lemma keys_header_set:
  assumes "list_all token_char k"
  shows "map lower_char ` fst ` set (hr_header (header_set k v rq)) = insert (map lower_char k) (map lower_char ` fst ` set (hr_header rq))"
  using canonical_key_token(3) [OF assms] by (simp add: header_set_def fst_image_mput)

lemma signed_request_ok:
  assumes "headers_ok rq"
  shows "headers_ok (signed_request ph creds now rq)"
    "set (map fst (lower_headers (signed_request ph creds now rq)) @ [''host'']) = signed_names creds rq"
proof -
  show "headers_ok (signed_request ph creds now rq)"
    using assms amz_tokens by (simp add: signed_request_def Let_def header_set_ok)
  have "set (map fst (lower_headers r) @ [''host'']) = insert ''host'' (map lower_char ` fst ` set (hr_header r))" for r
    by (force simp: lower_headers_def)
  then show "set (map fst (lower_headers (signed_request ph creds now rq)) @ [''host'']) = signed_names creds rq"
    using amz_tokens by (auto simp: signed_request_def Let_def keys_header_set signed_names_def)
qed

text \<open>The pieces of \<open>sign_v4\<close>: the headers it adds, the signature and the authorization header.\<close>

definition signature_of :: "string \<Rightarrow> string \<Rightarrow> string \<Rightarrow> aws_credentials \<Rightarrow> int \<Rightarrow> http_request \<Rightarrow> string" where
  "signature_of ph region service creds now r =
     (let scope = date_stamp now @ ''/'' @ region @ ''/'' @ service @ ''/aws4_request'';
          req = build_canonical_request r (fst (build_canonical_headers r)) (snd (build_canonical_headers r)) ph
      in hex (hmac_sha256 (derive_signing_key (aws_secret creds) (date_stamp now) region service)
           (''AWS4-HMAC-SHA256'' @ nl @ amz_date now @ nl @ scope @ nl @ hash_sha256 req)))"

definition authorization :: "string \<Rightarrow> string \<Rightarrow> string \<Rightarrow> aws_credentials \<Rightarrow> int \<Rightarrow> http_request \<Rightarrow> string" where
  "authorization ph region service creds now r =
     ''AWS4-HMAC-SHA256 Credential='' @ aws_key_id creds @ ''/'' @ date_stamp now @ ''/'' @ region @ ''/'' @ service
       @ ''/aws4_request, SignedHeaders='' @ fst (build_canonical_headers r)
       @ '', Signature='' @ signature_of ph region service creds now r"

lemma sign_v4_split:
  "sign_v4 ph region service creds now rq =
     header_set ''Authorization'' (authorization ph region service creds now (signed_request ph creds now rq))
       (signed_request ph creds now rq)"
  by (simp add: sign_v4_def authorization_def signature_of_def signed_request_def Let_def case_prod_unfold)

lemma mset_mput:
  assumes "go_map_ok m" "mset kvs = mset m"
  shows "mset (mput k v kvs) = mset (mput k v m)"
proof -
  have keys: "mset (map fst kvs) = mset (map fst m)" using assms(2) by (simp only: mset_map)
  have ok: "go_map_ok kvs" using mset_eq_imp_distinct_iff [OF keys] assms(1) by (simp add: go_map_ok_def)
  have "map_of kvs = map_of m"
    using ok assms mset_eq_setD [OF assms(2)] by (simp add: go_map_ok_def map_of_inject_set)
  then have "map_of (mput k v kvs) = map_of (mput k v m)" by (simp add: fun_eq_iff)
  moreover have d: "distinct (map fst (mput k v kvs))" "distinct (map fst (mput k v m))"
    using go_map_ok_mput [OF ok] go_map_ok_mput [OF assms(1)] by (simp_all add: go_map_ok_def)
  ultimately have "set (mput k v kvs) = set (mput k v m)" by (simp add: map_of_inject_set)
  then show ?thesis using d by (simp add: set_eq_iff_mset_eq_distinct distinct_map)
qed

lemma signed_request_order:
  assumes "headers_ok rq" "mset kvs = mset (hr_header rq)"
  shows "mset (hr_header (signed_request ph creds now (rq\<lparr>hr_header := kvs\<rparr>))) = mset (hr_header (signed_request ph creds now rq))
    \<and> signed_request ph creds now (rq\<lparr>hr_header := kvs\<rparr>) =
        (signed_request ph creds now rq)\<lparr>hr_header := hr_header (signed_request ph creds now (rq\<lparr>hr_header := kvs\<rparr>))\<rparr>"
proof -
  have h: "go_map_ok (hr_header rq)" using assms(1) by (simp add: headers_ok_def)
  show ?thesis using assms(2) h by (auto simp: signed_request_def Let_def header_set_def intro!: mset_mput)
qed



definition example_aws :: "string \<Rightarrow> http_request" where
  "example_aws p =
     header_set ''Accept'' ''application/json'' (header_set ''Content-Type'' ''application/json''
       \<lparr>hr_method = ''POST'', hr_host = ''h'', hr_path = p, hr_raw_query = '''', hr_header = [], hr_body = ''''\<rparr>)"

lemma example_aws_ok: "headers_ok (example_aws p)"
proof -
  have k: "list_all token_char ''Accept''" "list_all token_char ''Content-Type''"
    by (simp_all add: token_char_def byte_def)
  have l: "map lower_char ''Accept'' \<noteq> ''host''" "map lower_char ''Content-Type'' \<noteq> ''host''"
    by (simp_all add: lower_char_def byte_def)
  show ?thesis
    unfolding example_aws_def by (intro header_set_ok k l) (simp add: headers_ok_def)
qed

lemma example_aws_values: "\<forall>(k, v) \<in> set (hr_header (example_aws p)). squeeze (trim_space v) = trim_space v"
proof -
  have t: "trim_space ''application/json'' = ''application/json''"
    by (rule trim_space_printable) (simp_all add: printable_def byte_def)
  have "v = ''application/json''" if "(k, v) \<in> set (hr_header (example_aws p))" for k v
  proof -
    have "mget (hr_header (example_aws p)) k = Some v"
      using that example_aws_ok [of p] by (simp add: headers_ok_def go_map_ok_def)
    then show ?thesis by (auto simp: example_aws_def header_set_def split: if_splits)
  qed
  moreover have "squeeze ''application/json'' = ''application/json''" by simp
  ultimately show ?thesis using t by fastforce
qed

theorem canonical_request_conforms_witness:
  "(case build_canonical_headers (example_aws ''/m'') of (names, canonical) \<Rightarrow>
      build_canonical_request (example_aws ''/m'') names canonical ''ff'' = aws_canonical_request (example_aws ''/m'') ''ff'')
   \<and> (case build_canonical_headers (example_aws ''/m:0'') of (names, canonical) \<Rightarrow>
      build_canonical_request (example_aws ''/m:0'') names canonical ''ff'' \<noteq> aws_canonical_request (example_aws ''/m:0'') ''ff'')"
proof -
  have path: "hr_path (example_aws p) = p" for p by (simp add: example_aws_def)
  show ?thesis
    using canonical_request_conforms [OF example_aws_ok example_aws_values surjective_pairing, of "''/m''" "''ff''"]
      canonical_request_conforms [OF example_aws_ok example_aws_values surjective_pairing, of "''/m:0''" "''ff''"]
    by (simp add: case_prod_unfold path unreserved_def byte_def)
qed


end
