(* ===== verification/Floats.thy ===== *)
theory Floats
  imports Complex_Main GoStrings
begin

text \<open>
  The part of \<open>float64\<close> arithmetic and formatting the sources use.  A finite \<open>float64\<close> is the
  rational number it stands for.  \<open>float64 x\<close> rounds a rational to the nearest value with a
  53-bit significand, ties to even, as the conversion from an integer and the result of one
  operation are; the smallest and largest exponents are left out, which no value of the sources
  comes near.  \<open>fixed1\<close> is the verb \<open>%.1f\<close>.  Rounding is monotone and leaves the multiples of
  a power of two with few enough bits alone: the proofs about printed values use only these two.
\<close>

section \<open>Rounding\<close>

definition round_half_even :: "rat \<Rightarrow> int" where
  "round_half_even x =
     (let f = \<lfloor>x\<rfloor>; d = x - of_int f
      in if d < 1 / 2 then f else if 1 / 2 < d then f + 1 else if even f then f else f + 1)"

fun bits :: "nat \<Rightarrow> nat" where
  "bits n = (if n = 0 then 0 else Suc (bits (n div 2)))"

declare bits.simps [simp del]

text \<open>The \<open>e\<close> with \<open>2^e \<le> x < 2^(e+1)\<close>, for a positive \<open>x\<close>.\<close>

definition exponent :: "rat \<Rightarrow> int" where
  "exponent x =
     (let (a, b) = quotient_of x;
          k = int (bits (nat a)) - int (bits (nat b))
      in if 2 powi k \<le> x then k else k - 1)"

definition float_pos :: "rat \<Rightarrow> rat" where
  "float_pos x = (let e = exponent x - 52 in of_int (round_half_even (x / 2 powi e)) * 2 powi e)"

definition float64 :: "rat \<Rightarrow> rat" where
  "float64 x = (if x = 0 then 0 else if 0 < x then float_pos x else - float_pos (- x))"

text \<open>The verb \<open>%.1f\<close>.\<close>

definition fixed1 :: "rat \<Rightarrow> string" where
  "fixed1 x =
     (let t = nat (round_half_even (10 * \<bar>x\<bar>))
      in (if x < 0 then ''-'' else '''') @ digits (t div 10) @ ''.'' @ digits (t mod 10))"

section \<open>Lemmas\<close>

lemma round_half_even_of_int [simp]: "round_half_even (of_int i) = i"
  by (simp add: round_half_even_def)

lemma round_half_even_near: "\<bar>of_int (round_half_even x) - x\<bar> \<le> 1 / 2"
proof -
  have "of_int \<lfloor>x\<rfloor> \<le> x" "x < of_int \<lfloor>x\<rfloor> + 1" using floor_correct [of x] by auto
  then show ?thesis by (auto simp: round_half_even_def Let_def abs_le_iff)
qed

lemma round_half_even_mono:
  assumes "x \<le> y"
  shows "round_half_even x \<le> round_half_even y"
proof (cases "\<lfloor>x\<rfloor> = \<lfloor>y\<rfloor>")
  case True
  with assms show ?thesis by (auto simp: round_half_even_def Let_def)
next
  case False
  with assms floor_mono [OF assms] have "\<lfloor>x\<rfloor> + 1 \<le> \<lfloor>y\<rfloor>" by linarith
  moreover have "round_half_even x \<le> \<lfloor>x\<rfloor> + 1" "\<lfloor>y\<rfloor> \<le> round_half_even y"
    by (auto simp: round_half_even_def Let_def)
  ultimately show ?thesis by linarith
qed

lemma bits_bounds: "0 < n \<Longrightarrow> 2 ^ (bits n - 1) \<le> n \<and> n < 2 ^ bits n \<and> 0 < bits n"
proof (induction n rule: bits.induct)
  case (1 n)
  show ?case
  proof (cases "n div 2 = 0")
    case True
    with 1 have "n = 1" by linarith
    then show ?thesis by (simp add: bits.simps)
  next
    case False
    with 1 have ih: "2 ^ (bits (n div 2) - 1) \<le> n div 2" "n div 2 < 2 ^ bits (n div 2)" "0 < bits (n div 2)"
      by auto
    have b: "bits n = Suc (bits (n div 2))" using 1(2) by (subst bits.simps) simp
    from ih(3) obtain k where k: "bits (n div 2) = Suc k" by (cases "bits (n div 2)") auto
    with ih b show ?thesis by auto
  qed
qed

lemma exponent_bounds:
  assumes "0 < x"
  shows "2 powi exponent x \<le> x \<and> x < 2 powi (exponent x + 1)"
proof -
  obtain a b where q: "quotient_of x = (a, b)" by (cases "quotient_of x")
  have b: "0 < b" by (rule quotient_of_denom_pos [OF q])
  have x: "x = of_int a / of_int b" by (rule quotient_of_div [OF q])
  with assms b have a: "0 < a" by (auto simp: zero_less_divide_iff)
  define p r where "p = bits (nat a)" and "r = bits (nat b)"
  have na: "2 ^ (p - 1) \<le> nat a" "nat a < 2 ^ p" "0 < p"
    using bits_bounds [of "nat a"] a by (auto simp: p_def)
  have nb: "2 ^ (r - 1) \<le> nat b" "nat b < 2 ^ r" "0 < r"
    using bits_bounds [of "nat b"] b by (auto simp: r_def)
  have ra: "2 powi (int p - 1) \<le> (of_int a :: rat)" "(of_int a :: rat) < 2 powi int p"
  proof -
    have "of_nat (2 ^ (p - 1)) \<le> (of_nat (nat a) :: rat)" "of_nat (nat a) < (of_nat (2 ^ p) :: rat)"
      using na by (simp_all only: of_nat_le_iff of_nat_less_iff)
    then show "2 powi (int p - 1) \<le> (of_int a :: rat)" "(of_int a :: rat) < 2 powi int p"
      using a na(3) by (simp_all add: power_int_def nat_diff_distrib of_nat_diff)
  qed
  have rb: "2 powi (int r - 1) \<le> (of_int b :: rat)" "(of_int b :: rat) < 2 powi int r"
  proof -
    have "of_nat (2 ^ (r - 1)) \<le> (of_nat (nat b) :: rat)" "of_nat (nat b) < (of_nat (2 ^ r) :: rat)"
      using nb by (simp_all only: of_nat_le_iff of_nat_less_iff)
    then show "2 powi (int r - 1) \<le> (of_int b :: rat)" "(of_int b :: rat) < 2 powi int r"
      using b nb(3) by (simp_all add: power_int_def nat_diff_distrib of_nat_diff)
  qed
  have pos: "(0::rat) < of_int b" using b by simp
  have "x < 2 powi int p / 2 powi (int r - 1)"
    unfolding x by (rule frac_less) (use ra rb pos a in auto)
  then have upper: "x < 2 powi (int p - int r + 1)"
    by (simp add: power_int_diff power_int_add algebra_simps)
  have "2 powi (int p - 1) / 2 powi int r < x"
    unfolding x by (rule frac_less2) (use ra rb pos a in auto)
  then have lower: "2 powi (int p - int r - 1) \<le> x"
    by (simp add: power_int_diff power_int_add algebra_simps)
  show ?thesis
    using upper lower by (auto simp: exponent_def q p_def [symmetric] r_def [symmetric] Let_def)
qed


lemma float_pos_range:
  assumes "0 < x"
  shows "2 powi exponent x \<le> float_pos x \<and> float_pos x \<le> 2 powi (exponent x + 1)"
proof -
  let ?e = "exponent x - 52"
  have p: "(0::rat) < 2 powi ?e" by simp
  have b: "2 powi exponent x = (2::rat) ^ 52 * 2 powi ?e" "2 powi (exponent x + 1) = (2::rat) ^ 53 * 2 powi ?e"
    using power_int_add [of "2::rat" 52 ?e] power_int_add [of "2::rat" 53 ?e] by (simp_all add: add.commute)
  have "2 ^ 52 \<le> x / 2 powi ?e" "x / 2 powi ?e \<le> 2 ^ 53"
    using exponent_bounds [OF assms] unfolding b using p by (simp_all add: le_divide_eq divide_le_eq)
  then have "round_half_even (of_int (2 ^ 52)) \<le> round_half_even (x / 2 powi ?e)"
    "round_half_even (x / 2 powi ?e) \<le> round_half_even (of_int (2 ^ 53))"
    by (auto intro!: round_half_even_mono)
  then have "2 ^ 52 \<le> round_half_even (x / 2 powi ?e)" "round_half_even (x / 2 powi ?e) \<le> 2 ^ 53"
    by (simp_all only: round_half_even_of_int)
  then have "of_int (2 ^ 52) \<le> (of_int (round_half_even (x / 2 powi ?e)) :: rat)"
    "of_int (round_half_even (x / 2 powi ?e)) \<le> (of_int (2 ^ 53) :: rat)"
    by (simp_all only: of_int_le_iff)
  then show ?thesis
    unfolding b float_pos_def Let_def using p by (auto intro!: mult_right_mono)
qed

lemma exponent_mono:
  assumes "0 < x" "x \<le> y"
  shows "exponent x \<le> exponent y"
proof (rule ccontr)
  assume "\<not> exponent x \<le> exponent y"
  then have "exponent y + 1 \<le> exponent x" by simp
  then have "(2::rat) powi (exponent y + 1) \<le> 2 powi exponent x" by (intro power_int_increasing) auto
  moreover have "y < 2 powi (exponent y + 1)" "2 powi exponent x \<le> x"
    using exponent_bounds [of y] exponent_bounds [of x] assms by auto
  ultimately show False using assms by linarith
qed

lemma float_pos_mono:
  assumes "0 < x" "x \<le> y"
  shows "float_pos x \<le> float_pos y"
proof (cases "exponent x = exponent y")
  case True
  have "round_half_even (x / 2 powi (exponent y - 52)) \<le> round_half_even (y / 2 powi (exponent y - 52))"
    using assms by (intro round_half_even_mono divide_right_mono) auto
  with True show ?thesis by (simp add: float_pos_def Let_def mult_right_mono)
next
  case False
  with exponent_mono [OF assms] have "exponent x + 1 \<le> exponent y" by simp
  then have "(2::rat) powi (exponent x + 1) \<le> 2 powi exponent y" by (intro power_int_increasing) auto
  with float_pos_range [of x] float_pos_range [of y] assms show ?thesis by force
qed

lemma float64_mono: "x \<le> y \<Longrightarrow> float64 x \<le> float64 y"
proof -
  have pos: "0 < float_pos z" if "0 < z" for z
    using float_pos_range [OF that] by (meson less_le_trans zero_less_numeral zero_less_power_int)
  assume "x \<le> y"
  then show ?thesis
    using float_pos_mono [of x y] float_pos_mono [of "- y" "- x"] pos [of y] pos [of "- x"]
    by (cases x "0::rat" rule: linorder_cases; cases y "0::rat" rule: linorder_cases)
      (auto simp: float64_def intro: order_trans less_imp_le)
qed

text \<open>A multiple of a power of two with at most 53 bits is a \<open>float64\<close>.\<close>

lemma float_pos_exact:
  assumes "0 < m" "m < 2 ^ 53"
  shows "float_pos (of_int m * 2 powi j) = of_int m * 2 powi j"
proof -
  let ?x = "of_int m * 2 powi j :: rat"
  have x: "0 < ?x" using assms by simp
  have "of_int m < (of_int (2 ^ 53) :: rat)" using assms(2) by (simp only: of_int_less_iff)
  then have "?x < 2 ^ 53 * 2 powi j" by (intro mult_strict_right_mono) auto
  also have "2 ^ 53 * 2 powi j = (2::rat) powi (53 + j)" by (simp add: power_int_add)
  finally have "2 powi exponent ?x < (2::rat) powi (53 + j)" using exponent_bounds [OF x] by linarith
  then have "exponent ?x < 53 + j" using power_int_increasing [of "53 + j" "exponent ?x" "2::rat"] by force
  then have le: "exponent ?x - 52 \<le> j" by simp
  define n where "n = nat (j - (exponent ?x - 52))"
  have "?x / 2 powi (exponent ?x - 52) = of_int m * 2 powi (j - (exponent ?x - 52))"
    by (simp add: power_int_diff)
  also have "2 powi (j - (exponent ?x - 52)) = (2::rat) ^ n" using le by (simp add: n_def power_int_def)
  also have "of_int m * (2::rat) ^ n = of_int (m * 2 ^ n)" by simp
  finally have "?x / 2 powi (exponent ?x - 52) = of_int (m * 2 ^ n)" .
  then have "float_pos ?x = of_int (m * 2 ^ n) * 2 powi (exponent ?x - 52)"
    by (simp only: float_pos_def Let_def round_half_even_of_int)
  also have "\<dots> = ?x"
    unfolding \<open>?x / 2 powi (exponent ?x - 52) = of_int (m * 2 ^ n)\<close> [symmetric] by simp
  finally show ?thesis .
qed

lemma float64_exact:
  assumes "\<bar>m\<bar> < 2 ^ 53"
  shows "float64 (of_int m * 2 powi j) = of_int m * 2 powi j"
proof -
  have p: "(0::rat) < 2 powi j" by simp
  show ?thesis
    using assms float_pos_exact [of m j] float_pos_exact [of "- m" j] p less_asym [OF p]
    by (cases m "0::int" rule: linorder_cases) (auto simp: float64_def zero_less_mult_iff mult_less_0_iff)
qed

lemma float64_of_int: "\<bar>i\<bar> < 2 ^ 53 \<Longrightarrow> float64 (of_int i) = of_int i"
  using float64_exact [of i 0] by simp

lemma float64_0 [simp]: "float64 0 = 0"
  by (simp add: float64_def)

lemma float64_nonneg: "0 \<le> x \<Longrightarrow> 0 \<le> float64 x"
  using float64_mono [of 0 x] by simp


lemma float_pos_near:
  assumes "0 < x"
  shows "\<bar>float_pos x - x\<bar> \<le> x / 2 ^ 53"
proof -
  let ?p = "2 powi (exponent x - 52) :: rat"
  have p: "0 < ?p" by simp
  have "2 powi exponent x = 2 ^ 52 * ?p" using power_int_add [of "2::rat" 52 "exponent x - 52"] by simp
  then have small: "2 ^ 52 * ?p \<le> x" using exponent_bounds [OF assms] by simp
  have "float_pos x - x = (of_int (round_half_even (x / ?p)) - x / ?p) * ?p"
    using p by (simp add: float_pos_def Let_def left_diff_distrib)
  then have "\<bar>float_pos x - x\<bar> = \<bar>of_int (round_half_even (x / ?p)) - x / ?p\<bar> * ?p"
    using p by (simp add: abs_mult)
  also have "\<dots> \<le> 1 / 2 * ?p"
    using round_half_even_near p by (intro mult_right_mono) auto
  also have "\<dots> \<le> x / 2 ^ 53" using small by simp
  finally show ?thesis .
qed

lemma float64_near: "\<bar>float64 x - x\<bar> \<le> \<bar>x\<bar> / 2 ^ 53"
  using float_pos_near [of x] float_pos_near [of "- x"]
  by (cases x "0::rat" rule: linorder_cases) (auto simp: float64_def abs_if split: if_splits)

lemma fixed1_nonneg:
  assumes "0 \<le> x"
  obtains t where "fixed1 x = digits (t div 10) @ ''.'' @ digits (t mod 10)" "\<bar>of_nat t / 10 - x\<bar> \<le> 1 / 20"
    "int t = round_half_even (10 * x)"
proof -
  let ?t = "nat (round_half_even (10 * x))"
  have "0 \<le> round_half_even (10 * x)"
    using round_half_even_mono [of "of_int 0" "10 * x"] assms by (simp only: round_half_even_of_int)
  then have t: "int ?t = round_half_even (10 * x)" by simp
  then have "(of_nat ?t :: rat) = of_int (round_half_even (10 * x))" by (metis of_int_of_nat_eq)
  then have "\<bar>of_nat ?t - 10 * x\<bar> \<le> 1 / 2" using round_half_even_near [of "10 * x"] by simp
  moreover have "of_nat ?t / 10 - x = (of_nat ?t - 10 * x) / 10" by (simp add: diff_divide_distrib)
  ultimately have "\<bar>of_nat ?t / 10 - x\<bar> \<le> 1 / 20" by (simp only: abs_divide)
  moreover have "fixed1 x = digits (?t div 10) @ ''.'' @ digits (?t mod 10)" using assms by (simp add: fixed1_def Let_def)
  ultimately show thesis using t that by blast
qed


lemma float64_power2: "float64 (2 ^ k) = 2 ^ k"
  using float64_exact [of 1 "int k"] by (simp add: power_int_def)


lemma float_pos_scale: "0 < x \<Longrightarrow> float64 (float_pos x * 2 ^ k) = float_pos x * 2 ^ k"
proof -
  assume x: "0 < x"
  let ?p = "2 powi (exponent x - 52) :: rat"
  define m where "m = round_half_even (x / ?p)"
  have p: "0 < ?p" by simp
  have fp: "float_pos x = of_int m * ?p" by (simp add: float_pos_def Let_def m_def)
  have "2 powi (exponent x + 1) = 2 ^ 53 * ?p" using power_int_add [of "2::rat" 53 "exponent x - 52"] by (simp add: add.commute)
  then have "of_int m * ?p \<le> 2 ^ 53 * ?p" using float_pos_range [OF x] fp by simp
  then have "of_int m \<le> (of_int (2 ^ 53) :: rat)" using p by (simp add: mult_le_cancel_right)
  then have le: "m \<le> 2 ^ 53" by (simp only: of_int_le_iff)
  have "0 < float_pos x" using float_pos_range [OF x] by (meson less_le_trans zero_less_numeral zero_less_power_int)
  then have pos: "0 < m" using fp p by (simp add: zero_less_mult_iff)
  have shift: "of_int m * ?p * 2 ^ k = of_int m * 2 powi (exponent x - 52 + int k)"
    by (simp add: power_int_add)
  show ?thesis
  proof (cases "m = 2 ^ 53")
    case True
    have "of_int m * 2 powi (exponent x - 52 + int k) = of_int 1 * (2::rat) powi (53 + (exponent x - 52 + int k))"
      using True power_int_add [of "2::rat" 53 "exponent x - 52 + int k"] by simp
    then show ?thesis using float64_exact [of 1] unfolding fp shift by (metis abs_one one_less_numeral_iff one_less_power semiring_norm(76) zero_less_numeral)
  next
    case False
    with le pos have "\<bar>m\<bar> < 2 ^ 53" by simp
    then show ?thesis unfolding fp shift by (rule float64_exact)
  qed
qed

text \<open>A product of a \<open>float64\<close> and a power of two is exact.\<close>

lemma float64_scale: "0 \<le> x \<Longrightarrow> float64 (float64 x * 2 ^ k) = float64 x * 2 ^ k"
  using float_pos_scale [of x k] by (cases "x = 0") (simp_all add: float64_def)

lemma float64_integer_near:
  assumes "0 \<le> x" "x < 2 ^ 53"
  shows "\<bar>float64 x - x\<bar> \<le> 1"
proof -
  have "\<bar>float64 x - x\<bar> \<le> x / 2 ^ 53" using float64_near [of x] assms by simp
  also have "x / 2 ^ 53 \<le> 1" using assms by simp
  finally show ?thesis .
qed

end
