(* ===== verification/Config.thy ===== *)
theory Config
  imports GoStrings
begin

text \<open>
  The configuration (\<open>config/config.go\<close>, \<open>config/mcp_config.go\<close>, \<open>config/server_config.go\<close>)
  after decoding: environment references, defaults, validation, global labels, the agent's
  identity and the derived server addresses.  \<open>getenv\<close> is \<open>os.Getenv\<close> (empty when unset);
  the decoding of TOML, YAML and JSON, the URL parser and the network probes are parameters.
\<close>

section \<open>Expansion of variables\<close>

text \<open>\<open>os.Expand\<close>, with \<open>getShellName\<close>: the name after a dollar sign and the bytes it takes.\<close>

definition shell_special :: "char \<Rightarrow> bool" where
  "shell_special c \<longleftrightarrow> c \<in> set ''*#$@!?-0123456789''"

definition alpha_num :: "char \<Rightarrow> bool" where
  "alpha_num c \<longleftrightarrow> c = CHR ''_'' \<or> (byte (CHR ''0'') \<le> byte c \<and> byte c \<le> byte (CHR ''9''))
     \<or> (byte (CHR ''a'') \<le> byte c \<and> byte c \<le> byte (CHR ''z''))
     \<or> (byte (CHR ''A'') \<le> byte c \<and> byte c \<le> byte (CHR ''Z''))"

text \<open>The bytes before the first closing brace, \<open>None\<close> when there is none.\<close>

fun upto_brace :: "string \<Rightarrow> string option" where
  "upto_brace [] = None"
| "upto_brace (c # s) = (if c = CHR ''}'' then Some [] else map_option (Cons c) (upto_brace s))"

definition shell_name :: "string \<Rightarrow> string \<times> nat" where
  "shell_name s =
     (if s ! 0 = CHR ''{'' then
        (if length s > 2 \<and> shell_special (s ! 1) \<and> s ! 2 = CHR ''}'' then ([s ! 1], 3)
         else case upto_brace (drop 1 s) of
           Some n \<Rightarrow> if n = [] then ('''', 2) else (n, length n + 2)
         | None \<Rightarrow> ('''', 1))
      else if shell_special (s ! 0) then ([s ! 0], 1)
      else let n = takeWhile alpha_num s in (n, length n))"

function expand :: "(string \<Rightarrow> string) \<Rightarrow> string \<Rightarrow> string" where
  "expand mapping [] = []"
| "expand mapping (c # s) =
     (if c = CHR ''$'' \<and> s \<noteq> [] then
        (case shell_name s of (name, w) \<Rightarrow>
           (if name = '''' \<and> w > 0 then [] else if name = '''' then [c] else mapping name)
           @ expand mapping (drop w s))
      else c # expand mapping s)"
  by pat_completeness auto
termination by (relation "measure (\<lambda>(m, s). length s)") auto

text \<open>A reference to one variable that is the whole value.\<close>

definition is_env_ref :: "string \<Rightarrow> bool" where
  "is_env_ref val \<longleftrightarrow> has_prefix val ''${'' \<and> has_suffix val ''}''"

definition resolve_env_ref :: "(string \<Rightarrow> string) \<Rightarrow> string \<Rightarrow> string" where
  "resolve_env_ref getenv val =
     (if is_env_ref val then getenv (take (length val - 3) (drop 2 val)) else val)"

definition expand_with_builtins :: "(string \<Rightarrow> string) \<Rightarrow> string \<Rightarrow> (string, string) gomap \<Rightarrow> string" where
  "expand_with_builtins getenv raw builtins =
     expand (\<lambda>key. case mget builtins key of Some v \<Rightarrow> v | None \<Rightarrow> getenv key) raw"


section \<open>The AI section\<close>

text \<open>A value of \<open>extra_body\<close>: a string, or any other value left alone.\<close>

datatype extra_value = ExtraText string | ExtraOther nat

record model_config =
  mc_provider :: string
  mc_base_url :: string
  mc_api_key :: string
  mc_model :: string
  mc_max_tokens :: int
  mc_max_completion_tokens :: int
  mc_context_window :: int
  mc_extra_body :: "(string, extra_value) gomap option"

definition zero_model :: model_config where
  "zero_model = \<lparr>mc_provider = '''', mc_base_url = '''', mc_api_key = '''', mc_model = '''', mc_max_tokens = 0,
     mc_max_completion_tokens = 0, mc_context_window = 0, mc_extra_body = None\<rparr>"

record gateway_config =
  gw_enabled :: bool
  gw_base_url :: string
  gw_agent_token :: string
  gw_request_timeout :: int
  gw_max_retries :: int
  gw_fallback :: bool

record mcp_server_config =
  ms_name :: string
  ms_command :: string
  ms_args :: "string list"
  ms_env :: "(string, string) gomap"
  ms_identity :: string
  ms_tools_allow :: "string list"

record mcp_config =
  mcp_enabled :: bool
  mcp_default_identity :: string
  mcp_servers :: "mcp_server_config list"

record ai_config =
  ac_enabled :: bool
  ac_model_priority :: "string list"
  ac_models :: "(string, model_config) gomap"
  ac_gateway :: gateway_config
  ac_max_rounds :: int
  ac_request_timeout :: int
  ac_max_retries :: int
  ac_retry_backoff :: int
  ac_max_concurrent :: int
  ac_queue_full_policy :: string
  ac_daily_token_limit :: int
  ac_tool_timeout :: int
  ac_aggregate_window :: int
  ac_retention :: int
  ac_max_count :: int
  ac_language :: string
  ac_mcp :: mcp_config

definition extra_str :: "model_config \<Rightarrow> string \<Rightarrow> string" where
  "extra_str m key =
     (case mc_extra_body m of
        None \<Rightarrow> ''''
      | Some x \<Rightarrow> (case mget x key of Some (ExtraText s) \<Rightarrow> s | _ \<Rightarrow> ''''))"

definition primary_model :: "ai_config \<Rightarrow> model_config" where
  "primary_model c =
     (if length (ac_model_priority c) = 0 \<or> length (ac_models c) = 0 then zero_model
      else case mget (ac_models c) (ac_model_priority c ! 0) of Some m \<Rightarrow> m | None \<Rightarrow> zero_model)"

definition primary_model_name :: "ai_config \<Rightarrow> string" where
  "primary_model_name c =
     (if length (ac_model_priority c) = 0 \<or> length (ac_models c) = 0 then '''' else ac_model_priority c ! 0)"

definition context_window_limit :: "ai_config \<Rightarrow> int" where
  "context_window_limit c =
     (if length (ac_model_priority c) = 0 \<or> length (ac_models c) = 0 then 0
      else let cw = mc_context_window (primary_model c);
               cw = (if cw \<le> 0 then 128000 else cw)
           in quot (wrap64 (cw * 80)) 100)"

definition default_model :: "model_config \<Rightarrow> model_config" where
  "default_model m =
     (let m = (if mc_max_tokens m \<le> 0 \<and> mc_max_completion_tokens m \<le> 0 then m\<lparr>mc_max_tokens := 4000\<rparr> else m)
      in if mc_context_window m \<le> 0 then m\<lparr>mc_context_window := 128000\<rparr> else m)"

text \<open>Each conditional assignment of the source is the update of one field by a conditional value.\<close>

definition gateway_defaults :: "gateway_config \<Rightarrow> gateway_config" where
  "gateway_defaults g =
     g\<lparr>gw_request_timeout := if gw_request_timeout g = 0 then 30 * second else gw_request_timeout g,
       gw_max_retries := if gw_enabled g \<and> gw_max_retries g = 0 then 1 else gw_max_retries g\<rparr>"

definition ai_apply_defaults :: "ai_config \<Rightarrow> ai_config" where
  "ai_apply_defaults c =
     c\<lparr>ac_gateway := gateway_defaults (ac_gateway c),
       ac_max_rounds := if ac_max_rounds c \<le> 0 then 15 else ac_max_rounds c,
       ac_request_timeout := if ac_request_timeout c = 0 then 60 * second else ac_request_timeout c,
       ac_max_retries := if ac_max_retries c = 0 \<and> ac_enabled c then 2 else ac_max_retries c,
       ac_retry_backoff := if ac_retry_backoff c = 0 then 2 * second else ac_retry_backoff c,
       ac_max_concurrent := if ac_max_concurrent c \<le> 0 then 3 else ac_max_concurrent c,
       ac_queue_full_policy := if ac_queue_full_policy c = '''' then ''drop'' else ac_queue_full_policy c,
       ac_tool_timeout := if ac_tool_timeout c = 0 then 10 * second else ac_tool_timeout c,
       ac_aggregate_window := if ac_aggregate_window c = 0 then 5 * second else ac_aggregate_window c,
       ac_retention := if ac_retention c = 0 then 7 * 24 * hour else ac_retention c,
       ac_max_count := if ac_max_count c \<le> 0 then 1000 else ac_max_count c,
       ac_language := if ac_language c = '''' then ''zh'' else ac_language c,
       ac_models := map (\<lambda>(n, m). (n, default_model m)) (ac_models c)\<rparr>"

definition set_extra_default ::
  "(string \<Rightarrow> string) \<Rightarrow> string \<Rightarrow> string \<Rightarrow> (string, extra_value) gomap \<Rightarrow> (string, extra_value) gomap" where
  "set_extra_default getenv key env_var extra =
     (if (case mget extra key of Some (ExtraText s) \<Rightarrow> s \<noteq> '''' | _ \<Rightarrow> False) then extra
      else let val = getenv env_var in if val \<noteq> '''' then mput key (ExtraText val) extra else extra)"

definition resolve_extra :: "(string \<Rightarrow> string) \<Rightarrow> extra_value \<Rightarrow> extra_value" where
  "resolve_extra getenv v = (case v of ExtraText s \<Rightarrow> ExtraText (resolve_env_ref getenv s) | ExtraOther n \<Rightarrow> v)"

definition resolve_model :: "(string \<Rightarrow> string) \<Rightarrow> model_config \<Rightarrow> model_config" where
  "resolve_model getenv m =
     (let m = m\<lparr>mc_api_key := resolve_env_ref getenv (mc_api_key m)\<rparr>;
          m = m\<lparr>mc_extra_body := map_option (map (\<lambda>(k, v). (k, resolve_extra getenv v))) (mc_extra_body m)\<rparr>
      in if mc_provider m = ''bedrock'' then
           (let x = (case mc_extra_body m of None \<Rightarrow> [] | Some x \<Rightarrow> x);
                x = set_extra_default getenv ''aws_access_key_id'' ''AWS_ACCESS_KEY_ID'' x;
                x = set_extra_default getenv ''aws_secret_access_key'' ''AWS_SECRET_ACCESS_KEY'' x;
                x = set_extra_default getenv ''aws_session_token'' ''AWS_SESSION_TOKEN'' x
            in m\<lparr>mc_extra_body := Some x\<rparr>)
         else m)"

definition resolve_api_keys :: "(string \<Rightarrow> string) \<Rightarrow> ai_config \<Rightarrow> ai_config" where
  "resolve_api_keys getenv c =
     (let g = (ac_gateway c)\<lparr>gw_agent_token := resolve_env_ref getenv (gw_agent_token (ac_gateway c))\<rparr>;
          g = (if gw_base_url g \<noteq> '''' then g\<lparr>gw_base_url := trim_right {CHR ''/''} (gw_base_url g)\<rparr> else g)
      in c\<lparr>ac_gateway := g, ac_models := map (\<lambda>(n, m). (n, resolve_model getenv m)) (ac_models c)\<rparr>)"

text \<open>The loop of \<open>Validate\<close> over the priority list; \<open>quote\<close> is the format \<open>%q\<close>.\<close>

fun validate_models ::
  "(string \<Rightarrow> string) \<Rightarrow> (string, model_config) gomap \<Rightarrow> string list \<Rightarrow> string option" where
  "validate_models quote models [] = None"
| "validate_models quote models (name # names) =
     (case mget models name of
        None \<Rightarrow> Some (''[ai] model_priority references unknown model '' @ quote name)
      | Some m \<Rightarrow>
          if mc_provider m = ''bedrock'' then
            if mc_model m = '''' then Some (''[ai.models.'' @ name @ ''] model is required for bedrock provider'')
            else if extra_str m ''aws_region'' = ''''
            then Some (''[ai.models.'' @ name @ ''] extra_body.aws_region is required for bedrock provider'')
            else validate_models quote models names
          else if mc_base_url m = '''' then Some (''[ai.models.'' @ name @ ''] base_url is required'')
          else if mc_api_key m = ''''
          then Some (''[ai.models.'' @ name @ ''] api_key is required (supports ${ENV_VAR} syntax)'')
          else validate_models quote models names)"

definition ai_validate :: "(string \<Rightarrow> string) \<Rightarrow> ai_config \<Rightarrow> string option" where
  "ai_validate quote c =
     (if \<not> ac_enabled c then None
      else
        let g = ac_gateway c;
            has_local = length (ac_models c) > 0;
            require_local = (\<not> gw_enabled g \<or> gw_fallback g \<or> has_local)
        in if gw_enabled g \<and> gw_base_url g = '''' then Some ''[ai.gateway] base_url is required when enabled=true''
           else if gw_enabled g \<and> (gw_max_retries g < 0 \<or> gw_max_retries g > 2)
           then Some (''[ai.gateway] max_retries must be between 0 and 2, got '' @ itoa (gw_max_retries g))
           else
             case (if \<not> require_local then None
                   else if length (ac_model_priority c) = 0 then Some ''[ai] model_priority is required when enabled=true''
                   else if length (ac_models c) = 0
                   then Some ''[ai] at least one model must be configured in [ai.models]''
                   else validate_models quote (ac_models c) (ac_model_priority c)) of
               Some e \<Rightarrow> Some e
             | None \<Rightarrow>
                 if ac_queue_full_policy c \<noteq> ''drop'' \<and> ac_queue_full_policy c \<noteq> ''wait''
                 then Some (''[ai] queue_full_policy must be '' @ dquote @ ''drop'' @ dquote @ '' or '' @ dquote @ ''wait''
                   @ dquote @ '', got '' @ quote (ac_queue_full_policy c))
                 else None)"


section \<open>The notify section\<close>

record flashduty_config =
  fd_integration_key :: string
  fd_base_url :: string
  fd_timeout :: int
  fd_max_retries :: int

record pagerduty_config =
  pd_routing_key :: string
  pd_base_url :: string
  pd_severity_map :: "(string, string) gomap option"
  pd_timeout :: int
  pd_max_retries :: int

record webapi_config =
  wa_url :: string
  wa_method :: string
  wa_headers :: "(string, string) gomap"
  wa_timeout :: int
  wa_max_retries :: int

record notify_config =
  nc_console :: "bool option"
  nc_flashduty :: "flashduty_config option"
  nc_pagerduty :: "pagerduty_config option"
  nc_webapi :: "webapi_config option"

definition flashduty_defaults :: "flashduty_config \<Rightarrow> flashduty_config" where
  "flashduty_defaults f =
     (let f = (if fd_base_url f = ''''
               then f\<lparr>fd_base_url := ''https://api.flashcat.cloud/event/push/alert/standard''\<rparr> else f);
          f = (if fd_timeout f = 0 then f\<lparr>fd_timeout := 10 * second\<rparr> else f)
      in if fd_max_retries f \<le> 0 then f\<lparr>fd_max_retries := 1\<rparr> else f)"

definition pagerduty_defaults :: "pagerduty_config \<Rightarrow> pagerduty_config" where
  "pagerduty_defaults p =
     (let p = (if pd_base_url p = '''' then p\<lparr>pd_base_url := ''https://events.pagerduty.com/v2/enqueue''\<rparr> else p);
          p = (if pd_timeout p = 0 then p\<lparr>pd_timeout := 10 * second\<rparr> else p);
          p = (if pd_max_retries p \<le> 0 then p\<lparr>pd_max_retries := 1\<rparr> else p)
      in if pd_severity_map p = None
         then p\<lparr>pd_severity_map := Some [(''Critical'', ''critical''), (''Warning'', ''warning''), (''Info'', ''info'')]\<rparr>
         else p)"

text \<open>\<open>upper\<close> is \<open>strings.ToUpper\<close>.\<close>

definition webapi_defaults :: "(string \<Rightarrow> string) \<Rightarrow> (string \<Rightarrow> string) \<Rightarrow> webapi_config \<Rightarrow> webapi_config" where
  "webapi_defaults upper getenv w =
     (let meth = upper (wa_method w);
          meth = (if meth \<noteq> ''PUT'' then ''POST'' else meth);
          w = w\<lparr>wa_method := meth\<rparr>;
          w = (if wa_timeout w = 0 then w\<lparr>wa_timeout := 10 * second\<rparr> else w);
          w = (if wa_max_retries w \<le> 0 then w\<lparr>wa_max_retries := 1\<rparr> else w)
      in w\<lparr>wa_headers := map (\<lambda>(k, v). (k, expand getenv v)) (wa_headers w)\<rparr>)"

definition notify_apply_defaults ::
  "(string \<Rightarrow> string) \<Rightarrow> (string \<Rightarrow> string) \<Rightarrow> notify_config \<Rightarrow> notify_config" where
  "notify_apply_defaults upper getenv c =
     c\<lparr>nc_flashduty := map_option flashduty_defaults (nc_flashduty c),
       nc_pagerduty := map_option pagerduty_defaults (nc_pagerduty c),
       nc_webapi := map_option (webapi_defaults upper getenv) (nc_webapi c)\<rparr>"

section \<open>MCP servers\<close>

definition auto_identity :: "(string, string) gomap \<Rightarrow> string" where
  "auto_identity builtins =
     (let parts = (if mstr builtins ''HOSTNAME'' \<noteq> '''' then [''hostname='' @ mstr builtins ''HOSTNAME''] else [])
                @ (if mstr builtins ''IP'' \<noteq> '''' then [''ip='' @ mstr builtins ''IP''] else [])
      in if length parts = 0 then '''' else join '', '' parts)"

definition resolved_identity ::
  "(string \<Rightarrow> string) \<Rightarrow> mcp_server_config \<Rightarrow> string \<Rightarrow> (string, string) gomap \<Rightarrow> string" where
  "resolved_identity getenv s default_identity builtins =
     (let raw = (if ms_identity s = '''' then default_identity else ms_identity s)
      in if raw = '''' then auto_identity builtins else expand_with_builtins getenv raw builtins)"

definition is_tool_allowed :: "mcp_server_config \<Rightarrow> string \<Rightarrow> bool" where
  "is_tool_allowed s tool_name =
     (if length (ms_tools_allow s) = 0 then True else list_ex (\<lambda>a. a = tool_name) (ms_tools_allow s))"

text \<open>\<open>hostname\<close> is the result of \<open>os.Hostname\<close>, \<open>ip\<close> that of the network probe.\<close>

definition host_builtins_without_ip :: "string \<Rightarrow> (string, string) gomap" where
  "host_builtins_without_ip hostname =
     (let idx = length (takeWhile (\<lambda>c. c \<noteq> CHR ''.'') hostname)
      in [(''HOSTNAME'', hostname),
          (''SHORT_HOSTNAME'', if idx < length hostname \<and> idx > 0 then take idx hostname else hostname)])"

definition host_builtins :: "string \<Rightarrow> string \<Rightarrow> (string, string) gomap" where
  "host_builtins hostname ip = mput ''IP'' ip (host_builtins_without_ip hostname)"

text \<open>The scan of \<open>detectIPFallback\<close> over the interfaces: text, loop-back, IPv4.\<close>

fun detect_ip_fallback :: "(string \<times> bool \<times> bool) list \<Rightarrow> string" where
  "detect_ip_fallback [] = ''''"
| "detect_ip_fallback ((txt, loopback, v4) # as) =
     (if \<not> loopback \<and> v4 then txt else detect_ip_fallback as)"

definition detect_ip :: "string option \<Rightarrow> (string \<times> bool \<times> bool) list option \<Rightarrow> string" where
  "detect_ip outbound addrs =
     (case outbound of
        Some ip \<Rightarrow> ip
      | None \<Rightarrow> (case addrs of None \<Rightarrow> '''' | Some as \<Rightarrow> detect_ip_fallback as))"


section \<open>The server section\<close>

record server_config =
  sv_enabled :: bool
  sv_address :: string
  sv_agent_token :: string
  sv_ca_file :: string
  sv_tls_skip_verify :: bool
  sv_alert_buffer_size :: int

definition get_alert_buffer_size :: "server_config \<Rightarrow> int" where
  "get_alert_buffer_size c = (if sv_alert_buffer_size c \<le> 0 then 1000 else sv_alert_buffer_size c)"

definition server_resolve :: "(string \<Rightarrow> string) \<Rightarrow> server_config \<Rightarrow> server_config" where
  "server_resolve getenv c =
     (let c = c\<lparr>sv_address := resolve_env_ref getenv (sv_address c)\<rparr>;
          c = c\<lparr>sv_agent_token := resolve_env_ref getenv (sv_agent_token c)\<rparr>
      in c\<lparr>sv_address := trim_right {CHR ''/''} (trim_space (sv_address c))\<rparr>)"

text \<open>
  A parsed URL, as far as the code looks at it; \<open>u_rest\<close> stands for the fields it leaves alone.
  \<open>parse\<close> is \<open>url.Parse\<close> and \<open>str\<close> is \<open>URL.String\<close>.
\<close>

record url =
  u_scheme :: string
  u_host :: string
  u_path :: string
  u_raw_path :: string
  u_raw_query :: string
  u_fragment :: string
  u_rest :: string

definition only_path :: "string \<Rightarrow> url \<Rightarrow> url" where
  "only_path p u = u\<lparr>u_path := p, u_raw_path := '''', u_raw_query := '''', u_fragment := ''''\<rparr>"

definition derive_server_base_url ::
  "(string \<Rightarrow> string) \<Rightarrow> (string \<Rightarrow> string + url) \<Rightarrow> (url \<Rightarrow> string) \<Rightarrow> string \<Rightarrow> string + string" where
  "derive_server_base_url quote parse str address =
     (let raw = trim_space address in
      if raw = '''' then Inr ''''
      else
        let raw = (if \<not> contains raw ''://'' then ''http://'' @ raw else raw) in
        case parse raw of
          Inl e \<Rightarrow> Inl (''parse server.address: '' @ e)
        | Inr u \<Rightarrow>
            if u_scheme u = '''' \<or> u_host u = ''''
            then Inl ''server.address must be a host[:port] or absolute http(s) address''
            else
              let sc = u_scheme u in
              if sc \<noteq> ''http'' \<and> sc \<noteq> ''https'' \<and> sc \<noteq> ''ws'' \<and> sc \<noteq> ''wss''
              then Inl (''unsupported server.address scheme '' @ quote sc)
              else
                let u = (if sc = ''ws'' then u\<lparr>u_scheme := ''http''\<rparr>
                         else if sc = ''wss'' then u\<lparr>u_scheme := ''https''\<rparr> else u)
                in if u_path u \<noteq> '''' \<and> u_path u \<noteq> ''/''
                   then Inl (''server.address must not include a path (got '' @ quote (u_path u) @ '')'')
                   else Inr (trim_right {CHR ''/''} (str (only_path '''' u))))"

definition web_socket_url ::
  "(string \<Rightarrow> string) \<Rightarrow> (string \<Rightarrow> string + url) \<Rightarrow> (url \<Rightarrow> string) \<Rightarrow> server_config \<Rightarrow> string + string" where
  "web_socket_url quote parse str c =
     (case derive_server_base_url quote parse str (sv_address c) of
        Inl e \<Rightarrow> Inl e
      | Inr base \<Rightarrow>
          (case parse base of
             Inl e \<Rightarrow> Inl (''parse derived server base url: '' @ e)
           | Inr u \<Rightarrow>
               if u_scheme u = ''http'' then Inr (str (only_path ''/api/v1/agent/ws'' (u\<lparr>u_scheme := ''ws''\<rparr>)))
               else if u_scheme u = ''https'' then Inr (str (only_path ''/api/v1/agent/ws'' (u\<lparr>u_scheme := ''wss''\<rparr>)))
               else Inl (''unsupported derived server base url scheme '' @ quote (u_scheme u))))"

definition gateway_base_url ::
  "(string \<Rightarrow> string) \<Rightarrow> (string \<Rightarrow> string + url) \<Rightarrow> (url \<Rightarrow> string) \<Rightarrow> server_config \<Rightarrow> string + string" where
  "gateway_base_url quote parse str c =
     (case derive_server_base_url quote parse str (sv_address c) of
        Inl e \<Rightarrow> Inl e
      | Inr base \<Rightarrow>
          (case parse base of
             Inl e \<Rightarrow> Inl (''parse derived server base url: '' @ e)
           | Inr u \<Rightarrow> Inr (trim_right {CHR ''/''} (str (only_path ''/api/v1/agent/llm'' u)))))"

definition resolve_gateway_config ::
  "(string \<Rightarrow> string) \<Rightarrow> (string \<Rightarrow> string + url) \<Rightarrow> (url \<Rightarrow> string) \<Rightarrow> server_config \<Rightarrow> ai_config \<Rightarrow> string + ai_config" where
  "resolve_gateway_config quote parse str sv c =
     (let g = ac_gateway c in
      if \<not> gw_enabled g then Inr c
      else
        let g = (if gw_agent_token g = '''' then g\<lparr>gw_agent_token := sv_agent_token sv\<rparr> else g) in
        if gw_base_url g \<noteq> '''' then Inr (c\<lparr>ac_gateway := g\<lparr>gw_base_url := trim_right {CHR ''/''} (gw_base_url g)\<rparr>\<rparr>)
        else if sv_address sv = '''' then Inr (c\<lparr>ac_gateway := g\<rparr>)
        else case gateway_base_url quote parse str sv of
          Inl e \<Rightarrow> Inl (''resolve [ai.gateway] from [server]: '' @ e)
        | Inr derived \<Rightarrow> Inr (c\<lparr>ac_gateway := g\<lparr>gw_base_url := derived\<rparr>\<rparr>))"

section \<open>Identity and labels\<close>

text \<open>
  The package variables of one identity: whether it is detected, the cached value and when it was
  cached (\<open>None\<close> is the zero time).
\<close>

record ident =
  id_auto :: bool
  id_cached :: string
  id_cached_at :: "int option"

definition identCacheTTL :: int where
  "identCacheTTL = minute"

definition needs_auto_detect :: "(string \<Rightarrow> string) \<Rightarrow> string \<Rightarrow> string \<Rightarrow> bool" where
  "needs_auto_detect getenv raw var =
     (if \<not> contains raw ''$'' then False
      else if \<not> contains raw (''${'' @ var @ ''}'') \<and> \<not> contains raw (''$'' @ var) then False
      else getenv var = '''')"

text \<open>The common tail of \<open>AgentIP\<close> and \<open>AgentHostname\<close>: the label unless detected, else the cache.\<close>

definition agent_ident ::
  "int \<Rightarrow> string \<Rightarrow> string \<Rightarrow> (string, string) gomap option \<Rightarrow> ident \<Rightarrow> string \<times> ident" where
  "agent_ident now detected label lbls st =
     (let fixed = (case lbls of
            Some m \<Rightarrow> if \<not> id_auto st then trim_space (mstr m label) else ''''
          | None \<Rightarrow> '''')
      in if fixed \<noteq> '''' then (fixed, st)
         else if (case id_cached_at st of Some t \<Rightarrow> now - t < identCacheTTL | None \<Rightarrow> False) \<and> id_cached st \<noteq> ''''
         then (id_cached st, st)
         else (detected, st\<lparr>id_cached := detected, id_cached_at := Some now\<rparr>))"

definition agent_ip :: "int \<Rightarrow> string \<Rightarrow> (string, string) gomap option \<Rightarrow> ident \<Rightarrow> string \<times> ident" where
  "agent_ip now detected lbls st = agent_ident now detected ''from_hostip'' lbls st"

definition agent_hostname :: "int \<Rightarrow> string \<Rightarrow> (string, string) gomap option \<Rightarrow> ident \<Rightarrow> string \<times> ident" where
  "agent_hostname now detected lbls st = agent_ident now detected ''from_hostname'' lbls st"

text \<open>\<open>AgentLabels\<close>; the two identities are \<open>hs\<close> (host name) and \<open>is\<close> (address).\<close>

definition agent_labels ::
  "int \<Rightarrow> string \<Rightarrow> string \<Rightarrow> (string, string) gomap option \<Rightarrow> ident \<Rightarrow> ident
   \<Rightarrow> (string, string) gomap option \<times> ident \<times> ident" where
  "agent_labels now hostname ip lbls hs is =
     (case lbls of
        None \<Rightarrow> (None, hs, is)
      | Some m \<Rightarrow>
          let (i, is) = agent_ip now ip lbls is;
              (h, hs) = agent_hostname now hostname lbls hs
          in (Some (mput ''from_hostname'' h (mput ''from_hostip'' i m)), hs, is))"

definition resolve_configured ::
  "(string \<Rightarrow> string) \<Rightarrow> string \<Rightarrow> string \<Rightarrow> string \<Rightarrow> (string, string) gomap \<Rightarrow> string" where
  "resolve_configured getenv var detected raw builtins =
     (if raw = '''' \<or> \<not> contains raw ''$'' then raw
      else expand (\<lambda>key.
        if key = var then
          (if getenv key \<noteq> '''' then getenv key
           else if mstr builtins key \<noteq> '''' then mstr builtins key
           else detected)
        else case mget builtins key of Some v \<Rightarrow> v | None \<Rightarrow> getenv key) raw)"

definition resolve_configured_hostname ::
  "(string \<Rightarrow> string) \<Rightarrow> string \<Rightarrow> string \<Rightarrow> (string, string) gomap \<Rightarrow> string" where
  "resolve_configured_hostname getenv hostname raw builtins = resolve_configured getenv ''HOSTNAME'' hostname raw builtins"

definition resolve_configured_host_ip ::
  "(string \<Rightarrow> string) \<Rightarrow> string \<Rightarrow> string \<Rightarrow> (string, string) gomap \<Rightarrow> string" where
  "resolve_configured_host_ip getenv ip raw builtins = resolve_configured getenv ''IP'' ip raw builtins"

definition expand_labels ::
  "(string \<Rightarrow> string) \<Rightarrow> (string, string) gomap \<Rightarrow> (string, string) gomap \<Rightarrow> (string, string) gomap" where
  "expand_labels getenv builtins lbls =
     map (\<lambda>(k, v). (k, if contains v ''$'' then expand_with_builtins getenv v builtins else v)) lbls"

text \<open>The state threaded through the two halves of \<open>resolveGlobalLabels\<close>.\<close>

definition resolve_one ::
  "(string \<Rightarrow> string) \<Rightarrow> int \<Rightarrow> string \<Rightarrow> string \<Rightarrow> (string \<Rightarrow> (string, string) gomap \<Rightarrow> string)
   \<Rightarrow> (string, string) gomap \<times> (string, string) gomap \<times> ident
   \<Rightarrow> (string, string) gomap \<times> (string, string) gomap \<times> ident" where
  "resolve_one getenv now label var resolver = (\<lambda>(lbls, builtins, st).
     case mget lbls label of
       None \<Rightarrow> (lbls, builtins, st)
     | Some raw \<Rightarrow>
         let resolved = resolver raw builtins;
             (lbls, builtins) = (if resolved \<noteq> '''' then (mput label resolved lbls, mput var resolved builtins)
                                 else (lbls, builtins));
             auto = needs_auto_detect getenv raw var
         in (lbls, builtins, if auto then st\<lparr>id_auto := True, id_cached := resolved, id_cached_at := Some now\<rparr>
                             else st\<lparr>id_auto := False\<rparr>))"

definition resolve_global_labels ::
  "(string \<Rightarrow> string) \<Rightarrow> int \<Rightarrow> string \<Rightarrow> string \<Rightarrow> (string, string) gomap \<Rightarrow> (string, string) gomap
   \<Rightarrow> ident \<Rightarrow> ident \<Rightarrow> (string, string) gomap \<times> ident \<times> ident" where
  "resolve_global_labels getenv now hostname ip lbls builtins hs is =
     (let (lbls, builtins, hs) = resolve_one getenv now ''from_hostname'' ''HOSTNAME''
            (resolve_configured_hostname getenv hostname) (lbls, builtins, hs);
          (lbls, builtins, is) = resolve_one getenv now ''from_hostip'' ''IP''
            (resolve_configured_host_ip getenv ip) (lbls, builtins, is)
      in (expand_labels getenv builtins lbls, hs, is))"

definition requiredGlobalLabels :: "string list" where "requiredGlobalLabels = [''from_hostname'', ''from_hostip'']"

fun validate_labels_loop :: "(string \<Rightarrow> string) \<Rightarrow> (string, string) gomap \<Rightarrow> string list \<Rightarrow> string option" where
  "validate_labels_loop quote lbls [] = None"
| "validate_labels_loop quote lbls (key # ks) =
     (if mstr lbls key = ''''
      then Some (''[global.labels] required label '' @ quote key @ '' is missing or empty; please set it in config.toml'')
      else validate_labels_loop quote lbls ks)"

definition validate_required_labels :: "(string \<Rightarrow> string) \<Rightarrow> (string, string) gomap \<Rightarrow> string option" where
  "validate_required_labels quote lbls = validate_labels_loop quote lbls requiredGlobalLabels"


section \<open>Loading\<close>

record log_config =
  lc_level :: string
  lc_format :: string
  lc_output :: string
  lc_fields :: "(string, nat) gomap option"


record config =
  cf_config_dir :: string
  cf_state_dir :: string
  cf_plugins :: string
  cf_loglevel :: string
  cf_interval :: int
  cf_labels :: "(string, string) gomap option"
  cf_log :: log_config
  cf_notify :: notify_config
  cf_ai :: ai_config
  cf_server :: server_config

text \<open>\<open>filepath.Dir\<close> on Unix.\<close>

definition path_dir :: "string \<Rightarrow> string" where
  "path_dir p = path_clean (rev (dropWhile (\<lambda>c. c \<noteq> CHR ''/'') (rev p)))"

record init_env =
  ie_getenv :: "string \<Rightarrow> string"
  ie_upper :: "string \<Rightarrow> string"
  ie_quote :: "string \<Rightarrow> string"
  ie_parse :: "string \<Rightarrow> string + url"
  ie_str :: "url \<Rightarrow> string"
  ie_now :: int
  ie_hostname :: string
  ie_ip :: string

definition log_defaults :: "string \<Rightarrow> log_config \<Rightarrow> log_config" where
  "log_defaults loglevel l =
     (let l = (if loglevel \<noteq> '''' then l\<lparr>lc_level := loglevel\<rparr> else l);
          l = (if lc_level l = '''' then l\<lparr>lc_level := ''info''\<rparr> else l);
          l = (if lc_format l = '''' then l\<lparr>lc_format := ''json''\<rparr> else l);
          l = (if length (lc_output l) = 0 then l\<lparr>lc_output := ''stdout''\<rparr> else l)
      in if lc_fields l = None then l\<lparr>lc_fields := Some []\<rparr> else l)"

text \<open>
  \<open>InitConfig\<close>.  \<open>exists_file\<close> tells whether \<open>config.toml\<close> exists, \<open>load\<close> is the decoder: it
  fills the configuration it is given or fails.  The package variables of the identities start
  at their zero values.
\<close>

definition zero_ident :: ident where
  "zero_ident = \<lparr>id_auto = False, id_cached = '''', id_cached_at = None\<rparr>"

definition settle_interval :: "int \<Rightarrow> int \<Rightarrow> int" where
  "settle_interval interval loaded =
     (let i = (if interval > 0 then wrap64 (second * interval) else loaded)
      in if i = 0 then 30 * second else i)"

definition settle_config :: "init_env \<Rightarrow> int \<Rightarrow> config \<Rightarrow> config \<times> ident \<times> ident" where
  "settle_config env interval c =
     (let (lbls, hs, is) = resolve_global_labels (ie_getenv env) (ie_now env) (ie_hostname env) (ie_ip env)
            (case cf_labels c of None \<Rightarrow> [] | Some m \<Rightarrow> m)
            (host_builtins_without_ip (ie_hostname env)) zero_ident zero_ident
      in (c\<lparr>cf_interval := settle_interval interval (cf_interval c),
            cf_log := log_defaults (cf_loglevel c) (cf_log c),
            cf_notify := notify_apply_defaults (ie_upper env) (ie_getenv env) (cf_notify c),
            cf_ai := resolve_api_keys (ie_getenv env) (ai_apply_defaults (cf_ai c)),
            cf_labels := Some lbls,
            cf_server := server_resolve (ie_getenv env) (cf_server c)\<rparr>, hs, is))"

definition init_config ::
  "init_env \<Rightarrow> bool \<Rightarrow> (config \<Rightarrow> string + config) \<Rightarrow> config \<Rightarrow> string \<Rightarrow> int \<Rightarrow> string \<Rightarrow> string
   \<Rightarrow> string + config \<times> ident \<times> ident" where
  "init_config env exists_file load zero config_dir interval plugins loglevel =
     (if \<not> exists_file
      then Inl (''configuration file('' @ path_join [config_dir, ''config.toml''] @ '') not found'')
      else case load (zero\<lparr>cf_config_dir := config_dir, cf_state_dir := path_join [path_dir config_dir, ''state.d''],
                cf_plugins := plugins, cf_loglevel := loglevel\<rparr>) of
        Inl e \<Rightarrow> Inl (''failed to load configs of directory: '' @ config_dir @ '' error:'' @ e)
      | Inr c0 \<Rightarrow>
          (case settle_config env interval c0 of
             (c, hs, is) \<Rightarrow>
               if sv_enabled (cf_server c) \<and> sv_address (cf_server c) = ''''
               then Inl ''[server] address is required when enabled=true''
               else case resolve_gateway_config (ie_quote env) (ie_parse env) (ie_str env) (cf_server c) (cf_ai c) of
                 Inl e \<Rightarrow> Inl e
               | Inr ai \<Rightarrow>
                   (case (if sv_enabled (cf_server c)
                          then validate_required_labels (ie_quote env) (case cf_labels c of None \<Rightarrow> [] | Some m \<Rightarrow> m)
                          else None) of
                      Some e \<Rightarrow> Inl e
                    | None \<Rightarrow> Inr (c\<lparr>cf_ai := ai\<rparr>, hs, is))))"

section \<open>Lemmas on defaults\<close>

lemma default_model_bounds:
  "0 < mc_context_window (default_model m)"
  "\<not> 0 < mc_max_completion_tokens (default_model m) \<Longrightarrow> 0 < mc_max_tokens (default_model m)"
  by (simp_all add: default_model_def Let_def split: if_splits)

lemma default_model_idem: "default_model (default_model m) = default_model m"
  by (auto simp: default_model_def Let_def)

lemma resolve_model_bounds [simp]:
  "mc_context_window (resolve_model getenv m) = mc_context_window m"
  "mc_max_tokens (resolve_model getenv m) = mc_max_tokens m"
  "mc_max_completion_tokens (resolve_model getenv m) = mc_max_completion_tokens m"
  by (simp_all add: resolve_model_def Let_def)

lemma ai_apply_defaults_idem: "ai_apply_defaults (ai_apply_defaults c) = ai_apply_defaults c"
  by (rule ai_config.equality)
    (simp_all add: ai_apply_defaults_def gateway_defaults_def default_model_idem duration_units comp_def case_prod_unfold)


lemma resolve_gateway_config_ai:
  assumes "resolve_gateway_config qt parse str sv c = Inr c'"
  shows "\<exists>g. c' = c\<lparr>ac_gateway := g\<rparr>"
proof -
  have "\<exists>g. c = c\<lparr>ac_gateway := g\<rparr>" by (rule exI [of _ "ac_gateway c"]) simp
  with assms show ?thesis
    by (auto simp: resolve_gateway_config_def Let_def split: if_splits sum.splits)
qed

lemma validate_models_None:
  "validate_models qt models names = None \<Longrightarrow> n \<in> set names \<Longrightarrow> mget models n \<noteq> None"
  by (induction qt models names rule: validate_models.induct) (auto split: option.splits if_splits)

lemma init_config_ok:
  assumes "init_config env ex load zero dir interval plugins loglevel = Inr (c, hs, is)"
  shows "\<exists>c0 c1 g. settle_config env interval c0 = (c1, hs, is) \<and> c = c1\<lparr>cf_ai := (cf_ai c1)\<lparr>ac_gateway := g\<rparr>\<rparr>
    \<and> (sv_enabled (cf_server c) \<longrightarrow> sv_address (cf_server c) \<noteq> ''''
         \<and> validate_required_labels (ie_quote env) (case cf_labels c of None \<Rightarrow> [] | Some m \<Rightarrow> m) = None)"
proof -
  obtain c0 c1 ai where s: "settle_config env interval c0 = (c1, hs, is)" "c = c1\<lparr>cf_ai := ai\<rparr>"
      "resolve_gateway_config (ie_quote env) (ie_parse env) (ie_str env) (cf_server c1) (cf_ai c1) = Inr ai"
      "sv_enabled (cf_server c) \<longrightarrow> sv_address (cf_server c) \<noteq> ''''
         \<and> validate_required_labels (ie_quote env) (case cf_labels c of None \<Rightarrow> [] | Some m \<Rightarrow> m) = None"
    using assms by (auto simp: init_config_def split: if_splits sum.splits prod.splits option.splits)
  obtain g where "ai = (cf_ai c1)\<lparr>ac_gateway := g\<rparr>" using resolve_gateway_config_ai [OF s(3)] by blast
  with s show ?thesis by blast
qed

lemma validate_labels_None:
  "validate_labels_loop qt lbls ks = None \<longleftrightarrow> (\<forall>k \<in> set ks. mstr lbls k \<noteq> '''')"
  by (induction qt lbls ks rule: validate_labels_loop.induct) auto

lemma settle_interval_nonzero: "settle_interval i l \<noteq> 0"
  by (simp add: settle_interval_def Let_def second_def)



definition example_ai :: "bool \<Rightarrow> int \<Rightarrow> ai_config" where
  "example_ai enabled retries =
     \<lparr>ac_enabled = enabled, ac_model_priority = [''m''],
      ac_models = [(''m'', zero_model\<lparr>mc_base_url := ''u'', mc_api_key := ''k''\<rparr>)],
      ac_gateway = \<lparr>gw_enabled = False, gw_base_url = '''', gw_agent_token = '''', gw_request_timeout = 0,
        gw_max_retries = 0, gw_fallback = False\<rparr>,
      ac_max_rounds = 0, ac_request_timeout = 0, ac_max_retries = retries, ac_retry_backoff = 0, ac_max_concurrent = 0,
      ac_queue_full_policy = '''', ac_daily_token_limit = 0, ac_tool_timeout = 0, ac_aggregate_window = 0,
      ac_retention = 0, ac_max_count = 0, ac_language = '''',
      ac_mcp = \<lparr>mcp_enabled = False, mcp_default_identity = '''', mcp_servers = []\<rparr>\<rparr>"

definition example_config :: config where
  "example_config =
     \<lparr>cf_config_dir = '''', cf_state_dir = '''', cf_plugins = '''', cf_loglevel = '''', cf_interval = 0, cf_labels = None,
      cf_log = \<lparr>lc_level = '''', lc_format = '''', lc_output = '''', lc_fields = None\<rparr>,
      cf_notify = \<lparr>nc_console = None, nc_flashduty = None, nc_pagerduty = None, nc_webapi = None\<rparr>,
      cf_ai = example_ai True 0,
      cf_server = \<lparr>sv_enabled = False, sv_address = '''', sv_agent_token = '''', sv_ca_file = '''',
        sv_tls_skip_verify = False, sv_alert_buffer_size = 0\<rparr>\<rparr>"

definition example_init_env :: init_env where
  "example_init_env = \<lparr>ie_getenv = (\<lambda>_. ''''), ie_upper = id, ie_quote = id, ie_parse = (\<lambda>_. Inl ''''),
     ie_str = u_host, ie_now = 0, ie_hostname = ''h'', ie_ip = ''i''\<rparr>"

lemma example_init_ok:
  "\<exists>c hs is. init_config example_init_env True Inr example_config ''/etc'' 0 '''' '''' = Inr (c, hs, is)
     \<and> ac_enabled (cf_ai c)"
  by (auto simp: init_config_def settle_config_def example_init_env_def example_config_def example_ai_def
      resolve_global_labels_def resolve_one_def Let_def resolve_gateway_config_def resolve_api_keys_def
      ai_apply_defaults_def gateway_defaults_def server_resolve_def expand_labels_def resolve_env_ref_def
      is_env_ref_def has_prefix_def)



section \<open>Lemmas on expansion\<close>

lemma contains_dollar: "contains s ''$'' \<longleftrightarrow> CHR ''$'' \<in> set s"
  by (auto simp: contains_iff in_set_conv_decomp)

lemma expand_plain: "CHR ''$'' \<notin> set s \<Longrightarrow> expand mapping s = s"
  by (induction s) auto

lemma upto_brace_append: "CHR ''}'' \<notin> set n \<Longrightarrow> upto_brace (n @ CHR ''}'' # t) = Some n"
  by (induction n) auto

lemma shell_name_ref:
  assumes "n \<noteq> ''''" and "CHR ''}'' \<notin> set n"
  shows "shell_name (CHR ''{'' # n @ CHR ''}'' # t) = (n, length n + 2)"
proof -
  obtain c cs where n: "n = c # cs" using assms(1) by (cases n) auto
  show ?thesis
  proof (cases cs)
    case Nil
    with n assms show ?thesis by (simp add: shell_name_def)
  next
    case (Cons d ds)
    with n assms upto_brace_append [of n t] show ?thesis by (auto simp: shell_name_def)
  qed
qed

lemma expand_ref:
  assumes "n \<noteq> ''''" and "CHR ''}'' \<notin> set n"
  shows "expand mapping (''${'' @ n @ ''}'' @ t) = mapping n @ expand mapping t"
  using assms shell_name_ref [OF assms, of t] by simp

lemma mget_expand_labels:
  "mget (expand_labels getenv builtins lbls) k =
     map_option (\<lambda>v. if contains v ''$'' then expand_with_builtins getenv v builtins else v) (mget lbls k)"
  by (induction lbls) (auto simp: expand_labels_def)

lemma resolve_configured_plain: "CHR ''$'' \<notin> set raw \<Longrightarrow> resolve_configured getenv var d raw builtins = raw"
  by (simp add: resolve_configured_def contains_dollar)

lemma resolve_configured_ref:
  assumes "getenv ''IP'' = ''''" and "mget builtins ''IP'' = None"
  shows "resolve_configured getenv ''IP'' ip ''${IP}'' builtins = ip"
  using expand_ref [of "''IP''" _ "''''"] assms
  by (simp add: resolve_configured_def contains_dollar mstr_def)

lemma resolve_one_host:
  assumes "resolve_one getenv now ''from_hostname'' ''HOSTNAME'' f (lbls, b, st) = (lbls1, b1, st1)"
  shows "k \<noteq> ''from_hostname'' \<Longrightarrow> mget lbls1 k = mget lbls k" and "mget b1 ''IP'' = mget b ''IP''"
  using assms by (auto simp: resolve_one_def Let_def split: option.splits if_splits)


text \<open>
  The agent's address: a \<open>from_hostip\<close> label without variables is used as it is and never
  detected; for the label \<open>${IP}\<close> with no such environment variable the detected address is the
  label, other labels that refer to \<open>${IP}\<close> get the same address, and the address reported later
  is the cached one for a minute and a newly detected one after it.
\<close>

theorem identity_resolution:
  assumes r: "resolve_global_labels getenv now hostname ip lbls (host_builtins_without_ip hostname) hs is = (lbls', hs', is')"
    and raw: "mget lbls ''from_hostip'' = Some raw" and ip: "ip \<noteq> ''''" "CHR ''$'' \<notin> set ip"
  shows "(CHR ''$'' \<notin> set raw \<and> trim_space raw \<noteq> '''' \<and> raw \<noteq> '''' \<longrightarrow>
         mget lbls' ''from_hostip'' = Some raw \<and> \<not> id_auto is'
         \<and> agent_ip later ip2 (Some lbls') is' = (trim_space raw, is'))
    \<and> (raw = ''${IP}'' \<and> getenv ''IP'' = '''' \<longrightarrow>
         mget lbls' ''from_hostip'' = Some ip \<and> id_auto is'
         \<and> (k \<noteq> ''from_hostname'' \<and> mget lbls k = Some ''${IP}'' \<longrightarrow> mget lbls' k = Some ip)
         \<and> fst (agent_ip later ip2 (Some lbls') is') = (if later - now < identCacheTTL then ip else ip2))"
proof -
  define f where "f = resolve_configured_hostname getenv hostname"
  obtain lbls1 b1 hs1 where one: "resolve_one getenv now ''from_hostname'' ''HOSTNAME'' f
      (lbls, host_builtins_without_ip hostname, hs) = (lbls1, b1, hs1)" by (metis prod_cases3)
  have keep: "k \<noteq> ''from_hostname'' \<Longrightarrow> mget lbls1 k = mget lbls k" for k
    using resolve_one_host(1) [OF one] .
  have b1: "mget b1 ''IP'' = None"
    using resolve_one_host(2) [OF one] by (simp add: host_builtins_without_ip_def Let_def)
  have raw1: "mget lbls1 ''from_hostip'' = Some raw" using keep raw by simp
  obtain lbls2 b2 is2 where two: "resolve_one getenv now ''from_hostip'' ''IP'' (resolve_configured_host_ip getenv ip)
      (lbls1, b1, is) = (lbls2, b2, is2)" by (metis prod_cases3)
  have res: "lbls' = expand_labels getenv b2 lbls2" "is' = is2"
    using r one two by (auto simp: resolve_global_labels_def f_def)
  have plain: "mget lbls' ''from_hostip'' = Some raw \<and> \<not> id_auto is'
         \<and> agent_ip later ip2 (Some lbls') is' = (trim_space raw, is')"
    if "CHR ''$'' \<notin> set raw" "trim_space raw \<noteq> ''''" "raw \<noteq> ''''"
    using that two raw1
    by (auto simp: res resolve_one_def Let_def resolve_configured_host_ip_def resolve_configured_plain
        needs_auto_detect_def contains_dollar mget_expand_labels agent_ip_def agent_ident_def mstr_def)
  have detect: "mget lbls' ''from_hostip'' = Some ip \<and> id_auto is'
         \<and> (k \<noteq> ''from_hostname'' \<and> mget lbls k = Some ''${IP}'' \<longrightarrow> mget lbls' k = Some ip)
         \<and> fst (agent_ip later ip2 (Some lbls') is') = (if later - now < identCacheTTL then ip else ip2)"
    if p: "raw = ''${IP}''" "getenv ''IP'' = ''''"
  proof -
    have need: "needs_auto_detect getenv raw ''IP''"
      using p by (simp add: needs_auto_detect_def has_prefix_def)
    have two': "lbls2 = mput ''from_hostip'' ip lbls1" "b2 = mput ''IP'' ip b1"
        "is2 = is\<lparr>id_auto := True, id_cached := ip, id_cached_at := Some now\<rparr>"
      using two raw1 ip need p resolve_configured_ref [of getenv b1 ip] b1
      by (auto simp: resolve_one_def Let_def resolve_configured_host_ip_def)
    have "expand_with_builtins getenv ''${IP}'' b2 = ip"
      using expand_ref [of "''IP''" _ "''''"] by (simp add: expand_with_builtins_def two')
    then show ?thesis
      using ip keep by (auto simp: res two' mget_expand_labels contains_dollar agent_ip_def agent_ident_def)
  qed
  show ?thesis using plain detect by blast
qed

theorem identity_resolution_witness:
  "\<exists>lbls' hs' is'. resolve_global_labels (\<lambda>_. '''') 0 ''h'' ''10.0.0.1''
      [(''from_hostip'', ''${IP}''), (''site'', ''${IP}'')] (host_builtins_without_ip ''h'') zero_ident zero_ident
        = (lbls', hs', is')
      \<and> mget lbls' ''from_hostip'' = Some ''10.0.0.1'' \<and> mget lbls' ''site'' = Some ''10.0.0.1''"
proof -
  obtain lbls' hs' is' where r: "resolve_global_labels (\<lambda>_. '''') 0 ''h'' ''10.0.0.1''
      [(''from_hostip'', ''${IP}''), (''site'', ''${IP}'')] (host_builtins_without_ip ''h'') zero_ident zero_ident
        = (lbls', hs', is')" by (metis prod_cases3)
  then show ?thesis
    using identity_resolution [OF r, of "''${IP}''" 0 "''''" "''site''"] by simp
qed

end
