(* ===== verification/DiagnoseState.thy ===== *)
theory DiagnoseState
  imports DiagnoseTypes "HOL-Library.Multiset"
begin

text \<open>
  What the diagnosis subsystem keeps on disk: the daily token counters and the cooldowns
  (\<open>diagnose/state.go\<close>), the write-then-rename of the state and of a record
  (\<open>diagnose/record.go\<close>) and the retention of old records (\<open>diagnose/cleanup.go\<close>).

  A file system is a map from paths to contents; each call may fail, as its outcome argument
  says, and a failed write may leave any content.  Times are nanoseconds; \<open>day\<close> is
  \<open>Format("2006-01-02")\<close> in the local zone; \<open>marshal\<close> and \<open>unmarshal\<close> are
  \<open>encoding/json\<close> on the state (the second starts from the receiver and says whether it
  succeeded).  Every method holds the mutex, so it is one atomic step.
\<close>

section \<open>Atomic file replacement\<close>

type_synonym files = "(string, string) gomap"

datatype write_outcome = WriteOk | WriteFail "string option"

record fs_outcome =
  mkdir_ok :: bool
  write_out :: write_outcome
  rename_ok :: bool
  remove_ok :: bool

definition write_file :: "write_outcome \<Rightarrow> string \<Rightarrow> string \<Rightarrow> files \<Rightarrow> files \<times> bool" where
  "write_file w path content fs =
     (case w of
        WriteOk \<Rightarrow> (mput path content fs, True)
      | WriteFail None \<Rightarrow> (fs, False)
      | WriteFail (Some partial) \<Rightarrow> (mput path partial fs, False))"

definition rename_file :: "bool \<Rightarrow> string \<Rightarrow> string \<Rightarrow> files \<Rightarrow> files \<times> bool" where
  "rename_file ok src dst fs =
     (if ok then (case mget fs src of None \<Rightarrow> (fs, False) | Some c \<Rightarrow> (mput dst c (mdel src fs), True))
      else (fs, False))"

definition remove_file :: "bool \<Rightarrow> string \<Rightarrow> files \<Rightarrow> files" where
  "remove_file ok path fs = (if ok then mdel path fs else fs)"

text \<open>The common shape of \<open>DiagnoseRecord.Save\<close> and \<open>DiagnoseState.Save\<close>; the result is the error.\<close>

definition replace_file :: "fs_outcome \<Rightarrow> string \<Rightarrow> string \<Rightarrow> files \<Rightarrow> files \<times> string option" where
  "replace_file oc path content fs =
     (if \<not> mkdir_ok oc then (fs, Some ''create dir'')
      else case write_file (write_out oc) (path @ ''.tmp'') content fs of
        (fs1, False) \<Rightarrow> (fs1, Some ''write temp file'')
      | (fs1, True) \<Rightarrow>
          (case rename_file (rename_ok oc) (path @ ''.tmp'') path fs1 of
             (fs2, False) \<Rightarrow> (remove_file (remove_ok oc) (path @ ''.tmp'') fs2, Some ''rename temp file'')
           | (fs2, True) \<Rightarrow> (fs2, None)))"

definition record_save ::
  "(diagnose_record \<Rightarrow> string option) \<Rightarrow> fs_outcome \<Rightarrow> string \<Rightarrow> diagnose_record \<Rightarrow> files \<Rightarrow> files \<times> string option" where
  "record_save marshal oc state_dir r fs =
     (if \<not> mkdir_ok oc then (fs, Some ''create dir'')
      else case marshal r of
        None \<Rightarrow> (fs, Some ''marshal record'')
      | Some data \<Rightarrow>
          replace_file oc (path_join [path_join [state_dir, ''diagnoses''], rec_id r @ ''.json'']) data fs)"

section \<open>Token counters and cooldowns\<close>

record dstate =
  ds_date :: string
  ds_input :: int
  ds_output :: int
  ds_cooldowns :: "(string, int) gomap option"

definition new_diagnose_state :: "(int \<Rightarrow> string) \<Rightarrow> int \<Rightarrow> dstate" where
  "new_diagnose_state day now = \<lparr>ds_date = day now, ds_input = 0, ds_output = 0, ds_cooldowns = Some []\<rparr>"

definition reset_if_new_day :: "(int \<Rightarrow> string) \<Rightarrow> int \<Rightarrow> dstate \<Rightarrow> dstate" where
  "reset_if_new_day day now s =
     (let d = day now in
      if ds_date s \<noteq> d then s\<lparr>ds_date := d, ds_input := 0, ds_output := 0\<rparr> else s)"

definition add_tokens :: "(int \<Rightarrow> string) \<Rightarrow> int \<Rightarrow> int \<Rightarrow> int \<Rightarrow> dstate \<Rightarrow> dstate" where
  "add_tokens day now inp out s =
     (let s = reset_if_new_day day now s in
      s\<lparr>ds_input := wrap64 (ds_input s + inp), ds_output := wrap64 (ds_output s + out)\<rparr>)"

definition total_tokens :: "(int \<Rightarrow> string) \<Rightarrow> int \<Rightarrow> dstate \<Rightarrow> int \<times> dstate" where
  "total_tokens day now s =
     (let s = reset_if_new_day day now s in (wrap64 (ds_input s + ds_output s), s))"

definition cooldown_key :: "string \<Rightarrow> string \<Rightarrow> string" where
  "cooldown_key plugin target = plugin @ ''::'' @ target"

text \<open>\<open>None\<close> is the panic of assigning to a nil map.\<close>

definition update_cooldown :: "int \<Rightarrow> string \<Rightarrow> string \<Rightarrow> int \<Rightarrow> dstate \<Rightarrow> dstate option" where
  "update_cooldown now plugin target duration s =
     (case ds_cooldowns s of
        None \<Rightarrow> None
      | Some m \<Rightarrow> Some (s\<lparr>ds_cooldowns := Some (mput (cooldown_key plugin target) ((now + duration) div second) m)\<rparr>))"

definition is_cooldown_active :: "int \<Rightarrow> string \<Rightarrow> string \<Rightarrow> dstate \<Rightarrow> bool \<times> dstate" where
  "is_cooldown_active now plugin target s =
     (case mget (nil_map (ds_cooldowns s)) (cooldown_key plugin target) of
        None \<Rightarrow> (False, s)
      | Some expires \<Rightarrow>
          if now div second \<ge> expires
          then (False, s\<lparr>ds_cooldowns := map_option (mdel (cooldown_key plugin target)) (ds_cooldowns s)\<rparr>)
          else (True, s))"

definition clean_expired_cooldowns :: "int \<Rightarrow> dstate \<Rightarrow> dstate" where
  "clean_expired_cooldowns now s =
     s\<lparr>ds_cooldowns := map_option (filter (\<lambda>(k, v). \<not> now div second \<ge> v)) (ds_cooldowns s)\<rparr>"

definition state_path :: "string \<Rightarrow> string" where
  "state_path state_dir = path_join [state_dir, ''diagnose_state.json'']"

definition ds_load ::
  "(int \<Rightarrow> string) \<Rightarrow> (string \<Rightarrow> dstate \<Rightarrow> dstate \<times> bool) \<Rightarrow> int \<Rightarrow> string \<Rightarrow> files \<Rightarrow> dstate \<Rightarrow> dstate" where
  "ds_load day unmarshal now state_dir fs s =
     (case mget fs (state_path state_dir) of
        None \<Rightarrow> s
      | Some data \<Rightarrow>
          let (s1, ok) = unmarshal data s;
              s2 = (if ok then s1 else s1\<lparr>ds_date := day now, ds_input := 0, ds_output := 0\<rparr>);
              s3 = (if ds_cooldowns s2 = None then s2\<lparr>ds_cooldowns := Some []\<rparr> else s2)
          in clean_expired_cooldowns now (reset_if_new_day day now s3))"

definition ds_save :: "(dstate \<Rightarrow> string option) \<Rightarrow> fs_outcome \<Rightarrow> string \<Rightarrow> dstate \<Rightarrow> files \<Rightarrow> files" where
  "ds_save marshal oc state_dir s fs =
     (case marshal s of
        None \<Rightarrow> fs
      | Some data \<Rightarrow> fst (replace_file oc (state_path state_dir) data fs))"

definition is_daily_limit_reached :: "(int \<Rightarrow> string) \<Rightarrow> int \<Rightarrow> int \<Rightarrow> dstate \<Rightarrow> bool \<times> dstate" where
  "is_daily_limit_reached day now limit s =
     (if limit \<le> 0 then (False, s)
      else let (t, s) = total_tokens day now s in (t \<ge> limit, s))"

definition format_usage :: "dstate \<Rightarrow> string" where
  "format_usage s =
     ''date='' @ ds_date s @ '' input='' @ itoa (ds_input s) @ '' output='' @ itoa (ds_output s)
     @ '' total='' @ itoa (wrap64 (ds_input s + ds_output s))"

section \<open>Retention of records\<close>

text \<open>A directory entry: name, whether it is a directory, and its time, \<open>None\<close> when \<open>Info\<close> fails.\<close>

record dir_entry =
  de_name :: string
  de_is_dir :: bool
  de_mtime :: "int option"

fun record_files :: "dir_entry list \<Rightarrow> (string \<times> int) list" where
  "record_files [] = []"
| "record_files (e # es) =
     (if de_is_dir e \<or> \<not> has_suffix (de_name e) ''.json'' then record_files es
      else case de_mtime e of None \<Rightarrow> record_files es | Some t \<Rightarrow> (de_name e, t) # record_files es)"

definition should_remove :: "int \<Rightarrow> int \<Rightarrow> int \<Rightarrow> nat \<Rightarrow> int \<Rightarrow> bool" where
  "should_remove now retention max_count i mtime \<longleftrightarrow>
     (max_count > 0 \<and> int i \<ge> max_count) \<or> (retention > 0 \<and> now - mtime > retention)"

fun cleanup_loop :: "int \<Rightarrow> int \<Rightarrow> int \<Rightarrow> nat \<Rightarrow> (string \<times> int) list \<Rightarrow> string list" where
  "cleanup_loop now retention max_count i [] = []"
| "cleanup_loop now retention max_count i ((name, t) # fs) =
     (if should_remove now retention max_count i t then name # cleanup_loop now retention max_count (Suc i) fs
      else cleanup_loop now retention max_count (Suc i) fs)"

text \<open>
  The names whose removal is tried; \<open>None\<close> for a directory that cannot be read.  \<open>order\<close> is
  \<open>sort.Slice\<close> by time, newest first: any such order, since it is not stable.
\<close>

definition cleanup_records ::
  "((string \<times> int) list \<Rightarrow> (string \<times> int) list) \<Rightarrow> int \<Rightarrow> int \<Rightarrow> int \<Rightarrow> dir_entry list option \<Rightarrow> string list" where
  "cleanup_records order now retention max_count entries =
     (case entries of
        None \<Rightarrow> []
      | Some es \<Rightarrow>
          let files = record_files es in
          if length files = 0 then [] else cleanup_loop now retention max_count 0 (order files))"

section \<open>Lemmas\<close>

lemma replace_file_other:
  "p \<noteq> path \<Longrightarrow> p \<noteq> path @ ''.tmp'' \<Longrightarrow> mget (fst (replace_file oc path c fs)) p = mget fs p"
  by (auto simp: replace_file_def write_file_def rename_file_def remove_file_def
      split: prod.splits bool.splits write_outcome.splits option.splits if_splits)

lemma replace_file_target:
  "mget (fst (replace_file oc path c fs)) path =
     (if snd (replace_file oc path c fs) = None then Some c else mget fs path)"
  by (auto simp: replace_file_def write_file_def rename_file_def remove_file_def
      split: prod.splits bool.splits write_outcome.splits option.splits if_splits)

lemma replace_file_ok:
  "mkdir_ok oc \<Longrightarrow> write_out oc = WriteOk \<Longrightarrow> rename_ok oc \<Longrightarrow> snd (replace_file oc path c fs) = None"
  by (simp add: replace_file_def write_file_def rename_file_def)

lemma mget_filter: "go_map_ok m \<Longrightarrow> mget (filter (\<lambda>(k, v). P v) m) k =
    (case mget m k of Some v \<Rightarrow> if P v then Some v else None | None \<Rightarrow> None)"
  by (induction m) (auto simp: go_map_ok_def mget_None_iff split: option.splits)



text \<open>
  C22. A restart on the same day keeps the counters and exactly the cooldowns that have not
  expired, and forgets the counters, not the cooldowns, on another day.
\<close>

theorem state_survives_restart:
  assumes dec: "unmarshal c s0 = (s, True)" and enc: "marshal s = Some c"
    and ok: "mkdir_ok oc" "write_out oc = WriteOk" "rename_ok oc"
    and cd: "ds_cooldowns s = Some m" "go_map_ok m"
  shows "\<exists>s'. ds_load day unmarshal now sd (ds_save marshal oc sd s fs) s0 = s'
    \<and> ds_date s' = day now
    \<and> (ds_input s', ds_output s') = (if ds_date s = day now then (ds_input s, ds_output s) else (0, 0))
    \<and> (\<forall>k. mget (nil_map (ds_cooldowns s')) k =
          (case mget m k of Some t \<Rightarrow> if now div second < t then Some t else None | None \<Rightarrow> None))"
proof -
  have "mget (ds_save marshal oc sd s fs) (state_path sd) = Some c"
    using ok by (simp add: ds_save_def enc replace_file_target replace_file_ok)
  then show ?thesis
    using cd by (auto simp: ds_load_def dec reset_if_new_day_def clean_expired_cooldowns_def Let_def not_le
        mget_filter [where P = "\<lambda>v. \<not> v \<le> now div second", simplified not_le])
qed

theorem state_survives_restart_witness:
  "ds_input (ds_load (\<lambda>t. ''d'') (\<lambda>c s. (\<lparr>ds_date = ''d'', ds_input = 5, ds_output = 7, ds_cooldowns = Some []\<rparr>, True))
      0 ''/s'' (ds_save (\<lambda>s. Some ''c'') \<lparr>mkdir_ok = True, write_out = WriteOk, rename_ok = True, remove_ok = True\<rparr> ''/s''
        \<lparr>ds_date = ''d'', ds_input = 5, ds_output = 7, ds_cooldowns = Some []\<rparr> []) (new_diagnose_state (\<lambda>t. ''d'') 0)) = 5"
  using state_survives_restart [of
      "\<lambda>c s. (\<lparr>ds_date = ''d'', ds_input = 5, ds_output = 7, ds_cooldowns = Some []\<rparr>, True)" "''c''"
      "new_diagnose_state (\<lambda>t. ''d'') 0" "\<lparr>ds_date = ''d'', ds_input = 5, ds_output = 7, ds_cooldowns = Some []\<rparr>"
      "\<lambda>s. Some ''c''" "\<lparr>mkdir_ok = True, write_out = WriteOk, rename_ok = True, remove_ok = True\<rparr>" "[]"
      "\<lambda>t. ''d''" 0 "''/s''" "[]"]
  by simp

lemma in_cleanup_loop:
  "x \<in> set (cleanup_loop now ret mc i fs) \<longleftrightarrow>
     (\<exists>j < length fs. x = fst (fs ! j) \<and> should_remove now ret mc (i + j) (snd (fs ! j)))"
  by (induction now ret mc i fs rule: cleanup_loop.induct) (auto simp: Ex_less_Suc2)

text \<open>
  The retention keeps at most the configured number of records and none older than the
  retention period, and it removes nothing it need not: a removed record is past the period or
  at least that many other records are as new; only \<open>.json\<close> files are removed.
\<close>

theorem cleanup_retention:
  fixes now ret mc :: int and order :: "(string \<times> int) list \<Rightarrow> (string \<times> int) list" and es :: "dir_entry list"
  defines "R \<equiv> set (cleanup_records order now ret mc (Some es))"
  assumes perm: "mset (order (record_files es)) = mset (record_files es)"
    and srt: "sorted_wrt (\<lambda>a b. snd a \<ge> snd b) (order (record_files es))"
    and dist: "distinct (map fst (record_files es))"
  shows "(mc > 0 \<longrightarrow> int (length (filter (\<lambda>f. fst f \<notin> R) (record_files es))) \<le> mc)
    \<and> (\<forall>f \<in> set (record_files es). fst f \<notin> R \<and> ret > 0 \<longrightarrow> now - snd f \<le> ret)
    \<and> (\<forall>f \<in> set (record_files es). fst f \<in> R \<longrightarrow> (ret > 0 \<and> now - snd f > ret)
         \<or> (mc > 0 \<and> int (length (filter (\<lambda>g. fst g \<noteq> fst f \<and> snd f \<le> snd g) (record_files es))) \<ge> mc))
    \<and> R \<subseteq> fst ` set (record_files es)"
proof -
  let ?fs = "order (record_files es)"
  have set_fs: "set ?fs = set (record_files es)" using perm by (rule mset_eq_setD)
  have dfs: "distinct (map fst ?fs)"
    using dist perm by (metis mset_map mset_eq_imp_distinct_iff)
  have len: "length ?fs = length (record_files es)" using perm by (rule mset_eq_length)
  have filt: "length (filter P (record_files es)) = length (filter P ?fs)" for P
    using perm by (metis mset_filter mset_eq_length)
  have R: "R = {fst (?fs ! j) | j. j < length ?fs \<and> should_remove now ret mc j (snd (?fs ! j))}"
    using len by (auto simp: R_def cleanup_records_def Let_def in_cleanup_loop)
  have inj: "i = j" if "i < length ?fs" "j < length ?fs" "fst (?fs ! i) = fst (?fs ! j)" for i j
    using dfs that by (simp add: distinct_conv_nth) metis
  have inR: "fst (?fs ! j) \<in> R \<longleftrightarrow> should_remove now ret mc j (snd (?fs ! j))" if "j < length ?fs" for j
    using that inj unfolding R by blast
  have 1: "int (length (filter (\<lambda>f. fst f \<notin> R) ?fs)) \<le> mc" if "mc > 0"
  proof -
    have "length (filter (\<lambda>f. fst f \<notin> R) ?fs) = card {j. j < length ?fs \<and> fst (?fs ! j) \<notin> R}"
      by (rule length_filter_conv_card)
    also have "\<dots> \<le> card {j. j < nat mc}"
      using that inR by (intro card_mono) (auto simp: should_remove_def)
    finally show ?thesis using that by simp
  qed
  have 3: "(ret > 0 \<and> now - snd (?fs ! j) > ret) \<or>
      (mc > 0 \<and> int (length (filter (\<lambda>g. fst g \<noteq> fst (?fs ! j) \<and> snd (?fs ! j) \<le> snd g) ?fs)) \<ge> mc)"
    if j: "j < length ?fs" "fst (?fs ! j) \<in> R" for j
  proof (cases "ret > 0 \<and> now - snd (?fs ! j) > ret")
    case False
    with j inR have mc: "mc > 0" "int j \<ge> mc" by (auto simp: should_remove_def)
    have ne: "fst (?fs ! i) \<noteq> fst (?fs ! j)" if "i < j" for i
      using that j(1) inj [of i j] by auto
    have "card {i. i < j} \<le> card {i. i < length ?fs \<and> fst (?fs ! i) \<noteq> fst (?fs ! j) \<and> snd (?fs ! j) \<le> snd (?fs ! i)}"
      using j ne srt by (intro card_mono) (auto simp: sorted_wrt_iff_nth_less)
    then show ?thesis using mc by (simp add: length_filter_conv_card)
  qed simp
  have 2: "now - snd (?fs ! j) \<le> ret" if "j < length ?fs" "fst (?fs ! j) \<notin> R" "ret > 0" for j
    using that inR by (auto simp: should_remove_def)
  have all: "(\<forall>f \<in> set ?fs. P f) \<longleftrightarrow> (\<forall>j < length ?fs. P (?fs ! j))" for P
    by (metis in_set_conv_nth)
  show ?thesis
    unfolding filt set_fs [symmetric] all using 1 2 3 by (auto simp: R)
qed

theorem cleanup_retention_witness:
  "set (cleanup_records (\<lambda>fs. fs) 100 0 1 (Some
      [\<lparr>de_name = ''a.json'', de_is_dir = False, de_mtime = Some 90\<rparr>,
       \<lparr>de_name = ''b.json'', de_is_dir = False, de_mtime = Some 80\<rparr>])) \<subseteq> {''a.json'', ''b.json''}"
  using cleanup_retention [where order = "\<lambda>fs. fs" and now = 100 and ret = 0 and mc = 1 and es = "[\<lparr>de_name = ''a.json'', de_is_dir = False, de_mtime = Some 90\<rparr>,
       \<lparr>de_name = ''b.json'', de_is_dir = False, de_mtime = Some 80\<rparr>]"]
  by (simp add: has_suffix_def)

end
