(* ===== verification/Settings.thy ===== *)
theory Settings
  imports Floats Config DiagnoseState
begin

text \<open>
  The values of the configuration file that have a text form of their own: sizes
  (\<open>config/size.go\<close>) and durations (\<open>config/duration.go\<close>), the printing of byte counts
  (\<open>pkg/conv/bytes.go\<close>), the HTTP options of the plugins (\<open>config/http.go\<close>) and the identifier
  the agent keeps in its state directory (\<open>config/agentid.go\<close>).  Numbers are read and printed as
  \<open>strconv\<close>, \<open>time\<close> and \<open>fmt\<close> do it, \<open>float64\<close> included.
\<close>

section \<open>Byte counts\<close>

text \<open>
  A \<open>uint64\<close> is a \<open>nat\<close> below \<open>2^64\<close>; the product is taken modulo \<open>2^64\<close>.  The result is
  \<open>None\<close> where the index into the unit letters is out of range, which panics.
\<close>

function human_loop :: "nat \<Rightarrow> nat \<Rightarrow> nat \<Rightarrow> nat \<times> nat" where
  "human_loop n div_by e =
     (if 1024 \<le> n then human_loop (n div 1024) (div_by * 1024 mod 2 ^ 64) (e + 1) else (div_by, e))"
  by pat_completeness auto
termination by (relation "measure (\<lambda>(n, _, _). n)") auto

declare human_loop.simps [simp del]

definition human_bytes :: "nat \<Rightarrow> string option" where
  "human_bytes b =
     (if b < 1024 then Some (digits b @ '' B'')
      else
        let (div_by, e) = human_loop (b div 1024) 1024 0 in
        if e < length ''KMGTPE''
        then Some (fixed1 (float64 (float64 (of_nat b) / float64 (of_nat div_by))) @ '' '' @ [''KMGTPE'' ! e] @ ''iB'')
        else None)"

section \<open>Reading floating-point numbers\<close>

text \<open>
  What \<open>strconv.ParseFloat\<close> gives: a finite value, or one of the infinities and NaN.  A decimal
  number is read here; a text that may be a hexadecimal number, has an underscore or may be the
  name of a special value is left to \<open>other\<close>.  A conversion to \<open>int64\<close> truncates; out of range its result depends on the
  implementation: \<open>oor\<close>.
\<close>

datatype go_float = Finite rat | Special string

definition is_digit :: "char \<Rightarrow> bool" where
  "is_digit c \<longleftrightarrow> 48 \<le> byte c \<and> byte c \<le> 57"

definition digits_nat :: "string \<Rightarrow> nat" where
  "digits_nat s = (case digits_value 0 s of Some n \<Rightarrow> n | None \<Rightarrow> 0)"

definition read_exponent :: "string \<Rightarrow> int option" where
  "read_exponent s =
     (if s = '''' then Some 0
      else if hd s = CHR ''e'' \<or> hd s = CHR ''E'' then
        (let s = tl s;
             neg = has_prefix s ''-'';
             ds = (if neg \<or> has_prefix s ''+'' then drop 1 s else s)
         in if ds \<noteq> '''' \<and> list_all is_digit ds
            then Some (if neg then - int (digits_nat ds) else int (digits_nat ds)) else None)
      else None)"

definition read_decimal :: "string \<Rightarrow> rat option" where
  "read_decimal s =
     (let neg = has_prefix s ''-'';
          s = (if neg \<or> has_prefix s ''+'' then drop 1 s else s);
          whole = takeWhile is_digit s;
          s = dropWhile is_digit s;
          frac = (if has_prefix s ''.'' then takeWhile is_digit (drop 1 s) else '''');
          s = (if has_prefix s ''.'' then dropWhile is_digit (drop 1 s) else s)
      in if whole @ frac = '''' then None
         else case read_exponent s of
           None \<Rightarrow> None
         | Some e \<Rightarrow>
             let q = of_nat (digits_nat (whole @ frac)) * 10 powi (e - int (length frac))
             in Some (if neg then - q else q))"

definition special_form :: "string \<Rightarrow> bool" where
  "special_form s =
     (let t = (if has_prefix s ''-'' \<or> has_prefix s ''+'' then drop 1 s else s)
      in CHR ''_'' \<in> set s \<or> has_prefix t ''0x'' \<or> has_prefix t ''0X''
         \<or> (t \<noteq> '''' \<and> hd t \<in> {CHR ''i'', CHR ''I'', CHR ''n'', CHR ''N''}))"

definition parse_float :: "(string \<Rightarrow> go_float option) \<Rightarrow> string \<Rightarrow> go_float option" where
  "parse_float other s =
     (case read_decimal s of
        Some q \<Rightarrow> if \<bar>float64 q\<bar> < 2 ^ 1024 then Some (Finite (float64 q)) else None
      | None \<Rightarrow> if special_form s then other s else None)"

definition float_times :: "go_float \<Rightarrow> int \<Rightarrow> go_float" where
  "float_times x k = (case x of Finite q \<Rightarrow> Finite (float64 (q * float64 (of_int k))) | Special w \<Rightarrow> Special w)"

definition trunc_rat :: "rat \<Rightarrow> int" where
  "trunc_rat q = (if 0 \<le> q then \<lfloor>q\<rfloor> else \<lceil>q\<rceil>)"

definition to_int64 :: "(go_float \<Rightarrow> int) \<Rightarrow> go_float \<Rightarrow> int" where
  "to_int64 oor x =
     (case x of Finite q \<Rightarrow> if int64_ok (trunc_rat q) then trunc_rat q else oor x | Special w \<Rightarrow> oor x)"

section \<open>Sizes\<close>

definition KB :: int where "KB = 2 ^ 10"
definition MB :: int where "MB = 2 ^ 20"
definition GB :: int where "GB = 2 ^ 30"
definition TB :: int where "TB = 2 ^ 40"

definition size_units :: "(string \<times> int) list" where
  "size_units = [(''TB'', TB), (''GB'', GB), (''MB'', MB), (''KB'', KB), (''B'', 1)]"

text \<open>
  \<open>strings.ToUpper\<close> on the bytes of ASCII letters: the two other characters with an ASCII upper
  case give I and S, which end none of the units.
\<close>

fun size_unit_loop ::
  "(string \<Rightarrow> go_float option) \<Rightarrow> (go_float \<Rightarrow> int) \<Rightarrow> (string \<Rightarrow> string) \<Rightarrow> string \<Rightarrow> (string \<times> int) list \<Rightarrow> string + int" where
  "size_unit_loop other oor fmt_q str [] = Inl (''invalid size format: '' @ fmt_q str @ '' (use B, KB, MB, GB, TB)'')"
| "size_unit_loop other oor fmt_q str ((suffix, factor) # us) =
     (if has_suffix (map upper_char str) suffix then
        case parse_float other (trim_space (take (length str - length suffix) str)) of
          None \<Rightarrow> Inl (''invalid size value: '' @ fmt_q str)
        | Some n \<Rightarrow> Inr (to_int64 oor (float_times n factor))
      else size_unit_loop other oor fmt_q str us)"

definition unquote :: "string \<Rightarrow> string" where
  "unquote s = filter (\<lambda>c. c \<noteq> CHR 0x22) (filter (\<lambda>c. c \<noteq> CHR 0x27) s)"

definition size_unmarshal ::
  "(string \<Rightarrow> go_float option) \<Rightarrow> (go_float \<Rightarrow> int) \<Rightarrow> (string \<Rightarrow> string) \<Rightarrow> string \<Rightarrow> string + int" where
  "size_unmarshal other oor fmt_q b =
     (let str = trim_space (unquote b) in
      if str = '''' \<or> str = ''0'' then Inr 0
      else case parse_int str of
        Some n \<Rightarrow> Inr n
      | None \<Rightarrow> size_unit_loop other oor fmt_q str size_units)"

definition size_in :: "int \<Rightarrow> int \<Rightarrow> string" where
  "size_in s unit = fixed1 (float64 (float64 (of_int s) / float64 (of_int unit)))"

definition size_string :: "int \<Rightarrow> string" where
  "size_string s =
     (if TB \<le> s then size_in s TB @ ''TB''
      else if GB \<le> s then size_in s GB @ ''GB''
      else if MB \<le> s then size_in s MB @ ''MB''
      else if KB \<le> s then size_in s KB @ ''KB''
      else itoa s @ ''B'')"


section \<open>Durations\<close>

text \<open>
  \<open>time.ParseDuration\<close>: a sequence of decimal numbers with units, each read into a \<open>uint64\<close>;
  \<open>None\<close> is its error.  Its product and sum cannot wrap: they are checked against \<open>2^63\<close>.
\<close>

definition unit_map :: "(string, nat) gomap" where
  "unit_map =
     [(''ns'', 1), (''us'', 1000), ([CHR 0xC2, CHR 0xB5] @ ''s'', 1000), ([CHR 0xCE, CHR 0xBC] @ ''s'', 1000),
      (''ms'', 1000000), (''s'', 1000000000), (''m'', 60000000000), (''h'', 3600000000000)]"

fun leading_int :: "nat \<Rightarrow> string \<Rightarrow> (nat \<times> string) option" where
  "leading_int x [] = Some (x, [])"
| "leading_int x (c # s) =
     (if \<not> is_digit c then Some (x, c # s)
      else if x > 2 ^ 63 div 10 then None
      else let x = x * 10 + (byte c - 48) in if x > 2 ^ 63 then None else leading_int x s)"

fun leading_fraction :: "nat \<Rightarrow> rat \<Rightarrow> bool \<Rightarrow> string \<Rightarrow> nat \<times> rat \<times> string" where
  "leading_fraction x scale over [] = (x, scale, [])"
| "leading_fraction x scale over (c # s) =
     (if \<not> is_digit c then (x, scale, c # s)
      else if over \<or> x > (2 ^ 63 - 1) div 10 then leading_fraction x scale True s
      else let y = x * 10 + (byte c - 48) in
        if y > 2 ^ 63 then leading_fraction x scale True s
        else leading_fraction y (float64 (scale * 10)) False s)"

definition duration_part :: "string \<Rightarrow> (nat \<times> string) option" where
  "duration_part s =
     (if s = [] \<or> \<not> (hd s = CHR ''.'' \<or> is_digit (hd s)) then None
      else case leading_int 0 s of
        None \<Rightarrow> None
      | Some (v, s1) \<Rightarrow>
          let pre = (length s \<noteq> length s1);
              dot = has_prefix s1 ''.'';
              (f, scale, s2) = (if dot then leading_fraction 0 1 False (drop 1 s1) else (0, 1, s1));
              post = (dot \<and> length (drop 1 s1) \<noteq> length s2);
              u = takeWhile (\<lambda>c. c \<noteq> CHR ''.'' \<and> \<not> is_digit c) s2
          in if \<not> pre \<and> \<not> post \<or> u = [] then None
             else case mget unit_map u of
               None \<Rightarrow> None
             | Some unit \<Rightarrow>
                 if v > 2 ^ 63 div unit then None
                 else
                   let v = v * unit;
                       v = (if f > 0 then v + nat \<lfloor>float64 (float64 (of_nat f) * float64 (of_nat unit / scale))\<rfloor> else v)
                   in if v > 2 ^ 63 then None else Some (v, drop (length u) s2))"

lemma leading_int_shorter: "leading_int x s = Some (v, t) \<Longrightarrow> length t \<le> length s"
  by (induction x s rule: leading_int.induct) (auto simp: Let_def split: if_splits)

lemma leading_fraction_shorter: "leading_fraction x scale over s = (f, sc, t) \<Longrightarrow> length t \<le> length s"
proof (induction s arbitrary: x scale over)
  case (Cons c s)
  then show ?case by (fastforce simp: Let_def split: if_splits)
qed simp

lemma duration_part_shorter: "duration_part s = Some (v, t) \<Longrightarrow> length t < length s"
proof -
  assume p: "duration_part s = Some (v, t)"
  then have ne: "s \<noteq> []" by (auto simp: duration_part_def)
  from p obtain w s1 where l: "leading_int 0 s = Some (w, s1)"
    by (auto simp: duration_part_def split: if_splits option.splits)
  obtain f sc s2 where f: "(if has_prefix s1 ''.'' then leading_fraction 0 1 False (drop 1 s1) else (0, 1, s1)) = (f, sc, s2)"
    by (metis prod_cases3)
  have len: "length s1 \<le> length s" "length s2 \<le> length s1"
    using leading_int_shorter [OF l] f leading_fraction_shorter [of 0 1 False "drop 1 s1" f sc s2]
    by (auto split: if_splits)
  let ?u = "takeWhile (\<lambda>c. c \<noteq> CHR ''.'' \<and> \<not> is_digit c) s2"
  have "?u \<noteq> [] \<and> t = drop (length ?u) s2"
    using p l f by (auto simp: duration_part_def Let_def split: if_splits option.splits)
  then have "length t < length s2" by (metis diff_less length_drop length_greater_0_conv takeWhile.simps(1))
  with len show ?thesis by linarith
qed

function duration_parts :: "nat \<Rightarrow> string \<Rightarrow> nat option" where
  "duration_parts d s =
     (if s = [] then Some d
      else case duration_part s of
        None \<Rightarrow> None
      | Some (v, t) \<Rightarrow> if d + v > 2 ^ 63 then None else duration_parts (d + v) t)"
  by pat_completeness auto
termination by (relation "measure (\<lambda>(_, s). length s)") (auto dest: duration_part_shorter)

declare duration_parts.simps [simp del]

definition parse_duration :: "string \<Rightarrow> int option" where
  "parse_duration s =
     (let neg = has_prefix s ''-'';
          s = (if neg \<or> has_prefix s ''+'' then drop 1 s else s)
      in if s = ''0'' then Some 0
         else if s = [] then None
         else case duration_parts 0 s of
           None \<Rightarrow> None
         | Some d \<Rightarrow> if neg then Some (- int d) else if d > 2 ^ 63 - 1 then None else Some (int d))"

definition duration_unmarshal :: "(string \<Rightarrow> go_float option) \<Rightarrow> (go_float \<Rightarrow> int) \<Rightarrow> string \<Rightarrow> int option" where
  "duration_unmarshal other oor b =
     (case parse_int b of
        Some n \<Rightarrow> Some (wrap64 (second * n))
      | None \<Rightarrow>
          (case parse_float other b of
             Some x \<Rightarrow> Some (to_int64 oor (float_times x second))
           | None \<Rightarrow>
               let s = unquote b; s = (if s = '''' then ''0s'' else s)
               in parse_duration s))"

text \<open>\<open>Duration.Seconds\<close>, \<open>Minutes\<close> and \<open>Hours\<close>, and \<open>math.Mod\<close>.\<close>

definition in_units :: "int \<Rightarrow> int \<Rightarrow> rat" where
  "in_units d unit =
     (let whole = quot d unit
      in float64 (float64 (of_int whole) + float64 (float64 (of_int (d - unit * whole)) / of_int unit)))"

definition float_mod :: "rat \<Rightarrow> rat \<Rightarrow> rat" where
  "float_mod x y = x - y * of_int (trunc_rat (x / y))"

definition human_string :: "int \<Rightarrow> string" where
  "human_string d =
     (let s = in_units d second; m = in_units d minute; h = in_units d hour in
      if s < 60 then itoa (trunc_rat s) @ '' seconds''
      else if m < 60 then
        itoa (trunc_rat m) @ '' minutes '' @ itoa (trunc_rat (float_mod s 60)) @ '' seconds''
      else if h < 24 then
        itoa (trunc_rat h) @ '' hours '' @ itoa (trunc_rat (float_mod m 60)) @ '' minutes ''
          @ itoa (trunc_rat (float_mod s 60)) @ '' seconds''
      else
        itoa (trunc_rat (float64 (h / 24))) @ '' days '' @ itoa (trunc_rat (float_mod h 24)) @ '' hours ''
          @ itoa (trunc_rat (float_mod m 60)) @ '' minutes '' @ itoa (trunc_rat (float_mod s 60)) @ '' seconds'')"

section \<open>HTTP options\<close>

record http_config =
  hc_interface :: string
  hc_method :: string
  hc_timeout :: int
  hc_follow_redirects :: "bool option"
  hc_basic_auth_user :: string
  hc_basic_auth_pass :: string
  hc_headers :: "string list"
  hc_payload :: string
  hc_http_proxy :: string

text \<open>The proxy of a request: the one of the environment, or a fixed one.\<close>

datatype proxy = ProxyFromEnvironment | ProxyURL url

definition get_proxy :: "(string \<Rightarrow> string) \<Rightarrow> (string \<Rightarrow> string + url) \<Rightarrow> http_config \<Rightarrow> string + proxy" where
  "get_proxy fmt_q parse hc =
     (if length (hc_http_proxy hc) > 0 then
        case parse (hc_http_proxy hc) of
          Inl e \<Rightarrow> Inl (''error parsing proxy url '' @ fmt_q (hc_http_proxy hc) @ '': '' @ e)
        | Inr u \<Rightarrow> Inr (ProxyURL u)
      else Inr ProxyFromEnvironment)"

definition get_timeout :: "http_config \<Rightarrow> int" where
  "get_timeout hc = (if hc_timeout hc = 0 then 5 * second else hc_timeout hc)"

definition get_method :: "http_config \<Rightarrow> string" where
  "get_method hc = (if hc_method hc = '''' then ''GET'' else hc_method hc)"

section \<open>The agent's identifier\<close>

text \<open>
  The UUID package is a parameter: \<open>up_parse\<close> and \<open>up_str\<close> read and print an identifier,
  \<open>up_new\<close> is the one \<open>uuid.New\<close> draws.  A file that cannot be read is one that
  \<open>readable\<close> rejects or that does not exist.
\<close>

record 'u uuid_pkg =
  up_parse :: "string \<Rightarrow> 'u option"
  up_str :: "'u \<Rightarrow> string"
  up_new :: 'u

definition agent_id_path :: "string \<Rightarrow> string" where
  "agent_id_path state_dir = path_join [state_dir, ''agent_id'']"

definition stored_agent_id :: "'u uuid_pkg \<Rightarrow> bool \<Rightarrow> string \<Rightarrow> files \<Rightarrow> 'u option" where
  "stored_agent_id u readable p fs =
     (if readable then case mget fs p of None \<Rightarrow> None | Some data \<Rightarrow> up_parse u (trim_space data) else None)"

definition load_or_create_agent_id ::
  "'u uuid_pkg \<Rightarrow> bool \<Rightarrow> bool \<Rightarrow> write_outcome \<Rightarrow> config option \<Rightarrow> files \<Rightarrow> files \<times> (string + 'u)" where
  "load_or_create_agent_id u readable mkdir w cfg fs =
     (case cfg of
        None \<Rightarrow> (fs, Inl ''agent config is not initialized'')
      | Some c \<Rightarrow>
          if cf_state_dir c = '''' then (fs, Inl ''agent state_dir is empty'')
          else
            let p = agent_id_path (cf_state_dir c) in
            case stored_agent_id u readable p fs of
              Some i \<Rightarrow> (fs, Inr i)
            | None \<Rightarrow>
                if \<not> mkdir then (fs, Inl ''create state dir'')
                else case write_file w p (up_str u (up_new u) @ nl) fs of
                  (fs1, False) \<Rightarrow> (fs1, Inl ''write agent_id'')
                | (fs1, True) \<Rightarrow> (fs1, Inr (up_new u)))"


section \<open>Lemmas on byte counts\<close>

lemma human_loop_power:
  "0 < n \<Longrightarrow> n * 1024 ^ (e + 1) < 2 ^ 64 \<Longrightarrow>
   \<exists>k. human_loop n (1024 ^ (e + 1)) e = (1024 ^ (e + k + 1), e + k) \<and> 1024 ^ k \<le> n \<and> n < 1024 ^ (k + 1)"
proof (induction n arbitrary: e rule: less_induct)
  case (less n)
  show ?case
  proof (cases "1024 \<le> n")
    case False
    with less.prems show ?thesis
      by (intro exI [of _ 0]) (subst human_loop.simps, simp)
  next
    case True
    have "n div 1024 * 1024 \<le> n" by (simp add: div_times_less_eq_dividend)
    then have "n div 1024 * 1024 * 1024 ^ (e + 1) \<le> n * 1024 ^ (e + 1)" by (rule mult_right_mono) simp
    moreover have "n div 1024 * 1024 ^ (e + 1 + 1) = n div 1024 * 1024 * 1024 ^ (e + 1)" by simp
    ultimately have small: "n div 1024 * 1024 ^ (e + 1 + 1) < 2 ^ 64"
      using less.prems(2) by linarith
    have "1024 ^ (e + 1) * 1024 \<le> n * 1024 ^ (e + 1)" using True by simp
    then have fits: "(1024::nat) ^ (e + 1) * 1024 < 2 ^ 64" using less.prems(2) by linarith
    obtain k where k: "human_loop (n div 1024) (1024 ^ (e + 1 + 1)) (e + 1) = (1024 ^ (e + 1 + k + 1), e + 1 + k)"
      "1024 ^ k \<le> n div 1024" "n div 1024 < 1024 ^ (k + 1)"
      using less.IH [of "n div 1024" "e + 1"] True small by (auto simp: div_greater_zero_iff)
    have "human_loop n (1024 ^ (e + 1)) e = human_loop (n div 1024) (1024 ^ (e + 1 + 1)) (e + 1)"
      using True fits by (subst human_loop.simps) (simp add: mult.commute)
    moreover have "1024 ^ (k + 1) \<le> n" using k(2) by (simp add: less_eq_div_iff_mult_less_eq mult.commute)
    moreover have "n < 1024 ^ (k + 1 + 1)" using k(3) by (simp add: div_less_iff_less_mult mult.commute)
    ultimately show ?thesis using k(1) by (intro exI [of _ "k + 1"]) simp
  qed
qed


lemma human_bytes_correct:
  assumes "b < 2 ^ 64" "1024 \<le> b"
  shows "\<exists>e < 6. 1024 ^ (e + 1) \<le> b \<and> b < 1024 ^ (e + 2)
    \<and> human_bytes b = Some (fixed1 (float64 (float64 (of_nat b) / 1024 ^ (e + 1))) @ '' '' @ [''KMGTPE'' ! e] @ ''iB'')"
proof -
  have "b div 1024 * 1024 ^ (0 + 1) < 2 ^ 64"
    using assms(1) div_times_less_eq_dividend [of b 1024] by simp
  then obtain e where e: "human_loop (b div 1024) (1024 ^ (0 + 1)) 0 = (1024 ^ (0 + e + 1), 0 + e)"
    "1024 ^ e \<le> b div 1024" "b div 1024 < 1024 ^ (e + 1)"
    using human_loop_power [of "b div 1024" 0] assms(2) by (auto simp: div_greater_zero_iff)
  have lo: "1024 ^ (e + 1) \<le> b" using e(2) by (simp add: less_eq_div_iff_mult_less_eq mult.commute)
  have hi: "b < 1024 ^ (e + 2)" using e(3) by (simp add: div_less_iff_less_mult mult.commute)
  have "(2::nat) ^ (10 * (e + 1)) = 1024 ^ (e + 1)" by (simp only: power_mult) simp
  then have "(2::nat) ^ (10 * (e + 1)) < 2 ^ 64" using lo assms(1) by linarith
  then have "10 * (e + 1) < 64" by (rule power_less_imp_less_exp [rotated]) simp
  then have e6: "e < 6" by simp
  have "float64 (of_nat (1024 ^ (e + 1))) = 1024 ^ (e + 1)"
  proof -
    have "(1024::rat) ^ (e + 1) = 2 ^ (10 * (e + 1))" by (simp only: power_mult) simp
    then show ?thesis using float64_power2 [of "10 * (e + 1)"] by simp
  qed
  then have "human_bytes b = Some (fixed1 (float64 (float64 (of_nat b) / 1024 ^ (e + 1))) @ '' '' @ [''KMGTPE'' ! e] @ ''iB'')"
    using assms(2) e(1) e6 by (simp add: human_bytes_def)
  with lo hi e6 show ?thesis by blast
qed


section \<open>Lemmas on sizes\<close>

lemma is_digit_digits: "c \<in> set (digits n) \<Longrightarrow> is_digit c"
  using digits_bytes by (simp add: is_digit_def)

lemma digits_plain:
  assumes "c \<in> set (digits n)"
  shows "printable c" "c \<noteq> CHR ''-''" "c \<noteq> CHR ''+''" "c \<noteq> CHR ''.''" "c \<noteq> CHR 0x22" "c \<noteq> CHR 0x27" "upper_char c = c"
  using digits_bytes [OF assms] by (auto simp: printable_def byte_def upper_char_def)

lemma digits_single: "n < 10 \<Longrightarrow> digits n = [char_of (48 + n)]"
  by (subst digits.simps) simp

lemma no_sign_digits: "\<not> has_prefix (digits n @ s) ''-''" "\<not> has_prefix (digits n @ s) ''+''"
  using digits_plain [of "hd (digits n)" n] by (cases "digits n"; simp add: has_prefix_def)+

lemma digits_nat_digits [simp]: "digits_nat (digits n) = n"
  by (simp add: digits_nat_def digits_value_digits)

lemma digits_while: "takeWhile is_digit (digits n) = digits n" "dropWhile is_digit (digits n) = []"
  using is_digit_digits by (auto simp: takeWhile_eq_all_conv dropWhile_eq_Nil_conv)

lemma read_decimal_whole: "read_decimal (digits n) = Some (of_nat n)"
proof -
  show ?thesis
    using no_sign_digits [of n "[]"]
    by (simp add: read_decimal_def read_exponent_def Let_def digits_while has_prefix_def [of "[]"])
qed

lemma read_decimal_tenths:
  assumes "b < 10"
  shows "read_decimal (digits a @ ''.'' @ digits b) = Some (of_nat (10 * a + b) / 10)"
proof -
  have dot: "\<not> is_digit (CHR ''.'')" by (simp add: is_digit_def byte_def)
  have w: "takeWhile is_digit (digits a @ CHR ''.'' # digits b) = digits a"
    "dropWhile is_digit (digits a @ CHR ''.'' # digits b) = CHR ''.'' # digits b"
    using is_digit_digits dot by (simp_all add: takeWhile_append2 dropWhile_append2)
  have d: "digits_nat (digits a @ digits b) = 10 * a + b"
    using assms by (simp add: digits_nat_def digits_value_append digits_value_digits digits_single byte_def)
  show ?thesis
    using no_sign_digits [of a "''.'' @ digits b"] digits_single [OF assms, THEN arg_cong [of _ _ length]] d
    by (simp add: read_decimal_def read_exponent_def w digits_while has_prefix_def [of "CHR ''.'' # _"]
        power_int_def Let_def)
qed

lemma digits_value_B: "digits_value n (s @ ''B'') = None"
  by (simp add: digits_value_append byte_def split: option.split)

text \<open>A printed size ends in its unit and nothing before the unit looks like one.\<close>

definition size_char :: "char \<Rightarrow> bool" where
  "size_char c \<longleftrightarrow> printable c \<and> upper_char c = c \<and> c \<noteq> CHR 0x22 \<and> c \<noteq> CHR 0x27"

lemma size_char_digits: "c \<in> set (digits n) \<Longrightarrow> size_char c"
  using digits_plain by (simp add: size_char_def)

lemma size_char_sign: "size_char (CHR ''-'')" "size_char (CHR ''.'')"
  by (simp_all add: size_char_def printable_def upper_char_def byte_def)

lemma unit_found:
  assumes "(suffix, factor) \<in> set size_units" "ds \<noteq> ''''" and chars: "\<forall>c \<in> set ds. size_char c"
    and "is_digit (last ds)"
  shows "size_unmarshal other oor fmt_q (ds @ suffix) =
    (case parse_float other ds of
       None \<Rightarrow> Inl (''invalid size value: '' @ fmt_q (ds @ suffix))
     | Some n \<Rightarrow> Inr (to_int64 oor (float_times n factor)))"
proof -
  obtain ds' d where ds: "ds = ds' @ [d]" "is_digit d" using assms(2,4) by (metis append_butlast_last_id)
  have plain: "\<forall>c \<in> set ds. printable c" using chars by (simp add: size_char_def)
  have up: "map upper_char ds = ds" using chars by (simp add: map_idI size_char_def)
  have suf: "suffix \<in> {''TB'', ''GB'', ''MB'', ''KB'', ''B''}" using assms(1) by (auto simp: size_units_def)
  then have upsuf: "map upper_char suffix = suffix" "\<forall>c \<in> set suffix. printable c \<and> c \<noteq> CHR 0x22 \<and> c \<noteq> CHR 0x27"
    "suffix \<noteq> ''''" "last suffix = CHR ''B''"
    by (elim insertE emptyE; simp add: upper_char_def byte_def printable_def)+
  have uq: "unquote (ds @ suffix) = ds @ suffix"
    using chars upsuf(2) by (auto simp: unquote_def filter_id_conv size_char_def)
  have ends: "printable (hd (ds @ suffix))" "printable (last (ds @ suffix))"
    using assms(2) plain upsuf(2-4) by (simp_all add: hd_append) (simp add: printable_def byte_def)
  have tr: "trim_space (ds @ suffix) = ds @ suffix" "trim_space ds = ds"
    using trim_space_printable [of "ds @ suffix"] trim_space_printable [of ds] ends assms(2) plain by auto
  have noint: "parse_int (ds @ suffix) = None"
  proof -
    let ?t = "ds @ butlast suffix"
    have t: "ds @ suffix = ?t @ ''B''" using upsuf(3,4) append_butlast_last_id [of suffix] by simp
    have "drop 1 (?t @ ''B'') = drop 1 ?t @ ''B''" using assms(2) by (cases ds) simp_all
    then show ?thesis
      unfolding t parse_int_def Let_def using digits_value_B by (simp only: split: if_split) simp
  qed
  have nb: "d \<noteq> CHR ''T''" "d \<noteq> CHR ''G''" "d \<noteq> CHR ''M''" "d \<noteq> CHR ''K''" using ds(2) by (auto simp: is_digit_def byte_def)
  have miss: "\<not> has_suffix (ds @ ''B'') [c, CHR ''B'']" if "d \<noteq> c" for c
    using that has_suffix_append [of "[d, CHR ''B'']" "[c, CHR ''B'']" ds'] by (simp add: ds)
  have ne: "ds @ suffix \<noteq> ''''" "ds @ suffix \<noteq> ''0''" using assms(2) upsuf(3,4) by (auto simp: append_eq_Cons_conv)
  have loop: "size_unit_loop other oor fmt_q (ds @ suffix) size_units =
      (case parse_float other ds of
         None \<Rightarrow> Inl (''invalid size value: '' @ fmt_q (ds @ suffix))
       | Some n \<Rightarrow> Inr (to_int64 oor (float_times n factor)))"
    using assms(1) nb by (auto simp: size_units_def up upsuf(1) has_suffix_append miss tr(2))
  show ?thesis using ne noint loop assms(2) by (simp add: size_unmarshal_def uq tr(1) Let_def)
qed


lemma parse_float_small:
  assumes "read_decimal s = Some q" "\<bar>q\<bar> < 2 ^ 60"
  shows "parse_float other s = Some (Finite (float64 q))"
proof -
  have "- (2 ^ 60) \<le> q" "q \<le> 2 ^ 60" using assms(2) by (simp_all add: abs_less_iff)
  then have "float64 (- (2 ^ 60)) \<le> float64 q" "float64 q \<le> float64 (2 ^ 60)" by (auto intro: float64_mono)
  moreover have "float64 (- (2 ^ 60)) = - (2 ^ 60)" using float64_exact [of "-1" 60] by simp
  ultimately have "\<bar>float64 q\<bar> \<le> 2 ^ 60" using float64_power2 [of 60] by (simp add: abs_le_iff)
  also have "(2::rat) ^ 60 < 2 ^ 1024" by (intro power_strict_increasing) auto
  finally show ?thesis using assms(1) by (simp add: parse_float_def)
qed

text \<open>What the printed form of a size in one of the larger units reads as.\<close>

lemma size_in_reads:
  assumes unit: "(suffix, 2 ^ k) \<in> set size_units" "0 < k" and s: "0 \<le> s" "s < 2 ^ 53"
  shows "\<exists>r. size_unmarshal other oor fmt_q (size_in s (2 ^ k) @ suffix) = Inr r
    \<and> 20 * \<bar>r - s\<bar> \<le> 2 ^ k + 60 \<and> (2 ^ k dvd s \<longrightarrow> r = s)"
proof -
  let ?u = "(2::rat) ^ k"
  have u: "0 < ?u" by simp
  have "(2::int) ^ k \<le> 2 ^ 40" using unit(1) by (auto simp: size_units_def TB_def GB_def MB_def KB_def)
  then have k40: "k \<le> 40" by (rule power_le_imp_le_exp [rotated]) simp
  define x where "x = of_int s / ?u"
  have fs: "float64 (of_int s) = of_int s" by (rule float64_of_int) (use s in simp)
  have fx: "float64 x = x"
    using float64_exact [of s "- int k"] s by (simp add: x_def power_int_minus field_simps)
  have x0: "0 \<le> x" using s by (simp add: x_def)
  have fu: "float64 (of_int (2 ^ k)) = ?u" using float64_power2 [of k] by simp
  obtain t where t: "fixed1 x = digits (t div 10) @ ''.'' @ digits (t mod 10)"
    "\<bar>of_nat t / 10 - x\<bar> \<le> 1 / 20" "int t = round_half_even (10 * x)"
    by (rule fixed1_nonneg [OF x0])
  let ?v = "of_nat t / 10 :: rat" and ?ds = "digits (t div 10) @ ''.'' @ digits (t mod 10)"
  have si: "size_in s (2 ^ k) = ?ds"
    using t(1) by (simp add: size_in_def fs float64_power2 x_def [symmetric] fx)
  have rd: "read_decimal ?ds = Some ?v"
    using read_decimal_tenths [of "t mod 10" "t div 10"] by simp
  have xs: "x * ?u = of_int s" by (simp add: x_def)
  have "x \<le> of_int s" using s u by (simp add: x_def divide_le_eq mult_le_cancel_left1)
  moreover have s53: "of_int s < (2::rat) ^ 53"
  proof -
    have "of_int s < (of_int (2 ^ 53) :: rat)" using s(2) by (simp only: of_int_less_iff)
    then show ?thesis by simp
  qed
  ultimately have vb: "?v < 2 ^ 53 + 1" using abs_le_D1 [OF t(2)] by linarith
  then have pf: "parse_float other ?ds = Some (Finite (float64 ?v))"
    by (intro parse_float_small [OF rd]) simp
  let ?w = "float64 ?v * ?u"
  have sc: "float_times (Finite (float64 ?v)) (2 ^ k) = Finite ?w"
    using float64_scale [of ?v k] by (simp add: float_times_def float64_power2)
  have w0: "0 \<le> ?w" using float64_nonneg [of ?v] u by simp
  have "\<bar>float64 ?v - ?v\<bar> * ?u \<le> ?v / 2 ^ 53 * ?u"
    using float64_near [of ?v] u by (intro mult_right_mono) auto
  moreover have "\<bar>?v - x\<bar> * ?u \<le> 1 / 20 * ?u" using t(2) u by (intro mult_right_mono) auto
  moreover have "\<bar>?w - of_int s\<bar> \<le> \<bar>float64 ?v - ?v\<bar> * ?u + \<bar>?v - x\<bar> * ?u"
  proof -
    have "?w - of_int s = (float64 ?v - ?v) * ?u + (?v - x) * ?u" by (simp add: algebra_simps xs)
    then show ?thesis using u by (metis abs_mult abs_of_pos abs_triangle_ineq)
  qed
  moreover have "?v / 2 ^ 53 * ?u \<le> 2"
  proof -
    have k: "?u \<le> 2 ^ 40" using k40 by (intro power_increasing) auto
    have "?v \<le> x + 1 / 20" using abs_le_D1 [OF t(2)] by linarith
    then have "?v * ?u \<le> (x + 1 / 20) * ?u" using u by (intro mult_right_mono) auto
    also have "\<dots> = of_int s + ?u / 20" by (simp add: distrib_right xs)
    also have "\<dots> \<le> 2 * 2 ^ 53" using s53 k by simp
    finally show ?thesis by simp
  qed
  ultimately have near: "\<bar>?w - of_int s\<bar> \<le> ?u / 20 + 2" by linarith
  define r where "r = \<lfloor>?w\<rfloor>"
  have r: "of_int r \<le> ?w" "?w < of_int r + 1" using floor_correct [of ?w] by (auto simp: r_def)
  then have "20 * \<bar>of_int r - of_int s\<bar> \<le> ?u + 60" using near by (auto simp: abs_le_iff abs_if split: if_splits)
  then have "of_int (20 * \<bar>r - s\<bar>) \<le> (of_int (2 ^ k + 60) :: rat)" by simp
  then have err: "20 * \<bar>r - s\<bar> \<le> 2 ^ k + 60" by (simp only: of_int_le_iff)
  have exact: "r = s" if d: "2 ^ k dvd s"
  proof -
    obtain q where q: "s = 2 ^ k * q" using d by (auto simp: dvd_def)
    with s have q0: "0 \<le> q" by (simp add: zero_le_mult_iff)
    have "q \<le> s" using q q0 by (simp add: mult_le_cancel_right1)
    with s have qb: "\<bar>q\<bar> < 2 ^ 53" using q0 by simp
    have xq: "x = of_int q" by (simp add: x_def q)
    have "int t = 10 * q" using t(3) round_half_even_of_int [of "10 * q"] by (simp add: xq)
    then have "?v = of_int q" by (metis nonzero_mult_div_cancel_left of_int_mult of_int_numeral of_int_of_nat_eq zero_neq_numeral)
    then have "?w = of_int s" using float64_of_int [OF qb] by (simp add: q)
    then show ?thesis by (simp add: r_def)
  qed
  have "0 \<le> r" using w0 by (simp add: r_def)
  moreover have "r < 2 ^ 63"
  proof -
    have "(2::int) ^ k \<le> 2 ^ 40" using k40 by (intro power_increasing) auto
    with err s show ?thesis by (simp add: abs_if split: if_splits)
  qed
  ultimately have "to_int64 oor (Finite ?w) = r" using w0 by (simp add: to_int64_def trunc_rat_def r_def int64_ok_def)
  moreover have "size_unmarshal other oor fmt_q (?ds @ suffix) = Inr (to_int64 oor (Finite ?w))"
  proof -
    have "\<forall>c \<in> set ?ds. size_char c" by (auto simp: size_char_digits size_char_sign)
    moreover have "is_digit (last ?ds)" using is_digit_digits [of "last (digits (t mod 10))" "t mod 10"] by simp
    ultimately show ?thesis using unit_found [OF unit(1), of ?ds] pf sc by simp
  qed
  ultimately show ?thesis using si err exact by simp
qed


lemma size_string_small:
  assumes "int64_ok s" "- (2 ^ 53) < s" "s < KB"
  shows "size_unmarshal other oor fmt_q (size_string s) = Inr s"
proof -
  have str: "size_string s = itoa s @ ''B''" using assms(3) by (simp add: size_string_def KB_def MB_def GB_def TB_def)
  let ?neg = "if s < 0 then ''-'' else ''''" and ?n = "nat \<bar>s\<bar>"
  have it: "itoa s = ?neg @ digits ?n" by (simp add: itoa_def)
  have rd: "read_decimal (itoa s) = Some (of_int s)"
  proof (cases "s < 0")
    case True
    have "read_decimal (''-'' @ digits ?n) = map_option uminus (read_decimal (digits ?n))"
      using no_sign_digits [of ?n "[]"]
      by (simp add: read_decimal_def read_exponent_def Let_def digits_while has_prefix_def [of "[]"] has_prefix_def [of "_ # _"])
    then show ?thesis using True by (simp add: it read_decimal_whole)
  next
    case False
    then show ?thesis by (simp add: it read_decimal_whole)
  qed
  have "\<bar>s\<bar> < 2 ^ 53" using assms(2,3) by (simp add: KB_def)
  then have "\<bar>of_int s\<bar> < (2::rat) ^ 60" and fs: "float64 (of_int s) = of_int s"
    using float64_of_int [of s] by (simp_all add: abs_less_iff)
  then have pf: "parse_float other (itoa s) = Some (Finite (of_int s))"
    using parse_float_small [OF rd] by simp
  have all: "\<forall>c \<in> set (itoa s). size_char c" by (auto simp: it size_char_digits size_char_sign)
  have "is_digit (last (itoa s))" using is_digit_digits [of "last (digits ?n)" ?n] by (simp add: it)
  then have "size_unmarshal other oor fmt_q (itoa s @ ''B'') = Inr (to_int64 oor (float_times (Finite (of_int s)) 1))"
    using unit_found [of "''B''" 1 "itoa s"] all pf by (simp add: size_units_def it)
  moreover have "float64 1 = 1" using float64_power2 [of 0] by simp
  ultimately show ?thesis
    using assms(1) fs by (simp add: str float_times_def to_int64_def trunc_rat_def)
qed

text \<open>
  C32. A size that is printed and read again comes back within a twentieth of the unit it was
  printed in (and three bytes); one that is a whole number of its unit comes back unchanged, as
  do all sizes below a kilobyte and the negative ones.  Neither the parameters that stand for
  the special numbers and out-of-range conversions nor the quoting is ever reached.
\<close>

definition print_unit :: "int \<Rightarrow> int" where
  "print_unit s = (if TB \<le> s then TB else if GB \<le> s then GB else if MB \<le> s then MB else if KB \<le> s then KB else 1)"




section \<open>Lemmas on durations\<close>

lemma leading_int_digits:
  "leading_int 0 (digits n @ t) = (if n \<le> 2 ^ 63 then leading_int n t else None)"
proof (induction n arbitrary: t rule: digits.induct)
  case (1 n)
  show ?case
  proof (cases "n < 10")
    case True
    then show ?thesis by (simp add: digits_single is_digit_def byte_def)
  next
    case False
    have d: "digits n = digits (n div 10) @ [char_of (48 + n mod 10)]" using False by (subst digits.simps) simp
    have "leading_int 0 (digits n @ t) =
        (if n div 10 \<le> 2 ^ 63 then leading_int (n div 10) (char_of (48 + n mod 10) # t) else None)"
      using 1 [OF False] by (simp add: d)
    moreover have "n div 10 * 10 + n mod 10 = n" by simp
    ultimately show ?thesis by (auto simp: is_digit_def byte_def Let_def)
  qed
qed

lemma duration_part_seconds:
  "duration_part (digits n @ ''s'') = (if int64_ok (second * int n) then Some (n * 1000000000, '''') else None)"
proof -
  have hd: "hd (digits n @ ''s'') = hd (digits n)" "is_digit (hd (digits n))"
    using is_digit_digits [of "hd (digits n)" n] by simp_all
  have s: "\<not> is_digit (CHR ''s'')" by (simp add: is_digit_def byte_def)
  have ok: "int64_ok (second * int n) \<longleftrightarrow> n \<le> 2 ^ 63 div 1000000000"
    by (auto simp: int64_ok_def second_def)
  show ?thesis
  proof (cases "n \<le> 2 ^ 63")
    case False
    then show ?thesis using ok hd by (simp add: duration_part_def leading_int_digits)
  next
    case True
    then have l: "leading_int 0 (digits n @ ''s'') = Some (n, ''s'')" by (simp add: leading_int_digits s)
    show ?thesis
      using ok hd l s by (simp add: duration_part_def Let_def has_prefix_def unit_map_def)
  qed
qed

lemma parse_duration_seconds:
  "parse_duration (digits n @ ''s'') = (if int64_ok (second * int n) then Some (second * int n) else None)"
proof -
  have ne: "digits n @ ''s'' \<noteq> ''0''"
    by (metis append_eq_Cons_conv append_is_Nil_conv digits_ne list.inject not_Cons_self2)
  have "n * 1000000000 \<le> 2 ^ 63 - 1" if "int64_ok (second * int n)"
    using that by (auto simp: int64_ok_def second_def)
  then show ?thesis
    using ne no_sign_digits [of n "''s''"] duration_part_seconds [of n]
    by (auto simp: parse_duration_def Let_def duration_parts.simps [of 0 "digits n @ ''s''"] duration_parts.simps [of _ "[]"] second_def)
qed

lemma not_a_number:
  assumes "s \<noteq> ''''" "\<not> has_prefix s ''-''" "\<not> has_prefix s ''+''" "digits_value 0 s = None" "read_decimal s = None" "\<not> special_form s"
  shows "parse_int s = None" "parse_float other s = None"
  using assms by (simp_all add: parse_int_def parse_float_def)

text \<open>
  C36. A whole number of seconds can be written as a bare number, with the unit, or as either kind
  of TOML string.  With the unit it is accepted exactly when its nanoseconds fit 64 bits; the bare
  number is always accepted and its nanoseconds wrap around, so that 9223372037 is a negative
  duration where ''9223372037s'' is an error.
\<close>

theorem duration_notations:
  assumes "n < 2 ^ 63" and "q = CHR 0x22 \<or> q = CHR 0x27"
  shows "duration_unmarshal other oor (digits n) = Some (wrap64 (second * int n))
    \<and> duration_unmarshal other oor (digits n @ ''s'') =
        (if int64_ok (second * int n) then Some (second * int n) else None)
    \<and> duration_unmarshal other oor (q # digits n @ ''s'' @ [q]) =
        duration_unmarshal other oor (digits n @ ''s'')"
proof -
  have pi: "parse_int (digits n) = Some (int n)"
    using parse_int_itoa [of "int n"] assms(1) by (simp add: itoa_def int64_ok_def)
  have s: "\<not> is_digit (CHR ''s'')" by (simp add: is_digit_def byte_def)
  have ds: "digits_value 0 (digits n @ ''s'') = None"
    by (simp add: digits_value_append digits_value_digits byte_def)
  have tw: "takeWhile is_digit (digits n @ ''s'') = digits n" "dropWhile is_digit (digits n @ ''s'') = ''s''"
    using is_digit_digits s by (simp_all add: takeWhile_append2 dropWhile_append2)
  have rs: "read_decimal (digits n @ ''s'') = None"
    using no_sign_digits [of n "''s''"]
    by (simp add: read_decimal_def Let_def tw has_prefix_def [of "''s''"] read_exponent_def)
  have hdd: "is_digit (hd (digits n))" using is_digit_digits [of "hd (digits n)" n] by simp
  obtain d ds' where dd: "digits n = d # ds'" "is_digit d" using hdd by (cases "digits n") auto
  have sp: "\<not> special_form (digits n @ ''s'')"
  proof -
    have "\<forall>c \<in> set (digits n @ ''s''). c \<noteq> CHR ''_'' \<and> c \<noteq> CHR ''x'' \<and> c \<noteq> CHR ''X''"
      using digits_bytes [of "CHR ''_''" n] digits_bytes [of "CHR ''x''" n] digits_bytes [of "CHR ''X''" n]
      by (auto simp: byte_def)
    moreover have "d \<notin> {CHR ''i'', CHR ''I'', CHR ''n'', CHR ''N''}" using dd(2) by (auto simp: is_digit_def byte_def)
    moreover have "\<not> has_prefix (digits n @ ''s'') ''-''" "\<not> has_prefix (digits n @ ''s'') ''+''" by (rule no_sign_digits)+
    ultimately show ?thesis unfolding special_form_def Let_def dd(1) by (cases ds') (auto simp: has_prefix_def)
  qed
  have un: "unquote (digits n @ ''s'') = digits n @ ''s''" "unquote (q # digits n @ ''s'' @ [q]) = digits n @ ''s''"
    using assms(2) digits_plain(5,6) by (auto simp: unquote_def filter_id_conv)
  have plain: "duration_unmarshal other oor (digits n @ ''s'') =
      (if int64_ok (second * int n) then Some (second * int n) else None)"
    using not_a_number(1) [of "digits n @ ''s''"] not_a_number(2) [of "digits n @ ''s''" other] no_sign_digits [of n "''s''"] ds rs sp
    by (simp add: duration_unmarshal_def un(1) parse_duration_seconds)
  have qd: "\<not> is_digit q" using assms(2) by (auto simp: is_digit_def byte_def)
  have "\<not> special_form (q # digits n @ ''s'' @ [q])"
    using assms(2) digits_bytes [of "CHR ''_''" n] by (auto simp: special_form_def has_prefix_def byte_def)
  moreover have "read_decimal (q # digits n @ ''s'' @ [q]) = None"
    using assms(2) qd by (auto simp: read_decimal_def Let_def has_prefix_def)
  moreover have "digits_value 0 (q # digits n @ ''s'' @ [q]) = None" using qd unfolding is_digit_def by auto
  ultimately have "duration_unmarshal other oor (q # digits n @ ''s'' @ [q]) =
      (if int64_ok (second * int n) then Some (second * int n) else None)"
  proof -
    let ?w = "q # digits n @ ''s'' @ [q]"
    assume "\<not> special_form ?w" "read_decimal ?w = None" "digits_value 0 ?w = None"
    moreover have "\<not> has_prefix ?w ''-''" "\<not> has_prefix ?w ''+''" using assms(2) by (auto simp: has_prefix_def)
    ultimately have "parse_int ?w = None" "parse_float other ?w = None" by (intro not_a_number; simp)+
    then show ?thesis
      unfolding duration_unmarshal_def un(2) Let_def by (simp add: parse_duration_seconds)
  qed
  with pi plain show ?thesis by (simp add: duration_unmarshal_def)
qed

theorem duration_notations_witness:
  "duration_unmarshal (\<lambda>_. None) (\<lambda>_. 0) (digits 9223372037) = Some (- 9223372036709551616)
   \<and> duration_unmarshal (\<lambda>_. None) (\<lambda>_. 0) (digits 9223372037 @ ''s'') = None
   \<and> duration_unmarshal (\<lambda>_. None) (\<lambda>_. 0) (CHR 0x22 # digits 30 @ ''s'' @ [CHR 0x22]) = Some 30000000000"
  using duration_notations [of 9223372037 "CHR 0x22" "\<lambda>_. None" "\<lambda>_. 0"]
    duration_notations [of 30 "CHR 0x22" "\<lambda>_. None" "\<lambda>_. 0"]
  by (simp add: second_def wrap64_def int64_ok_def)


text \<open>The floating-point value of a duration in a unit lies between the whole units and the next.\<close>

lemma in_units_whole:
  assumes "0 \<le> d" "0 < unit" "d div unit < 2 ^ 40" "d mod unit * 2 ^ 12 \<le> unit * (2 ^ 12 - 1)" "unit < 2 ^ 53"
  shows "of_int (d div unit) \<le> in_units d unit" "in_units d unit \<le> of_int (d div unit) + 4095 / 4096"
proof -
  let ?w = "d div unit" and ?r = "d mod unit"
  have r: "0 \<le> ?r" "?r < unit" using assms(1,2) by (simp_all add: pos_mod_bound)
  have w: "0 \<le> ?w" using assms(1,2) by (simp add: pos_imp_zdiv_nonneg_iff)
  have fr: "float64 (of_int ?r) = of_int ?r" by (rule float64_of_int) (use r assms(5) in simp)
  have fw: "float64 (of_int ?w) = of_int ?w" by (rule float64_of_int) (use w assms(3) in simp)
  have iu: "in_units d unit = float64 (of_int ?w + float64 (of_int ?r / of_int unit))"
    using assms(1,2) by (simp only: in_units_def quot_pos fr fw Let_def minus_mult_div_eq_mod)
  have "of_int (?r * 2 ^ 12) \<le> (of_int (unit * (2 ^ 12 - 1)) :: rat)" using assms(4) by (simp only: of_int_le_iff)
  then have q: "of_int ?r / of_int unit \<le> (4095 / 4096 :: rat)" using assms(2) by (simp add: divide_le_eq)
  have "(0::rat) \<le> of_int ?r / of_int unit" using r assms(2) by simp
  then have f0: "0 \<le> float64 (of_int ?r / of_int unit)" by (rule float64_nonneg)
  have exact: "float64 (of_int ?w + 4095 / 4096) = of_int ?w + 4095 / 4096"
    using float64_exact [of "?w * 4096 + 4095" "- 12"] w assms(3) by (simp add: power_int_def field_simps)
  have "float64 (4095 / 4096) = 4095 / 4096" using float64_exact [of 4095 "- 12"] by (simp add: power_int_def field_simps)
  then have f1: "float64 (of_int ?r / of_int unit) \<le> 4095 / 4096" using float64_mono [OF q] by simp
  show "of_int ?w \<le> in_units d unit"
    using float64_mono [of "of_int ?w" "of_int ?w + float64 (of_int ?r / of_int unit)"] f0 fw by (simp add: iu)
  show "in_units d unit \<le> of_int ?w + 4095 / 4096"
    using float64_mono [of "of_int ?w + float64 (of_int ?r / of_int unit)" "of_int ?w + 4095 / 4096"] f1 exact by (simp add: iu)
qed

lemma trunc_between: "0 \<le> w \<Longrightarrow> of_int w \<le> x \<Longrightarrow> x < of_int w + 1 \<Longrightarrow> trunc_rat x = w"
  by (simp add: trunc_rat_def floor_eq_iff order_trans [of 0 "of_int w" x])

lemma mod_between:
  assumes "0 \<le> w" "0 < k" "of_int w \<le> x" "x < of_int w + 1"
  shows "trunc_rat (float_mod x (of_int k)) = w mod k"
proof -
  have k: "(0::rat) < of_int k" using assms(2) by simp
  have "w = k * (w div k) + w mod k" by simp
  then have w: "of_int w = of_int k * of_int (w div k) + (of_int (w mod k) :: rat)" by (metis of_int_add of_int_mult)
  have m: "0 \<le> w mod k" "w mod k + 1 \<le> k" using assms(2) by (simp_all add: pos_mod_bound zless_imp_add1_zle)
  then have "(0::rat) \<le> of_int (w mod k)" and "of_int (w mod k + 1) \<le> (of_int k :: rat)" by (simp_all only: of_int_le_iff of_int_0_le_iff)
  then have b: "of_int k * of_int (w div k) \<le> x" "x < of_int k * of_int (w div k) + of_int k"
    using assms(3,4) w by simp_all
  have "trunc_rat (x / of_int k) = w div k"
    by (rule trunc_between) (use assms(1,2) b k in \<open>simp_all add: pos_imp_zdiv_nonneg_iff pos_le_divide_eq pos_divide_less_eq algebra_simps\<close>)
  then have "float_mod x (of_int k) = x - of_int k * of_int (w div k)" by (simp add: float_mod_def)
  then show ?thesis using m(1) assms(3,4) w by (intro trunc_between) simp_all
qed

lemma less_between:
  assumes "of_int w \<le> x" "x < of_int w + (1::rat)"
  shows "x < of_int k \<longleftrightarrow> w < k"
proof
  assume "x < of_int k"
  with assms(1) have "of_int w < (of_int k :: rat)" by linarith
  then show "w < k" by (simp only: of_int_less_iff)
next
  assume "w < k"
  then have "of_int (w + 1) \<le> (of_int k :: rat)" by (simp only: of_int_le_iff)
  with assms(2) show "x < of_int k" by simp
qed

lemma days_between:
  assumes "0 \<le> w" "w < 2 ^ 32" "of_int w \<le> x" "x \<le> of_int w + 4095 / 4096"
  shows "trunc_rat (float64 (x / 24)) = w div 24"
proof -
  let ?d = "w div 24"
  have "w \<le> 24 * ?d + 23" by linarith
  then have "of_int w \<le> (of_int (24 * ?d + 23) :: rat)" by (simp only: of_int_le_iff)
  then have "x / 24 \<le> of_int ?d + 131071 / 131072" using assms(4) by simp
  then have "float64 (x / 24) \<le> float64 (of_int ?d + 131071 / 131072)" by (rule float64_mono)
  also have "float64 (of_int ?d + 131071 / 131072) = of_int ?d + 131071 / 131072"
    using float64_exact [of "?d * 131072 + 131071" "- 17"] assms(1,2) by (simp add: power_int_def field_simps)
  finally have up: "float64 (x / 24) \<le> of_int ?d + 131071 / 131072" .
  have "24 * ?d \<le> w" by linarith
  then have "of_int (24 * ?d) \<le> (of_int w :: rat)" by (simp only: of_int_le_iff)
  then have "of_int ?d \<le> x / 24" using assms(3) by simp
  then have "float64 (of_int ?d) \<le> float64 (x / 24)" by (rule float64_mono)
  then have "of_int ?d \<le> float64 (x / 24)" using float64_of_int [of ?d] assms(1,2) by simp
  with up show ?thesis using assms(1) by (intro trunc_between) simp_all
qed

text \<open>
  A duration of whole seconds is printed as its exact days, hours, minutes and seconds, although
  every quotient and remainder is computed in floating point.
\<close>

theorem human_string_exact:
  assumes "0 \<le> s" "int64_ok (second * s)"
  shows "human_string (second * s) =
    (if s < 60 then itoa s @ '' seconds''
     else if s < 3600 then itoa (s div 60) @ '' minutes '' @ itoa (s mod 60) @ '' seconds''
     else if s < 86400 then
       itoa (s div 3600) @ '' hours '' @ itoa (s div 60 mod 60) @ '' minutes '' @ itoa (s mod 60) @ '' seconds''
     else
       itoa (s div 86400) @ '' days '' @ itoa (s div 3600 mod 24) @ '' hours ''
         @ itoa (s div 60 mod 60) @ '' minutes '' @ itoa (s mod 60) @ '' seconds'')"
proof -
  have sb: "s < 2 ^ 34" using assms by (simp add: int64_ok_def second_def)
  have S: "second * s div second = s" "second * s mod second = 0" by (simp_all add: second_def)
  have M: "second * s div minute = s div 60" "second * s mod minute = second * (s mod 60)"
    by (simp_all only: minute_def mult.commute [of 60 second] mult_mod_right [symmetric] mod_mult_mult1)
      (simp add: second_def)
  have H: "second * s div hour = s div 3600" "second * s mod hour = second * (s mod 3600)"
    by (simp_all add: hour_def minute_def second_def mult_mod_right)
  have m60: "s mod 60 \<le> 59" and m3600: "s mod 3600 \<le> 3599" by simp_all
  let ?S = "in_units (second * s) second" and ?M = "in_units (second * s) minute" and ?H = "in_units (second * s) hour"
  have units: "of_int s \<le> ?S" "?S \<le> of_int s + 4095 / 4096"
    "of_int (s div 60) \<le> ?M" "?M \<le> of_int (s div 60) + 4095 / 4096"
    "of_int (s div 3600) \<le> ?H" "?H \<le> of_int (s div 3600) + 4095 / 4096"
    using in_units_whole [of "second * s" second] in_units_whole [of "second * s" minute]
      in_units_whole [of "second * s" hour] assms(1) sb m60 m3600
    unfolding S M H by (simp_all add: second_def minute_def hour_def)
  have S1: "?S < of_int s + 1" and M1: "?M < of_int (s div 60) + 1" and H1: "?H < of_int (s div 3600) + 1"
    using units by linarith+
  have nn: "0 \<le> s div 60" "0 \<le> s div 3600" "s div 3600 < 2 ^ 32" using assms(1) sb by simp_all
  have cond: "?S < 60 \<longleftrightarrow> s < 60" "?M < 60 \<longleftrightarrow> s < 3600" "?H < 24 \<longleftrightarrow> s < 86400"
    using less_between [OF units(1) S1, of 60] less_between [OF units(3) M1, of 60] less_between [OF units(5) H1, of 24]
    by auto
  have whole: "trunc_rat ?S = s" "trunc_rat ?M = s div 60" "trunc_rat ?H = s div 3600"
    "trunc_rat (float64 (?H / 24)) = s div 86400"
    using trunc_between [OF assms(1) units(1) S1] trunc_between [OF nn(1) units(3) M1] trunc_between [OF nn(2) units(5) H1]
      days_between [OF nn(2,3) units(5,6)]
    by simp_all
  have rest: "trunc_rat (float_mod ?S 60) = s mod 60" "trunc_rat (float_mod ?M 60) = s div 60 mod 60"
    "trunc_rat (float_mod ?H 24) = s div 3600 mod 24"
    using mod_between [OF assms(1) _ units(1) S1, of 60] mod_between [OF nn(1) _ units(3) M1, of 60]
      mod_between [OF nn(2) _ units(5) H1, of 24]
    by simp_all
  show ?thesis by (simp only: human_string_def Let_def cond whole rest)
qed


theorem human_string_exact_witness:
  "human_string (second * 93784) = ''1 days 2 hours 3 minutes 4 seconds''"
proof -
  have "digits 1 = ''1''" "digits 2 = ''2''" "digits 3 = ''3''" "digits 4 = ''4''" by code_simp+
  then show ?thesis using human_string_exact [of 93784] by (simp add: int64_ok_def second_def itoa_def)
qed

section \<open>Lemmas on the identifier\<close>

text \<open>
  C33. Once the agent has an identifier, every later start finds the same one: whatever identifiers
  would be drawn, the file is read and left alone.  No other file is touched.  The one way to lose
  an identifier is a file that exists but cannot be read or parsed: it is overwritten.
\<close>

theorem agent_id_stable:
  assumes "load_or_create_agent_id u readable mkdir w (Some c) fs = (fs', Inr i)"
    and "up_parse u (up_str u (up_new u)) = Some (up_new u)"
    and "up_str u (up_new u) \<noteq> ''''" "\<forall>b \<in> set (up_str u (up_new u)). printable b"
  shows "load_or_create_agent_id (u\<lparr>up_new := j\<rparr>) True mkdir' w' (Some c) fs' = (fs', Inr i)
    \<and> (\<forall>p. p \<noteq> agent_id_path (cf_state_dir c) \<longrightarrow> mget fs' p = mget fs p)
    \<and> (stored_agent_id u readable (agent_id_path (cf_state_dir c)) fs = Some k \<longrightarrow> i = k \<and> fs' = fs)"
proof -
  let ?p = "agent_id_path (cf_state_dir c)" and ?t = "up_str u (up_new u)"
  have dir: "cf_state_dir c \<noteq> ''''" using assms(1) by (auto simp: load_or_create_agent_id_def)
  show ?thesis
  proof (cases "stored_agent_id u readable ?p fs")
    case (Some k')
    then have "i = k'" "fs' = fs" using assms(1) dir by (simp_all add: load_or_create_agent_id_def Let_def)
    moreover have "stored_agent_id (u\<lparr>up_new := j\<rparr>) True ?p fs = Some k'"
      using Some by (auto simp: stored_agent_id_def split: if_splits option.splits)
    ultimately show ?thesis using Some dir by (simp add: load_or_create_agent_id_def Let_def)
  next
    case None
    have "trim_space (?t @ nl) = ?t" using assms(3,4) by (intro trim_space_newline) auto
    moreover from None have "i = up_new u" "fs' = mput ?p (?t @ nl) fs"
      using assms(1) dir
      by (auto simp: load_or_create_agent_id_def Let_def write_file_def split: if_splits write_outcome.splits option.splits)
    ultimately have "stored_agent_id (u\<lparr>up_new := j\<rparr>) True ?p fs' = Some i" "\<forall>p. p \<noteq> ?p \<longrightarrow> mget fs' p = mget fs p"
      using assms(2) by (simp_all add: stored_agent_id_def)
    then show ?thesis using None dir by (simp add: load_or_create_agent_id_def Let_def)
  qed
qed


definition example_uuids :: "nat uuid_pkg" where
  "example_uuids = \<lparr>up_parse = digits_value 0, up_str = digits, up_new = 7\<rparr>"

theorem agent_id_stable_witness:
  "load_or_create_agent_id (example_uuids\<lparr>up_new := 8\<rparr>) True False WriteOk (Some (example_config\<lparr>cf_state_dir := ''d''\<rparr>))
     [(''d/agent_id'', ''7'' @ nl)] = ([(''d/agent_id'', ''7'' @ nl)], Inr 7)"
proof -
  let ?c = "example_config\<lparr>cf_state_dir := ''d''\<rparr>"
  have p: "agent_id_path ''d'' = ''d/agent_id''" by code_simp
  have d: "digits 7 = ''7''" by code_simp
  have first: "load_or_create_agent_id example_uuids True True WriteOk (Some ?c) [] = ([(''d/agent_id'', ''7'' @ nl)], Inr 7)"
    by (simp add: load_or_create_agent_id_def Let_def p stored_agent_id_def write_file_def example_uuids_def d mput_def)
  have "load_or_create_agent_id (example_uuids\<lparr>up_new := 8\<rparr>) True False WriteOk (Some ?c)
      [(''d/agent_id'', ''7'' @ nl)] = ([(''d/agent_id'', ''7'' @ nl)], Inr 7)"
    using agent_id_stable [OF first, of 8 False WriteOk]
    by (simp add: example_uuids_def digits_value_digits printable_def byte_def d)
  then show ?thesis .
qed

text \<open>An identifier that cannot be read for a moment is replaced for good.\<close>

theorem unreadable_id_replaced:
  assumes "cf_state_dir c \<noteq> ''''"
  shows "load_or_create_agent_id u False True WriteOk (Some c) fs =
    (mput (agent_id_path (cf_state_dir c)) (up_str u (up_new u) @ nl) fs, Inr (up_new u))"
  using assms by (simp add: load_or_create_agent_id_def Let_def stored_agent_id_def write_file_def)

text \<open>
  Every \<open>uint64\<close> is printed, with the largest unit that leaves at least one of it: the loop
  multiplies no divisor past 64 bits and picks no letter past the last one.
\<close>

theorem human_bytes_units:
  assumes "b < 2 ^ 64"
  shows "(b < 1024 \<longrightarrow> human_bytes b = Some (digits b @ '' B''))
    \<and> (1024 \<le> b \<longrightarrow> (\<exists>e < 6. 1024 ^ (e + 1) \<le> b \<and> b < 1024 ^ (e + 2)
        \<and> human_bytes b = Some (fixed1 (float64 (float64 (of_nat b) / 1024 ^ (e + 1))) @ '' '' @ [''KMGTPE'' ! e] @ ''iB'')))"
  using human_bytes_correct [OF assms] by (simp add: human_bytes_def)


end
