(* ===== verification/Bedrock.thy ===== *)
theory Bedrock
  imports AIMessages
begin

text \<open>
  The conversions between the chat protocol and the Bedrock Converse API
  (\<open>diagnose/aiclient/bedrock.go\<close>).  A raw JSON value is its text; \<open>json_valid\<close> is
  \<open>json.Valid\<close> and \<open>json_string\<close> the encoding of a string as JSON.
\<close>

section \<open>Types\<close>

datatype block =
  Text string
| ToolUse string string string
| ToolResult string string

record bedrock_message =
  bm_role :: string
  bm_content :: "block list"

record bedrock_tool_spec =
  bt_name :: string
  bt_description :: string
  bt_schema :: "parameters_schema option"

record bedrock_request =
  br_system :: "string list"
  br_messages :: "bedrock_message list"
  br_max_tokens :: int
  br_tools :: "bedrock_tool_spec list option"

text \<open>A block of a reply may carry a text and a tool use at once.\<close>

record reply_block =
  rb_text :: string
  rb_tool_use :: "(string \<times> string \<times> string) option"

record bedrock_response =
  bo_content :: "reply_block list option"
  bo_stop_reason :: string
  bo_usage :: "(int \<times> int \<times> int) option"

section \<open>Requests\<close>

fun call_blocks :: "(string \<Rightarrow> bool) \<Rightarrow> (string \<Rightarrow> string) \<Rightarrow> tool_call list \<Rightarrow> block list" where
  "call_blocks json_valid json_string [] = []"
| "call_blocks json_valid json_string (tc # tcs) =
     (let raw = fc_arguments (tcall_function tc);
          raw = (if \<not> json_valid raw then json_string (fc_arguments (tcall_function tc)) else raw)
      in ToolUse (tcall_id tc) (fc_name (tcall_function tc)) raw # call_blocks json_valid json_string tcs)"

definition convert_assistant_message :: "(string \<Rightarrow> bool) \<Rightarrow> (string \<Rightarrow> string) \<Rightarrow> message \<Rightarrow> bedrock_message" where
  "convert_assistant_message json_valid json_string msg =
     (let blocks = (if content msg \<noteq> '''' then [Text (content msg)] else [])
                   @ call_blocks json_valid json_string (tool_calls msg);
          blocks = (if length blocks = 0 then [Text ''''] else blocks)
      in \<lparr>bm_role = ''assistant'', bm_content = blocks\<rparr>)"

definition convert_tool_result_message :: "message \<Rightarrow> bedrock_message" where
  "convert_tool_result_message msg =
     \<lparr>bm_role = ''user'', bm_content = [ToolResult (tool_call_id msg) (content msg)]\<rparr>"

definition convert_message :: "(string \<Rightarrow> bool) \<Rightarrow> (string \<Rightarrow> string) \<Rightarrow> message \<Rightarrow> bedrock_message" where
  "convert_message json_valid json_string msg =
     (if role msg = ''assistant'' then convert_assistant_message json_valid json_string msg
      else if role msg = ''tool'' then convert_tool_result_message msg
      else \<lparr>bm_role = ''user'', bm_content = [Text (content msg)]\<rparr>)"

fun merge_loop :: "bedrock_message list \<Rightarrow> bedrock_message list \<Rightarrow> bedrock_message list" where
  "merge_loop merged [] = merged"
| "merge_loop merged (m # ms) =
     (if bm_role m = bm_role (last merged)
      then merge_loop (butlast merged @ [(last merged)\<lparr>bm_content := bm_content (last merged) @ bm_content m\<rparr>]) ms
      else merge_loop (merged @ [m]) ms)"

definition merge_consecutive_messages :: "bedrock_message list \<Rightarrow> bedrock_message list" where
  "merge_consecutive_messages msgs =
     (if length msgs = 0 then msgs else merge_loop [msgs ! 0] (drop 1 msgs))"

fun split_system ::
  "(string \<Rightarrow> bool) \<Rightarrow> (string \<Rightarrow> string) \<Rightarrow> message list \<Rightarrow> string list \<times> bedrock_message list" where
  "split_system json_valid json_string [] = ([], [])"
| "split_system json_valid json_string (m # ms) =
     (let (sys, rest) = split_system json_valid json_string ms in
      if role m = ''system'' then (content m # sys, rest)
      else (sys, convert_message json_valid json_string m # rest))"

definition convert_tools :: "ai_tool list \<Rightarrow> bedrock_tool_spec list" where
  "convert_tools tools =
     map (\<lambda>t. \<lparr>bt_name = tf_name (tool_fn t), bt_description = tf_description (tool_fn t),
                bt_schema = tf_parameters (tool_fn t)\<rparr>) tools"

definition build_converse_request ::
  "(string \<Rightarrow> bool) \<Rightarrow> (string \<Rightarrow> string) \<Rightarrow> int \<Rightarrow> message list \<Rightarrow> ai_tool list \<Rightarrow> bedrock_request" where
  "build_converse_request json_valid json_string max_tokens messages tools =
     (let (sys, msgs) = split_system json_valid json_string messages in
      \<lparr>br_system = sys, br_messages = merge_consecutive_messages msgs, br_max_tokens = max_tokens,
       br_tools = (if length tools > 0 then Some (convert_tools tools) else None)\<rparr>)"

section \<open>Responses\<close>

fun reply_texts :: "reply_block list \<Rightarrow> string list" where
  "reply_texts [] = []"
| "reply_texts (b # bs) = (if rb_text b \<noteq> '''' then rb_text b # reply_texts bs else reply_texts bs)"

fun reply_calls :: "reply_block list \<Rightarrow> tool_call list" where
  "reply_calls [] = []"
| "reply_calls (b # bs) =
     (case rb_tool_use b of
        None \<Rightarrow> reply_calls bs
      | Some (i, n, inp) \<Rightarrow>
          \<lparr>tcall_id = i, tcall_type = ''function'', tcall_function = \<lparr>fc_name = n, fc_arguments = inp\<rparr>\<rparr> # reply_calls bs)"

definition to_chat_response :: "bedrock_response \<Rightarrow> chat_response" where
  "to_chat_response resp =
     (let msg = zero_message\<lparr>role := ''assistant''\<rparr>;
          msg = (case bo_content resp of
              None \<Rightarrow> msg
            | Some bs \<Rightarrow> msg\<lparr>tool_calls := reply_calls bs, content := join nl (reply_texts bs)\<rparr>);
          fin = (if bo_stop_reason resp = ''tool_use'' then ''tool_calls''
                 else if bo_stop_reason resp = ''max_tokens'' then ''length'' else ''stop'');
          u = (case bo_usage resp of
              None \<Rightarrow> zero_usage
            | Some (inp, out, tot) \<Rightarrow>
                \<lparr>prompt_tokens = inp, completion_tokens = out,
                 total_usage = (if tot = 0 then wrap64 (inp + out) else tot)\<rparr>)
      in \<lparr>resp_id = '''', choices = [\<lparr>ch_index = 0, ch_message = msg, finish_reason = fin\<rparr>], resp_usage = u\<rparr>)"

section \<open>Lemmas\<close>

fun alternating :: "bedrock_message list \<Rightarrow> bool" where
  "alternating (a # b # ms) = (bm_role a \<noteq> bm_role b \<and> alternating (b # ms))"
| "alternating ms = True"

definition all_blocks :: "bedrock_message list \<Rightarrow> block list" where
  "all_blocks ms = concat (map bm_content ms)"

lemma alternating_snoc:
  "alternating (ms @ [m]) \<longleftrightarrow> alternating ms \<and> (ms \<noteq> [] \<longrightarrow> bm_role (last ms) \<noteq> bm_role m)"
  by (induction ms rule: alternating.induct) auto

lemma merge_loop_correct:
  "merged \<noteq> [] \<Longrightarrow> alternating merged \<Longrightarrow>
   alternating (merge_loop merged ms) \<and> all_blocks (merge_loop merged ms) = all_blocks merged @ all_blocks ms"
proof (induction merged ms rule: merge_loop.induct)
  case (1 merged)
  then show ?case by (auto simp: all_blocks_def)
next
  case (2 merged m ms)
  let ?l = "(last merged)\<lparr>bm_content := bm_content (last merged) @ bm_content m\<rparr>"
  have m: "butlast merged @ [last merged] = merged" using "2.prems"(1) by simp
  show ?case
  proof (cases "bm_role m = bm_role (last merged)")
    case True
    have "alternating (butlast merged @ [?l])"
      using "2.prems"(2) alternating_snoc [of "butlast merged" "last merged"] m by (simp add: alternating_snoc)
    moreover have "all_blocks merged = all_blocks (butlast merged @ [last merged])" using m by simp
    then have "all_blocks (butlast merged @ [?l]) = all_blocks merged @ bm_content m"
      by (simp add: all_blocks_def)
    ultimately show ?thesis
      using "2.IH"(1) [OF True] True by (simp add: all_blocks_def)
  next
    case False
    have "alternating (merged @ [m])"
      using "2.prems" False by (simp add: alternating_snoc)
    with "2.IH"(2) [OF False] False show ?thesis by (simp add: all_blocks_def)
  qed
qed

lemma merge_loop_roles:
  "merged \<noteq> [] \<Longrightarrow> bm_role ` set (merge_loop merged ms) \<subseteq> bm_role ` set merged \<union> bm_role ` set ms"
proof (induction merged ms rule: merge_loop.induct)
  case (1 merged)
  then show ?case by simp
next
  case (2 merged m ms)
  have b: "bm_role ` set (butlast merged) \<subseteq> bm_role ` set merged" by (auto dest: in_set_butlastD)
  have l: "bm_role (last merged) \<in> bm_role ` set merged" using "2.prems" by simp
  show ?case
  proof (cases "bm_role m = bm_role (last merged)")
    case True
    have "bm_role ` set (merge_loop merged (m # ms))
        \<subseteq> insert (bm_role (last merged)) (bm_role ` set (butlast merged)) \<union> bm_role ` set ms"
      using "2.IH"(1) [OF True] True by simp
    also have "\<dots> \<subseteq> bm_role ` set merged \<union> bm_role ` set (m # ms)"
      using b l by (intro Un_mono) (simp_all add: subset_insertI)
    finally show ?thesis .
  next
    case False
    then have "bm_role ` set (merge_loop merged (m # ms)) \<subseteq> insert (bm_role m) (bm_role ` set merged) \<union> bm_role ` set ms"
      using "2.IH"(2) [OF False] by simp
    then show ?thesis by auto
  qed
qed

lemma split_system_blocks:
  "split_system jv js ms = (sys, msgs) \<Longrightarrow>
     sys = map content (filter (\<lambda>m. role m = ''system'') ms)
     \<and> msgs = map (convert_message jv js) (filter (\<lambda>m. role m \<noteq> ''system'') ms)"
  by (induction ms arbitrary: sys msgs) (auto simp: Let_def split: prod.splits if_splits)

lemma convert_message_role: "bm_role (convert_message jv js m) \<in> {''user'', ''assistant''}"
  by (simp add: convert_message_def convert_assistant_message_def convert_tool_result_message_def Let_def)

text \<open>
  C25. A Bedrock request alternates strictly between user and assistant turns, as the service
  demands, and loses nothing: its blocks are the blocks of the converted messages in order, and
  the system prompts are sent apart.
\<close>

theorem bedrock_alternates:
  fixes ms :: "message list" and jv js mt tools
  defines "r \<equiv> build_converse_request jv js mt ms tools"
  shows "alternating (br_messages r)
    \<and> all_blocks (br_messages r) =
        concat (map (\<lambda>m. bm_content (convert_message jv js m)) (filter (\<lambda>m. role m \<noteq> ''system'') ms))
    \<and> br_system r = map content (filter (\<lambda>m. role m = ''system'') ms)
    \<and> bm_role ` set (br_messages r) \<subseteq> {''user'', ''assistant''}"
proof -
  obtain sys msgs where sp: "split_system jv js ms = (sys, msgs)" by force
  note s = split_system_blocks [OF sp]
  have r: "br_messages r = merge_consecutive_messages msgs" "br_system r = sys"
    by (simp_all add: r_def build_converse_request_def sp)
  have A: "alternating (merge_consecutive_messages msgs) \<and> all_blocks (merge_consecutive_messages msgs) = all_blocks msgs
      \<and> bm_role ` set (merge_consecutive_messages msgs) \<subseteq> bm_role ` set msgs"
  proof (cases msgs)
    case Nil
    then show ?thesis by (simp add: merge_consecutive_messages_def)
  next
    case (Cons m msgs')
    then show ?thesis
      using merge_loop_correct [of "[m]" msgs'] merge_loop_roles [of "[m]" msgs']
      by (simp add: merge_consecutive_messages_def all_blocks_def)
  qed
  have "bm_role ` set msgs \<subseteq> {''user'', ''assistant''}"
    using s convert_message_role by fastforce
  with A have B: "bm_role ` set (merge_consecutive_messages msgs) \<subseteq> {''user'', ''assistant''}"
    by (meson subset_trans)
  have C: "all_blocks msgs = concat (map (\<lambda>m. bm_content (convert_message jv js m)) (filter (\<lambda>m. role m \<noteq> ''system'') ms))"
    using s by (simp add: all_blocks_def comp_def)
  show ?thesis
    unfolding r using A B C s by simp
qed

text \<open>A tool call survives the round trip through a request block and a reply block.\<close>

lemma tool_call_round_trip:
  "json_valid (fc_arguments (tcall_function tc)) \<Longrightarrow> tcall_type tc = ''function'' \<Longrightarrow>
   reply_calls (map (\<lambda>b. case b of ToolUse i n inp \<Rightarrow> \<lparr>rb_text = '''', rb_tool_use = Some (i, n, inp)\<rparr>
      | _ \<Rightarrow> \<lparr>rb_text = '''', rb_tool_use = None\<rparr>) (call_blocks json_valid json_string [tc])) = [tc]"
  by (simp add: Let_def)

end
