(* ===== verification/AIRequests.thy ===== *)
theory AIRequests
  imports Signing Settings Bedrock AIClient
begin

text \<open>
  The requests of the three AI clients, from the conversation to the error or reply: the OpenAI
  compatible client (\<open>client.go\<close>), the Bedrock client (\<open>bedrock.go\<close>) and the gateway client
  (\<open>server_client.go\<close>, \<open>server_types.go\<close>), and their construction from the configuration
  (\<open>failover.go\<close>).  The parameters are \<open>encoding/json\<close> on the request and reply types, the URL
  parser and the transport: \<open>he_do\<close> gives what an exchange of a request ended with.
\<close>

section \<open>Exchanges\<close>

record http_env =
  he_parse :: "string \<Rightarrow> string + url"
  he_do :: "http_request \<Rightarrow> exchange"

definition new_request :: "http_env \<Rightarrow> string \<Rightarrow> string \<Rightarrow> string \<Rightarrow> string + http_request" where
  "new_request env meth addr body =
     (case he_parse env addr of
        Inl e \<Rightarrow> Inl e
      | Inr u \<Rightarrow> Inr \<lparr>hr_method = meth, hr_host = u_host u, hr_path = u_path u, hr_raw_query = u_raw_query u,
                       hr_header = [], hr_body = body\<rparr>)"

text \<open>The reader of a reply stops after 10 MB.\<close>

definition maxResponseBody :: nat where
  "maxResponseBody = 10 * 2 ^ 20"

fun limit_reply :: "exchange \<Rightarrow> exchange" where
  "limit_reply (Reply st b) = Reply st (take maxResponseBody b)"
| "limit_reply x = x"

section \<open>The OpenAI-compatible client\<close>

record openai_client =
  oc_base_url :: string
  oc_api_key :: string
  oc_model :: string
  oc_max_tokens :: int
  oc_max_completion_tokens :: int
  oc_extra_body :: "(string, extra_value) gomap"
  oc_timeout :: int

definition new_client :: "string \<Rightarrow> string \<Rightarrow> string \<Rightarrow> int \<Rightarrow> int \<Rightarrow> int \<Rightarrow> (string, extra_value) gomap \<Rightarrow> openai_client" where
  "new_client base_url api_key model max_tokens max_completion_tokens timeout extra =
     \<lparr>oc_base_url = trim_right {CHR ''/''} base_url, oc_api_key = api_key, oc_model = model, oc_max_tokens = max_tokens,
      oc_max_completion_tokens = max_completion_tokens, oc_extra_body = extra, oc_timeout = timeout\<rparr>"

text \<open>\<open>enc\<close> is \<open>json.Marshal\<close> of the body, \<open>dec\<close> the decoding of a reply.\<close>

definition openai_request ::
  "http_env \<Rightarrow> ((string, extra_value body_value) gomap \<Rightarrow> string + string) \<Rightarrow> openai_client \<Rightarrow> message list \<Rightarrow> ai_tool list
   \<Rightarrow> go_error + http_request" where
  "openai_request env enc c messages tools =
     (case enc (build_request_payload (oc_extra_body c) (oc_model c) (oc_max_tokens c) (oc_max_completion_tokens c) messages tools) of
        Inl e \<Rightarrow> Inl (Wrapped ''marshal request'' (Plain e))
      | Inr payload \<Rightarrow>
          (case new_request env ''POST'' (oc_base_url c @ ''/chat/completions'') payload of
             Inl e \<Rightarrow> Inl (Wrapped ''create request'' (Plain e))
           | Inr rq \<Rightarrow>
               let rq = header_set ''Content-Type'' ''application/json'' rq
               in Inr (if oc_api_key c \<noteq> '''' then header_set ''Authorization'' (''Bearer '' @ oc_api_key c) rq else rq)))"

definition openai_chat ::
  "http_env \<Rightarrow> ((string, extra_value body_value) gomap \<Rightarrow> string + string) \<Rightarrow> (string \<Rightarrow> string + chat_response)
   \<Rightarrow> openai_client \<Rightarrow> message list \<Rightarrow> ai_tool list \<Rightarrow> go_error + chat_response" where
  "openai_chat env enc dec c messages tools =
     (case openai_request env enc c messages tools of
        Inl e \<Rightarrow> Inl e
      | Inr rq \<Rightarrow> client_chat dec (limit_reply (he_do env rq)))"

section \<open>The Bedrock client\<close>

record bedrock_client =
  bc_region :: string
  bc_model :: string
  bc_max_tokens :: int
  bc_creds :: aws_credentials
  bc_timeout :: int

definition new_bedrock_client :: "string \<Rightarrow> string \<Rightarrow> int \<Rightarrow> int \<Rightarrow> aws_credentials \<Rightarrow> bedrock_client" where
  "new_bedrock_client region model max_tokens timeout creds =
     \<lparr>bc_region = region, bc_model = model, bc_max_tokens = max_tokens, bc_creds = creds, bc_timeout = timeout\<rparr>"

record bedrock_codec =
  bk_valid :: "string \<Rightarrow> bool"
  bk_string :: "string \<Rightarrow> string"
  bk_enc :: "bedrock_request \<Rightarrow> string + string"
  bk_dec :: "string \<Rightarrow> string + bedrock_response"

definition bedrock_url :: "bedrock_client \<Rightarrow> string" where
  "bedrock_url b = ''https://bedrock-runtime.'' @ bc_region b @ ''.amazonaws.com/model/'' @ bc_model b @ ''/converse''"

definition bedrock_http_request ::
  "http_env \<Rightarrow> bedrock_codec \<Rightarrow> int \<Rightarrow> bedrock_client \<Rightarrow> message list \<Rightarrow> ai_tool list \<Rightarrow> go_error + http_request" where
  "bedrock_http_request env k now b messages tools =
     (case bk_enc k (build_converse_request (bk_valid k) (bk_string k) (bc_max_tokens b) messages tools) of
        Inl e \<Rightarrow> Inl (Wrapped ''marshal bedrock request'' (Plain e))
      | Inr payload \<Rightarrow>
          (case new_request env ''POST'' (bedrock_url b) payload of
             Inl e \<Rightarrow> Inl (Wrapped ''create request'' (Plain e))
           | Inr rq \<Rightarrow>
               Inr (sign_v4 (hash_sha256 payload) (bc_region b) ''bedrock'' (bc_creds b) now
                 (header_set ''Accept'' ''application/json'' (header_set ''Content-Type'' ''application/json'' rq)))))"

definition bedrock_reply :: "(string \<Rightarrow> string + bedrock_response) \<Rightarrow> exchange \<Rightarrow> go_error + chat_response" where
  "bedrock_reply dec x =
     (case x of
        Failed e \<Rightarrow> Inl (Wrapped ''http request'' e)
      | Unread e \<Rightarrow> Inl (Wrapped ''read response'' e)
      | Reply st body \<Rightarrow>
          if st \<noteq> 200 then Inl (APIError st (trunc_str body 1024))
          else case dec body of
            Inl e \<Rightarrow> Inl (Wrapped ''unmarshal bedrock response'' (Plain (e @ '' (body: '' @ trunc_str body 200 @ '')'')))
          | Inr r \<Rightarrow> Inr (to_chat_response r))"

definition bedrock_chat ::
  "http_env \<Rightarrow> bedrock_codec \<Rightarrow> int \<Rightarrow> bedrock_client \<Rightarrow> message list \<Rightarrow> ai_tool list \<Rightarrow> go_error + chat_response" where
  "bedrock_chat env k now b messages tools =
     (case bedrock_http_request env k now b messages tools of
        Inl e \<Rightarrow> Inl e
      | Inr rq \<Rightarrow> bedrock_reply (bk_dec k) (limit_reply (he_do env rq)))"

section \<open>The gateway client\<close>

record gateway_metadata =
  gm_diagnose_id :: string
  gm_session_id :: string
  gm_machine_id :: string
  gm_plugin :: string
  gm_target :: string
  gm_request_source :: string

definition no_metadata :: gateway_metadata where
  "no_metadata =
     \<lparr>gm_diagnose_id = '''', gm_session_id = '''', gm_machine_id = '''', gm_plugin = '''', gm_target = '''', gm_request_source = ''''\<rparr>"

record gateway_request =
  gq_messages :: "message list"
  gq_tools :: "ai_tool list"
  gq_max_tokens :: int
  gq_timeout_ms :: int
  gq_metadata :: gateway_metadata

text \<open>A context as far as it carries metadata: nil, without, or with the innermost one.\<close>

type_synonym meta_context = "gateway_metadata option option"

definition with_gateway_metadata :: "meta_context \<Rightarrow> gateway_metadata \<Rightarrow> meta_context" where
  "with_gateway_metadata ctx md = Some (Some md)"

definition gateway_metadata_from :: "meta_context \<Rightarrow> gateway_metadata" where
  "gateway_metadata_from ctx = (case ctx of None \<Rightarrow> no_metadata | Some m \<Rightarrow> (case m of None \<Rightarrow> no_metadata | Some md \<Rightarrow> md))"

record server_client =
  sc_base_url :: string
  sc_agent_token :: string
  sc_agent_id :: string
  sc_scene :: string
  sc_max_tokens :: int
  sc_timeout :: int

definition new_server_client ::
  "('u \<Rightarrow> string) \<Rightarrow> string + 'u \<Rightarrow> string \<Rightarrow> string \<Rightarrow> string \<Rightarrow> int \<Rightarrow> int \<Rightarrow> go_error + server_client" where
  "new_server_client str agent base_url token scene max_tokens timeout =
     (case agent of
        Inl e \<Rightarrow> Inl (Wrapped ''load agent_id'' (Plain e))
      | Inr i \<Rightarrow> Inr \<lparr>sc_base_url = trim_right {CHR ''/''} base_url, sc_agent_token = token, sc_agent_id = str i, sc_scene = scene,
                       sc_max_tokens = max_tokens, sc_timeout = timeout\<rparr>)"

definition server_client_model :: "server_client \<Rightarrow> string" where
  "server_client_model c = ''server:'' @ sc_scene c"

definition gateway_http_request ::
  "http_env \<Rightarrow> (gateway_request \<Rightarrow> string + string) \<Rightarrow> server_client \<Rightarrow> meta_context \<Rightarrow> message list \<Rightarrow> ai_tool list
   \<Rightarrow> go_error + http_request" where
  "gateway_http_request env enc c ctx messages tools =
     (case enc \<lparr>gq_messages = messages, gq_tools = tools, gq_max_tokens = sc_max_tokens c,
                gq_timeout_ms = quot (sc_timeout c) millisecond, gq_metadata = gateway_metadata_from ctx\<rparr> of
        Inl e \<Rightarrow> Inl (Wrapped ''marshal request'' (Plain e))
      | Inr body \<Rightarrow>
          (case new_request env ''POST'' (sc_base_url c @ ''/chat'') body of
             Inl e \<Rightarrow> Inl (Wrapped ''create request'' (Plain e))
           | Inr rq \<Rightarrow>
               let rq = header_set ''Content-Type'' ''application/json'' rq;
                   rq = (if sc_agent_token c \<noteq> '''' then header_set ''X-Agent-Token'' (sc_agent_token c) rq else rq)
               in Inr (header_set ''X-Agent-Scene'' (sc_scene c) (header_set ''X-Agent-ID'' (sc_agent_id c) rq))))"

definition gateway_chat ::
  "http_env \<Rightarrow> (gateway_request \<Rightarrow> string + string) \<Rightarrow> (string \<Rightarrow> string + gateway_envelope)
   \<Rightarrow> server_client \<Rightarrow> meta_context \<Rightarrow> message list \<Rightarrow> ai_tool list \<Rightarrow> go_error + chat_response" where
  "gateway_chat env enc dec c ctx messages tools =
     (case gateway_http_request env enc c ctx messages tools of
        Inl e \<Rightarrow> Inl e
      | Inr rq \<Rightarrow> server_client_chat dec (limit_reply (he_do env rq)))"

section \<open>Choosing the client of a model\<close>

datatype chat_client = OpenAI openai_client | Bedrock bedrock_client | Gateway server_client

definition new_chat_client :: "model_config \<Rightarrow> int \<Rightarrow> chat_client" where
  "new_chat_client m timeout =
     (if mc_provider m = ''bedrock'' then
        Bedrock (new_bedrock_client (extra_str m ''aws_region'') (mc_model m) (mc_max_tokens m) timeout
          \<lparr>aws_key_id = extra_str m ''aws_access_key_id'', aws_secret = extra_str m ''aws_secret_access_key'',
           aws_session = extra_str m ''aws_session_token''\<rparr>)
      else
        OpenAI (new_client (mc_base_url m) (mc_api_key m) (mc_model m) (mc_max_tokens m) (mc_max_completion_tokens m) timeout
          (case mc_extra_body m of None \<Rightarrow> [] | Some x \<Rightarrow> x)))"

fun client_model :: "chat_client \<Rightarrow> string" where
  "client_model (OpenAI c) = oc_model c"
| "client_model (Bedrock b) = bc_model b"
| "client_model (Gateway c) = server_client_model c"


section \<open>Lemmas\<close>

lemma json_header_tokens:
  "list_all token_char ''Content-Type''" "list_all token_char ''Accept''"
  "map lower_char ''Content-Type'' \<noteq> ''host''" "map lower_char ''Accept'' \<noteq> ''host''"
  by (simp_all add: token_char_def lower_char_def byte_def)

lemma squeeze_no_space: "CHR '' '' \<notin> set v \<Longrightarrow> squeeze (trim_space v) = trim_space v"
proof -
  have sq: "CHR '' '' \<notin> set s \<Longrightarrow> squeeze s = s" for s by (induction s rule: squeeze.induct) auto
  have tf: "set (trim_front es s) \<subseteq> set s" for es s
  proof (induction es s rule: trim_front.induct)
    case (1 es s)
    show ?case
    proof (cases "find (\<lambda>e. e \<noteq> '''' \<and> has_prefix s e) es")
      case None
      then show ?thesis by (subst trim_front.simps) simp
    next
      case (Some e)
      then have "set (trim_front es (drop (length e) s)) \<subseteq> set s" using 1 [OF Some] set_drop_subset [of "length e" s] by blast
      then show ?thesis using Some by (subst trim_front.simps) simp
    qed
  qed
  assume "CHR '' '' \<notin> set v"
  then have "CHR '' '' \<notin> set (trim_space v)"
    using tf [of "map rev space_encodings" "rev (trim_front space_encodings v)"] tf [of space_encodings v]
    by (auto simp: trim_space_def)
  then show ?thesis by (rule sq)
qed

lemma signed_values_no_space: "CHR '' '' \<notin> set (amz_date now)" "CHR '' '' \<notin> set (hash_sha256 payload)"
proof -
  have "CHR '' '' \<notin> set (digits n)" for n using digits_bytes [of "CHR '' ''" n] by (auto simp: byte_def)
  then have "CHR '' '' \<notin> set (pad_digits j i)" for j i by (auto simp: pad_digits_def Let_def)
  then show "CHR '' '' \<notin> set (amz_date now)" by (simp add: amz_date_def date_stamp_def Let_def case_prod_unfold)
  have "\<not> hex_char (CHR '' '')" by (simp add: hex_char_def byte_def)
  then show "CHR '' '' \<notin> set (hash_sha256 payload)"
    using hex_plain [of "sha256 payload"] by (auto simp: hash_sha256_def list_all_iff)
qed

definition values_all :: "(string \<Rightarrow> bool) \<Rightarrow> http_request \<Rightarrow> bool" where
  "values_all P rq \<longleftrightarrow> go_map_ok (hr_header rq) \<and> (\<forall>(k, v) \<in> set (hr_header rq). P v)"

lemma values_all_set: "values_all P rq \<Longrightarrow> P v' \<Longrightarrow> values_all P (header_set k' v' rq)"
proof -
  assume h: "values_all P rq" "P v'"
  have ok: "go_map_ok (mput key v' (hr_header rq))" for key using h(1) by (simp add: values_all_def)
  have "P v" if "(k, v) \<in> set (mput key v' (hr_header rq))" for k v key
  proof -
    have "mget (mput key v' (hr_header rq)) k = Some v"
      using ok [of key] that unfolding go_map_ok_def by (rule map_of_is_SomeI)
    then show ?thesis using h by (auto simp: values_all_def dest: map_of_SomeD split: if_splits)
  qed
  then show ?thesis using ok by (auto simp: values_all_def header_set_def)
qed

text \<open>
  C27. A Bedrock request carries the encoded conversation, the hash of exactly that body and an
  authorization made from its own headers.  What is signed is the canonical request of the
  specification if and only if the model name has only unreserved characters and slashes: a model
  name with a version suffix such as \<open>:0\<close> is signed in a form the specification does not give.
\<close>

theorem bedrock_request_signed:
  assumes "bedrock_http_request env k now b messages tools = Inr rq"
    and "he_parse env (bedrock_url b) = Inr u" and "u_path u = ''/model/'' @ bc_model b @ ''/converse''"
    and "squeeze (trim_space (aws_session (bc_creds b))) = trim_space (aws_session (bc_creds b))"
  shows "\<exists>payload r.
      bk_enc k (build_converse_request (bk_valid k) (bk_string k) (bc_max_tokens b) messages tools) = Inr payload
    \<and> hr_method rq = ''POST'' \<and> hr_host rq = u_host u \<and> hr_body rq = payload
    \<and> header_get ''x-amz-content-sha256'' rq = hash_sha256 payload
    \<and> rq = header_set ''Authorization'' (authorization (hash_sha256 payload) (bc_region b) ''bedrock'' (bc_creds b) now r) r
    \<and> (build_canonical_request r (fst (build_canonical_headers r)) (snd (build_canonical_headers r)) (hash_sha256 payload)
          = aws_canonical_request r (hash_sha256 payload)
        \<longleftrightarrow> (\<forall>c \<in> set (bc_model b). unreserved c \<or> c = CHR ''/''))"
proof -
  let ?rq0 = "\<lambda>payload. \<lparr>hr_method = ''POST'', hr_host = u_host u, hr_path = u_path u, hr_raw_query = u_raw_query u,
      hr_header = [], hr_body = payload\<rparr>"
  let ?rq1 = "\<lambda>payload. header_set ''Accept'' ''application/json'' (header_set ''Content-Type'' ''application/json'' (?rq0 payload))"
  obtain payload where p: "bk_enc k (build_converse_request (bk_valid k) (bk_string k) (bc_max_tokens b) messages tools) = Inr payload"
    "rq = sign_v4 (hash_sha256 payload) (bc_region b) ''bedrock'' (bc_creds b) now (?rq1 payload)"
    using assms(1,2) by (auto simp: bedrock_http_request_def new_request_def split: sum.splits)
  let ?r = "signed_request (hash_sha256 payload) (bc_creds b) now (?rq1 payload)"
  have "headers_ok (?rq0 payload)" by (simp add: headers_ok_def)
  then have ok1: "headers_ok (?rq1 payload)" by (intro header_set_ok json_header_tokens)
  then have ok: "headers_ok ?r" by (rule signed_request_ok(1))
  have vals: "\<forall>(k, v) \<in> set (hr_header ?r). squeeze (trim_space v) = trim_space v"
  proof -
    let ?P = "\<lambda>v. squeeze (trim_space v) = trim_space v"
    have json: "CHR '' '' \<notin> set ''application/json''" by simp
    have "values_all ?P (?rq0 payload)" by (simp add: values_all_def)
    then have "values_all ?P (header_set ''x-amz-content-sha256'' (hash_sha256 payload)
        (header_set ''x-amz-date'' (amz_date now) (?rq1 payload)))"
      by (intro values_all_set squeeze_no_space signed_values_no_space json)
    then have "values_all ?P ?r" using values_all_set assms(4) by (simp add: signed_request_def Let_def)
    then show ?thesis by (simp add: values_all_def)
  qed
  have path: "hr_path ?r = u_path u" by (simp add: signed_request_def Let_def)
  have plain: "(\<forall>c \<in> set (hr_path ?r). unreserved c \<or> c = CHR ''/'') \<longleftrightarrow> (\<forall>c \<in> set (bc_model b). unreserved c \<or> c = CHR ''/'')"
  proof -
    have "list_all (\<lambda>c. unreserved c \<or> c = CHR ''/'') ''/model/''" "list_all (\<lambda>c. unreserved c \<or> c = CHR ''/'') ''/converse''"
      by code_simp+
    then have "\<forall>c \<in> set ''/model/'' \<union> set ''/converse''. unreserved c \<or> c = CHR ''/''"
      unfolding list_all_iff by (simp only: ball_Un)
    moreover have "hr_path ?r = ''/model/'' @ bc_model b @ ''/converse''" using path assms(3) by (rule trans)
    ultimately show ?thesis by (simp only: set_append ball_Un) argo
  qed
  have verb: "hr_method ?r = ''POST''" "hr_host rq = u_host u" "hr_body rq = payload"
    by (simp_all add: p(2) sign_v4_split signed_request_def Let_def)
  have split: "rq = header_set ''Authorization''
      (authorization (hash_sha256 payload) (bc_region b) ''bedrock'' (bc_creds b) now ?r) ?r"
    by (simp only: p(2) sign_v4_split)
  have "canonical_key ''x-amz-content-sha256'' \<noteq> canonical_key ''Authorization''"
    "canonical_key ''x-amz-content-sha256'' \<noteq> canonical_key ''x-amz-security-token''" by code_simp+
  then have hash: "header_get ''x-amz-content-sha256'' rq = hash_sha256 payload"
    by (simp add: split signed_request_def Let_def)
  show ?thesis
    using p(1) verb split hash plain canonical_request_conforms [OF ok vals surjective_pairing, of "hash_sha256 payload"]
    by (intro exI [of _ payload] exI [of _ ?r]) (simp add: split)
qed


definition example_http :: http_env where
  "example_http =
     \<lparr>he_parse = (\<lambda>s. Inr \<lparr>u_scheme = ''https'', u_host = ''h'', u_path = ''/model/m:0/converse'', u_raw_path = '''',
                            u_raw_query = '''', u_fragment = '''', u_rest = ''''\<rparr>),
      he_do = (\<lambda>_. Reply 200 '''')\<rparr>"

definition example_codec :: bedrock_codec where
  "example_codec = \<lparr>bk_valid = (\<lambda>_. True), bk_string = (\<lambda>s. s), bk_enc = (\<lambda>_. Inr ''body''), bk_dec = (\<lambda>_. Inl ''e'')\<rparr>"

definition example_bedrock :: bedrock_client where
  "example_bedrock = new_bedrock_client ''us'' ''m:0'' 1 0 \<lparr>aws_key_id = ''AK'', aws_secret = ''s'', aws_session = ''''\<rparr>"

theorem bedrock_request_signed_witness:
  "\<exists>rq r. bedrock_http_request example_http example_codec 0 example_bedrock [] [] = Inr rq
    \<and> header_get ''x-amz-content-sha256'' rq = hash_sha256 ''body''
    \<and> build_canonical_request r (fst (build_canonical_headers r)) (snd (build_canonical_headers r)) (hash_sha256 ''body'')
        \<noteq> aws_canonical_request r (hash_sha256 ''body'')"
proof -
  obtain rq where rq: "bedrock_http_request example_http example_codec 0 example_bedrock [] [] = Inr rq"
    by (simp add: bedrock_http_request_def example_codec_def new_request_def example_http_def)
  obtain u where u: "he_parse example_http (bedrock_url example_bedrock) = Inr u"
    "u_path u = ''/model/'' @ bc_model example_bedrock @ ''/converse''"
    by (simp add: example_http_def example_bedrock_def new_bedrock_client_def)
  have s: "squeeze (trim_space (aws_session (bc_creds example_bedrock))) = trim_space (aws_session (bc_creds example_bedrock))"
    by (rule squeeze_no_space) (simp add: example_bedrock_def new_bedrock_client_def)
  have "\<not> (\<forall>c \<in> set (bc_model example_bedrock). unreserved c \<or> c = CHR ''/'')"
    by (simp add: example_bedrock_def new_bedrock_client_def unreserved_def byte_def)
  then show ?thesis
    using bedrock_request_signed [OF rq u s] rq by (auto simp: example_codec_def)
qed

text \<open>
  Credentials go nowhere else: an OpenAI-compatible request has an \<open>Authorization\<close> header exactly
  when a key is configured, and the gateway is told who is calling in every request.
\<close>

lemma request_headers:
  assumes "openai_request env enc c messages tools = Inr rq"
  shows "hr_method rq = ''POST'' \<and> header_get ''Content-Type'' rq = ''application/json''
    \<and> header_get ''Authorization'' rq = (if oc_api_key c = '''' then '''' else ''Bearer '' @ oc_api_key c)
    \<and> fst ` set (hr_header rq) \<subseteq> {canonical_key ''Content-Type'', canonical_key ''Authorization''}"
proof -
  have "canonical_key ''Content-Type'' \<noteq> canonical_key ''Authorization''" by code_simp
  then show ?thesis
    using assms
    by (auto simp: openai_request_def new_request_def Let_def header_get_def header_set_def mstr_def mput_def split: sum.splits if_splits)
qed

lemma gateway_headers:
  assumes "gateway_http_request env enc c ctx messages tools = Inr rq"
  shows "hr_method rq = ''POST'' \<and> header_get ''X-Agent-ID'' rq = sc_agent_id c \<and> header_get ''X-Agent-Scene'' rq = sc_scene c
    \<and> header_get ''X-Agent-Token'' rq = sc_agent_token c"
proof -
  have "canonical_key ''X-Agent-ID'' \<noteq> canonical_key ''X-Agent-Token''"
    "canonical_key ''X-Agent-Scene'' \<noteq> canonical_key ''X-Agent-Token''"
    "canonical_key ''X-Agent-ID'' \<noteq> canonical_key ''X-Agent-Scene''"
    "canonical_key ''Content-Type'' \<noteq> canonical_key ''X-Agent-Token''" by code_simp+
  then show ?thesis
    using assms
    by (auto simp: gateway_http_request_def new_request_def Let_def header_get_def [of _ "\<lparr>hr_method = _, hr_host = _, hr_path = _, hr_raw_query = _, hr_header = [], hr_body = _\<rparr>"] mstr_def split: sum.splits if_splits)
qed

text \<open>Whether a failed exchange is retried depends on its status and on nothing the body says.\<close>

lemma bedrock_retries:
  assumes "bedrock_reply dec (limit_reply x) = Inl e"
  shows "is_retryable e \<longleftrightarrow> (case x of Reply st b \<Rightarrow> st = 200 \<or> st \<in> {429, 500, 502, 503, 504}
    | Failed c \<Rightarrow> is_retryable c | Unread c \<Rightarrow> is_retryable c)"
  using assms by (cases x) (auto simp: bedrock_reply_def is_retryable_def split: if_splits sum.splits option.splits)

end
