(* ===== verification/Report.thy ===== *)
theory Report
  imports DiagnoseTypes TextLimits
begin

text \<open>
  The notification text of a diagnosis (\<open>diagnose/report.go\<close>).  \<open>fmt_time\<close> stands for
  \<open>Time.Format(time.DateTime)\<close> in the local zone.
\<close>

definition maxDescriptionBytes :: int where
  "maxDescriptionBytes = 2048"

definition format_header :: "(int \<Rightarrow> string) \<Rightarrow> diagnose_record \<Rightarrow> string \<Rightarrow> string" where
  "format_header fmt_time r language =
     (if language = ''zh'' then
        ''[*] AI '' @ [CHR 0xE8, CHR 0xAF, CHR 0x8A, CHR 0xE6, CHR 0x96, CHR 0xAD, CHR 0xE6, CHR 0x8A, CHR 0xA5,
          CHR 0xE5, CHR 0x91, CHR 0x8A] @ '' ['' @ rec_status r @ '']'' @ nl
        @ [CHR 0xE6, CHR 0x8F, CHR 0x92, CHR 0xE4, CHR 0xBB, CHR 0xB6] @ '': '' @ ar_plugin (rec_alert r)
        @ '' | '' @ [CHR 0xE7, CHR 0x9B, CHR 0xAE, CHR 0xE6, CHR 0xA0, CHR 0x87] @ '': '' @ ar_target (rec_alert r) @ nl
        @ [CHR 0xE8, CHR 0xAF, CHR 0x8A, CHR 0xE6, CHR 0x96, CHR 0xAD, CHR 0xE6, CHR 0x97, CHR 0xB6, CHR 0xE9,
           CHR 0x97, CHR 0xB4] @ '': '' @ fmt_time (created_at r)
        @ '' | '' @ [CHR 0xE8, CHR 0x80, CHR 0x97, CHR 0xE6, CHR 0x97, CHR 0xB6] @ '': '' @ itoa (duration_ms r)
        @ ''ms | AI'' @ [CHR 0xE8, CHR 0xBD, CHR 0xAE, CHR 0xE6, CHR 0xAC, CHR 0xA1] @ '': ''
        @ itoa (total_rounds (rec_ai r)) @ nl
      else
        ''[*] AI Diagnosis Report ['' @ rec_status r @ '']'' @ nl
        @ ''Plugin: '' @ ar_plugin (rec_alert r) @ '' | Target: '' @ ar_target (rec_alert r) @ nl
        @ ''Time: '' @ fmt_time (created_at r) @ '' | Duration: '' @ itoa (duration_ms r)
        @ ''ms | Rounds: '' @ itoa (total_rounds (rec_ai r)) @ nl)
     @ ''---'' @ nl"

definition format_footer :: "string \<Rightarrow> diagnose_record \<Rightarrow> string \<Rightarrow> string" where
  "format_footer state_dir r language =
     (if language = ''zh'' then
        nl @ ''---'' @ nl
        @ [CHR 0xE6, CHR 0x9F, CHR 0xA5, CHR 0xE7, CHR 0x9C, CHR 0x8B, CHR 0xE5, CHR 0x91, CHR 0xBD, CHR 0xE4,
           CHR 0xBB, CHR 0xA4] @ '': catpaw diagnose show '' @ rec_id r @ nl
        @ [CHR 0xE5, CHR 0xAE, CHR 0x8C, CHR 0xE6, CHR 0x95, CHR 0xB4, CHR 0xE8, CHR 0xAE, CHR 0xB0, CHR 0xE5,
           CHR 0xBD, CHR 0x95] @ '': '' @ file_path state_dir r @ nl
      else
        nl @ ''---'' @ nl @ ''View command: catpaw diagnose show '' @ rec_id r @ nl
        @ ''Full record: '' @ file_path state_dir r @ nl)"

definition trunc_suffix_text :: "string \<Rightarrow> string" where
  "trunc_suffix_text language =
     (if language = ''zh'' then
        nl @ ''...['' @ [CHR 0xE8, CHR 0xAF, CHR 0x8A, CHR 0xE6, CHR 0x96, CHR 0xAD, CHR 0xE6, CHR 0x8A, CHR 0xA5,
          CHR 0xE5, CHR 0x91, CHR 0x8A, CHR 0xE5, CHR 0xB7, CHR 0xB2, CHR 0xE6, CHR 0x88, CHR 0xAA, CHR 0xE6,
          CHR 0x96, CHR 0xAD, CHR 0xEF, CHR 0xBC, CHR 0x8C, CHR 0xE5, CHR 0xAE, CHR 0x8C, CHR 0xE6, CHR 0x95,
          CHR 0xB4, CHR 0xE5, CHR 0x86, CHR 0x85, CHR 0xE5, CHR 0xAE, CHR 0xB9, CHR 0xE8, CHR 0xAF, CHR 0xB7,
          CHR 0xE6, CHR 0x9F, CHR 0xA5, CHR 0xE7, CHR 0x9C, CHR 0x8B, CHR 0xE6, CHR 0x9C, CHR 0xAC, CHR 0xE5,
          CHR 0x9C, CHR 0xB0, CHR 0xE8, CHR 0xAE, CHR 0xB0, CHR 0xE5, CHR 0xBD, CHR 0x95] @ '']''
      else nl @ ''...[Report truncated, see local record for full content]'')"

definition format_report_description ::
  "(int \<Rightarrow> string) \<Rightarrow> string \<Rightarrow> diagnose_record \<Rightarrow> string \<Rightarrow> string \<Rightarrow> string" where
  "format_report_description fmt_time state_dir r report language =
     (let header = format_header fmt_time r language;
          footer = format_footer state_dir r language;
          overhead = int (length header) + int (length footer)
      in if overhead \<ge> maxDescriptionBytes then truncate_utf8 header maxDescriptionBytes
         else let trunc_suffix = trunc_suffix_text language;
                  budget = maxDescriptionBytes - overhead;
                  body = (if int (length report) > budget then
                      (if budget > int (length trunc_suffix) then
                         truncate_utf8 report (budget - int (length trunc_suffix)) @ trunc_suffix
                       else truncate_utf8 report budget)
                    else report)
              in header @ body @ footer)"

section \<open>Lemmas\<close>

text \<open>Valid text is closed under what the two formats are built from.\<close>

lemma valid_nl: "valid_utf8 nl"
  by (simp add: nl_def rune_ok_ascii byte_def)

named_theorems valid_text

declare valid_utf8_append [valid_text] valid_utf8_itoa [valid_text] valid_nl [valid_text]

lemma valid_ascii_literals [valid_text]:
  "valid_utf8 ''[*] AI ''" "valid_utf8 '' [''" "valid_utf8 '']''" "valid_utf8 '': ''" "valid_utf8 '' | ''"
  "valid_utf8 ''ms | AI''" "valid_utf8 ''[*] AI Diagnosis Report [''" "valid_utf8 ''Plugin: ''"
  "valid_utf8 '' | Target: ''" "valid_utf8 ''Time: ''" "valid_utf8 '' | Duration: ''"
  "valid_utf8 ''ms | Rounds: ''" "valid_utf8 ''---''" "valid_utf8 '': catpaw diagnose show ''"
  "valid_utf8 ''View command: catpaw diagnose show ''" "valid_utf8 ''Full record: ''"
  "valid_utf8 ''...[''" "valid_utf8 ''...[Report truncated, see local record for full content]''"
  by (simp_all add: valid_utf8_ascii byte_def del: valid_utf8.simps)

lemmas eval_utf8 = rune_ok_def decode_rune_def first_info_def byte_def rune_error_def Let_def

lemma valid_zh_literals [valid_text]:
  "valid_utf8 [CHR 0xE8, CHR 0xAF, CHR 0x8A, CHR 0xE6, CHR 0x96, CHR 0xAD, CHR 0xE6, CHR 0x8A, CHR 0xA5,
     CHR 0xE5, CHR 0x91, CHR 0x8A]"
  "valid_utf8 [CHR 0xE6, CHR 0x8F, CHR 0x92, CHR 0xE4, CHR 0xBB, CHR 0xB6]"
  "valid_utf8 [CHR 0xE7, CHR 0x9B, CHR 0xAE, CHR 0xE6, CHR 0xA0, CHR 0x87]"
  "valid_utf8 [CHR 0xE8, CHR 0xAF, CHR 0x8A, CHR 0xE6, CHR 0x96, CHR 0xAD, CHR 0xE6, CHR 0x97, CHR 0xB6,
     CHR 0xE9, CHR 0x97, CHR 0xB4]"
  "valid_utf8 [CHR 0xE8, CHR 0x80, CHR 0x97, CHR 0xE6, CHR 0x97, CHR 0xB6]"
  "valid_utf8 [CHR 0xE8, CHR 0xBD, CHR 0xAE, CHR 0xE6, CHR 0xAC, CHR 0xA1]"
  "valid_utf8 [CHR 0xE6, CHR 0x9F, CHR 0xA5, CHR 0xE7, CHR 0x9C, CHR 0x8B, CHR 0xE5, CHR 0x91, CHR 0xBD,
     CHR 0xE4, CHR 0xBB, CHR 0xA4]"
  "valid_utf8 [CHR 0xE5, CHR 0xAE, CHR 0x8C, CHR 0xE6, CHR 0x95, CHR 0xB4, CHR 0xE8, CHR 0xAE, CHR 0xB0,
     CHR 0xE5, CHR 0xBD, CHR 0x95]"
  by (simp_all add: eval_utf8)

lemma valid_suffix_zh [valid_text]:
  "valid_utf8 [CHR 0xE8, CHR 0xAF, CHR 0x8A, CHR 0xE6, CHR 0x96, CHR 0xAD, CHR 0xE6, CHR 0x8A, CHR 0xA5,
     CHR 0xE5, CHR 0x91, CHR 0x8A, CHR 0xE5, CHR 0xB7, CHR 0xB2, CHR 0xE6, CHR 0x88, CHR 0xAA, CHR 0xE6,
     CHR 0x96, CHR 0xAD, CHR 0xEF, CHR 0xBC, CHR 0x8C, CHR 0xE5, CHR 0xAE, CHR 0x8C, CHR 0xE6, CHR 0x95,
     CHR 0xB4, CHR 0xE5, CHR 0x86, CHR 0x85, CHR 0xE5, CHR 0xAE, CHR 0xB9, CHR 0xE8, CHR 0xAF, CHR 0xB7,
     CHR 0xE6, CHR 0x9F, CHR 0xA5, CHR 0xE7, CHR 0x9C, CHR 0x8B, CHR 0xE6, CHR 0x9C, CHR 0xAC, CHR 0xE5,
     CHR 0x9C, CHR 0xB0, CHR 0xE8, CHR 0xAE, CHR 0xB0, CHR 0xE5, CHR 0xBD, CHR 0x95]"
  by (simp add: eval_utf8)

definition record_text_ok :: "(int \<Rightarrow> string) \<Rightarrow> string \<Rightarrow> diagnose_record \<Rightarrow> bool" where
  "record_text_ok fmt_time state_dir r \<longleftrightarrow>
     valid_utf8 (rec_status r) \<and> valid_utf8 (ar_plugin (rec_alert r)) \<and> valid_utf8 (ar_target (rec_alert r))
     \<and> valid_utf8 (fmt_time (created_at r)) \<and> valid_utf8 (rec_id r) \<and> valid_utf8 (file_path state_dir r)"

lemma format_header_valid: "record_text_ok ft sd r \<Longrightarrow> valid_utf8 (format_header ft r l)"
  unfolding record_text_ok_def format_header_def by (auto simp del: append_Cons append_assoc valid_utf8.simps intro!: valid_text)

lemma format_footer_valid: "record_text_ok ft sd r \<Longrightarrow> valid_utf8 (format_footer sd r l)"
  unfolding record_text_ok_def format_footer_def by (auto simp del: append_Cons append_assoc valid_utf8.simps intro!: valid_text)

lemma trunc_suffix_valid: "valid_utf8 (trunc_suffix_text l)"
  unfolding trunc_suffix_text_def by (auto simp del: append_Cons append_assoc valid_utf8.simps intro!: valid_text)

text \<open>
  A report description has at most 2048 bytes, is valid text when the record and the report
  are, and is the header, the whole report and the footer whenever these fit.
\<close>

theorem report_description_fits:
  assumes "record_text_ok ft sd r" and "valid_utf8 report"
  shows "length (format_report_description ft sd r report lang) \<le> 2048
    \<and> valid_utf8 (format_report_description ft sd r report lang)
    \<and> (length (format_header ft r lang @ report @ format_footer sd r lang) \<le> 2048
        \<and> length (format_header ft r lang) + length (format_footer sd r lang) < 2048
        \<longrightarrow> format_report_description ft sd r report lang
             = format_header ft r lang @ report @ format_footer sd r lang)"
proof -
  let ?h = "format_header ft r lang" and ?f = "format_footer sd r lang" and ?s = "trunc_suffix_text lang"
  let ?b = "2048 - (int (length ?h) + int (length ?f))"
  have len: "int (length (truncate_utf8 ?h 2048)) \<le> 2048"
      "int (length (truncate_utf8 report ?b)) \<le> max 0 ?b"
      "int (length (truncate_utf8 report (?b - int (length ?s)))) \<le> max 0 (?b - int (length ?s))"
    using truncate_utf8_length [of ?h 2048] truncate_utf8_length [of report ?b]
      truncate_utf8_length [of report "?b - int (length ?s)"] by simp_all
  have "int (length (format_report_description ft sd r report lang)) \<le> 2048"
    using len unfolding format_report_description_def maxDescriptionBytes_def Let_def by auto
  moreover have "valid_utf8 (format_report_description ft sd r report lang)"
    using assms format_header_valid [OF assms(1)] format_footer_valid [OF assms(1)] trunc_suffix_valid
    unfolding format_report_description_def Let_def
    by (auto intro!: valid_utf8_append truncate_utf8_valid)
  ultimately show ?thesis
    by (auto simp: format_report_description_def maxDescriptionBytes_def Let_def)
qed

theorem report_description_fits_witness:
  "length (format_report_description (\<lambda>t. ''now'') ''/s'' (new_diagnose_record 0 0 0 (example_request ''p'' ''t''))
     ''all is well'' ''en'') \<le> 2048"
proof -
  have "record_text_ok (\<lambda>t. ''now'') ''/s'' (new_diagnose_record 0 0 0 (example_request ''p'' ''t''))"
    by (simp add: record_text_ok_def file_path_def new_diagnose_record_def example_request_def ModeAlert_def
        Let_def itoa_def digits.simps rand_hex4_def hex_digit_def safe_char_def millisecond_def path_join_def
        path_clean_def clean_step_def char_of_48 rune_ok_ascii byte_def)
  moreover have "valid_utf8 ''all is well''"
    by (simp add: rune_ok_ascii byte_def)
  ultimately show ?thesis
    using report_description_fits [of "\<lambda>t. ''now''" "''/s''"] by blast
qed

end
