(* ===== verification/Cli.thy ===== *)
theory Cli
  imports DiagnoseState Report
begin

text \<open>
  The commands that list and show diagnosis records (\<open>diagnose/cli.go\<close>).  A command returns what
  it printed and its error.  The file system is given by \<open>ce_dir\<close> (the entries of a directory, or
  whether it does not exist), \<open>ce_missing\<close> (whether \<open>os.Stat\<close> says a path does not exist) and
  \<open>ce_read\<close>; \<open>ce_parse\<close> is \<open>json.Unmarshal\<close>, \<open>ce_time\<close> the layout of a time, \<open>ce_quote\<close> the verb
  \<open>%q\<close> and \<open>ce_order\<close> what \<open>sort.Slice\<close> makes of the files, newest first.
\<close>

section \<open>Reading\<close>

datatype dir_read = DirMissing | DirError string | DirEntries "dir_entry list"

record cli_env =
  ce_dir :: "string \<Rightarrow> dir_read"
  ce_missing :: "string \<Rightarrow> bool"
  ce_read :: "string \<Rightarrow> string + string"
  ce_parse :: "string \<Rightarrow> string + diagnose_record"
  ce_time :: "int \<Rightarrow> string"
  ce_quote :: "string \<Rightarrow> string"
  ce_order :: "(string \<times> int) list \<Rightarrow> (string \<times> int) list"

definition records_dir :: "string \<Rightarrow> string" where
  "records_dir state_dir = path_join [state_dir, ''diagnoses'']"

definition load_record :: "cli_env \<Rightarrow> string \<Rightarrow> string + diagnose_record" where
  "load_record env path =
     (case ce_read env path of
        Inl e \<Rightarrow> Inl (''read file: '' @ e)
      | Inr data \<Rightarrow>
          (case ce_parse env data of
             Inl e \<Rightarrow> Inl (''parse json: '' @ e)
           | Inr r \<Rightarrow> Inr r))"

section \<open>The list\<close>

definition cli_columns :: "string \<Rightarrow> string \<Rightarrow> string \<Rightarrow> string \<Rightarrow> string \<Rightarrow> string \<Rightarrow> string" where
  "cli_columns a b c d e f =
     pad_right 50 a @ ''  '' @ pad_right 8 b @ ''  '' @ pad_right 8 c @ ''  '' @ pad_right 6 d @ ''  '' @ pad_right 20 e @ ''  '' @ f @ nl"

definition cli_row :: "cli_env \<Rightarrow> string \<Rightarrow> string \<times> int \<Rightarrow> string" where
  "cli_row env d f =
     (case load_record env (path_join [d, fst f]) of
        Inl e \<Rightarrow> pad_right 50 (fst f) @ ''  (error: '' @ e @ '')'' @ nl
      | Inr r \<Rightarrow>
          cli_columns (rec_id r) (rec_status r) (ar_plugin (rec_alert r)) (itoa (int (length (ar_checks (rec_alert r)))))
            (ce_time env (created_at r)) (itoa (duration_ms r) @ ''ms''))"

definition cli_header :: string where
  "cli_header = cli_columns ''ID'' ''Status'' ''Plugin'' ''Checks'' ''Time'' ''Duration'' @ replicate 120 (CHR ''-'') @ nl"

definition limit_files :: "int \<Rightarrow> (string \<times> int) list \<Rightarrow> (string \<times> int) list" where
  "limit_files n files = (if n > 0 \<and> n < int (length files) then take (nat n) files else files)"

definition cli_list :: "cli_env \<Rightarrow> string \<Rightarrow> int \<Rightarrow> string \<times> string option" where
  "cli_list env state_dir n =
     (let d = records_dir state_dir in
      case ce_dir env d of
        DirMissing \<Rightarrow> (''No diagnosis records found.'' @ nl, None)
      | DirError e \<Rightarrow> ('''', Some (''read diagnoses dir: '' @ e))
      | DirEntries es \<Rightarrow>
          let files = record_files es in
          if length files = 0 then (''No diagnosis records found.'' @ nl, None)
          else
            let files = limit_files n (ce_order env files)
            in (cli_header @ concat (map (cli_row env d) files)
                  @ nl @ ''Total: '' @ itoa (int (length files)) @ '' records'' @ nl, None))"

section \<open>One record\<close>

fun join_args :: "(string \<times> string) list \<Rightarrow> string list" where
  "join_args [] = []"
| "join_args ((k, v) # kvs) = (k @ ''='' @ v) # join_args kvs"

definition format_args :: "(string, string) gomap \<Rightarrow> string" where
  "format_args args = (if length args = 0 then '''' else join '', '' (join_args args))"

definition print_check :: "cli_env \<Rightarrow> nat \<Rightarrow> check_snapshot \<Rightarrow> string" where
  "print_check env i c =
     ''Check['' @ digits i @ '']: '' @ cs_check c @ '' status='' @ cs_status c @ '' value='' @ cs_current_value c
       @ (if cs_threshold_desc c \<noteq> '''' then '' threshold='' @ ce_quote env (cs_threshold_desc c) else '''') @ nl"

fun print_checks :: "cli_env \<Rightarrow> nat \<Rightarrow> check_snapshot list \<Rightarrow> string" where
  "print_checks env i [] = ''''"
| "print_checks env i (c # cs) = print_check env i c @ print_checks env (Suc i) cs"

definition shorten :: "string \<Rightarrow> int \<Rightarrow> int \<Rightarrow> string" where
  "shorten s n keep = (if int (length s) > n then truncate_utf8 s keep @ ''...'' else s)"

definition print_tool_call :: "int \<Rightarrow> tool_call_record \<Rightarrow> string" where
  "print_tool_call rnd tc =
     ''[Round '' @ itoa rnd @ ''] '' @ tcr_name tc @ ''('' @ format_args (tcr_args tc) @ '') '' @ [CHR 0xE2, CHR 0x86, CHR 0x92]
       @ '' '' @ itoa (tcr_duration_ms tc) @ ''ms'' @ nl
     @ ''  Result: '' @ shorten (tcr_result tc) 500 497 @ nl"

definition print_round :: "round_record \<Rightarrow> string" where
  "print_round rr =
     concat (map (print_tool_call (rr_round rr)) (rr_tool_calls rr))
       @ (if rr_ai_reasoning rr \<noteq> ''''
          then ''[Round '' @ itoa (rr_round rr) @ ''] AI: '' @ shorten (rr_ai_reasoning rr) 300 297 @ nl else '''')"

definition print_record_detail :: "cli_env \<Rightarrow> diagnose_record \<Rightarrow> string" where
  "print_record_detail env r =
     ''=== Diagnosis Record ==='' @ nl
     @ ''ID:       '' @ rec_id r @ nl
     @ ''Status:   '' @ rec_status r @ nl
     @ (if rec_error r \<noteq> '''' then ''Error:    '' @ rec_error r @ nl else '''')
     @ ''Created:  '' @ ce_time env (created_at r) @ nl
     @ ''Duration: '' @ itoa (duration_ms r) @ ''ms'' @ nl
     @ nl
     @ ''--- Alert Context ---'' @ nl
     @ ''Plugin: '' @ ar_plugin (rec_alert r) @ nl
     @ ''Target: '' @ ar_target (rec_alert r) @ nl
     @ print_checks env 0 (ar_checks (rec_alert r))
     @ nl
     @ ''--- AI Model ---'' @ nl
     @ ''Model:   '' @ air_model (rec_ai r) @ nl
     @ ''Rounds:  '' @ itoa (total_rounds (rec_ai r)) @ nl
     @ ''Tokens:  '' @ itoa (input_tokens (rec_ai r)) @ '' input + '' @ itoa (output_tokens (rec_ai r)) @ '' output = ''
         @ itoa (wrap64 (input_tokens (rec_ai r) + output_tokens (rec_ai r))) @ '' total'' @ nl
     @ nl
     @ (if length (rec_rounds r) > 0
        then ''--- Tool Calls ---'' @ nl @ concat (map print_round (rec_rounds r)) @ nl else '''')
     @ (if rec_report r \<noteq> '''' then ''--- Final Report ---'' @ nl @ rec_report r @ nl else '''')"

definition trim_suffix :: "string \<Rightarrow> string \<Rightarrow> string" where
  "trim_suffix s p = (if has_suffix s p then take (length s - length p) s else s)"

fun fuzzy_matches :: "string \<Rightarrow> dir_entry list \<Rightarrow> string list" where
  "fuzzy_matches pattern [] = []"
| "fuzzy_matches pattern (e # es) =
     (if contains (de_name e) pattern then trim_suffix (de_name e) ''.json'' # fuzzy_matches pattern es
      else fuzzy_matches pattern es)"

definition try_fuzzy_match :: "cli_env \<Rightarrow> string \<Rightarrow> string \<Rightarrow> string \<times> string option" where
  "try_fuzzy_match env d pattern =
     (case ce_dir env d of
        DirEntries es \<Rightarrow>
          (let matches = fuzzy_matches pattern es in
           if length matches = 0 then ('''', Some (''record '' @ ce_quote env pattern @ '' not found''))
           else (''Record '' @ ce_quote env pattern @ '' not found. Did you mean:'' @ nl
                   @ concat (map (\<lambda>m. ''  '' @ m @ nl) matches),
                 Some (''record '' @ ce_quote env pattern @ '' not found, see suggestions above'')))
      | _ \<Rightarrow> ('''', Some (''record '' @ ce_quote env pattern @ '' not found'')))"

definition show_path :: "cli_env \<Rightarrow> string \<Rightarrow> string \<Rightarrow> string option" where
  "show_path env d rid =
     (if ce_missing env (path_join [d, rid @ ''.json'']) then
        (if ce_missing env (path_join [d, rid]) then None else Some (path_join [d, rid]))
      else Some (path_join [d, rid @ ''.json'']))"

definition cli_show :: "cli_env \<Rightarrow> string \<Rightarrow> string \<Rightarrow> string \<times> string option" where
  "cli_show env state_dir rid =
     (let d = records_dir state_dir in
      case show_path env d rid of
        None \<Rightarrow> try_fuzzy_match env d rid
      | Some path \<Rightarrow>
          (case load_record env path of
             Inl e \<Rightarrow> ('''', Some e)
           | Inr r \<Rightarrow> (print_record_detail env r, None)))"


section \<open>Properties\<close>

text \<open>
  The list shows the newest records: as many as asked for (all of them without a limit), newest
  first, one row each, none of those left out newer than one that is shown, and the total it prints
  is the number of rows.
\<close>

theorem cli_list_newest:
  assumes "ce_dir env (records_dir state_dir) = DirEntries es" and "record_files es \<noteq> []"
    and "mset (ce_order env (record_files es)) = mset (record_files es)"
    and "sorted_wrt (\<lambda>f g. snd g \<le> snd f) (ce_order env (record_files es))"
  shows "\<exists>shown hidden.
      cli_list env state_dir n =
        (cli_header @ concat (map (cli_row env (records_dir state_dir)) shown)
           @ nl @ ''Total: '' @ itoa (int (length shown)) @ '' records'' @ nl, None)
    \<and> mset shown + mset hidden = mset (record_files es)
    \<and> sorted_wrt (\<lambda>f g. snd g \<le> snd f) shown \<and> (\<forall>f \<in> set shown. \<forall>g \<in> set hidden. snd g \<le> snd f)
    \<and> length shown = (if 0 < n then min (nat n) (length (record_files es)) else length (record_files es))"
proof -
  let ?all = "ce_order env (record_files es)"
  let ?k = "if 0 < n then nat n else length ?all"
  have len: "length ?all = length (record_files es)" using assms(3) by (metis size_mset)
  have shown: "limit_files n ?all = take ?k ?all" by (auto simp: limit_files_def)
  have split: "?all = take ?k ?all @ drop ?k ?all" by simp
  have m: "mset (take ?k ?all) + mset (drop ?k ?all) = mset (record_files es)"
    using assms(3) split by (metis mset_append)
  have s: "sorted_wrt (\<lambda>f g. snd g \<le> snd f) (take ?k ?all)"
    "\<forall>f \<in> set (take ?k ?all). \<forall>g \<in> set (drop ?k ?all). snd g \<le> snd f"
    using assms(4) split sorted_wrt_append [of "\<lambda>f g. snd g \<le> snd f" "take ?k ?all" "drop ?k ?all"] by simp_all
  have out: "cli_list env state_dir n =
      (cli_header @ concat (map (cli_row env (records_dir state_dir)) (take ?k ?all))
         @ nl @ ''Total: '' @ itoa (int (length (take ?k ?all))) @ '' records'' @ nl, None)"
    using assms(1,2) by (simp add: cli_list_def Let_def shown)
  show ?thesis
    by (rule exI [of _ "take ?k ?all"], rule exI [of _ "drop ?k ?all"])
      (intro conjI out m s, simp add: len min_def)
qed


definition example_cli :: "files \<Rightarrow> cli_env" where
  "example_cli fs =
     \<lparr>ce_dir = (\<lambda>_. DirEntries [\<lparr>de_name = ''a.json'', de_is_dir = False, de_mtime = Some 1\<rparr>,
                                 \<lparr>de_name = ''b.json'', de_is_dir = False, de_mtime = Some 2\<rparr>]),
      ce_missing = (\<lambda>p. mget fs p = None),
      ce_read = (\<lambda>p. case mget fs p of Some c \<Rightarrow> Inr c | None \<Rightarrow> Inl ''gone''),
      ce_parse = (\<lambda>_. Inr (new_diagnose_record 0 1 2 (example_request ''cpu'' ''h''))),
      ce_time = (\<lambda>_. ''t''), ce_quote = (\<lambda>s. s), ce_order = rev\<rparr>"

theorem cli_list_newest_witness:
  "\<exists>shown. fst (cli_list (example_cli []) ''s'' 1) =
      cli_header @ concat (map (cli_row (example_cli []) (records_dir ''s'')) shown) @ nl @ ''Total: 1 records'' @ nl
    \<and> length shown = 1"
proof -
  have one: "itoa 1 = ''1''" by code_simp
  have fs: "record_files [\<lparr>de_name = ''a.json'', de_is_dir = False, de_mtime = Some 1\<rparr>,
      \<lparr>de_name = ''b.json'', de_is_dir = False, de_mtime = Some 2\<rparr>] = [(''a.json'', 1), (''b.json'', 2)]"
    by (simp add: has_suffix_def)
  obtain shown where s: "cli_list (example_cli []) ''s'' 1 =
      (cli_header @ concat (map (cli_row (example_cli []) (records_dir ''s'')) shown)
         @ nl @ ''Total: '' @ itoa (int (length shown)) @ '' records'' @ nl, None)" "length shown = 1"
    using cli_list_newest [of "example_cli []" "''s''" "[\<lparr>de_name = ''a.json'', de_is_dir = False, de_mtime = Some 1\<rparr>,
        \<lparr>de_name = ''b.json'', de_is_dir = False, de_mtime = Some 2\<rparr>]" 1] fs
    by (auto simp: example_cli_def)
  then show ?thesis using one by auto
qed


text \<open>No result or reasoning is printed in more than its bound, and a cut never splits a character.\<close>

lemma shorten_bound:
  assumes "3 \<le> n"
  shows "int (length (shorten s n (n - 3))) \<le> n" "valid_utf8 s \<Longrightarrow> valid_utf8 (shorten s n (n - 3))"
proof -
  show "int (length (shorten s n (n - 3))) \<le> n"
    using assms truncate_utf8_length [of s "n - 3"] by (auto simp: shorten_def max_def split: if_splits)
  have "valid_utf8 ''...''" by (rule valid_utf8_ascii) (simp add: byte_def)
  then show "valid_utf8 s \<Longrightarrow> valid_utf8 (shorten s n (n - 3))"
    by (simp add: shorten_def valid_utf8_append truncate_utf8_valid)
qed

end
