(* ===== verification/ChatStream.thy ===== *)
theory ChatStream
  imports Executor AIClient
begin

text \<open>
  The multi-turn chat (\<open>diagnose/streaming.go\<close>).  The history is a Go slice: a backing array
  (whose length is the capacity) and a length, because the roll-back reslices it and the
  compaction replaces it.  \<open>grow\<close> is the run-time system's choice of a larger capacity.  A
  result \<open>None\<close> is a panic.  The replies of the models, the end of the context and the tools'
  results are the environment's; progress events are collected in order.
\<close>

section \<open>Slices\<close>

record slice =
  arr :: "message list"
  slen :: nat

definition elems :: "slice \<Rightarrow> message list" where
  "elems s = take (slen s) (arr s)"

definition slice_of :: "message list \<Rightarrow> slice" where
  "slice_of ms = \<lparr>arr = ms, slen = length ms\<rparr>"

definition slice_append :: "(nat \<Rightarrow> nat) \<Rightarrow> message \<Rightarrow> slice \<Rightarrow> slice" where
  "slice_append grow m s =
     (if slen s < length (arr s) then s\<lparr>arr := (arr s)[slen s := m], slen := slen s + 1\<rparr>
      else \<lparr>arr = elems s @ [m] @ replicate (grow (length (arr s)) - (slen s + 1)) zero_message,
             slen = slen s + 1\<rparr>)"

text \<open>\<open>s[:n]\<close> is checked against the capacity.\<close>

definition reslice :: "nat \<Rightarrow> slice \<Rightarrow> slice option" where
  "reslice n s = (if n \<le> length (arr s) then Some (s\<lparr>slen := n\<rparr>) else None)"

section \<open>History\<close>

definition chatMaxRounds :: nat where
  "chatMaxRounds = 20"

definition maxHistoryMessages :: nat where
  "maxHistoryMessages = 40"

text \<open>The loop that moves the cut forward over tool sequences.\<close>

fun safe_cut_loop :: "message list \<Rightarrow> nat \<Rightarrow> nat" where
  "safe_cut_loop [] pos = pos"
| "safe_cut_loop (m # ms) pos =
     (if is_tool m then safe_cut_loop ms (pos + 1)
      else if makes_calls m then safe_cut_loop ms (pos + 1)
      else pos)"

definition trim_history :: "slice \<Rightarrow> slice" where
  "trim_history s =
     (let ms = elems s in
      if length ms \<le> maxHistoryMessages + 1 then s
      else
        let pos = length ms - maxHistoryMessages;
            safe_pos = safe_cut_loop (drop pos ms) pos
        in if safe_pos < length ms then slice_of (ms ! 0 # drop safe_pos ms)
           else if length ms > maxHistoryMessages * 2
           then slice_of (ms ! 0 # drop (length ms - maxHistoryMessages) ms)
           else s)"

definition compact_slice :: "slice \<Rightarrow> int \<Rightarrow> slice" where
  "compact_slice s budget =
     (case compact_messages (elems s) budget of
        (ms, Whole) \<Rightarrow> s
      | (ms, FirstOnly) \<Rightarrow> s\<lparr>slen := 1\<rparr>
      | (ms, Fresh cap) \<Rightarrow> \<lparr>arr = ms @ replicate (cap - length ms) zero_message, slen = length ms\<rparr>)"

section \<open>Conversation\<close>

record chat_config =
  cc_env :: exec_env
  cc_registry :: tool_registry
  cc_fc :: failover_client
  cc_shell :: "(string \<Rightarrow> string \<times> bool \<times> string option) option"
  cc_limit :: int
  cc_chat :: "chat_response chat_env"
  cc_ctx_err :: "nat \<Rightarrow> go_error option"
  cc_grow :: "nat \<Rightarrow> nat"

definition progress :: "progress_event_type \<Rightarrow> int \<Rightarrow> progress_event" where
  "progress ty r = \<lparr>pe_type = ty, pe_round = r, pe_tool_name = '''', pe_tool_args = '''', pe_reasoning = '''',
     pe_result_len = 0, pe_is_error = False, pe_tool_output = ''''\<rparr>"

definition tool_message :: "string \<Rightarrow> string \<Rightarrow> message" where
  "tool_message tid res = zero_message\<lparr>role := ''tool'', tool_call_id := tid, content := res\<rparr>"

definition tool_output :: "tool_result \<Rightarrow> string" where
  "tool_output r = truncate_output (case snd r of Some e \<Rightarrow> ''error: '' @ e | None \<Rightarrow> fst r)"

fun tool_loop :: "chat_config \<Rightarrow> int \<Rightarrow> tool_call list \<Rightarrow> slice \<Rightarrow> slice \<times> progress_event list" where
  "tool_loop cc rnd_num [] s = (s, [])"
| "tool_loop cc rnd_num (tc # tcs) s =
     (let name = fc_name (tcall_function tc);
          raw = fc_arguments (tcall_function tc);
          disp = format_tool_args_display (cc_env cc) name raw;
          r = chat_execute_tool (cc_env cc) (cc_registry cc) (cc_shell cc) name raw;
          out = tool_output r;
          ev = [(progress ProgressToolStart rnd_num)\<lparr>pe_tool_name := name, pe_tool_args := disp\<rparr>,
                (progress ProgressToolDone rnd_num)\<lparr>pe_tool_name := name, pe_tool_args := disp,
                   pe_result_len := int (length out), pe_is_error := (snd r \<noteq> None), pe_tool_output := out\<rparr>];
          (s', evs) = tool_loop cc rnd_num tcs (slice_append (cc_grow cc) (tool_message (tcall_id tc) out) s)
      in (s', ev @ evs))"

definition add_usage :: "usage \<Rightarrow> usage \<Rightarrow> usage" where
  "add_usage a b = \<lparr>prompt_tokens = prompt_tokens a + prompt_tokens b,
     completion_tokens = completion_tokens a + completion_tokens b, total_usage = total_usage a + total_usage b\<rparr>"

record conv_result =
  cr_reply :: string
  cr_slice :: slice
  cr_usage :: usage
  cr_err :: "go_error option"
  cr_calls :: nat
  cr_events :: "progress_event list"

definition assistant_message :: "string \<Rightarrow> tool_call list \<Rightarrow> message" where
  "assistant_message c tcs = zero_message\<lparr>role := ''assistant'', content := c, tool_calls := tcs\<rparr>"

text \<open>\<open>n\<close> rounds are left; \<open>i\<close> counts the calls made to the models.\<close>

fun conversation_loop :: "chat_config \<Rightarrow> nat \<Rightarrow> slice \<Rightarrow> usage \<Rightarrow> nat \<Rightarrow> conv_result option" where
  "conversation_loop cc 0 s u i =
     Some \<lparr>cr_reply = ''[incomplete] max tool-calling rounds reached'', cr_slice = s, cr_usage = u, cr_err = None,
       cr_calls = i, cr_events = []\<rparr>"
| "conversation_loop cc (Suc n) s u i =
     (let rnd_num = int (chatMaxRounds - n);
          failed = (\<lambda>s u e i evs. Some \<lparr>cr_reply = '''', cr_slice = s, cr_usage = u, cr_err = Some e,
             cr_calls = i, cr_events = evs\<rparr>)
      in case cc_ctx_err cc i of
        Some e \<Rightarrow> failed s u e i []
      | None \<Rightarrow>
          let s = (if cc_limit cc > 0 then compact_slice s (cc_limit cc) else s);
              evs = [progress ProgressAIStart rnd_num, progress ProgressAIDone rnd_num]
          in case failover_chat (cc_chat cc) (cc_fc cc) i of
            ((resp, nm, Some e), i) \<Rightarrow> failed s u (Wrapped ''AI API call failed'' e) i evs
          | ((None, nm, None), i) \<Rightarrow> None
          | ((Some resp, nm, None), i) \<Rightarrow>
              let u = add_usage u (resp_usage resp) in
              case choices resp of
                [] \<Rightarrow> failed s u (Plain ''AI returned empty response'') i evs
              | ch # chs \<Rightarrow>
                  let c = content (ch_message ch); tcs = tool_calls (ch_message ch) in
                  if length tcs = 0 then
                    Some \<lparr>cr_reply = c, cr_slice = slice_append (cc_grow cc) (assistant_message c []) s, cr_usage = u,
                      cr_err = None, cr_calls = i, cr_events = evs\<rparr>
                  else
                    let evs = evs @ (if c \<noteq> '''' then [(progress ProgressAIDone rnd_num)\<lparr>pe_reasoning := c\<rparr>] else []);
                        (s, tevs) = tool_loop cc rnd_num tcs (slice_append (cc_grow cc) (assistant_message c tcs) s)
                    in map_option (\<lambda>r. r\<lparr>cr_events := evs @ tevs @ cr_events r\<rparr>) (conversation_loop cc n s u i))"

text \<open>The stream keeps only its history; the result is the reply or the error, and the new history.\<close>

definition user_message :: "string \<Rightarrow> message" where
  "user_message input = zero_message\<lparr>role := ''user'', content := input\<rparr>"

definition new_chat_stream :: "string \<Rightarrow> slice" where
  "new_chat_stream system_prompt = slice_of [zero_message\<lparr>role := ''system'', content := system_prompt\<rparr>]"

definition handle_message ::
  "chat_config \<Rightarrow> string \<Rightarrow> nat \<Rightarrow> slice \<Rightarrow> ((go_error + string) \<times> usage \<times> slice) option" where
  "handle_message cc input i s =
     (let s = slice_append (cc_grow cc) (user_message input) s;
          s = trim_history s;
          msg_count = slen s
      in case conversation_loop cc chatMaxRounds s zero_usage i of
        None \<Rightarrow> None
      | Some r \<Rightarrow>
          (case cr_err r of
             Some e \<Rightarrow> map_option (\<lambda>s. (Inl e, cr_usage r, s)) (reslice (msg_count - 1) (cr_slice r))
           | None \<Rightarrow> Some (Inr (cr_reply r), cr_usage r, cr_slice r)))"

definition reset_stream :: "slice \<Rightarrow> slice" where
  "reset_stream s =
     (if slen s > 0 \<and> role (elems s ! 0) = ''system'' then slice_of [elems s ! 0] else slice_of [])"

definition build_chat_tool_set :: "bool \<Rightarrow> ai_tool list" where
  "build_chat_tool_set allow_shell =
     [function_tool ''call_tool''
        ''Invoke a diagnostic tool by name. All available tools are listed in the system prompt.''
        [(''name'', str_prop ''Tool name''), (''tool_args'', str_prop ''Tool arguments as JSON string'')] [''name''],
      function_tool ''list_tool_categories''
        ''List all available tool categories (plugins). Use this to explore available diagnostic areas.'' [] [],
      function_tool ''list_tools''
        ''Show detailed parameter info for tools in a category. Use only when you need parameter details not shown in the catalog.''
        [(''category'', str_prop ''Tool category name'')] [''category'']]
     @ (if allow_shell then
          [function_tool ''exec_shell'' ''Execute a shell command. Use when built-in tools are insufficient.''
             [(''command'', str_prop ''Shell command to execute'')] [''command'']]
        else [])"

section \<open>The tool protocol\<close>

text \<open>
  What the model's service demands of a history: an assistant message with tool calls is followed
  by exactly the tool messages that answer its calls, in order, and there are no other ones.
\<close>

function complete :: "message list \<Rightarrow> bool" where
  "complete [] = True"
| "complete (m # ms) =
     (if makes_calls m then
        map tool_call_id (take (length (tool_calls m)) ms) = map tcall_id (tool_calls m)
        \<and> list_all is_tool (take (length (tool_calls m)) ms)
        \<and> complete (drop (length (tool_calls m)) ms)
      else \<not> is_tool m \<and> complete ms)"
  by pat_completeness auto
termination by (relation "measure length") auto

lemma complete_append: "complete xs \<Longrightarrow> complete (xs @ ys) \<longleftrightarrow> complete ys"
proof (induction xs rule: complete.induct)
  case 1
  then show ?case by simp
next
  case (2 m ms)
  show ?case
  proof (cases "makes_calls m")
    case True
    let ?n = "length (tool_calls m)"
    from True "2.prems" have "map tool_call_id (take ?n ms) = map tcall_id (tool_calls m)" by simp
    then have "?n \<le> length ms" by (metis length_map length_take min.absorb_iff2)
    with True 2 show ?thesis by simp
  next
    case False
    with 2 show ?thesis by simp
  qed
qed

lemma complete_no_orphans: "complete ms \<Longrightarrow> no_orphans b ms"
proof (induction ms arbitrary: b rule: complete.induct)
  case (1 b)
  then show ?case by simp
next
  case (2 m ms)
  show ?case
  proof (cases "makes_calls m")
    case True
    have app: "no_orphans True (xs @ ys) \<longleftrightarrow> no_orphans True ys" if "list_all is_tool xs" for xs ys
      using that by (induction xs) auto
    have "no_orphans True (drop (length (tool_calls m)) ms)" using True 2 by simp
    with True "2.prems" app [of "take (length (tool_calls m)) ms" "drop (length (tool_calls m)) ms"]
    show ?thesis by (simp add: makes_calls_not_tool)
  next
    case False
    with 2 show ?thesis by simp
  qed
qed

lemma complete_drop:
  "complete ms \<Longrightarrow> k < length ms \<Longrightarrow> \<not> is_tool (ms ! k) \<Longrightarrow> complete (drop k ms)"
proof (induction ms arbitrary: k rule: complete.induct)
  case (1 k)
  then show ?case by simp
next
  case (2 m ms)
  show ?case
  proof (cases k)
    case 0
    with "2.prems" show ?thesis by simp
  next
    case (Suc j)
    show ?thesis
    proof (cases "makes_calls m")
      case True
      let ?n = "length (tool_calls m)"
      have "\<not> j < ?n"
      proof
        assume "j < ?n"
        with "2.prems"(2) Suc have "ms ! j \<in> set (take ?n ms)" by (auto simp: in_set_conv_nth)
        with True "2.prems" Suc show False by (auto simp: list_all_iff)
      qed
      with True 2 Suc show ?thesis
        using "2.IH"(1) [of "j - ?n"] by (simp add: nth_append add.commute)
    next
      case False
      with 2 Suc show ?thesis by simp
    qed
  qed
qed

lemma complete_butlast: "complete (xs @ [u]) \<Longrightarrow> \<not> is_tool u \<Longrightarrow> complete xs"
proof (induction xs rule: complete.induct)
  case 1
  then show ?case by simp
next
  case (2 m ms)
  show ?case
  proof (cases "makes_calls m")
    case True
    let ?n = "length (tool_calls m)"
    from True "2.prems" have eq: "map tool_call_id (take ?n (ms @ [u])) = map tcall_id (tool_calls m)"
      and lt: "list_all is_tool (take ?n (ms @ [u]))" and c: "complete (drop ?n (ms @ [u]))" by simp_all
    have n: "?n \<le> length ms"
    proof (rule ccontr)
      assume "\<not> ?n \<le> length ms"
      with lt "2.prems"(2) show False by simp
    qed
    with True eq lt c 2 show ?thesis by simp
  next
    case False
    with 2 show ?thesis by simp
  qed
qed

definition history_ok :: "message list \<Rightarrow> bool" where
  "history_ok ms \<longleftrightarrow> ms \<noteq> [] \<and> complete (tl ms)"

lemma history_ok_snoc: "history_ok ms \<Longrightarrow> complete ys \<Longrightarrow> history_ok (ms @ ys)"
  by (cases ms) (auto simp: history_ok_def complete_append)

text \<open>A cut in front of a message that is no tool message keeps the protocol.\<close>

lemma history_ok_cut:
  assumes ok: "history_ok ms" and k: "1 \<le> k" and start: "k < length ms \<Longrightarrow> \<not> is_tool (ms ! k)"
  shows "history_ok (hd ms # drop k ms)"
proof (cases "k < length ms")
  case True
  obtain m rest where ms: "ms = m # rest" using ok by (cases ms) (auto simp: history_ok_def)
  have "complete (drop (k - 1) rest)"
    using ok k True start [OF True] ms by (intro complete_drop) (auto simp: history_ok_def nth_Cons')
  moreover have "drop k ms = drop (k - 1) rest" using ms k by (cases k) auto
  ultimately show ?thesis by (simp add: history_ok_def)
qed (simp add: history_ok_def)

section \<open>Slices and histories\<close>

definition slice_ok :: "slice \<Rightarrow> bool" where
  "slice_ok s \<longleftrightarrow> slen s \<le> length (arr s)"

lemma slice_of_simps [simp]: "elems (slice_of ms) = ms" "slice_ok (slice_of ms)" "slen (slice_of ms) = length ms"
  by (simp_all add: elems_def slice_of_def slice_ok_def)

lemma length_elems [simp]: "slice_ok s \<Longrightarrow> length (elems s) = slen s"
  by (simp add: elems_def slice_ok_def)

lemma slice_append_simps [simp]:
  assumes "slice_ok s"
  shows "elems (slice_append grow m s) = elems s @ [m]" "slice_ok (slice_append grow m s)"
    "slen (slice_append grow m s) = Suc (slen s)"
  using assms by (auto simp: slice_append_def elems_def slice_ok_def take_Suc_conv_app_nth)

lemma tool_loop_spec:
  "slice_ok s \<Longrightarrow> slice_ok (fst (tool_loop cc r tcs s)) \<and>
   (\<exists>outs. length outs = length tcs \<and>
      elems (fst (tool_loop cc r tcs s)) = elems s @ map (\<lambda>(tc, out). tool_message (tcall_id tc) out) (zip tcs outs))"
proof (induction cc r tcs s rule: tool_loop.induct)
  case (1 cc r s)
  then show ?case by simp
next
  case (2 cc r tc tcs s)
  let ?out = "tool_output (chat_execute_tool (cc_env cc) (cc_registry cc) (cc_shell cc)
      (fc_name (tcall_function tc)) (fc_arguments (tcall_function tc)))"
  let ?s = "slice_append (cc_grow cc) (tool_message (tcall_id tc) ?out) s"
  have IH: "slice_ok (fst (tool_loop cc r tcs ?s)) \<and> (\<exists>outs. length outs = length tcs \<and>
      elems (fst (tool_loop cc r tcs ?s)) = elems ?s @ map (\<lambda>(tc, out). tool_message (tcall_id tc) out) (zip tcs outs))"
    using "2.prems" by (intro "2.IH"[OF refl refl refl refl refl refl]) simp_all
  then obtain outs where outs: "length outs = length tcs"
      "elems (fst (tool_loop cc r tcs ?s)) = elems ?s @ map (\<lambda>(tc, out). tool_message (tcall_id tc) out) (zip tcs outs)"
    by blast
  have "fst (tool_loop cc r (tc # tcs) s) = fst (tool_loop cc r tcs ?s)"
    by (simp add: Let_def split: prod.split)
  with IH outs "2.prems" show ?case
    by (auto intro!: exI [of _ "?out # outs"])
qed

lemma complete_round:
  assumes "length outs = length tcs"
  shows "complete (assistant_message c tcs # map (\<lambda>(tc, out). tool_message (tcall_id tc) out) (zip tcs outs))"
proof -
  have ids: "map tool_call_id (map (\<lambda>(tc, out). tool_message (tcall_id tc) out) (zip tcs outs)) = map tcall_id tcs"
    using assms by (induction tcs outs rule: list_induct2') (auto simp: tool_message_def)
  have tools: "list_all is_tool (map (\<lambda>(tc, out). tool_message (tcall_id tc) out) (zip tcs outs))"
    by (auto simp: list_all_iff is_tool_def tool_message_def)
  show ?thesis
    using assms ids tools
    by (cases "tcs = []") (simp_all add: makes_calls_def is_tool_def assistant_message_def zero_message_def)
qed

lemma compact_history:
  assumes h: "history_ok ms"
  shows "history_ok (fst (compact_messages ms b)) \<and> hd (fst (compact_messages ms b)) = hd ms"
proof (cases "2 \<le> length ms \<and> 0 < b")
  case False
  with h show ?thesis by (auto simp: compact_messages_def)
next
  case True
  have wf: "tools_answered (tl ms)" using h by (simp add: history_ok_def tools_answered_def complete_no_orphans)
  from compact_messages_spec [OF _ _ wf, of b] True obtain k
    where k: "k \<ge> 1" "fst (compact_messages ms b) = hd ms # drop k ms" and ta: "tools_answered (drop k ms)"
    by (metis list.sel(3))
  have "\<not> is_tool (ms ! k)" if "k < length ms"
    using ta that by (cases "drop k ms") (auto simp: tools_answered_def Cons_nth_drop_Suc [symmetric])
  then have "history_ok (hd ms # drop k ms)" using h k(1) by (intro history_ok_cut)
  then show ?thesis by (simp add: k(2))
qed

lemma compact_slice_elems:
  assumes "slice_ok s" and "elems s \<noteq> []"
  shows "slice_ok (compact_slice s b) \<and> elems (compact_slice s b) = fst (compact_messages (elems s) b)"
proof -
  obtain ms org where c: "compact_messages (elems s) b = (ms, org)" by force
  have one: "org = FirstOnly \<Longrightarrow> ms = take 1 (elems s)" and whole: "org = Whole \<Longrightarrow> ms = elems s"
    using c by (auto simp: compact_messages_def Let_def split: if_splits)
  have "0 < slen s" using assms by (simp add: elems_def)
  with assms(1) have s1: "elems (s\<lparr>slen := 1\<rparr>) = take 1 (elems s)" "slice_ok (s\<lparr>slen := 1\<rparr>)"
    by (auto simp: elems_def slice_ok_def min_def)
  have fresh: "slice_ok \<lparr>arr = zs @ ys, slen = length zs\<rparr>" "elems \<lparr>arr = zs @ ys, slen = length zs\<rparr> = zs" for zs ys
    by (simp_all add: slice_ok_def elems_def)
  show ?thesis
    using assms(1) c one whole s1 fresh by (cases org) (simp_all add: compact_slice_def)
qed

lemma compact_slice_ok:
  assumes ok: "slice_ok s" and h: "history_ok (elems s)"
  shows "slice_ok (compact_slice s b) \<and> history_ok (elems (compact_slice s b)) \<and> hd (elems (compact_slice s b)) = hd (elems s)"
  using compact_slice_elems [OF ok, of b] compact_history [OF h, of b] h by (simp add: history_ok_def)

lemma safe_cut_loop_spec:
  "pos \<le> safe_cut_loop ms pos \<and> safe_cut_loop ms pos \<le> pos + length ms
   \<and> (safe_cut_loop ms pos < pos + length ms \<longrightarrow>
        \<not> is_tool (ms ! (safe_cut_loop ms pos - pos)) \<and> \<not> makes_calls (ms ! (safe_cut_loop ms pos - pos)))"
proof (induction ms pos rule: safe_cut_loop.induct)
  case (1 pos)
  then show ?case by simp
next
  case (2 m ms pos)
  show ?case
  proof (cases "is_tool m \<or> makes_calls m")
    case True
    then have "Suc pos \<le> safe_cut_loop ms (Suc pos) \<and> safe_cut_loop ms (Suc pos) \<le> Suc pos + length ms
       \<and> (safe_cut_loop ms (Suc pos) < Suc pos + length ms \<longrightarrow>
        \<not> is_tool (ms ! (safe_cut_loop ms (Suc pos) - Suc pos)) \<and> \<not> makes_calls (ms ! (safe_cut_loop ms (Suc pos) - Suc pos)))"
      using 2 by auto
    moreover from True have "safe_cut_loop (m # ms) pos = safe_cut_loop ms (Suc pos)" by auto
    moreover have "safe_cut_loop ms (Suc pos) - pos = Suc (safe_cut_loop ms (Suc pos) - Suc pos)"
      using calculation(1) by linarith
    ultimately show ?thesis by simp
  next
    case False
    then show ?thesis by simp
  qed
qed

lemma safe_cut_loop_last:
  "\<not> is_tool u \<Longrightarrow> \<not> makes_calls u \<Longrightarrow> safe_cut_loop (xs @ [u]) pos \<le> pos + length xs"
proof (induction xs arbitrary: pos)
  case Nil
  then show ?case by simp
next
  case (Cons x xs)
  then show ?case using Cons.IH [of "Suc pos"] by auto
qed

text \<open>A history that ends in a user message is trimmed to at most 41 messages, at a safe cut.\<close>

lemma trim_history_user:
  assumes ok: "slice_ok s" and es: "elems s = xs @ [u]" "xs \<noteq> []" and u: "\<not> is_tool u" "\<not> makes_calls u"
  shows "slice_ok (trim_history s) \<and> length (elems (trim_history s)) \<le> 41
    \<and> (\<exists>k \<ge> 1. k \<le> length xs \<and> elems (trim_history s) = hd xs # drop k (xs @ [u])
        \<and> (k < length xs \<longrightarrow> k = 1 \<or> \<not> is_tool (xs ! k)) \<and> (length xs \<le> 40 \<longrightarrow> k = 1))"
proof (cases "length (elems s) \<le> maxHistoryMessages + 1")
  case True
  then show ?thesis
    using assms by (cases xs) (auto simp: trim_history_def maxHistoryMessages_def Let_def intro!: exI [of _ 1])
next
  case False
  define c where "c = length (elems s) - maxHistoryMessages"
  define k where "k = safe_cut_loop (drop c (elems s)) c"
  have len: "length (elems s) = Suc (length xs)" by (simp add: es)
  have c: "1 < c" "c \<le> length xs" "Suc (length xs) - c \<le> 40" "41 < Suc (length xs)"
    using False len by (auto simp: maxHistoryMessages_def c_def)
  have d: "drop c (elems s) = drop c xs @ [u]" using c(2) by (simp add: es)
  have k: "c \<le> k" "k \<le> length xs"
    using safe_cut_loop_spec [of c "drop c (elems s)"] safe_cut_loop_last [OF u, of "drop c xs" c] c(2)
    unfolding d k_def by auto
  have nt: "\<not> is_tool (xs ! k)" if "k < length xs"
  proof -
    have "k < c + length (drop c (elems s))" using that len c by simp
    then have "\<not> is_tool (drop c (elems s) ! (k - c))"
      using safe_cut_loop_spec [of c "drop c (elems s)"] unfolding k_def by blast
    moreover have "k - c < length (drop c xs)" using k(1) that c(2) by simp
    ultimately show ?thesis using k(1) c(2) unfolding d nth_append by simp
  qed
  have "trim_history s = slice_of (elems s ! 0 # drop k (elems s))"
    using False k(2) len c_def k_def by (simp add: trim_history_def Let_def)
  moreover have "elems s ! 0 = hd xs" using es by (cases xs) auto
  ultimately have t: "trim_history s = slice_of (hd xs # drop k (xs @ [u]))" by (simp add: es)
  show ?thesis
    unfolding t using k c nt by (auto intro!: exI [of _ k])
qed

text \<open>A round's outcome, seen from the history.\<close>

lemma conversation_loop_ok:
  assumes "conversation_loop cc n s u i = Some r" "slice_ok s" "history_ok (elems s)"
  shows "slice_ok (cr_slice r) \<and> history_ok (elems (cr_slice r)) \<and> hd (elems (cr_slice r)) = hd (elems s)
    \<and> (\<not> cc_limit cc > 0 \<longrightarrow> (\<exists>more. elems (cr_slice r) = elems s @ more))"
  using assms
proof (induction n arbitrary: s u i r)
  case 0
  then show ?case by auto
next
  case (Suc n)
  define s1 where "s1 = (if cc_limit cc > 0 then compact_slice s (cc_limit cc) else s)"
  have s1: "slice_ok s1" "history_ok (elems s1)" "hd (elems s1) = hd (elems s)" "\<not> cc_limit cc > 0 \<Longrightarrow> elems s1 = elems s"
    using compact_slice_ok [OF Suc.prems(2,3)] Suc.prems(2,3) by (auto simp: s1_def)
  have hd_app: "hd (elems s1 @ xs) = hd (elems s1)" for xs
    using s1(2) by (cases "elems s1") (auto simp: history_ok_def)
  show ?case
  proof (cases "cc_ctx_err cc i")
    case (Some e)
    with Suc.prems show ?thesis by auto
  next
    case None
    obtain resp nm err i2 where fc: "failover_chat (cc_chat cc) (cc_fc cc) i = ((resp, nm, err), i2)"
      by (metis prod.exhaust)
    show ?thesis
    proof (cases err)
      case (Some e)
      have fc_e: "failover_chat (cc_chat cc) (cc_fc cc) i = ((resp, nm, Some e), i2)" using fc Some by simp
      have "cr_slice r = s1" using Suc.prems(1) None fc_e by (cases resp) (auto simp: Let_def s1_def)
      with s1 show ?thesis by auto
    next
      case err: None
      have fc_n: "failover_chat (cc_chat cc) (cc_fc cc) i = ((resp, nm, None), i2)" using fc err by simp
      obtain rp where rp: "resp = Some rp" using Suc.prems(1) None by (cases resp) (simp_all add: fc_n Let_def)
      have fc_r: "failover_chat (cc_chat cc) (cc_fc cc) i = ((Some rp, nm, None), i2)" using fc_n rp by simp
      show ?thesis
      proof (cases "choices rp")
        case Nil
        have "cr_slice r = s1" using Suc.prems(1) None by (simp add: fc_r Nil Let_def s1_def) auto
        with s1 show ?thesis by auto
      next
        case (Cons ch chs)
        define c where "c = content (ch_message ch)"
        define tcs where "tcs = tool_calls (ch_message ch)"
        define s2 where "s2 = slice_append (cc_grow cc) (assistant_message c tcs) s1"
        have s2: "slice_ok s2" "elems s2 = elems s1 @ [assistant_message c tcs]" using s1 by (simp_all add: s2_def)
        show ?thesis
        proof (cases "tcs = []")
          case True
          have "cr_slice r = s2" using Suc.prems(1) None True
            by (simp add: fc_r Cons Let_def s1_def s2_def c_def tcs_def) auto
          moreover have "history_ok (elems s2)"
            using s1(2) complete_round [of "[]" "[]" c] True by (simp add: s2 history_ok_snoc)
          ultimately show ?thesis using s1 s2 hd_app by auto
        next
          case False
          obtain s3 ev where tl: "tool_loop cc (int (chatMaxRounds - n)) tcs s2 = (s3, ev)" by force
          with tool_loop_spec [OF s2(1), of cc "int (chatMaxRounds - n)" tcs] obtain outs
            where s3: "slice_ok s3" "length outs = length tcs"
              "elems s3 = elems s1 @ (assistant_message c tcs # map (\<lambda>(tc, out). tool_message (tcall_id tc) out) (zip tcs outs))"
            using s2(2) by auto
          obtain u' r' where rec: "conversation_loop cc n s3 u' i2 = Some r'" "cr_slice r = cr_slice r'"
            using Suc.prems(1) None tl False
            by (simp add: fc_r Cons Let_def s1_def s2_def c_def tcs_def split: if_splits) auto
          have h3: "history_ok (elems s3)"
            unfolding s3(3) using s1(2) complete_round [OF s3(2)] by (rule history_ok_snoc)
          from Suc.IH [OF rec(1) s3(1) h3] s1 hd_app show ?thesis
            unfolding rec(2) s3(3) by auto
        qed
      qed
    qed
  qed
qed

lemma user_message_simps [simp]: "\<not> is_tool (user_message x)" "\<not> makes_calls (user_message x)"
  by (simp_all add: user_message_def is_tool_def makes_calls_def)

lemma trim_user_ok:
  fixes s :: slice and g :: "nat \<Rightarrow> nat" and x :: string
  defines "t \<equiv> trim_history (slice_append g (user_message x) s)"
  assumes ok: "slice_ok s" and h: "history_ok (elems s)"
  shows "slice_ok t \<and> history_ok (elems t) \<and> hd (elems t) = hd (elems s) \<and> length (elems t) \<le> 41
    \<and> (\<exists>k \<ge> 1. elems t = (hd (elems s) # drop k (elems s)) @ [user_message x] \<and> history_ok (hd (elems s) # drop k (elems s))
        \<and> (length (elems s) \<le> 40 \<longrightarrow> k = 1))"
proof -
  have ne: "elems s \<noteq> []" using h by (simp add: history_ok_def)
  have ap: "slice_ok (slice_append g (user_message x) s)" "elems (slice_append g (user_message x) s) = elems s @ [user_message x]"
    using ok by simp_all
  note T = trim_history_user [OF ap(1) ap(2) ne user_message_simps, folded t_def]
  then obtain k where "1 \<le> k \<and> k \<le> length (elems s) \<and> elems t = hd (elems s) # drop k (elems s @ [user_message x])
      \<and> (k < length (elems s) \<longrightarrow> k = 1 \<or> \<not> is_tool (elems s ! k)) \<and> (length (elems s) \<le> 40 \<longrightarrow> k = 1)"
    by blast
  with T have k: "slice_ok t" "length (elems t) \<le> 41" "1 \<le> k"
      "k \<le> length (elems s)" "elems t = hd (elems s) # drop k (elems s @ [user_message x])"
      "k < length (elems s) \<longrightarrow> k = 1 \<or> \<not> is_tool (elems s ! k)" "length (elems s) \<le> 40 \<longrightarrow> k = 1"
    by blast+
  have cut_ok: "history_ok (hd (elems s) # drop k (elems s))"
  proof (cases "k = 1")
    case True
    with h show ?thesis by (cases "elems s") (auto simp: history_ok_def)
  next
    case False
    with k h show ?thesis by (intro history_ok_cut) auto
  qed
  moreover have e: "elems t = (hd (elems s) # drop k (elems s)) @ [user_message x]" using k(4,5) by simp
  moreover have "history_ok (elems t)"
    unfolding e using cut_ok by (rule history_ok_snoc) simp
  ultimately show ?thesis using k by auto
qed

lemma handle_message_error:
  assumes "slice_ok s" and "history_ok (elems s)" and lim: "\<not> cc_limit cc > 0"
    and run: "handle_message cc input i s = Some (Inl e, u, s')"
  shows "slice_ok s' \<and> (\<exists>k \<ge> 1. elems s' = hd (elems s) # drop k (elems s) \<and> history_ok (elems s')
    \<and> (length (elems s) \<le> 40 \<longrightarrow> k = 1))"
proof -
  define t where "t = trim_history (slice_append (cc_grow cc) (user_message input) s)"
  note t = trim_user_ok [OF assms(1,2), of "cc_grow cc" input, folded t_def]
  obtain cr e' where cr: "conversation_loop cc chatMaxRounds t zero_usage i = Some cr" "cr_err cr = Some e'"
    using run by (auto simp: handle_message_def t_def Let_def split: option.splits)
  obtain more where m: "elems (cr_slice cr) = elems t @ more" and ok: "slice_ok (cr_slice cr)"
    using conversation_loop_ok [OF cr(1)] t lim by blast
  obtain k where k: "k \<ge> 1" "elems t = (hd (elems s) # drop k (elems s)) @ [user_message input]"
      "history_ok (hd (elems s) # drop k (elems s))" "length (elems s) \<le> 40 \<longrightarrow> k = 1"
    using t by blast
  have len: "slen t = length (elems t)" using t by simp
  from run cr have "reslice (slen t - 1) (cr_slice cr) = Some s'"
    by (auto simp: handle_message_def t_def Let_def)
  then have s': "s' = (cr_slice cr)\<lparr>slen := slen t - 1\<rparr>" "slen t - 1 \<le> length (arr (cr_slice cr))"
    by (auto simp: reslice_def split: if_splits)
  have "slen t - 1 \<le> slen (cr_slice cr)"
    using len m ok by (metis diff_le_self le_add1 le_trans length_append length_elems)
  then have "elems s' = take (slen t - 1) (elems (cr_slice cr))"
    using s' by (simp add: elems_def min_def)
  also have "\<dots> = hd (elems s) # drop k (elems s)"
    using m k(2) len by simp
  finally show ?thesis using k s' by (auto simp: slice_ok_def)
qed

text \<open>Without a negative retry count no client returns neither a response nor an error.\<close>

lemma chat_with_retry_some:
  "0 \<le> max_retries cfg \<Longrightarrow> fst (chat_with_retry env cfg i) = (resp, None) \<Longrightarrow> resp \<noteq> None"
proof
  assume mr: "0 \<le> max_retries cfg" and r: "fst (chat_with_retry env cfg i) = (resp, None)" and "resp = None"
  obtain r' i' ws where run: "chat_with_retry env cfg i = (r', i', ws)" by (metis prod_cases3)
  with r \<open>resp = None\<close> have "r' = (None, None)" by simp
  with retry_attempts_spec [OF _ run [unfolded chat_with_retry_def]] mr show False by simp
qed

lemma failover_loop_some:
  "0 \<le> max_retries cfg \<Longrightarrow> fst (failover_loop env cfg n names le i) = (resp, nm, None) \<Longrightarrow> resp \<noteq> None"
proof (induction env cfg n names le i rule: failover_loop.induct)
  case (1 env cfg n le i)
  then show ?case by simp
next
  case (2 env cfg n name names le i)
  obtain rp err i' ws where c: "chat_with_retry env cfg i = ((rp, err), i', ws)" by (metis prod.exhaust)
  show ?case
  proof (cases err)
    case None
    then have "rp \<noteq> None" using chat_with_retry_some [OF "2.prems"(1), of env i rp] c by simp
    with 2 c None show ?thesis by simp
  next
    case (Some e)
    show ?thesis
    proof (cases "should_failover e")
      case True
      with "2.IH" [OF c [symmetric] refl Some refl] "2.prems" c Some show ?thesis by simp
    next
      case False
      with "2.prems" c Some show ?thesis by simp
    qed
  qed
qed

lemma failover_chat_some:
  "0 \<le> max_retries (retry_cfg fc) \<Longrightarrow> fst (failover_chat env fc i) = (resp, nm, None) \<Longrightarrow> resp \<noteq> None"
  using failover_loop_some [of "retry_cfg fc" env _ _ None i resp nm]
    chat_with_retry_some [of "retry_cfg fc" env i resp]
  by (auto simp: failover_chat_def Let_def split: if_splits option.splits prod.splits)

lemma conversation_loop_total:
  assumes "0 \<le> max_retries (retry_cfg (cc_fc cc))"
  shows "\<exists>r. conversation_loop cc n s u i = Some r"
proof (induction n arbitrary: s u i)
  case 0
  then show ?case by simp
next
  case (Suc n)
  obtain resp nm err i2 where fc: "failover_chat (cc_chat cc) (cc_fc cc) i = ((resp, nm, err), i2)"
    by (metis prod.exhaust)
  have "err = None \<Longrightarrow> resp \<noteq> None"
    using failover_chat_some [OF assms, of "cc_chat cc" i resp nm] fc by simp
  then show ?case
    using Suc.IH fc by (auto simp: Let_def split: option.splits list.splits prod.splits)
qed

section \<open>Properties\<close>

text \<open>
  C8. The chat keeps its history well-formed: whatever the models and the tools answer, after a
  successful message (and after a failed one when no context limit is set) the system prompt is
  still first and every assistant message with tool calls is followed by exactly its answers, so
  that the next request is acceptable to the service.
\<close>

theorem chat_history_protocol:
  assumes "slice_ok s" and "history_ok (elems s)"
    and run: "handle_message cc input i s = Some (r, u, s')"
    and ok: "isl r \<Longrightarrow> \<not> cc_limit cc > 0"
  shows "slice_ok s' \<and> history_ok (elems s') \<and> hd (elems s') = hd (elems s)"
proof (cases r)
  case (Inl e)
  with handle_message_error [OF assms(1,2)] run ok show ?thesis by fastforce
next
  case (Inr reply)
  define t where "t = trim_history (slice_append (cc_grow cc) (user_message input) s)"
  note t = trim_user_ok [OF assms(1,2), of "cc_grow cc" input, folded t_def]
  obtain cr where cr: "conversation_loop cc chatMaxRounds t zero_usage i = Some cr" "s' = cr_slice cr"
    using run Inr by (auto simp: handle_message_def t_def Let_def split: option.splits)
  with conversation_loop_ok [OF cr(1)] t show ?thesis by auto
qed

definition example_chat_config :: "int \<Rightarrow> (nat \<Rightarrow> go_error + chat_response) \<Rightarrow> chat_config" where
  "example_chat_config limit rep =
     \<lparr>cc_env = example_exec_env, cc_registry = new_tool_registry, cc_fc = example_failover, cc_shell = None,
      cc_limit = limit, cc_chat = \<lparr>reply = rep, done_before = (\<lambda>i. None), rnd = (\<lambda>i. 0)\<rparr>,
      cc_ctx_err = (\<lambda>i. None), cc_grow = (\<lambda>c. 2 * c)\<rparr>"

definition text_reply :: "string \<Rightarrow> chat_response" where
  "text_reply c = \<lparr>resp_id = '''', choices = [\<lparr>ch_index = 0, ch_message = assistant_message c [], finish_reason = ''stop''\<rparr>],
     resp_usage = zero_usage\<rparr>"

lemma new_chat_stream_ok: "slice_ok (new_chat_stream p)" "history_ok (elems (new_chat_stream p))"
  by (simp_all add: new_chat_stream_def history_ok_def)

theorem chat_history_protocol_witness:
  "\<exists>r u s'. handle_message (example_chat_config 0 (\<lambda>i. Inr (text_reply ''hi''))) ''q'' 0 (new_chat_stream ''p'') = Some (r, u, s')
     \<and> history_ok (elems s')"
proof -
  let ?cc = "example_chat_config 0 (\<lambda>i. Inr (text_reply ''hi''))"
  have mr: "0 \<le> max_retries (retry_cfg (cc_fc ?cc))"
    by (simp add: example_chat_config_def example_failover_def new_failover_client_for_scene_def)
  let ?t = "trim_history (slice_append (cc_grow ?cc) (user_message ''q'') (new_chat_stream ''p''))"
  obtain cr where cr: "conversation_loop ?cc chatMaxRounds ?t zero_usage 0 = Some cr"
    using conversation_loop_total [OF mr] by blast
  have "cr_err cr = None"
    using cr by (auto simp: chatMaxRounds_def numeral_eq_Suc example_chat_config_def failover_chat_def example_failover_def
        new_failover_client_for_scene_def chat_with_retry_def text_reply_def assistant_message_def Let_def)
  with cr have run: "handle_message ?cc ''q'' 0 (new_chat_stream ''p'') = Some (Inr (cr_reply cr), cr_usage cr, cr_slice cr)"
    by (simp add: handle_message_def Let_def)
  from chat_history_protocol [OF new_chat_stream_ok run] show ?thesis using run by auto
qed



definition example_history :: "nat \<Rightarrow> slice" where
  "example_history n =
     slice_of (example_message ''system'' '''' # replicate n (example_message ''user'' ''xxxxxxxxxx''))"

definition bad_config :: chat_config where
  "bad_config = example_chat_config 20 (\<lambda>i. Inl (APIError 400 ''bad''))"

lemma bad_config_fails:
  "handle_message bad_config input 0 s =
     (let t = trim_history (slice_append (\<lambda>c. 2 * c) (user_message input) s) in
      map_option (\<lambda>s. (Inl (Wrapped ''AI API call failed'' (APIError 400 ''bad'')), zero_usage, s))
        (reslice (slen t - 1) (compact_slice t 20)))"
proof -
  have f: "failover_chat (cc_chat bad_config) (cc_fc bad_config) 0 = ((None, ''a'', Some (APIError 400 ''bad'')), 1)"
    by (simp add: bad_config_def example_chat_config_def failover_chat_def example_failover_def
        new_failover_client_for_scene_def chat_with_retry_def is_retryable_def should_failover_def Let_def numeral_eq_Suc)
  have c: "cc_ctx_err bad_config i = None" "cc_limit bad_config = 20" "cc_grow bad_config = (\<lambda>c. 2 * c)" for i
    by (simp_all add: bad_config_def example_chat_config_def)
  obtain n where n: "chatMaxRounds = Suc n" by (simp add: chatMaxRounds_def numeral_eq_Suc)
  have loop: "conversation_loop bad_config (Suc n) t zero_usage 0 = Some \<lparr>cr_reply = '''', cr_slice = compact_slice t 20,
      cr_usage = zero_usage, cr_err = Some (Wrapped ''AI API call failed'' (APIError 400 ''bad'')), cr_calls = 1,
      cr_events = [progress ProgressAIStart (int (chatMaxRounds - n)), progress ProgressAIDone (int (chatMaxRounds - n))]\<rparr>" for t
    by (simp add: f c Let_def)
  show ?thesis
    unfolding handle_message_def Let_def n loop c(3) by simp
qed

lemma example_tokens:
  "estimate_message_tokens (example_message r '''') = 4"
  "estimate_message_tokens (example_message r ''xxxxxxxxxx'') = 9"
  "estimate_message_tokens (user_message ''q'') = 5"
  by (simp_all add: estimate_message_tokens_def example_message_def user_message_def zero_message_def
      estimate_tokens_chinese_def perMessageOverhead_def rune_count_ascii byte_def rune_count_def [of "''''"])

text \<open>
  With a context limit the roll-back of a failed message is wrong: when the compaction drops
  two messages and the model then fails, cutting the shorter history at the old length panics;
  when it drops exactly one, the user message stays in the history.
\<close>

theorem compaction_breaks_rollback:
  "handle_message bad_config ''q'' 0 (example_history 3) = None
   \<and> map_option (\<lambda>(r, u, s'). (isl r, last (elems s'))) (handle_message bad_config ''q'' 0 (example_history 2))
       = Some (True, user_message ''q'')"
proof -
  let ?u = "example_message ''user'' ''xxxxxxxxxx''" and ?s = "example_message ''system'' ''''" and ?q = "user_message ''q''"
  let ?t = "\<lambda>n. trim_history (slice_append (\<lambda>c. 2 * c) ?q (example_history n))"
  have t: "elems (?t n) = ?s # replicate n ?u @ [?q]" "slen (?t n) = n + 2" if "n \<le> 3" for n
    using that by (auto simp: trim_history_def Let_def maxHistoryMessages_def example_history_def)
  have nc: "\<not> makes_calls ?u" by (simp add: makes_calls_def example_message_def)
  have "compact_messages (?s # replicate 3 ?u @ [?q]) 20 = ([?s, ?u, ?q], Fresh 3)"
    by (simp add: compact_messages_def parse_message_groups_def Let_def example_tokens nc numeral_3_eq_3)
  then have c3: "compact_slice (?t 3) 20 = slice_of [?s, ?u, ?q]"
    using t(1) [of 3] by (simp add: compact_slice_def slice_of_def)
  have "compact_messages (?s # replicate 2 ?u @ [?q]) 20 = ([?s, ?u, ?q], Fresh 3)"
    by (simp add: compact_messages_def parse_message_groups_def Let_def example_tokens nc numeral_2_eq_2)
  then have c2: "compact_slice (?t 2) 20 = slice_of [?s, ?u, ?q]"
    using t(1) [of 2] by (simp add: compact_slice_def slice_of_def)
  show ?thesis
    using t(2) [of 3] t(2) [of 2]
    by (simp add: bad_config_fails Let_def c2 c3 reslice_def) (simp add: slice_of_def elems_def)
qed

end
