(* ===== verification/DiagnoseRun.thy ===== *)
theory DiagnoseRun
  imports ChatStream Config Report DiagnoseState Notify
begin

text \<open>
  One diagnosis (\<open>diagnose/engine.go\<close> without its concurrency, \<open>diagnose/prompt.go\<close> without
  its template, which \<open>Prompt\<close> has): the loop of model calls and tool calls, the bookkeeping of
  \<open>RunDiagnose\<close> with its deferred calls and its recovery from a panic, the forwarding of the
  report and the streaming variant.  What the models, the tools and the accessor factory answer,
  when the context ends, which tool call panics and how long things take is the environment's.
\<close>

section \<open>Prompt\<close>

record prompt_data =
  pr_mode :: string
  pr_plugin :: string
  pr_target :: string
  pr_runtime_os :: string
  pr_system_inspect :: bool
  pr_checks :: "check_snapshot list"
  pr_descriptions :: string
  pr_direct_tools :: string
  pr_tool_catalog :: string
  pr_remote_target :: bool
  pr_local_host :: string
  pr_language :: string

text \<open>\<open>tmpl\<close> is the execution of the template: its output or its error.\<close>

definition render_prompt ::
  "(prompt_data \<Rightarrow> string + string) \<Rightarrow> string \<Rightarrow> diagnose_request \<Rightarrow> string \<Rightarrow> string \<Rightarrow> string \<Rightarrow> bool \<Rightarrow> string \<Rightarrow> string" where
  "render_prompt tmpl mode req direct_tools catalog local_host is_remote language =
     (case tmpl \<lparr>pr_mode = mode, pr_plugin = rq_plugin req, pr_target = rq_target req,
          pr_runtime_os = rq_runtime_os req,
          pr_system_inspect = (mode = ModeInspect \<and> rq_plugin req = ''system''),
          pr_checks = rq_checks req, pr_descriptions = rq_descriptions req, pr_direct_tools = direct_tools,
          pr_tool_catalog = catalog, pr_remote_target = is_remote, pr_local_host = local_host,
          pr_language = language\<rparr> of
        Inl e \<Rightarrow> ''Error building prompt: '' @ e
      | Inr s \<Rightarrow> s)"

definition build_system_prompt ::
  "(prompt_data \<Rightarrow> string + string) \<Rightarrow> diagnose_request \<Rightarrow> string \<Rightarrow> string \<Rightarrow> string \<Rightarrow> bool \<Rightarrow> string \<Rightarrow> string" where
  "build_system_prompt tmpl = render_prompt tmpl ModeAlert"

definition build_inspect_prompt ::
  "(prompt_data \<Rightarrow> string + string) \<Rightarrow> diagnose_request \<Rightarrow> string \<Rightarrow> string \<Rightarrow> string \<Rightarrow> bool \<Rightarrow> string \<Rightarrow> string" where
  "build_inspect_prompt tmpl = render_prompt tmpl ModeInspect"

fun direct_param_lines :: "tool_param list \<Rightarrow> string" where
  "direct_param_lines [] = ''''"
| "direct_param_lines (p # ps) =
     ''  '' @ [CHR 0xE5, CHR 0x8F, CHR 0x82, CHR 0xE6, CHR 0x95, CHR 0xB0] @ '' '' @ tp_name p @ '' ('' @ tp_type p @ ''): '' @ tp_description p
     @ (if tp_required p then '' ('' @ [CHR 0xE5, CHR 0xBF, CHR 0x85, CHR 0xE9, CHR 0x9C, CHR 0x80] @ '')'' else '''') @ nl @ direct_param_lines ps"

fun direct_tool_lines :: "diagnose_tool list \<Rightarrow> string" where
  "direct_tool_lines [] = ''''"
| "direct_tool_lines (t # ts) =
     ''- '' @ dt_name t @ '': '' @ dt_description t @ nl @ direct_param_lines (dt_parameters t) @ direct_tool_lines ts"

definition format_direct_tools :: "diagnose_tool list \<Rightarrow> string" where
  "format_direct_tools tools =
     (if length tools = 0 then ''('' @ [CHR 0xE6, CHR 0x97, CHR 0xA0, CHR 0xE7, CHR 0x9B, CHR 0xB4, CHR 0xE6, CHR 0x8E, CHR 0xA5, CHR 0xE5, CHR
      0xB7, CHR 0xA5, CHR 0xE5, CHR 0x85, CHR 0xB7] @ '')'' else direct_tool_lines tools)"

definition is_remote_target :: "(string \<Rightarrow> string) \<Rightarrow> string \<Rightarrow> bool" where
  "is_remote_target to_lower target =
     (let t = to_lower target in
      if has_prefix t ''localhost'' \<or> has_prefix t ''127.'' \<or> has_prefix t ''[::1]'' \<or> has_prefix t ''::1'' then False
      else if t = '''' \<or> t = ''/'' then False
      else True)"

section \<open>The loop\<close>

record diag_env =
  dg_exec :: "nat \<Rightarrow> exec_env"
  dg_panic :: "nat \<Rightarrow> string option"
  dg_ms :: "nat \<Rightarrow> int"
  dg_chat :: "chat_response chat_env"
  dg_ctx_err :: "nat \<Rightarrow> go_error option"
  dg_factory :: "nat \<Rightarrow> string + (nat \<times> bool)"
  dg_tmpl :: "prompt_data \<Rightarrow> string + string"
  dg_goos :: string
  dg_hostname :: string
  dg_lower :: "string \<Rightarrow> string"
  dg_quote :: "string \<Rightarrow> string"

record diag_engine =
  de_registry :: tool_registry
  de_fc :: failover_client
  de_cfg :: ai_config
  de_max_rounds :: int
  de_ctx_limit :: int

text \<open>
  The variables of \<open>diagnose\<close>, with the number of model calls and of tool calls made so far and
  the progress events emitted.
\<close>

record diag_vars =
  dv_messages :: "message list"
  dv_estimate :: int
  dv_warned :: bool
  dv_record :: diagnose_record
  dv_calls :: nat
  dv_tools :: nat
  dv_events :: "progress_event list"

datatype diag_end = DReport string | DError go_error | DPanic string

definition emit :: "bool \<Rightarrow> progress_event \<Rightarrow> diag_vars \<Rightarrow> diag_vars" where
  "emit on e st = (if on then st\<lparr>dv_events := dv_events st @ [e]\<rparr> else st)"

definition add_message :: "message \<Rightarrow> diag_vars \<Rightarrow> diag_vars" where
  "add_message msg st =
     st\<lparr>dv_messages := dv_messages st @ [msg], dv_estimate := dv_estimate st + int (estimate_message_tokens msg)\<rparr>"

definition set_ai :: "(ai_record \<Rightarrow> ai_record) \<Rightarrow> diag_vars \<Rightarrow> diag_vars" where
  "set_ai f st = st\<lparr>dv_record := (dv_record st)\<lparr>rec_ai := f (rec_ai (dv_record st))\<rparr>\<rparr>"

text \<open>The inner loop over the tool calls of one round; a panic leaves it with its message.\<close>

fun diag_tool_loop ::
  "diag_env \<Rightarrow> tool_registry \<Rightarrow> bool \<Rightarrow> int \<Rightarrow> tool_call list \<Rightarrow> diag_vars \<Rightarrow> tool_call_record list
   \<Rightarrow> string option \<times> diag_vars \<times> tool_call_record list" where
  "diag_tool_loop env reg on r [] st recs = (None, st, recs)"
| "diag_tool_loop env reg on r (tc # tcs) st recs =
     (let name = fc_name (tcall_function tc);
          raw = fc_arguments (tcall_function tc);
          x = dg_exec env (dv_tools st);
          disp = format_tool_args_display x name raw;
          st = emit on ((progress ProgressToolStart r)\<lparr>pe_tool_name := name, pe_tool_args := disp\<rparr>) st
      in case dg_panic env (dv_tools st) of
        Some p \<Rightarrow> (Some p, st, recs)
      | None \<Rightarrow>
          let (out, tool_err) = execute_tool x reg True name raw;
              result = (case tool_err of Some e \<Rightarrow> ''error: '' @ e | None \<Rightarrow> out);
              truncated = truncate_output result;
              rc = \<lparr>tcr_name = name, tcr_args = parse_args x raw, tcr_result = truncate_for_record result,
                    tcr_duration_ms = dg_ms env (dv_tools st)\<rparr>;
              st = emit on ((progress ProgressToolDone r)\<lparr>pe_tool_name := name, pe_tool_args := disp,
                     pe_result_len := int (length result), pe_is_error := (tool_err \<noteq> None),
                     pe_tool_output := truncated\<rparr>) st;
              st = add_message (tool_message (tcall_id tc) truncated) st
          in diag_tool_loop env reg on r tcs (st\<lparr>dv_tools := dv_tools st + 1\<rparr>) (recs @ [rc]))"

definition context_warning :: string where
  "context_warning = [CHR 0xE4, CHR 0xB8, CHR 0x8A, CHR 0xE4, CHR 0xB8, CHR 0x8B, CHR 0xE6, CHR 0x96, CHR 0x87, CHR 0xE7, CHR
      0xA9, CHR 0xBA, CHR 0xE9, CHR 0x97, CHR 0xB4, CHR 0xE5, CHR 0x8D, CHR 0xB3, CHR 0xE5, CHR 0xB0,
      CHR 0x86, CHR 0xE8, CHR 0x80, CHR 0x97, CHR 0xE5, CHR 0xB0, CHR 0xBD, CHR 0xE3, CHR 0x80, CHR
      0x82, CHR 0xE8, CHR 0xAF, CHR 0xB7, CHR 0xE5, CHR 0x9F, CHR 0xBA, CHR 0xE4, CHR 0xBA, CHR 0x8E,
      CHR 0xE7, CHR 0x9B, CHR 0xAE, CHR 0xE5, CHR 0x89, CHR 0x8D, CHR 0xE6, CHR 0x94, CHR 0xB6, CHR
      0xE9, CHR 0x9B, CHR 0x86, CHR 0xE5, CHR 0x88, CHR 0xB0, CHR 0xE7, CHR 0x9A, CHR 0x84, CHR 0xE4,
      CHR 0xBF, CHR 0xA1, CHR 0xE6, CHR 0x81, CHR 0xAF, CHR 0xEF, CHR 0xBC, CHR 0x8C, CHR 0xE7, CHR
      0xAB, CHR 0x8B, CHR 0xE5, CHR 0x8D, CHR 0xB3, CHR 0xE8, CHR 0xBE, CHR 0x93, CHR 0xE5, CHR 0x87,
      CHR 0xBA, CHR 0xE6, CHR 0x9C, CHR 0x80, CHR 0xE7, CHR 0xBB, CHR 0x88, CHR 0xE8, CHR 0xAF, CHR
      0x8A, CHR 0xE6, CHR 0x96, CHR 0xAD, CHR 0xE6, CHR 0x8A, CHR 0xA5, CHR 0xE5, CHR 0x91, CHR 0x8A,
      CHR 0xE3, CHR 0x80, CHR 0x82, CHR 0xE4, CHR 0xB8, CHR 0x8D, CHR 0xE8, CHR 0xA6, CHR 0x81, CHR
      0xE5, CHR 0x86, CHR 0x8D, CHR 0xE8, CHR 0xB0, CHR 0x83, CHR 0xE7, CHR 0x94, CHR 0xA8, CHR 0xE4,
      CHR 0xBB, CHR 0xBB, CHR 0xE4, CHR 0xBD, CHR 0x95, CHR 0xE5, CHR 0xB7, CHR 0xA5, CHR 0xE5, CHR
      0x85, CHR 0xB7, CHR 0xE3, CHR 0x80, CHR 0x82]"

definition rounds_warning :: string where
  "rounds_warning = [CHR 0xE4, CHR 0xBD, CHR 0xA0, CHR 0xE5, CHR 0xB7, CHR 0xB2, CHR 0xE4, CHR 0xBD, CHR 0xBF, CHR 0xE7, CHR
      0x94, CHR 0xA8, CHR 0xE4, CHR 0xBA, CHR 0x86, CHR 0xE6, CHR 0x89, CHR 0x80, CHR 0xE6, CHR 0x9C,
      CHR 0x89, CHR 0xE5, CHR 0x8F, CHR 0xAF, CHR 0xE7, CHR 0x94, CHR 0xA8, CHR 0xE7, CHR 0x9A, CHR
      0x84, CHR 0xE5, CHR 0xB7, CHR 0xA5, CHR 0xE5, CHR 0x85, CHR 0xB7, CHR 0xE8, CHR 0xB0, CHR 0x83,
      CHR 0xE7, CHR 0x94, CHR 0xA8, CHR 0xE8, CHR 0xBD, CHR 0xAE, CHR 0xE6, CHR 0xAC, CHR 0xA1, CHR
      0xE3, CHR 0x80, CHR 0x82, CHR 0xE8, CHR 0xAF, CHR 0xB7, CHR 0xE5, CHR 0x9F, CHR 0xBA, CHR 0xE4,
      CHR 0xBA, CHR 0x8E, CHR 0xE7, CHR 0x9B, CHR 0xAE, CHR 0xE5, CHR 0x89, CHR 0x8D, CHR 0xE6, CHR
      0x94, CHR 0xB6, CHR 0xE9, CHR 0x9B, CHR 0x86, CHR 0xE5, CHR 0x88, CHR 0xB0, CHR 0xE7, CHR 0x9A,
      CHR 0x84, CHR 0xE4, CHR 0xBF, CHR 0xA1, CHR 0xE6, CHR 0x81, CHR 0xAF, CHR 0xEF, CHR 0xBC, CHR
      0x8C, CHR 0xE7, CHR 0xAB, CHR 0x8B, CHR 0xE5, CHR 0x8D, CHR 0xB3, CHR 0xE8, CHR 0xBE, CHR 0x93,
      CHR 0xE5, CHR 0x87, CHR 0xBA, CHR 0xE6, CHR 0x9C, CHR 0x80, CHR 0xE7, CHR 0xBB, CHR 0x88, CHR
      0xE8, CHR 0xAF, CHR 0x8A, CHR 0xE6, CHR 0x96, CHR 0xAD, CHR 0xE6, CHR 0x8A, CHR 0xA5, CHR 0xE5,
      CHR 0x91, CHR 0x8A, CHR 0xE3, CHR 0x80, CHR 0x82, CHR 0xE4, CHR 0xB8, CHR 0x8D, CHR 0xE8, CHR
      0xA6, CHR 0x81, CHR 0xE5, CHR 0x86, CHR 0x8D, CHR 0xE8, CHR 0xB0, CHR 0x83, CHR 0xE7, CHR 0x94,
      CHR 0xA8, CHR 0xE4, CHR 0xBB, CHR 0xBB, CHR 0xE4, CHR 0xBD, CHR 0x95, CHR 0xE5, CHR 0xB7, CHR
      0xA5, CHR 0xE5, CHR 0x85, CHR 0xB7, CHR 0xE3, CHR 0x80, CHR 0x82]"

definition incomplete_report :: "string \<Rightarrow> string" where
  "incomplete_report language =
     (if language = ''zh'' then ''['' @ [CHR 0xE8, CHR 0xAF, CHR 0x8A, CHR 0xE6, CHR 0x96, CHR 0xAD, CHR 0xE6, CHR 0x9C, CHR 0xAA, CHR 0xE5, CHR
      0xAE, CHR 0x8C, CHR 0xE6, CHR 0x88, CHR 0x90] @ ''] '' @ [CHR 0xE5, CHR 0xB7, CHR 0xB2, CHR 0xE8, CHR 0xBE, CHR 0xBE, CHR 0xE5, CHR 0x88, CHR 0xB0, CHR 0xE6, CHR
      0x9C, CHR 0x80, CHR 0xE5, CHR 0xA4, CHR 0xA7, CHR 0xE8, CHR 0xBD, CHR 0xAE, CHR 0xE6, CHR 0xAC,
      CHR 0xA1, CHR 0xE9, CHR 0x99, CHR 0x90, CHR 0xE5, CHR 0x88, CHR 0xB6, CHR 0xEF, CHR 0xBC, CHR
      0x8C] @ ''AI '' @ [CHR 0xE6, CHR 0x9C, CHR 0xAA, CHR 0xE8, CHR 0x83, CHR 0xBD, CHR 0xE5, CHR 0x9C, CHR 0xA8, CHR 0xE9, CHR
      0x99, CHR 0x90, CHR 0xE5, CHR 0xAE, CHR 0x9A, CHR 0xE8, CHR 0xBD, CHR 0xAE, CHR 0xE6, CHR 0xAC,
      CHR 0xA1, CHR 0xE5, CHR 0x86, CHR 0x85, CHR 0xE8, CHR 0xBE, CHR 0x93, CHR 0xE5, CHR 0x87, CHR
      0xBA, CHR 0xE6, CHR 0x9C, CHR 0x80, CHR 0xE7, CHR 0xBB, CHR 0x88, CHR 0xE6, CHR 0x8A, CHR 0xA5,
      CHR 0xE5, CHR 0x91, CHR 0x8A, CHR 0xE3, CHR 0x80, CHR 0x82]
      else ''[Incomplete] Max round limit reached, AI did not produce a final report.'')"

definition nil_dereference :: string where
  "nil_dereference = ''runtime error: invalid memory address or nil pointer dereference''"

text \<open>The head of a round: compaction of the history, then at most one warning to the model.\<close>

definition compact_vars :: "int \<Rightarrow> diag_vars \<Rightarrow> diag_vars" where
  "compact_vars limit st =
     (if limit > 0 \<and> dv_estimate st > limit then
        (let ms = fst (compact_messages (dv_messages st) limit)
         in st\<lparr>dv_messages := ms, dv_estimate := int (estimate_messages_tokens ms)\<rparr>)
      else st)"

definition warn_vars :: "int \<Rightarrow> bool \<Rightarrow> diag_vars \<Rightarrow> diag_vars" where
  "warn_vars limit last_round st =
     (if limit > 0 \<and> \<not> dv_warned st \<and> dv_estimate st > quot (wrap64 (limit * 90)) 100 then
        st\<lparr>dv_warned := True, dv_messages := dv_messages st @ [user_message context_warning]\<rparr>
      else if last_round then st\<lparr>dv_messages := dv_messages st @ [user_message rounds_warning]\<rparr>
      else st)"

text \<open>What the code reads of a response: the model's name, the usage, and the first choice if any.\<close>

definition take_response :: "string \<Rightarrow> chat_response \<Rightarrow> diag_vars \<Rightarrow> diag_vars" where
  "take_response model_name resp st =
     (let u = resp_usage resp;
          st = set_ai (\<lambda>a. a\<lparr>air_model := model_name\<rparr>) st;
          st = (if total_usage u > 0 then st\<lparr>dv_estimate := total_usage u\<rparr> else st)
      in set_ai (\<lambda>a. a\<lparr>input_tokens := wrap64 (input_tokens a + prompt_tokens u),
           output_tokens := wrap64 (output_tokens a + completion_tokens u)\<rparr>) st)"

definition first_choice :: "chat_response \<Rightarrow> string \<times> tool_call list" where
  "first_choice resp =
     (case choices resp of [] \<Rightarrow> ('''', []) | ch # _ \<Rightarrow> (content (ch_message ch), tool_calls (ch_message ch)))"

text \<open>\<open>n\<close> rounds are left, \<open>r\<close> is the number of the current one, from zero.\<close>

fun diag_loop ::
  "diag_env \<Rightarrow> diag_engine \<Rightarrow> bool \<Rightarrow> nat \<Rightarrow> int \<Rightarrow> diag_vars \<Rightarrow> diag_end \<times> diag_vars" where
  "diag_loop env eng on 0 r st =
     (DReport (incomplete_report (ac_language (de_cfg eng))), set_ai (\<lambda>a. a\<lparr>total_rounds := de_max_rounds eng\<rparr>) st)"
| "diag_loop env eng on (Suc n) r st =
     (case dg_ctx_err env (dv_calls st) of
        Some e \<Rightarrow> (DError e, st)
      | None \<Rightarrow>
          let st = compact_vars (de_ctx_limit eng) st;
              st = warn_vars (de_ctx_limit eng) (n = 0) st;
              st = emit on (progress ProgressAIStart (r + 1)) st
          in case failover_chat (dg_chat env) (de_fc eng) (dv_calls st) of
            ((resp, nm, Some e), i) \<Rightarrow>
              (DError (Wrapped (''AI API error at round '' @ itoa (r + 1)) e),
               emit on ((progress ProgressAIDone (r + 1))\<lparr>pe_is_error := True\<rparr>) (st\<lparr>dv_calls := i\<rparr>))
          | ((None, nm, None), i) \<Rightarrow> (DPanic nil_dereference, st\<lparr>dv_calls := i\<rparr>)
          | ((Some resp, nm, None), i) \<Rightarrow>
              let st = take_response nm resp (st\<lparr>dv_calls := i\<rparr>);
                  (c, tcs) = first_choice resp;
                  st = emit on ((progress ProgressAIDone (r + 1))\<lparr>pe_reasoning := c\<rparr>) st
              in if length tcs = 0 then (DReport c, set_ai (\<lambda>a. a\<lparr>total_rounds := r + 1\<rparr>) st)
                 else
                   case diag_tool_loop env (de_registry eng) on (r + 1) tcs (add_message (assistant_message c tcs) st) [] of
                     (Some p, st, recs) \<Rightarrow> (DPanic p, st)
                   | (None, st, recs) \<Rightarrow>
                       diag_loop env eng on n (r + 1)
                         (st\<lparr>dv_record := (dv_record st)\<lparr>rec_rounds := rec_rounds (dv_record st)
                            @ [\<lparr>rr_round = r + 1, rr_tool_calls = recs, rr_ai_reasoning = c\<rparr>]\<rparr>\<rparr>))"


section \<open>One diagnosis\<close>

definition init_session_accessor ::
  "diag_env \<Rightarrow> tool_registry \<Rightarrow> diagnose_request \<Rightarrow> go_error + (nat \<times> bool) option" where
  "init_session_accessor env reg req =
     (if rq_instance req = None then Inr None
      else if \<not> has_accessor_factory (rq_plugin req) reg then Inr None
      else case create_accessor (dg_quote env) (dg_factory env) (rq_plugin req) reg of
        Inl e \<Rightarrow> Inl (Wrapped (''create accessor for '' @ rq_plugin req @ ''::'' @ rq_target req) (Plain e))
      | Inr a \<Rightarrow> Inr (Some a))"

definition diag_prompt :: "diag_env \<Rightarrow> diag_engine \<Rightarrow> diagnose_request \<Rightarrow> string" where
  "diag_prompt env eng req =
     (let direct = format_direct_tools (snd (build_tool_set (dg_lower env) (de_registry eng) req));
          catalog = list_tool_catalog_smart_for_os (dg_lower env) (rq_runtime_os req) (de_registry eng);
          remote = is_remote_target (dg_lower env) (rq_target req);
          language = ac_language (de_cfg eng)
      in if rq_mode req = ModeInspect
         then build_inspect_prompt (dg_tmpl env) req direct catalog (dg_hostname env) remote language
         else build_system_prompt (dg_tmpl env) req direct catalog (dg_hostname env) remote language)"

definition diag_start :: "diag_env \<Rightarrow> diag_engine \<Rightarrow> diagnose_request \<Rightarrow> diagnose_record \<Rightarrow> nat \<Rightarrow> nat \<Rightarrow> diag_vars" where
  "diag_start env eng req rc i t =
     (let sys = zero_message\<lparr>role := ''system'', content := diag_prompt env eng req\<rparr>
      in \<lparr>dv_messages = [sys], dv_estimate = int (estimate_message_tokens sys), dv_warned = False,
          dv_record = rc\<lparr>rec_ai := (rec_ai rc)\<lparr>air_model := primary_model_name (de_cfg eng)\<rparr>\<rparr>,
          dv_calls = i, dv_tools = t, dv_events = []\<rparr>)"

text \<open>\<open>i\<close> and \<open>t\<close> count the model and tool calls made before; the result has the accessor to close.\<close>

definition diagnose ::
  "diag_env \<Rightarrow> diag_engine \<Rightarrow> diagnose_request \<Rightarrow> diagnose_record \<Rightarrow> nat \<Rightarrow> nat
   \<Rightarrow> diag_end \<times> diag_vars \<times> (nat \<times> bool) option" where
  "diagnose env eng req rc i t =
     (case init_session_accessor env (de_registry eng) req of
        Inl e \<Rightarrow>
          (DError (Wrapped ''create accessor'' e),
           \<lparr>dv_messages = [], dv_estimate = 0, dv_warned = False, dv_record = rc, dv_calls = i, dv_tools = t,
            dv_events = []\<rparr>, None)
      | Inr acc \<Rightarrow>
          let req = (if rq_runtime_os req = '''' then req\<lparr>rq_runtime_os := dg_goos env\<rparr> else req);
              (r, st) = diag_loop env eng (rq_on_progress req) (nat (de_max_rounds eng)) 0
                (diag_start env eng req rc i t)
          in (r, st, acc))"

section \<open>Forwarding the report\<close>

definition report_event :: "int \<Rightarrow> string \<Rightarrow> event \<Rightarrow> event" where
  "report_event now desc original =
     zero_event\<lparr>event_time := now, event_status := event_status original, alert_key := alert_key original,
       labels := Some (mmerge [] (nil_map (labels original))),
       attrs := (if length (nil_map (attrs original)) > 0 then Some (mmerge [] (nil_map (attrs original))) else None),
       description := desc, description_format := DescFormatMarkdown\<rparr>"

fun forward_loop :: "int \<Rightarrow> string \<Rightarrow> (string, unit) gomap \<Rightarrow> event list \<Rightarrow> event list" where
  "forward_loop now desc seen [] = []"
| "forward_loop now desc seen (e # es) =
     (if mget seen (alert_key e) \<noteq> None then forward_loop now desc seen es
      else report_event now desc e # forward_loop now desc (mput (alert_key e) () seen) es)"

text \<open>The events handed to \<open>notify.Forward\<close>; \<open>heap\<close> reads the request's event pointers.\<close>

definition forward_report ::
  "(int \<Rightarrow> string) \<Rightarrow> string \<Rightarrow> string \<Rightarrow> int \<Rightarrow> (addr \<Rightarrow> event) \<Rightarrow> diagnose_request \<Rightarrow> diagnose_record \<Rightarrow> string
   \<Rightarrow> event list" where
  "forward_report fmt_time state_dir language now hp req rc report =
     forward_loop now (format_report_description fmt_time state_dir rc report language) [] (map hp (rq_events req))"

section \<open>A whole run\<close>

record run_env =
  rn_env :: diag_env
  rn_created :: int
  rn_rand :: "nat \<times> nat"
  rn_elapsed_ms :: int
  rn_day :: "int \<Rightarrow> string"
  rn_now :: int
  rn_fmt_time :: "int \<Rightarrow> string"
  rn_state_dir :: string
  rn_heap :: "addr \<Rightarrow> event"

text \<open>
  What a run leaves: the returned record (\<open>None\<close> for nil), the records given to \<open>Save\<close>, the
  forwarded events, the token and cooldown state, whether that was saved, the closed accessors,
  and the deadline it had set itself.
\<close>

record run_out =
  ro_record :: "diagnose_record option"
  ro_saved :: "diagnose_record list"
  ro_forwarded :: "event list"
  ro_state :: dstate
  ro_state_saved :: bool
  ro_closed :: "nat list"
  ro_timeout :: int

definition run_timeout :: "diag_engine \<Rightarrow> diagnose_request \<Rightarrow> int" where
  "run_timeout eng req =
     (if rq_timeout req = 0 then wrap64 (ac_request_timeout (de_cfg eng) * de_max_rounds eng) else rq_timeout req)"

definition close_accessor :: "(nat \<times> bool) option \<Rightarrow> diagnose_record \<Rightarrow> nat list" where
  "close_accessor acc rc = session_close \<lparr>accessor = acc, sess_record = rc, start_time = 0\<rparr>"

text \<open>The deferred recovery: the record is marked and saved, nothing else happens, nil is returned.\<close>

definition recover_run ::
  "string \<Rightarrow> diagnose_record \<Rightarrow> diagnose_record list \<Rightarrow> event list \<Rightarrow> dstate \<Rightarrow> nat list \<Rightarrow> int \<Rightarrow> run_out" where
  "recover_run p rc saved fwd s cls tmo =
     \<lparr>ro_record = None, ro_saved = saved @ [rc\<lparr>rec_status := ''failed'', rec_error := ''panic: '' @ p\<rparr>],
      ro_forwarded = fwd, ro_state = s, ro_state_saved = False, ro_closed = cls, ro_timeout = tmo\<rparr>"

text \<open>The part after the loop, when it did not panic: save, forward, count, cool down, save the state.\<close>

definition finish_run ::
  "run_env \<Rightarrow> diag_engine \<Rightarrow> diagnose_request \<Rightarrow> diagnose_record \<Rightarrow> string \<Rightarrow> dstate \<Rightarrow> nat list \<Rightarrow> run_out" where
  "finish_run re eng req rc report s cls =
     (let rc = rc\<lparr>duration_ms := rn_elapsed_ms re\<rparr>;
          tmo = run_timeout eng req;
          fwd = (if report \<noteq> '''' \<and> length (rq_events req) > 0
            then forward_report (rn_fmt_time re) (rn_state_dir re) (ac_language (de_cfg eng))
                   (rn_now re div second) (rn_heap re) req rc report
            else []);
          s = add_tokens (rn_day re) (rn_now re) (input_tokens (rec_ai rc)) (output_tokens (rec_ai rc)) s
      in case (if rq_mode req \<noteq> ModeInspect
               then update_cooldown (rn_now re) (rq_plugin req) (rq_target req) (rq_cooldown req) s else Some s) of
           None \<Rightarrow> recover_run ''assignment to entry in nil map'' rc [rc] fwd s cls tmo
         | Some s \<Rightarrow>
             \<lparr>ro_record = Some rc, ro_saved = [rc], ro_forwarded = fwd, ro_state = s, ro_state_saved = True,
              ro_closed = cls, ro_timeout = tmo\<rparr>)"

definition run_diagnose :: "run_env \<Rightarrow> diag_engine \<Rightarrow> diagnose_request \<Rightarrow> nat \<Rightarrow> nat \<Rightarrow> dstate \<Rightarrow> run_out" where
  "run_diagnose re eng req i t s =
     (case diagnose (rn_env re) eng req
             (new_diagnose_record (rn_created re) (fst (rn_rand re)) (snd (rn_rand re)) req) i t of
        (DPanic p, st, acc) \<Rightarrow>
          recover_run p (dv_record st) [] [] s (close_accessor acc (dv_record st)) (run_timeout eng req)
      | (DError e, st, acc) \<Rightarrow>
          finish_run re eng req ((dv_record st)\<lparr>rec_status := ''failed'', rec_error := error_text e\<rparr>) '''' s
            (close_accessor acc (dv_record st))
      | (DReport report, st, acc) \<Rightarrow>
          finish_run re eng req ((dv_record st)\<lparr>rec_status := ''success'', rec_report := report\<rparr>) report s
            (close_accessor acc (dv_record st)))"

section \<open>The streaming variant\<close>

text \<open>\<open>show_dur\<close> is the text of an event's duration; the result is a delta and its stage.\<close>

definition stream_event :: "(progress_event \<Rightarrow> string) \<Rightarrow> progress_event \<Rightarrow> (string \<times> string) list" where
  "stream_event show_dur e =
     (case pe_type e of
        ProgressAIStart \<Rightarrow> [(''[Round '' @ itoa (pe_round e) @ ''] AI thinking...'', ''thinking'')]
      | ProgressAIDone \<Rightarrow> if pe_reasoning e \<noteq> '''' then [(pe_reasoning e, ''answer'')] else []
      | ProgressToolStart \<Rightarrow> [(''[Tool] '' @ pe_tool_name e @ '' '' @ pe_tool_args e, ''tool_call'')]
      | ProgressToolDone \<Rightarrow>
          [(''[Tool done] '' @ pe_tool_name e @ '' ('' @ (if pe_is_error e then ''error'' else ''ok'') @ '', ''
            @ itoa (pe_result_len e) @ ''B, '' @ show_dur e @ '')'', ''tool_result'')])"

definition run_diagnose_streaming ::
  "(progress_event \<Rightarrow> string) \<Rightarrow> bool \<Rightarrow> run_env \<Rightarrow> diag_engine \<Rightarrow> diagnose_request \<Rightarrow> nat \<Rightarrow> nat
   \<Rightarrow> (go_error + string) \<times> (string \<times> string) list \<times> nat list" where
  "run_diagnose_streaming show_dur has_cb re eng req i t =
     (let rc = new_diagnose_record (rn_created re) (fst (rn_rand re)) (snd (rn_rand re)) req;
          (r, st, acc) = diagnose (rn_env re) eng (req\<lparr>rq_on_progress := True\<rparr>) rc i t;
          out = (if has_cb then concat (map (stream_event show_dur) (dv_events st)) else [])
      in (case r of
            DReport report \<Rightarrow> Inr report
          | DError e \<Rightarrow> Inl e
          | DPanic p \<Rightarrow> Inl (Plain (''panic: '' @ p)),
          out, close_accessor acc (dv_record st)))"


section \<open>Lemmas on the loop\<close>

lemma emit_simps [simp]:
  "dv_messages (emit on e st) = dv_messages st" "dv_record (emit on e st) = dv_record st"
  "dv_tools (emit on e st) = dv_tools st" "dv_calls (emit on e st) = dv_calls st"
  "dv_warned (emit on e st) = dv_warned st" "dv_estimate (emit on e st) = dv_estimate st"
  by (simp_all add: emit_def)

lemma add_message_simps [simp]:
  "dv_messages (add_message m st) = dv_messages st @ [m]" "dv_record (add_message m st) = dv_record st"
  "dv_tools (add_message m st) = dv_tools st" "dv_calls (add_message m st) = dv_calls st"
  by (simp_all add: add_message_def)

lemma set_ai_simps [simp]:
  "dv_messages (set_ai f st) = dv_messages st" "dv_tools (set_ai f st) = dv_tools st"
  "dv_calls (set_ai f st) = dv_calls st" "dv_record (set_ai f st) = (dv_record st)\<lparr>rec_ai := f (rec_ai (dv_record st))\<rparr>"
  by (simp_all add: set_ai_def)

lemma take_response_simps [simp]:
  "dv_messages (take_response nm resp st) = dv_messages st" "dv_tools (take_response nm resp st) = dv_tools st"
  "rec_rounds (dv_record (take_response nm resp st)) = rec_rounds (dv_record st)"
  "total_rounds (rec_ai (dv_record (take_response nm resp st))) = total_rounds (rec_ai (dv_record st))"
  by (simp_all add: take_response_def Let_def)

lemma compact_warn_simps [simp]:
  "dv_record (compact_vars l st) = dv_record st" "dv_record (warn_vars l b st) = dv_record st"
  "dv_calls (compact_vars l st) = dv_calls st" "dv_calls (warn_vars l b st) = dv_calls st"
  "dv_tools (compact_vars l st) = dv_tools st" "dv_tools (warn_vars l b st) = dv_tools st"
  by (simp_all add: compact_vars_def warn_vars_def Let_def)

definition keeps_history :: "message list \<Rightarrow> message list \<Rightarrow> bool" where
  "keeps_history ms ms' \<longleftrightarrow> history_ok ms' \<and> hd ms' = hd ms"

lemma hd_history: "history_ok ms \<Longrightarrow> hd (ms @ ys) = hd ms"
  by (cases ms) (auto simp: history_ok_def)

lemma keeps_trans: "keeps_history a b \<Longrightarrow> keeps_history b c \<Longrightarrow> keeps_history a c"
  by (simp add: keeps_history_def)

lemma keeps_append: "history_ok ms \<Longrightarrow> complete ys \<Longrightarrow> keeps_history ms (ms @ ys)"
  by (simp add: keeps_history_def history_ok_snoc hd_history)

lemma keeps_refl: "history_ok ms \<Longrightarrow> keeps_history ms ms"
  by (simp add: keeps_history_def)

lemma compact_vars_history: "history_ok (dv_messages st) \<Longrightarrow> keeps_history (dv_messages st) (dv_messages (compact_vars l st))"
  by (simp add: compact_vars_def Let_def keeps_history_def compact_history)

lemma warn_vars_history: "history_ok (dv_messages st) \<Longrightarrow> keeps_history (dv_messages st) (dv_messages (warn_vars l b st))"
  by (auto simp: warn_vars_def intro: keeps_append keeps_refl)

text \<open>The results a round keeps: one per call, in order, each within its limit.\<close>

lemma truncate_for_record_length: "int (length (truncate_for_record s)) \<le> maxRecordResultBytes + 22"
  using truncate_utf8_length [of s maxRecordResultBytes]
  by (simp add: truncate_for_record_def maxRecordResultBytes_def nl_def)

lemma diag_tool_loop_spec:
  assumes "diag_tool_loop env reg on r tcs st recs = (p, st', recs')"
  shows "dv_record st' = dv_record st
    \<and> (p = None \<longrightarrow>
        (\<exists>outs. length outs = length tcs
           \<and> dv_messages st' = dv_messages st @ map (\<lambda>(tc, out). tool_message (tcall_id tc) out) (zip tcs outs))
        \<and> (\<exists>new. recs' = recs @ new \<and> map tcr_name new = map (\<lambda>tc. fc_name (tcall_function tc)) tcs
           \<and> (\<forall>rc \<in> set new. int (length (tcr_result rc)) \<le> maxRecordResultBytes + 22))
        \<and> dv_tools st' = dv_tools st + length tcs)
    \<and> (p \<noteq> None \<longrightarrow> dg_panic env (dv_tools st') = p)"
  using assms
proof (induction tcs arbitrary: st recs)
  case Nil
  then show ?case by simp
next
  case (Cons tc tcs)
  define x where "x = dg_exec env (dv_tools st)"
  define st1 where "st1 = emit on ((progress ProgressToolStart r)\<lparr>pe_tool_name := fc_name (tcall_function tc),
      pe_tool_args := format_tool_args_display x (fc_name (tcall_function tc)) (fc_arguments (tcall_function tc))\<rparr>) st"
  show ?case
  proof (cases "dg_panic env (dv_tools st)")
    case (Some msg)
    with Cons.prems have "p = Some msg" "st' = st1" by (simp_all add: Let_def st1_def x_def)
    with Some show ?thesis by (simp add: st1_def)
  next
    case None
    obtain out err where ex: "execute_tool x reg True (fc_name (tcall_function tc)) (fc_arguments (tcall_function tc)) = (out, err)"
      by force
    define result where "result = (case err of Some e \<Rightarrow> ''error: '' @ e | None \<Rightarrow> out)"
    define rc where "rc = \<lparr>tcr_name = fc_name (tcall_function tc), tcr_args = parse_args x (fc_arguments (tcall_function tc)),
        tcr_result = truncate_for_record result, tcr_duration_ms = dg_ms env (dv_tools st)\<rparr>"
    define st2 where "st2 = (add_message (tool_message (tcall_id tc) (truncate_output result))
        (emit on ((progress ProgressToolDone r)\<lparr>pe_tool_name := fc_name (tcall_function tc),
           pe_tool_args := format_tool_args_display x (fc_name (tcall_function tc)) (fc_arguments (tcall_function tc)),
           pe_result_len := int (length result), pe_is_error := (err \<noteq> None),
           pe_tool_output := truncate_output result\<rparr>) st1))\<lparr>dv_tools := dv_tools st + 1\<rparr>"
    have st2: "dv_messages st2 = dv_messages st @ [tool_message (tcall_id tc) (truncate_output result)]"
        "dv_record st2 = dv_record st" "dv_tools st2 = dv_tools st + 1"
      by (simp_all add: st2_def st1_def)
    have step: "diag_tool_loop env reg on r tcs st2 (recs @ [rc]) = (p, st', recs')"
      using Cons.prems None ex
      by (simp add: Let_def x_def [symmetric] result_def [symmetric] rc_def [symmetric] st1_def [symmetric] st2_def)
    note IH = Cons.IH [OF step]
    have rc: "tcr_name rc = fc_name (tcall_function tc)" "int (length (tcr_result rc)) \<le> maxRecordResultBytes + 22"
      using truncate_for_record_length by (simp_all add: rc_def)
    show ?thesis
    proof (cases "p = None")
      case True
      with IH obtain outs new where "length outs = length tcs"
          "dv_messages st' = dv_messages st2 @ map (\<lambda>(tc, out). tool_message (tcall_id tc) out) (zip tcs outs)"
          "recs' = (recs @ [rc]) @ new" "map tcr_name new = map (\<lambda>tc. fc_name (tcall_function tc)) tcs"
          "\<forall>rc \<in> set new. int (length (tcr_result rc)) \<le> maxRecordResultBytes + 22"
          "dv_tools st' = dv_tools st2 + length tcs" by blast
      with True IH st2 rc show ?thesis
        by (auto intro!: exI [of _ "truncate_output result # outs"] exI [of _ "rc # new"])
    next
      case False
      with IH st2 show ?thesis by auto
    qed
  qed
qed


text \<open>What the whole loop leaves, from any state of its variables.\<close>

definition rounds_from :: "int \<Rightarrow> round_record list \<Rightarrow> bool" where
  "rounds_from r new \<longleftrightarrow> map rr_round new = map (\<lambda>j. r + 1 + int j) [0..<length new]
     \<and> (\<forall>x \<in> set new. rr_tool_calls x \<noteq> []
          \<and> (\<forall>rc \<in> set (rr_tool_calls x). int (length (tcr_result rc)) \<le> maxRecordResultBytes + 22))"

lemma rounds_from_Cons:
  assumes "rr_round x = r + 1" and "rr_tool_calls x \<noteq> []"
    and "\<forall>rc \<in> set (rr_tool_calls x). int (length (tcr_result rc)) \<le> maxRecordResultBytes + 22"
    and "rounds_from (r + 1) new"
  shows "rounds_from r (x # new)"
  using assms by (auto simp: rounds_from_def map_upt_Suc simp del: upt_Suc)

definition total_rounds_ok :: "diag_engine \<Rightarrow> nat \<Rightarrow> int \<Rightarrow> round_record list \<Rightarrow> diag_end \<Rightarrow> diag_vars \<Rightarrow> bool" where
  "total_rounds_ok eng n r new e st \<longleftrightarrow>
     (case e of
        DReport c \<Rightarrow>
          total_rounds (rec_ai (dv_record st))
            = (if length new < n then r + int (length new) + 1 else de_max_rounds eng)
          \<and> (length new = n \<longrightarrow> c = incomplete_report (ac_language (de_cfg eng)))
      | _ \<Rightarrow> length new < n)"

definition loop_result :: "diag_engine \<Rightarrow> nat \<Rightarrow> int \<Rightarrow> diag_vars \<Rightarrow> diag_end \<Rightarrow> diag_vars \<Rightarrow> bool" where
  "loop_result eng n r st e st' \<longleftrightarrow>
     (\<exists>new. rec_rounds (dv_record st') = rec_rounds (dv_record st) @ new \<and> length new \<le> n \<and> rounds_from r new
        \<and> total_rounds_ok eng n r new e st')
     \<and> ((\<forall>p. e \<noteq> DPanic p) \<longrightarrow> keeps_history (dv_messages st) (dv_messages st'))"

lemma loop_result_stop:
  assumes "rec_rounds (dv_record st') = rec_rounds (dv_record st)"
    and "(\<forall>p. e \<noteq> DPanic p) \<Longrightarrow> keeps_history (dv_messages st) (dv_messages st')"
    and "\<And>c. e = DReport c \<Longrightarrow> total_rounds (rec_ai (dv_record st')) = r + 1"
  shows "loop_result eng (Suc n) r st e st'"
  using assms
  by (auto simp: loop_result_def rounds_from_def total_rounds_ok_def split: diag_end.split intro!: exI [of _ "[]"])

lemma loop_result_step:
  assumes sub: "loop_result eng n (r + 1) st2 e st'"
    and rounds: "rec_rounds (dv_record st2) = rec_rounds (dv_record st) @ [x]" "rr_round x = r + 1"
      "rr_tool_calls x \<noteq> []" "\<forall>rc \<in> set (rr_tool_calls x). int (length (tcr_result rc)) \<le> maxRecordResultBytes + 22"
    and hist: "keeps_history (dv_messages st) (dv_messages st2)"
  shows "loop_result eng (Suc n) r st e st'"
proof -
  from sub obtain new where new: "rec_rounds (dv_record st') = rec_rounds (dv_record st2) @ new" "length new \<le> n"
      "rounds_from (r + 1) new" "total_rounds_ok eng n (r + 1) new e st'"
    and h: "(\<forall>p. e \<noteq> DPanic p) \<longrightarrow> keeps_history (dv_messages st2) (dv_messages st')"
    by (auto simp: loop_result_def)
  have "total_rounds_ok eng (Suc n) r (x # new) e st'"
    using new(4) by (auto simp: total_rounds_ok_def split: diag_end.splits)
  moreover have "rounds_from r (x # new)" using rounds new by (intro rounds_from_Cons) auto
  ultimately show ?thesis
    using new rounds(1) h hist keeps_trans by (fastforce simp: loop_result_def)
qed

lemma diag_loop_spec:
  assumes "diag_loop env eng on n r st = (e, st')" and "history_ok (dv_messages st)"
  shows "loop_result eng n r st e st'"
  using assms
proof (induction n arbitrary: r st)
  case 0
  then show ?case
    by (auto simp: loop_result_def rounds_from_def total_rounds_ok_def keeps_refl)
next
  case (Suc n)
  define st1 where "st1 = emit on (progress ProgressAIStart (r + 1))
      (warn_vars (de_ctx_limit eng) (n = 0) (compact_vars (de_ctx_limit eng) st))"
  have st1: "dv_record st1 = dv_record st" "dv_calls st1 = dv_calls st" by (simp_all add: st1_def)
  have h1: "keeps_history (dv_messages st) (dv_messages st1)"
    using compact_vars_history [OF Suc.prems(2), of "de_ctx_limit eng"]
    by (auto simp: st1_def keeps_history_def
        intro!: warn_vars_history [of "compact_vars (de_ctx_limit eng) st", unfolded keeps_history_def, THEN conjunct1]
          warn_vars_history [of "compact_vars (de_ctx_limit eng) st", unfolded keeps_history_def, THEN conjunct2, THEN trans])
  show ?case
  proof (cases "dg_ctx_err env (dv_calls st)")
    case (Some err)
    with Suc.prems show ?thesis by (auto intro!: loop_result_stop keeps_refl)
  next
    case None
    obtain resp nm err i where fc: "failover_chat (dg_chat env) (de_fc eng) (dv_calls st) = ((resp, nm, err), i)"
      by (metis prod.exhaust)
    consider (err) x where "err = Some x" | (nil) "err = None" "resp = None" | (ok) rp where "err = None" "resp = Some rp"
      by (cases err; cases resp) auto
    then show ?thesis
    proof cases
      case err
      with Suc.prems None fc st1 h1 show ?thesis
        by (cases resp) (auto simp: Let_def st1_def [symmetric] intro!: loop_result_stop)
    next
      case nil
      with Suc.prems None fc st1 h1 show ?thesis
        by (auto simp: Let_def st1_def [symmetric] intro!: loop_result_stop)
    next
      case ok
      obtain c tcs where ch: "first_choice rp = (c, tcs)" by force
      define st2 where "st2 = emit on ((progress ProgressAIDone (r + 1))\<lparr>pe_reasoning := c\<rparr>)
          (take_response nm rp (st1\<lparr>dv_calls := i\<rparr>))"
      have st2: "dv_messages st2 = dv_messages st1" "rec_rounds (dv_record st2) = rec_rounds (dv_record st)"
        by (simp_all add: st2_def st1)
      show ?thesis
      proof (cases "tcs = []")
        case True
        with Suc.prems None fc ok ch st2 h1 show ?thesis
          by (auto simp: Let_def st1_def [symmetric] st2_def [symmetric] intro!: loop_result_stop)
      next
        case False
        obtain p st3 recs where tl: "diag_tool_loop env (de_registry eng) on (r + 1) tcs
            (add_message (assistant_message c tcs) st2) [] = (p, st3, recs)" by (metis prod_cases3)
        note spec = diag_tool_loop_spec [OF tl]
        show ?thesis
        proof (cases p)
          case (Some msg)
          with Suc.prems None fc ok ch False tl spec st2 show ?thesis
            by (auto simp: Let_def st1_def [symmetric] st2_def [symmetric] intro!: loop_result_stop)
        next
          case pn: None
          define st4 where "st4 = st3\<lparr>dv_record := (dv_record st3)\<lparr>rec_rounds := rec_rounds (dv_record st3)
              @ [\<lparr>rr_round = r + 1, rr_tool_calls = recs, rr_ai_reasoning = c\<rparr>]\<rparr>\<rparr>"
          have rec: "diag_loop env eng on n (r + 1) st4 = (e, st')"
            using Suc.prems None fc ok ch False tl pn
            by (simp add: Let_def st1_def [symmetric] st2_def [symmetric] st4_def)
          from spec pn obtain outs where outs: "length outs = length tcs" "dv_messages st3 = dv_messages st1
              @ (assistant_message c tcs # map (\<lambda>(tc, out). tool_message (tcall_id tc) out) (zip tcs outs))"
            using st2 by auto
          from spec pn have recs: "map tcr_name recs = map (\<lambda>tc. fc_name (tcall_function tc)) tcs"
              "\<forall>rc \<in> set recs. int (length (tcr_result rc)) \<le> maxRecordResultBytes + 22"
              "dv_record st3 = dv_record st2" by auto
          have h: "keeps_history (dv_messages st) (dv_messages st4)"
            using h1 complete_round [OF outs(1)] outs(2)
            by (auto simp: st4_def keeps_history_def history_ok_snoc hd_history)
          then have "history_ok (dv_messages st4)" by (simp add: keeps_history_def)
          from Suc.IH [OF rec this] show ?thesis
            using recs st2 h False
            by (elim loop_result_step [where x = "\<lparr>rr_round = r + 1, rr_tool_calls = recs, rr_ai_reasoning = c\<rparr>"])
              (auto simp: st4_def)
        qed
      qed
    qed
  qed
qed


lemma diag_loop_panic:
  assumes "diag_loop env eng on n r st = (DPanic p, st')" and "0 \<le> max_retries (retry_cfg (de_fc eng))"
  shows "\<exists>t. dg_panic env t = Some p"
  using assms
proof (induction n arbitrary: r st)
  case 0
  then show ?case by simp
next
  case (Suc n)
  define st1 where "st1 = emit on (progress ProgressAIStart (r + 1))
      (warn_vars (de_ctx_limit eng) (n = 0) (compact_vars (de_ctx_limit eng) st))"
  have ctx: "dg_ctx_err env (dv_calls st) = None" using Suc.prems(1) by (auto split: option.splits)
  obtain resp nm err i where fc: "failover_chat (dg_chat env) (de_fc eng) (dv_calls st) = ((resp, nm, err), i)"
    by (metis prod.exhaust)
  have err: "err = None" using Suc.prems(1) ctx fc by (cases resp; cases err) (auto simp: Let_def)
  then have "resp \<noteq> None" using failover_chat_some [OF Suc.prems(2), of "dg_chat env" "dv_calls st" resp nm] fc by simp
  then obtain rp where rp: "resp = Some rp" by blast
  obtain c tcs where ch: "first_choice rp = (c, tcs)" by force
  define st2 where "st2 = emit on ((progress ProgressAIDone (r + 1))\<lparr>pe_reasoning := c\<rparr>)
      (take_response nm rp (st1\<lparr>dv_calls := i\<rparr>))"
  have ne: "tcs \<noteq> []" using Suc.prems(1) ctx fc err rp ch by (auto simp: Let_def)
  obtain q st3 recs where tl: "diag_tool_loop env (de_registry eng) on (r + 1) tcs
      (add_message (assistant_message c tcs) st2) [] = (q, st3, recs)" by (metis prod_cases3)
  show ?case
  proof (cases q)
    case (Some m)
    with Suc.prems(1) ctx fc err rp ch ne tl have "m = p" by (simp add: Let_def st1_def [symmetric] st2_def [symmetric])
    with diag_tool_loop_spec [OF tl] Some show ?thesis by auto
  next
    case None
    with Suc ctx fc err rp ch ne tl show ?thesis
      by (simp add: Let_def st1_def [symmetric] st2_def [symmetric])
  qed
qed

lemma diag_loop_negative:
  assumes "max_retries (retry_cfg (de_fc eng)) < 0" and "priority (de_fc eng) \<noteq> []" and "pinned (de_fc eng) = ''''"
    and "dg_ctx_err env (dv_calls st) = None"
  shows "fst (diag_loop env eng on (Suc n) r st) = DPanic nil_dereference"
proof -
  obtain name names where p: "priority (de_fc eng) = name # names" using assms(2) by (cases "priority (de_fc eng)") auto
  have "chat_with_retry x (retry_cfg (de_fc eng)) i = ((None, None), i, [])" for x :: "chat_response chat_env" and i
    using assms(1) by (simp add: chat_with_retry_def)
  then have "failover_chat (dg_chat env) (de_fc eng) i = ((None, name, None), i)" for i
    using assms(3) by (simp add: failover_chat_def p)
  with assms(4) show ?thesis by (simp add: Let_def)
qed

text \<open>The engine as its constructor builds it; \<open>mk\<close> and \<open>gw\<close> give the clients.\<close>

definition client_config :: "ai_config \<Rightarrow> ai_client_config" where
  "client_config c =
     \<lparr>model_priority = ac_model_priority c,
      cfg_retry = \<lparr>max_retries = ac_max_retries c, retry_backoff = ac_retry_backoff c\<rparr>,
      gateway_enabled = gw_enabled (ac_gateway c), gateway_fallback = gw_fallback (ac_gateway c),
      gateway_max_retries = gw_max_retries (ac_gateway c)\<rparr>"

definition new_diagnose_engine ::
  "(string \<Rightarrow> nat) \<Rightarrow> go_error + nat \<Rightarrow> tool_registry \<Rightarrow> ai_config \<Rightarrow> diag_engine" where
  "new_diagnose_engine mk gw reg cfg =
     \<lparr>de_registry = reg, de_fc = new_failover_client_for_scene mk gw (client_config cfg) ''diagnose'',
      de_cfg = cfg, de_max_rounds = ac_max_rounds cfg, de_ctx_limit = context_window_limit cfg\<rparr>"

lemma diag_start_simps [simp]:
  "history_ok (dv_messages (diag_start env eng req rc i t))" "dv_calls (diag_start env eng req rc i t) = i"
  "rec_rounds (dv_record (diag_start env eng req rc i t)) = rec_rounds rc"
  "hd (dv_messages (diag_start env eng req rc i t))
     = zero_message\<lparr>role := ''system'', content := diag_prompt env eng req\<rparr>"
  by (simp_all add: diag_start_def Let_def history_ok_def)

definition with_os :: "diag_env \<Rightarrow> diagnose_request \<Rightarrow> diagnose_request" where
  "with_os env req = (if rq_runtime_os req = '''' then req\<lparr>rq_runtime_os := dg_goos env\<rparr> else req)"

lemma diagnose_eq:
  "init_session_accessor env (de_registry eng) req = Inr acc \<Longrightarrow>
   diagnose env eng req rc i t =
     (let (r, st) = diag_loop env eng (rq_on_progress (with_os env req)) (nat (de_max_rounds eng)) 0
                (diag_start env eng (with_os env req) rc i t) in (r, st, acc))"
  by (simp add: diagnose_def with_os_def Let_def)

text \<open>
  C1. The diagnosis loop returns after at most \<open>max_rounds\<close> rounds, whatever the models and the
  tools answer: the tool rounds are recorded in order from 1, each with its bounded results; a
  report comes with the number of rounds used, and is the fixed incomplete one exactly when every
  round called tools; unless a tool panics the history still starts with the system prompt and
  answers every tool call; and with a non-negative retry count only a tool's panic ends the loop
  abnormally.
\<close>

theorem diagnosis_loop:
  assumes run: "diagnose env eng req (new_diagnose_record now b0 b1 req) i t = (e, st, acc)"
    and acc: "init_session_accessor env (de_registry eng) req = Inr acc'"
    and rounds: "0 < de_max_rounds eng"
  shows "(\<exists>k. map rr_round (rec_rounds (dv_record st)) = map int [1..<Suc k] \<and> int k \<le> de_max_rounds eng
        \<and> (case e of
             DReport c \<Rightarrow> total_rounds (rec_ai (dv_record st)) = min (int k + 1) (de_max_rounds eng)
               \<and> (int k = de_max_rounds eng \<longrightarrow> c = incomplete_report (ac_language (de_cfg eng)))
           | _ \<Rightarrow> int k < de_max_rounds eng))
    \<and> (\<forall>x \<in> set (rec_rounds (dv_record st)). \<forall>rc \<in> set (rr_tool_calls x).
         int (length (tcr_result rc)) \<le> maxRecordResultBytes + 22)
    \<and> ((\<forall>p. e \<noteq> DPanic p) \<longrightarrow> history_ok (dv_messages st)
         \<and> hd (dv_messages st) = zero_message\<lparr>role := ''system'', content := diag_prompt env eng (with_os env req)\<rparr>)
    \<and> (\<forall>p. e = DPanic p \<and> 0 \<le> max_retries (retry_cfg (de_fc eng)) \<longrightarrow> (\<exists>t. dg_panic env t = Some p))"
proof -
  let ?rc = "new_diagnose_record now b0 b1 req"
  let ?st = "diag_start env eng (with_os env req) ?rc i t"
  have loop: "diag_loop env eng (rq_on_progress (with_os env req)) (nat (de_max_rounds eng)) 0 ?st = (e, st)"
    using run diagnose_eq [OF acc, of ?rc i t] by (simp split: prod.splits)
  have nil: "rec_rounds ?rc = []" by (simp add: new_diagnose_record_def Let_def)
  from diag_loop_spec [OF loop] obtain new where new: "rec_rounds (dv_record st) = new" "length new \<le> nat (de_max_rounds eng)"
      "rounds_from 0 new" "total_rounds_ok eng (nat (de_max_rounds eng)) 0 new e st"
    and h: "(\<forall>p. e \<noteq> DPanic p) \<longrightarrow> keeps_history (dv_messages ?st) (dv_messages st)"
    by (auto simp: loop_result_def nil)
  have "map rr_round new = map int [1..<Suc (length new)]"
    using new(3) by (auto simp: rounds_from_def map_Suc_upt [symmetric] simp del: upt_Suc)
  moreover have "int (length new) \<le> de_max_rounds eng" using new(2) rounds by simp
  moreover have "case e of DReport c \<Rightarrow> total_rounds (rec_ai (dv_record st)) = min (int (length new) + 1) (de_max_rounds eng)
               \<and> (int (length new) = de_max_rounds eng \<longrightarrow> c = incomplete_report (ac_language (de_cfg eng)))
           | _ \<Rightarrow> int (length new) < de_max_rounds eng"
    using new(2,4) rounds by (auto simp: total_rounds_ok_def min_def split: diag_end.splits if_splits)
  ultimately have k: "\<exists>k. map rr_round (rec_rounds (dv_record st)) = map int [1..<Suc k] \<and> int k \<le> de_max_rounds eng
        \<and> (case e of
             DReport c \<Rightarrow> total_rounds (rec_ai (dv_record st)) = min (int k + 1) (de_max_rounds eng)
               \<and> (int k = de_max_rounds eng \<longrightarrow> c = incomplete_report (ac_language (de_cfg eng)))
           | _ \<Rightarrow> int k < de_max_rounds eng)"
    unfolding new(1) by blast
  have bound: "\<forall>x \<in> set (rec_rounds (dv_record st)). \<forall>rc \<in> set (rr_tool_calls x).
         int (length (tcr_result rc)) \<le> maxRecordResultBytes + 22"
    using new(1,3) by (simp add: rounds_from_def)
  have hist: "(\<forall>p. e \<noteq> DPanic p) \<longrightarrow> history_ok (dv_messages st)
         \<and> hd (dv_messages st) = zero_message\<lparr>role := ''system'', content := diag_prompt env eng (with_os env req)\<rparr>"
    using h by (simp add: keeps_history_def)
  have "\<forall>p. e = DPanic p \<and> 0 \<le> max_retries (retry_cfg (de_fc eng)) \<longrightarrow> (\<exists>t. dg_panic env t = Some p)"
    using loop diag_loop_panic by blast
  with k bound hist show ?thesis by (intro conjI)
qed


definition example_diag_env :: "(nat \<Rightarrow> go_error + chat_response) \<Rightarrow> diag_env" where
  "example_diag_env rep =
     \<lparr>dg_exec = (\<lambda>_. example_exec_env), dg_panic = (\<lambda>_. None), dg_ms = (\<lambda>_. 0),
      dg_chat = \<lparr>reply = rep, done_before = (\<lambda>_. None), rnd = (\<lambda>_. 0)\<rparr>, dg_ctx_err = (\<lambda>_. None),
      dg_factory = (\<lambda>_. Inl ''''), dg_tmpl = (\<lambda>_. Inr ''p''), dg_goos = ''linux'', dg_hostname = ''h'',
      dg_lower = id, dg_quote = id\<rparr>"

definition example_engine :: "int \<Rightarrow> diag_engine" where
  "example_engine retries =
     new_diagnose_engine (\<lambda>_. 0) (Inr 0) new_tool_registry (ai_apply_defaults (example_ai True retries))"

theorem diagnosis_loop_witness:
  "\<exists>e st acc. diagnose (example_diag_env (\<lambda>_. Inr (text_reply ''ok''))) (example_engine 0) (example_request ''disk'' ''t'')
       (new_diagnose_record 0 0 0 (example_request ''disk'' ''t'')) 0 0 = (e, st, acc)
     \<and> (\<exists>k. map rr_round (rec_rounds (dv_record st)) = map int [1..<Suc k] \<and> int k \<le> 15)"
proof -
  obtain e st acc where run: "diagnose (example_diag_env (\<lambda>_. Inr (text_reply ''ok''))) (example_engine 0)
      (example_request ''disk'' ''t'') (new_diagnose_record 0 0 0 (example_request ''disk'' ''t'')) 0 0 = (e, st, acc)"
    by (metis prod_cases3)
  have a: "init_session_accessor (example_diag_env (\<lambda>_. Inr (text_reply ''ok''))) (de_registry (example_engine 0))
      (example_request ''disk'' ''t'') = Inr None"
    by (simp add: init_session_accessor_def example_request_def)
  have m: "de_max_rounds (example_engine 0) = 15"
    by (simp add: example_engine_def new_diagnose_engine_def ai_apply_defaults_def example_ai_def)
  from diagnosis_loop [OF run a] m run show ?thesis by auto
qed

text \<open>
  A negative \<open>max_retries\<close> passes validation, the defaults leave it alone, and with it every
  diagnosis that reaches a model fails: no model is asked, both results are nil, and the run ends
  in a recovered nil dereference, without a record for the caller, tokens or a cooldown.
\<close>

theorem negative_retries_panic:
  assumes valid: "ai_validate qt cfg = None" and ai: "ac_enabled cfg" "\<not> gw_enabled (ac_gateway cfg)"
    and neg: "ac_max_retries cfg < 0" and rounds: "0 < ac_max_rounds cfg"
    and start: "rq_instance req = None" "dg_ctx_err (rn_env re) i = None"
    and eng: "eng = new_diagnose_engine mk gw reg cfg"
  shows "ac_max_retries (ai_apply_defaults cfg) = ac_max_retries cfg
    \<and> fst (diagnose (rn_env re) eng req rc i t) = DPanic nil_dereference
    \<and> ro_record (run_diagnose re eng req i t s) = None
    \<and> map rec_status (ro_saved (run_diagnose re eng req i t s)) = [''failed'']
    \<and> ro_state (run_diagnose re eng req i t s) = s"
proof -
  have prio: "ac_model_priority cfg \<noteq> []"
    using valid ai by (auto simp: ai_validate_def Let_def split: if_splits option.splits)
  have fc: "max_retries (retry_cfg (de_fc eng)) < 0" "priority (de_fc eng) \<noteq> []" "pinned (de_fc eng) = ''''"
    using prio neg ai by (simp_all add: eng new_diagnose_engine_def client_config_def new_failover_client_for_scene_def)
  have acc: "init_session_accessor (rn_env re) (de_registry eng) req = Inr None"
    using start by (simp add: init_session_accessor_def)
  obtain n where n: "nat (de_max_rounds eng) = Suc n"
    using rounds by (cases "nat (de_max_rounds eng)") (auto simp: eng new_diagnose_engine_def)
  have d: "fst (diagnose (rn_env re) eng req rc i t) = DPanic nil_dereference" for rc
    using diag_loop_negative [OF fc, of "rn_env re" "diag_start (rn_env re) eng (with_os (rn_env re) req) rc i t"] start(2)
    unfolding diagnose_eq [OF acc] n by (simp add: case_prod_unfold del: diag_loop.simps)
  obtain st acc' where "diagnose (rn_env re) eng req
      (new_diagnose_record (rn_created re) (fst (rn_rand re)) (snd (rn_rand re)) req) i t = (DPanic nil_dereference, st, acc')"
    using d by (metis prod.collapse)
  then show ?thesis
    using d neg by (simp add: run_diagnose_def recover_run_def ai_apply_defaults_def)
qed


lemma example_validates:
  "ai_validate id (ai_apply_defaults (example_ai True (-1))) = None"
  by (simp add: ai_validate_def ai_apply_defaults_def gateway_defaults_def example_ai_def zero_model_def default_model_def)

definition example_run_env :: "diag_env \<Rightarrow> run_env" where
  "example_run_env env =
     \<lparr>rn_env = env, rn_created = 0, rn_rand = (0, 0), rn_elapsed_ms = 1, rn_day = (\<lambda>_. ''d''), rn_now = 100 * second,
      rn_fmt_time = (\<lambda>_. ''t''), rn_state_dir = ''/s'', rn_heap = (\<lambda>_. zero_event)\<rparr>"

theorem negative_retries_panic_witness:
  "ro_record (run_diagnose (example_run_env (example_diag_env (\<lambda>_. Inr (text_reply ''ok'')))) (example_engine (-1))
     (example_request ''disk'' ''t'') 0 0 s) = None"
proof -
  let ?cfg = "ai_apply_defaults (example_ai True (-1))"
  have "ac_enabled ?cfg" "\<not> gw_enabled (ac_gateway ?cfg)" "ac_max_retries ?cfg < 0" "0 < ac_max_rounds ?cfg"
    by (simp_all add: ai_apply_defaults_def gateway_defaults_def example_ai_def)
  moreover have "rq_instance (example_request ''disk'' ''t'') = None"
      "dg_ctx_err (rn_env (example_run_env (example_diag_env (\<lambda>_. Inr (text_reply ''ok''))))) 0 = None"
    by (simp_all add: example_request_def example_run_env_def example_diag_env_def)
  ultimately show ?thesis
    using negative_retries_panic [OF example_validates _ _ _ _ _ _ example_engine_def] by blast
qed

section \<open>Bookkeeping of a run\<close>

lemma update_cooldown_Some:
  "ds_cooldowns s = Some m \<Longrightarrow> update_cooldown now p tg d s
     = Some (s\<lparr>ds_cooldowns := Some (mput (cooldown_key p tg) ((now + d) div second) m)\<rparr>)"
  by (simp add: update_cooldown_def)

lemma add_tokens_simps [simp]:
  "ds_cooldowns (add_tokens day now inp out s) = ds_cooldowns s"
  "ds_input (add_tokens day now inp out s) = wrap64 ((if ds_date s = day now then ds_input s else 0) + inp)"
  "ds_output (add_tokens day now inp out s) = wrap64 ((if ds_date s = day now then ds_output s else 0) + out)"
  by (simp_all add: add_tokens_def reset_if_new_day_def Let_def)

definition run_counted :: "run_env \<Rightarrow> diagnose_request \<Rightarrow> ai_record \<Rightarrow> dstate \<Rightarrow> dstate \<Rightarrow> bool" where
  "run_counted re req ai s s' \<longleftrightarrow>
     ds_input s' = wrap64 ((if ds_date s = rn_day re (rn_now re) then ds_input s else 0) + input_tokens ai)
     \<and> ds_output s' = wrap64 ((if ds_date s = rn_day re (rn_now re) then ds_output s else 0) + output_tokens ai)
     \<and> (\<forall>k. mget (nil_map (ds_cooldowns s')) k =
          (if rq_mode req \<noteq> ModeInspect \<and> k = cooldown_key (rq_plugin req) (rq_target req)
           then Some ((rn_now re + rq_cooldown req) div second) else mget (nil_map (ds_cooldowns s)) k))"

lemma finish_run_spec:
  assumes "ds_cooldowns s = Some m"
  shows "\<exists>s'. finish_run re eng req rc report s cls =
      \<lparr>ro_record = Some (rc\<lparr>duration_ms := rn_elapsed_ms re\<rparr>), ro_saved = [rc\<lparr>duration_ms := rn_elapsed_ms re\<rparr>],
       ro_forwarded = (if report \<noteq> '''' \<and> rq_events req \<noteq> [] then
          forward_report (rn_fmt_time re) (rn_state_dir re) (ac_language (de_cfg eng)) (rn_now re div second) (rn_heap re)
            req (rc\<lparr>duration_ms := rn_elapsed_ms re\<rparr>) report else []),
       ro_state = s', ro_state_saved = True, ro_closed = cls, ro_timeout = run_timeout eng req\<rparr>
    \<and> run_counted re req (rec_ai rc) s s'"
  using assms by (auto simp: finish_run_def Let_def update_cooldown_Some run_counted_def)

text \<open>
  C2. A finished diagnosis is accounted for exactly once: its record is saved once with its
  status, report or error, its tokens are added to the day's counters, its target's cooldown
  starts (unless it was an inspection, which leaves the cooldowns alone), a report with events is
  forwarded, and the accessor is closed.  After a panic the record is saved as failed and the
  accessor closed, but nil is returned and neither tokens nor a cooldown are recorded.
\<close>

theorem run_accounting:
  assumes d: "diagnose (rn_env re) eng req
      (new_diagnose_record (rn_created re) (fst (rn_rand re)) (snd (rn_rand re)) req) i t = (e, st, acc)"
    and cd: "ds_cooldowns s \<noteq> None"
    and out: "run_diagnose re eng req i t s = out"
  shows "ro_closed out = (case acc of Some (h, True) \<Rightarrow> [h] | _ \<Rightarrow> [])
    \<and> (case e of
         DPanic p \<Rightarrow> ro_record out = None \<and> ro_state out = s \<and> \<not> ro_state_saved out \<and> ro_forwarded out = []
           \<and> (\<exists>rc. ro_saved out = [rc] \<and> rec_status rc = ''failed'' \<and> rec_error rc = ''panic: '' @ p)
       | DError err \<Rightarrow> run_counted re req (rec_ai (dv_record st)) s (ro_state out) \<and> ro_state_saved out
           \<and> ro_forwarded out = []
           \<and> (\<exists>rc. ro_record out = Some rc \<and> ro_saved out = [rc] \<and> rec_status rc = ''failed''
                 \<and> rec_error rc = error_text err)
       | DReport report \<Rightarrow> run_counted re req (rec_ai (dv_record st)) s (ro_state out) \<and> ro_state_saved out
           \<and> (\<exists>rc. ro_record out = Some rc \<and> ro_saved out = [rc] \<and> rec_status rc = ''success'' \<and> rec_report rc = report
                 \<and> ro_forwarded out = (if report \<noteq> '''' \<and> rq_events req \<noteq> [] then
                     forward_report (rn_fmt_time re) (rn_state_dir re) (ac_language (de_cfg eng)) (rn_now re div second)
                       (rn_heap re) req rc report else [])))
    \<and> (ro_record out \<noteq> None \<and> rq_mode req \<noteq> ModeInspect \<and> second \<le> rq_cooldown req \<longrightarrow>
         fst (is_cooldown_active (rn_now re) (rq_plugin req) (rq_target req) (ro_state out)))"
proof -
  have active: "fst (is_cooldown_active (rn_now re) (rq_plugin req) (rq_target req) s')"
    if c: "run_counted re req ai s s'" and "rq_mode req \<noteq> ModeInspect" "second \<le> rq_cooldown req" for ai s'
  proof -
    have "(rn_now re + second) div second \<le> (rn_now re + rq_cooldown req) div second"
      using that by (intro zdiv_mono1) (auto simp: second_def)
    then have "rn_now re div second < (rn_now re + rq_cooldown req) div second" by (simp add: second_def)
    then show ?thesis using that by (simp add: is_cooldown_active_def run_counted_def)
  qed
  obtain m where m: "ds_cooldowns s = Some m" using cd by blast
  have cls: "close_accessor acc (dv_record st) = (case acc of Some (h, True) \<Rightarrow> [h] | _ \<Rightarrow> [])"
    by (simp add: close_accessor_def session_close_def)
  show ?thesis
  proof (cases e)
    case (DPanic p)
    with d out cls show ?thesis by (auto simp: run_diagnose_def recover_run_def)
  next
    case (DError err)
    let ?rc = "(dv_record st)\<lparr>rec_status := ''failed'', rec_error := error_text err\<rparr>"
    from finish_run_spec [OF m, of re eng req ?rc "''''" "close_accessor acc (dv_record st)"] obtain s' where s':
      "out = \<lparr>ro_record = Some (?rc\<lparr>duration_ms := rn_elapsed_ms re\<rparr>), ro_saved = [?rc\<lparr>duration_ms := rn_elapsed_ms re\<rparr>],
         ro_forwarded = [], ro_state = s', ro_state_saved = True, ro_closed = close_accessor acc (dv_record st),
         ro_timeout = run_timeout eng req\<rparr>" "run_counted re req (rec_ai (dv_record st)) s s'"
      using d out DError by (auto simp: run_diagnose_def)
    show ?thesis using s'(2) DError cls active [OF s'(2)] by (simp add: s'(1))
  next
    case (DReport report)
    let ?rc = "(dv_record st)\<lparr>rec_status := ''success'', rec_report := report\<rparr>"
    from finish_run_spec [OF m, of re eng req ?rc report "close_accessor acc (dv_record st)"] obtain s' where s':
      "out = \<lparr>ro_record = Some (?rc\<lparr>duration_ms := rn_elapsed_ms re\<rparr>), ro_saved = [?rc\<lparr>duration_ms := rn_elapsed_ms re\<rparr>],
         ro_forwarded = (if report \<noteq> '''' \<and> rq_events req \<noteq> [] then
           forward_report (rn_fmt_time re) (rn_state_dir re) (ac_language (de_cfg eng)) (rn_now re div second) (rn_heap re)
             req (?rc\<lparr>duration_ms := rn_elapsed_ms re\<rparr>) report else []),
         ro_state = s', ro_state_saved = True, ro_closed = close_accessor acc (dv_record st),
         ro_timeout = run_timeout eng req\<rparr>" "run_counted re req (rec_ai (dv_record st)) s s'"
      using d out DReport by (auto simp: run_diagnose_def)
    show ?thesis using s'(2) DReport cls active [OF s'(2)] by (simp add: s'(1))
  qed
qed


theorem run_accounting_witness:
  "length (ro_saved (run_diagnose (example_run_env (example_diag_env (\<lambda>_. Inr (text_reply ''ok'')))) (example_engine 0)
     (example_request ''disk'' ''t'') 0 0 (new_diagnose_state (\<lambda>_. ''d'') 0))) = 1"
proof -
  let ?re = "example_run_env (example_diag_env (\<lambda>_. Inr (text_reply ''ok'')))"
  let ?req = "example_request ''disk'' ''t''"
  obtain e st acc where "diagnose (rn_env ?re) (example_engine 0) ?req
      (new_diagnose_record (rn_created ?re) (fst (rn_rand ?re)) (snd (rn_rand ?re)) ?req) 0 0 = (e, st, acc)"
    by (metis prod_cases3)
  from run_accounting [OF this, of "new_diagnose_state (\<lambda>_. ''d'') 0", OF _ refl] show ?thesis
    by (cases e) (auto simp: new_diagnose_state_def)
qed

section \<open>The forwarded events\<close>

definition first_with_key :: "event list \<Rightarrow> string \<Rightarrow> event option" where
  "first_with_key es k = find (\<lambda>e. alert_key e = k) es"

lemma report_event_key [simp]: "alert_key (report_event now desc e) = alert_key e"
  by (simp add: report_event_def)

lemma forward_loop_spec:
  "distinct (map alert_key (forward_loop now desc seen es))
   \<and> set (map alert_key (forward_loop now desc seen es)) = set (map alert_key es) - {k. mget seen k \<noteq> None}
   \<and> (\<forall>x \<in> set (forward_loop now desc seen es). \<exists>e. first_with_key es (alert_key x) = Some e \<and> x = report_event now desc e)"
proof (induction now desc seen es rule: forward_loop.induct)
  case (1 now desc seen)
  then show ?case by simp
next
  case (2 now desc seen e es)
  show ?case
  proof (cases "mget seen (alert_key e) = None")
    case True
    let ?rest = "forward_loop now desc (mput (alert_key e) () seen) es"
    have keys: "set (map alert_key ?rest) = set (map alert_key es) - {k. mget seen k \<noteq> None} - {alert_key e}"
      using "2.IH"(2) True by auto
    have "\<exists>e'. first_with_key (e # es) (alert_key x) = Some e' \<and> x = report_event now desc e'" if x: "x \<in> set ?rest" for x
    proof -
      from x have "alert_key x \<in> set (map alert_key ?rest)" by (simp del: forward_loop.simps)
      then have "alert_key x \<noteq> alert_key e" using keys by blast
      with x "2.IH"(2) True show ?thesis by (auto simp: first_with_key_def)
    qed
    moreover have "first_with_key (e # es) (alert_key e) = Some e" by (simp add: first_with_key_def)
    ultimately show ?thesis
      using True "2.IH"(2) keys by auto
  next
    case False
    let ?rest = "forward_loop now desc seen es"
    note c = "2.IH"(1) [OF False]
    note IH = c [THEN conjunct1] c [THEN conjunct2, THEN conjunct1] c [THEN conjunct2, THEN conjunct2]
    have "\<exists>e'. first_with_key (e # es) (alert_key x) = Some e' \<and> x = report_event now desc e'" if x: "x \<in> set ?rest" for x
    proof -
      from x have "alert_key x \<in> set (map alert_key ?rest)" by (simp del: forward_loop.simps)
      then have ne: "alert_key e \<noteq> alert_key x" using IH(2) False by force
      from IH(3) x obtain e' where "first_with_key es (alert_key x) = Some e'" "x = report_event now desc e'" by blast
      with ne show ?thesis by (intro exI [of _ e']) (simp add: first_with_key_def)
    qed
    moreover have "set (map alert_key (e # es)) - {k. mget seen k \<noteq> None} = set (map alert_key es) - {k. mget seen k \<noteq> None}"
      using False by auto
    moreover have "forward_loop now desc seen (e # es) = ?rest" using False by simp
    ultimately show ?thesis using IH by simp
  qed
qed

lemma mmerge_copy: "go_map_ok m \<Longrightarrow> mget (mmerge [] m) k = mget m k"
  by (simp add: mget_mmerge_ok split: option.split)

text \<open>
  C26. A report is forwarded once per alert key of the request, taken from the first event with
  that key: the same status, labels and attributes (as copies), the new time and description, no
  counters of the original.
\<close>

theorem report_forwarding:
  assumes out: "out = forward_report ft sd lang now hp req rc report"
  shows "distinct (map alert_key out)
    \<and> set (map alert_key out) = set (map (\<lambda>p. alert_key (hp p)) (rq_events req))
    \<and> (\<forall>x \<in> set out. \<exists>e. first_with_key (map hp (rq_events req)) (alert_key x) = Some e
         \<and> event_status x = event_status e \<and> event_time x = now
         \<and> description x = format_report_description ft sd rc report lang
         \<and> description_format x = DescFormatMarkdown \<and> notify_count x = 0 \<and> last_sent x = 0
         \<and> (go_map_ok (nil_map (labels e)) \<longrightarrow> (\<forall>k. mget (nil_map (labels x)) k = mget (nil_map (labels e)) k))
         \<and> (go_map_ok (nil_map (attrs e)) \<longrightarrow> (\<forall>k. mget (nil_map (attrs x)) k = mget (nil_map (attrs e)) k)))"
proof -
  let ?desc = "format_report_description ft sd rc report lang"
  have o: "out = forward_loop now ?desc [] (map hp (rq_events req))"
    by (simp add: out forward_report_def)
  have ev: "event_status x = event_status e \<and> event_time x = now \<and> description x = ?desc
         \<and> description_format x = DescFormatMarkdown \<and> notify_count x = 0 \<and> last_sent x = 0
         \<and> (go_map_ok (nil_map (labels e)) \<longrightarrow> (\<forall>k. mget (nil_map (labels x)) k = mget (nil_map (labels e)) k))
         \<and> (go_map_ok (nil_map (attrs e)) \<longrightarrow> (\<forall>k. mget (nil_map (attrs x)) k = mget (nil_map (attrs e)) k))"
    if "x = report_event now ?desc e" for x e
    using that by (auto simp: report_event_def zero_event_def mmerge_copy)
  note spec = forward_loop_spec [of now ?desc "[]" "map hp (rq_events req)", folded o]
  have "set (map alert_key out) = set (map (\<lambda>p. alert_key (hp p)) (rq_events req))"
    using spec by (simp add: image_comp comp_def)
  then show ?thesis using spec ev by meson
qed

theorem report_forwarding_witness:
  "set (map alert_key (forward_report (\<lambda>_. '''') '''' ''en'' 0 (\<lambda>p. zero_event)
     (example_request ''p'' ''t''\<lparr>rq_events := [1, 2]\<rparr>) (new_diagnose_record 0 0 0 (example_request ''p'' ''t'')) ''r'')) = {''''}"
  using report_forwarding [OF refl, of "\<lambda>_. ''''" "''''" "''en''" 0 "\<lambda>p. zero_event"
      "example_request ''p'' ''t''\<lparr>rq_events := [1, 2]\<rparr>" "new_diagnose_record 0 0 0 (example_request ''p'' ''t'')" "''r''"]
  by (simp add: zero_event_def)

end
