(* ===== verification/DiagnoseEngine.thy ===== *)
theory DiagnoseEngine
  imports DiagnoseRun
begin

text \<open>
  The concurrency of the diagnosis engine (\<open>diagnose/engine.go\<close>): \<open>Submit\<close> with its guards,
  the counting semaphore shared with remote sessions, the table of running diagnoses and
  \<open>Shutdown\<close>.  A channel used as a semaphore is its capacity and its fill; each access to it,
  to the table (under its mutex) and to the stop flag is one atomic step, and \<open>eng_step\<close> is the
  interleaving of submitters, diagnosis goroutines, sessions and the shutdown.
\<close>

section \<open>Slots\<close>

text \<open>
  The contract of a concurrency limiter, as \<open>Submit\<close> and the sessions rely on it: acquiring never
  blocks and succeeds exactly when a slot is free, releasing frees one slot and blocks
  (\<open>None\<close>) only when none is taken.
\<close>

locale slot_pool =
  fixes cap :: "'s \<Rightarrow> nat" and used :: "'s \<Rightarrow> nat"
    and acquire :: "'s \<Rightarrow> bool \<times> 's" and release :: "'s \<Rightarrow> 's option"
  assumes acquire_free: "used s < cap s \<Longrightarrow> fst (acquire s) \<and> used (snd (acquire s)) = used s + 1"
    and acquire_full: "\<not> used s < cap s \<Longrightarrow> acquire s = (False, s)"
    and acquire_cap: "cap (snd (acquire s)) = cap s"
    and release_some: "0 < used s \<Longrightarrow> \<exists>s'. release s = Some s' \<and> used s' = used s - 1 \<and> cap s' = cap s"
    and release_none: "used s = 0 \<Longrightarrow> release s = None"
begin

lemma acquire_bound: "used s \<le> cap s \<Longrightarrow> used (snd (acquire s)) \<le> cap (snd (acquire s))"
  using acquire_free [of s] acquire_full [of s] acquire_cap [of s] by (cases "used s < cap s") auto

lemma acquire_count: "used (snd (acquire s)) = used s + (if fst (acquire s) then 1 else 0)"
  using acquire_free [of s] acquire_full [of s] by (cases "used s < cap s") auto

lemma acquire_iff: "fst (acquire s) \<longleftrightarrow> used s < cap s"
  using acquire_free [of s] acquire_full [of s] by (cases "used s < cap s") auto

lemma release_count: "release s = Some s' \<Longrightarrow> 0 < used s \<and> used s = used s' + 1 \<and> cap s' = cap s"
  using release_some [of s] release_none [of s] by (cases "used s = 0") auto

lemma release_after_acquire:
  assumes "fst (acquire s)"
  shows "\<exists>s'. release (snd (acquire s)) = Some s' \<and> used s' = used s \<and> cap s' = cap s"
  using release_some [of "snd (acquire s)"] acquire_count [of s] acquire_cap [of s] assms by auto

end

section \<open>State\<close>

text \<open>
  A diagnosis goroutine: whether it holds a slot (a direct caller of \<open>RunDiagnose\<close> does not) and
  how far it has got.  Its number stands for its cancel function.
\<close>

datatype phase = Launched | Registered | Reported | Unregistered

record run =
  run_id :: nat
  run_req :: diagnose_request
  run_phase :: phase
  run_slot :: bool

record engine_state =
  es_cap :: nat
  es_used :: nat
  es_in_flight :: "(string, nat) gomap"
  es_stopped :: bool
  es_dstate :: dstate
  es_cancelled :: "nat list"
  es_runs :: "run list"
  es_sessions :: nat
  es_checked :: "diagnose_request list"
  es_next :: nat

definition new_engine_state :: "ai_config \<Rightarrow> dstate \<Rightarrow> engine_state" where
  "new_engine_state cfg d =
     \<lparr>es_cap = nat (ac_max_concurrent cfg), es_used = 0, es_in_flight = [], es_stopped = False, es_dstate = d,
      es_cancelled = [], es_runs = [], es_sessions = 0, es_checked = [], es_next = 0\<rparr>"

section \<open>Operations\<close>

definition run_key :: "diagnose_request \<Rightarrow> string" where
  "run_key req = rq_plugin req @ ''::'' @ rq_target req"

definition try_sem :: "engine_state \<Rightarrow> bool \<times> engine_state" where
  "try_sem s = (if es_used s < es_cap s then (True, s\<lparr>es_used := es_used s + 1\<rparr>) else (False, s))"

definition release_sem :: "engine_state \<Rightarrow> engine_state option" where
  "release_sem s = (if es_used s = 0 then None else Some (s\<lparr>es_used := es_used s - 1\<rparr>))"

text \<open>The guards of \<open>Submit\<close>, in order; both readings of the state may also change it.\<close>

definition submit_checks ::
  "(int \<Rightarrow> string) \<Rightarrow> int \<Rightarrow> int \<Rightarrow> diagnose_request \<Rightarrow> engine_state \<Rightarrow> bool \<times> engine_state" where
  "submit_checks day now limit req s =
     (if es_stopped s then (False, s)
      else case is_cooldown_active now (rq_plugin req) (rq_target req) (es_dstate s) of
        (True, d) \<Rightarrow> (False, s\<lparr>es_dstate := d\<rparr>)
      | (False, d) \<Rightarrow>
          (case is_daily_limit_reached day now limit d of
             (True, d) \<Rightarrow> (False, s\<lparr>es_dstate := d\<rparr>)
           | (False, d) \<Rightarrow> (True, s\<lparr>es_dstate := d\<rparr>)))"

definition launch :: "bool \<Rightarrow> diagnose_request \<Rightarrow> engine_state \<Rightarrow> engine_state" where
  "launch slot req s =
     s\<lparr>es_runs := es_runs s @ [\<lparr>run_id = es_next s, run_req = req, run_phase = Launched, run_slot = slot\<rparr>],
       es_next := es_next s + 1\<rparr>"

definition submit_acquire :: "diagnose_request \<Rightarrow> engine_state \<Rightarrow> engine_state" where
  "submit_acquire req s =
     (case try_sem s of
        (True, s) \<Rightarrow> launch True req s
      | (False, s) \<Rightarrow> s)"

definition submit :: "(int \<Rightarrow> string) \<Rightarrow> int \<Rightarrow> int \<Rightarrow> diagnose_request \<Rightarrow> engine_state \<Rightarrow> engine_state" where
  "submit day now limit req s =
     (case submit_checks day now limit req s of
        (True, s) \<Rightarrow> submit_acquire req s
      | (False, s) \<Rightarrow> s)"

definition register_in_flight :: "diagnose_request \<Rightarrow> nat \<Rightarrow> engine_state \<Rightarrow> engine_state" where
  "register_in_flight req cancel s = s\<lparr>es_in_flight := mput (run_key req) cancel (es_in_flight s)\<rparr>"

definition unregister_in_flight :: "diagnose_request \<Rightarrow> engine_state \<Rightarrow> engine_state" where
  "unregister_in_flight req s = s\<lparr>es_in_flight := mdel (run_key req) (es_in_flight s)\<rparr>"

text \<open>\<open>Shutdown\<close>: the stop flag, then every cancel function of a copy of the table.\<close>

definition stop_engine :: "engine_state \<Rightarrow> engine_state" where
  "stop_engine s = s\<lparr>es_stopped := True\<rparr>"

definition cancel_all :: "engine_state \<Rightarrow> engine_state" where
  "cancel_all s = s\<lparr>es_cancelled := es_cancelled s @ map snd (es_in_flight s)\<rparr>"

definition engine_shutdown :: "engine_state \<Rightarrow> engine_state" where
  "engine_shutdown s = cancel_all (stop_engine s)"

interpretation sem: slot_pool es_cap es_used try_sem release_sem
  by unfold_locales (simp_all add: try_sem_def release_sem_def)

section \<open>Interleavings\<close>

definition set_phase :: "nat \<Rightarrow> phase \<Rightarrow> engine_state \<Rightarrow> engine_state" where
  "set_phase i ph s = s\<lparr>es_runs := map (\<lambda>r. if run_id r = i then r\<lparr>run_phase := ph\<rparr> else r) (es_runs s)\<rparr>"

definition drop_run :: "nat \<Rightarrow> engine_state \<Rightarrow> engine_state" where
  "drop_run i s = s\<lparr>es_runs := filter (\<lambda>r. run_id r \<noteq> i) (es_runs s)\<rparr>"

text \<open>
  The steps: the guards of a \<open>Submit\<close>, its attempt at a slot, a direct call, the registration of
  a run, the end of its diagnosis (which changes the state of tokens and cooldowns as
  \<open>run_diagnose\<close> does, or not at all after a panic), its removal from the table, the release of
  its slot, a session taking or giving back a slot, and the two halves of \<open>Shutdown\<close>.
\<close>

inductive eng_step :: "engine_state \<Rightarrow> engine_state \<Rightarrow> bool" where
  Check: "submit_checks day now limit req s = (ok, s') \<Longrightarrow>
    eng_step s (s'\<lparr>es_checked := es_checked s' @ (if ok then [req] else [])\<rparr>)"
| Acquire: "req \<in> set (es_checked s) \<Longrightarrow>
    eng_step s (submit_acquire req (s\<lparr>es_checked := remove1 req (es_checked s)\<rparr>))"
| Direct: "eng_step s (launch False req s)"
| Register: "r \<in> set (es_runs s) \<Longrightarrow> run_phase r = Launched \<Longrightarrow>
    eng_step s (set_phase (run_id r) Registered (register_in_flight (run_req r) (run_id r) s))"
| Report: "r \<in> set (es_runs s) \<Longrightarrow> run_phase r = Registered \<Longrightarrow>
    d = es_dstate s \<or> run_counted re (run_req r) ai (es_dstate s) d \<Longrightarrow>
    eng_step s (set_phase (run_id r) Reported (s\<lparr>es_dstate := d\<rparr>))"
| Unregister: "r \<in> set (es_runs s) \<Longrightarrow> run_phase r = Reported \<Longrightarrow>
    eng_step s (set_phase (run_id r) Unregistered (unregister_in_flight (run_req r) s))"
| Return: "r \<in> set (es_runs s) \<Longrightarrow> run_phase r = Unregistered \<Longrightarrow> \<not> run_slot r \<Longrightarrow>
    eng_step s (drop_run (run_id r) s)"
| Release: "r \<in> set (es_runs s) \<Longrightarrow> run_phase r = Unregistered \<Longrightarrow> run_slot r \<Longrightarrow>
    release_sem s = Some s' \<Longrightarrow> eng_step s (drop_run (run_id r) s')"
| SessionTry: "try_sem s = (ok, s') \<Longrightarrow>
    eng_step s (s'\<lparr>es_sessions := es_sessions s' + (if ok then 1 else 0)\<rparr>)"
| SessionRelease: "0 < es_sessions s \<Longrightarrow> release_sem s = Some s' \<Longrightarrow>
    eng_step s (s'\<lparr>es_sessions := es_sessions s' - 1\<rparr>)"
| Stop: "eng_step s (stop_engine s)"
| CancelAll: "eng_step s (cancel_all s)"

inductive_cases eng_stepE: "eng_step s s'"

abbreviation eng_reach :: "ai_config \<Rightarrow> dstate \<Rightarrow> engine_state \<Rightarrow> bool" where
  "eng_reach cfg d s \<equiv> eng_step\<^sup>*\<^sup>* (new_engine_state cfg d) s"


section \<open>Invariants\<close>

definition slots_inv :: "engine_state \<Rightarrow> bool" where
  "slots_inv s \<longleftrightarrow> es_used s = es_sessions s + length (filter run_slot (es_runs s)) \<and> es_used s \<le> es_cap s"

definition runs_inv :: "engine_state \<Rightarrow> bool" where
  "runs_inv s \<longleftrightarrow> distinct (map run_id (es_runs s)) \<and> (\<forall>r \<in> set (es_runs s). run_id r < es_next s)"

definition live :: "run \<Rightarrow> bool" where
  "live r \<longleftrightarrow> run_phase r = Registered \<or> run_phase r = Reported"

definition table_inv :: "engine_state \<Rightarrow> bool" where
  "table_inv s \<longleftrightarrow> go_map_ok (es_in_flight s)
     \<and> (\<forall>k i. mget (es_in_flight s) k = Some i \<longrightarrow>
          (\<exists>r \<in> set (es_runs s). run_id r = i \<and> run_key (run_req r) = k \<and> live r))"

text \<open>Every live run has its own entry: what \<open>Shutdown\<close> needs to cancel it.\<close>

definition covered :: "engine_state \<Rightarrow> bool" where
  "covered s \<longleftrightarrow> (\<forall>r \<in> set (es_runs s). live r \<longrightarrow> mget (es_in_flight s) (run_key (run_req r)) = Some (run_id r))"

lemma submit_checks_state: "submit_checks day now limit req s = (ok, s') \<Longrightarrow> \<exists>d. s' = s\<lparr>es_dstate := d\<rparr>"
proof -
  have id: "\<exists>d. s = s\<lparr>es_dstate := d\<rparr>" by (rule exI [of _ "es_dstate s"]) simp
  show "submit_checks day now limit req s = (ok, s') \<Longrightarrow> \<exists>d. s' = s\<lparr>es_dstate := d\<rparr>"
    using id by (auto simp: submit_checks_def split: if_splits prod.splits bool.splits)
qed

lemma release_sem_Some: "release_sem s = Some s' \<Longrightarrow> s' = s\<lparr>es_used := es_used s - 1\<rparr> \<and> 0 < es_used s"
  by (auto simp: release_sem_def split: if_splits)

lemma try_sem_cases: "try_sem s = (ok, s') \<Longrightarrow>
    (ok \<and> es_used s < es_cap s \<and> s' = s\<lparr>es_used := es_used s + 1\<rparr>) \<or> (\<not> ok \<and> s' = s)"
  by (auto simp: try_sem_def split: if_splits)

lemma set_phase_simps [simp]:
  "map run_id (es_runs (set_phase i ph s)) = map run_id (es_runs s)"
  "map (\<lambda>r. run_key (run_req r)) (es_runs (set_phase i ph s)) = map (\<lambda>r. run_key (run_req r)) (es_runs s)"
  "length (filter run_slot (es_runs (set_phase i ph s))) = length (filter run_slot (es_runs s))"
  "es_used (set_phase i ph s) = es_used s" "es_cap (set_phase i ph s) = es_cap s"
  "es_sessions (set_phase i ph s) = es_sessions s" "es_next (set_phase i ph s) = es_next s"
  "es_in_flight (set_phase i ph s) = es_in_flight s" "es_stopped (set_phase i ph s) = es_stopped s"
  "es_cancelled (set_phase i ph s) = es_cancelled s" "es_checked (set_phase i ph s) = es_checked s"
proof -
  show "length (filter run_slot (es_runs (set_phase i ph s))) = length (filter run_slot (es_runs s))"
    unfolding set_phase_def by (induction "es_runs s" arbitrary: s) (auto simp: filter_map comp_def if_distrib cong: if_cong)
qed (auto simp: set_phase_def)

lemma set_phase_runs: "set (es_runs (set_phase i ph s)) = (\<lambda>r. if run_id r = i then r\<lparr>run_phase := ph\<rparr> else r) ` set (es_runs s)"
  by (simp add: set_phase_def)

lemma drop_run_simps [simp]:
  "set (es_runs (drop_run i s)) = {r \<in> set (es_runs s). run_id r \<noteq> i}"
  "es_used (drop_run i s) = es_used s" "es_cap (drop_run i s) = es_cap s" "es_sessions (drop_run i s) = es_sessions s"
  "es_next (drop_run i s) = es_next s" "es_in_flight (drop_run i s) = es_in_flight s"
  "es_stopped (drop_run i s) = es_stopped s" "es_cancelled (drop_run i s) = es_cancelled s"
  by (auto simp: drop_run_def)

lemma distinct_map_filter: "distinct (map f xs) \<Longrightarrow> distinct (map f (filter P xs))"
  by (induction xs) auto

lemma drop_run_ids: "distinct (map run_id (es_runs s)) \<Longrightarrow> distinct (map run_id (es_runs (drop_run i s)))"
  by (simp add: drop_run_def distinct_map_filter)

lemma filter_drop_one:
  "distinct (map run_id rs) \<Longrightarrow> r \<in> set rs \<Longrightarrow>
   length (filter run_slot (filter (\<lambda>x. run_id x \<noteq> run_id r) rs)) + (if run_slot r then 1 else 0) = length (filter run_slot rs)"
proof (induction rs)
  case Nil
  then show ?case by simp
next
  case (Cons x rs)
  show ?case
  proof (cases "x = r")
    case True
    then have "filter (\<lambda>y. run_id y \<noteq> run_id r) rs = rs"
      using Cons.prems(1) by (auto simp: filter_id_conv image_iff)
    with True show ?thesis by simp
  next
    case False
    with Cons show ?thesis by auto
  qed
qed

lemma same_run: "runs_inv s \<Longrightarrow> r \<in> set (es_runs s) \<Longrightarrow> r' \<in> set (es_runs s) \<Longrightarrow> run_id r = run_id r' \<Longrightarrow> r = r'"
  by (auto simp: runs_inv_def distinct_map inj_on_def)

section \<open>Preservation\<close>

lemma runs_inv_step:
  assumes "eng_step s s'" and "runs_inv s"
  shows "runs_inv s'"
  using assms
proof cases
  case (Check day now limit req ok s1)
  with submit_checks_state [OF Check(2)] assms(2) show ?thesis by (auto simp: runs_inv_def)
next
  case (Acquire req)
  with assms(2) show ?thesis
    by (auto simp: runs_inv_def submit_acquire_def launch_def try_sem_def split: if_splits)
next
  case (SessionTry ok s1)
  with try_sem_cases [OF SessionTry(2)] assms(2) show ?thesis by (auto simp: runs_inv_def)
next
  case (Return r)
  with assms(2) drop_run_ids show ?thesis by (auto simp: runs_inv_def)
next
  case (Release r s1)
  with release_sem_Some [OF Release(5)] assms(2) drop_run_ids show ?thesis by (auto simp: runs_inv_def)
next
  case (SessionRelease s1)
  with release_sem_Some [OF SessionRelease(3)] assms(2) show ?thesis by (auto simp: runs_inv_def)
qed (use assms(2) in \<open>auto simp: runs_inv_def launch_def set_phase_runs register_in_flight_def
    unregister_in_flight_def stop_engine_def cancel_all_def\<close>)

lemma slots_inv_step:
  assumes step: "eng_step s s'" and slots: "slots_inv s" and runs: "runs_inv s"
  shows "slots_inv s'"
  using step
proof cases
  case (Check day now limit req ok s1)
  with submit_checks_state [OF Check(2)] slots show ?thesis by (auto simp: slots_inv_def)
next
  case (Acquire req)
  with slots show ?thesis by (auto simp: slots_inv_def submit_acquire_def launch_def try_sem_def split: if_splits)
next
  case (SessionTry ok s1)
  with try_sem_cases [OF SessionTry(2)] slots show ?thesis by (auto simp: slots_inv_def)
next
  case (Return r)
  with slots runs filter_drop_one [of "es_runs s" r] show ?thesis
    by (auto simp: slots_inv_def drop_run_def runs_inv_def)
next
  case (Release r s1)
  with release_sem_Some [OF Release(5)] slots runs filter_drop_one [of "es_runs s" r] show ?thesis
    by (auto simp: slots_inv_def drop_run_def runs_inv_def)
next
  case (SessionRelease s1)
  with release_sem_Some [OF SessionRelease(3)] slots show ?thesis by (auto simp: slots_inv_def)
qed (use slots in \<open>auto simp: slots_inv_def launch_def register_in_flight_def
    unregister_in_flight_def stop_engine_def cancel_all_def\<close>)


text \<open>A change that keeps every live run with its number and request keeps the table's references.\<close>

lemma table_inv_runs:
  assumes t: "table_inv s" and f: "es_in_flight s' = es_in_flight s"
    and keep: "\<And>r. r \<in> set (es_runs s) \<Longrightarrow> live r \<Longrightarrow>
      \<exists>r' \<in> set (es_runs s'). run_id r' = run_id r \<and> run_req r' = run_req r \<and> live r'"
  shows "table_inv s'"
  using t keep unfolding table_inv_def f by (metis (no_types, lifting))

lemma set_phase_member: "r \<in> set (es_runs s) \<Longrightarrow>
   (if run_id r = i then r\<lparr>run_phase := ph\<rparr> else r) \<in> set (es_runs (set_phase i ph s))"
  by (auto simp: set_phase_runs)

lemma live_update [simp]: "live (r\<lparr>run_phase := ph\<rparr>) \<longleftrightarrow> ph = Registered \<or> ph = Reported"
  by (simp add: live_def)

lemma table_inv_set_phase:
  assumes "table_inv s" and "ph = Registered \<or> ph = Reported"
  shows "table_inv (set_phase i ph s)"
proof (rule table_inv_runs [OF assms(1)])
  fix r assume "r \<in> set (es_runs s)" "live r"
  then show "\<exists>r' \<in> set (es_runs (set_phase i ph s)). run_id r' = run_id r \<and> run_req r' = run_req r \<and> live r'"
    using assms(2) by (intro bexI [OF _ set_phase_member]) auto
qed simp

lemma table_inv_step:
  assumes step: "eng_step s s'" and t: "table_inv s" and runs: "runs_inv s"
  shows "table_inv s'"
  using step
proof cases
  case (Check day now limit req ok s1)
  with submit_checks_state [OF Check(2)] t show ?thesis by (auto simp: table_inv_def)
next
  case (Acquire req)
  with t show ?thesis
    by (auto simp: table_inv_def submit_acquire_def launch_def try_sem_def split: if_splits)
next
  case (Direct req)
  with t show ?thesis by (auto simp: table_inv_def launch_def)
next
  case (Register r)
  have "table_inv (set_phase (run_id r) Registered s)" using t by (intro table_inv_set_phase) auto
  moreover have "\<exists>x \<in> set (es_runs (set_phase (run_id r) Registered s)).
      run_id x = run_id r \<and> run_key (run_req x) = run_key (run_req r) \<and> live x"
    using set_phase_member [OF Register(2), of "run_id r" Registered] by (intro bexI) auto
  ultimately show ?thesis
    unfolding Register(1) by (auto simp: table_inv_def register_in_flight_def set_phase_def)
next
  case (Report r d re ai)
  have "table_inv (s\<lparr>es_dstate := d\<rparr>)" using t by (simp add: table_inv_def)
  then show ?thesis unfolding Report(1) by (intro table_inv_set_phase) auto
next
  case (Unregister r)
  have "\<exists>x \<in> set (es_runs s'). run_id x = i \<and> run_key (run_req x) = k \<and> live x"
    if e: "mget (es_in_flight s') k = Some i" for k i
  proof -
    from e have k: "k \<noteq> run_key (run_req r)" "mget (es_in_flight s) k = Some i"
      by (auto simp: Unregister(1) unregister_in_flight_def split: if_splits)
    with t obtain x where x: "x \<in> set (es_runs s)" "run_id x = i" "run_key (run_req x) = k" "live x"
      unfolding table_inv_def by blast
    then have "run_id x \<noteq> run_id r" using same_run [OF runs x(1) Unregister(2)] k by auto
    with x show ?thesis by (auto simp: Unregister(1) set_phase_runs unregister_in_flight_def)
  qed
  moreover have "go_map_ok (es_in_flight s')"
    using t by (simp add: Unregister(1) unregister_in_flight_def table_inv_def)
  ultimately show ?thesis by (simp add: table_inv_def)
next
  case (Return r)
  show ?thesis
  proof (rule table_inv_runs [OF t])
    fix x assume x: "x \<in> set (es_runs s)" "live x"
    then have "run_id x \<noteq> run_id r" using same_run [OF runs x(1) Return(2)] Return(3) by (auto simp: live_def)
    with x show "\<exists>r' \<in> set (es_runs s'). run_id r' = run_id x \<and> run_req r' = run_req x \<and> live r'"
      by (intro bexI [of _ x]) (auto simp: Return(1))
  qed (simp add: Return)
next
  case (Release r s1)
  have s1: "es_runs s1 = es_runs s" "es_in_flight s1 = es_in_flight s" using release_sem_Some [OF Release(5)] by auto
  show ?thesis
  proof (rule table_inv_runs [OF t])
    fix x assume x: "x \<in> set (es_runs s)" "live x"
    then have "run_id x \<noteq> run_id r" using same_run [OF runs x(1) Release(2)] Release(3) by (auto simp: live_def)
    with x show "\<exists>r' \<in> set (es_runs s'). run_id r' = run_id x \<and> run_req r' = run_req x \<and> live r'"
      by (intro bexI [of _ x]) (auto simp: Release(1) s1)
  qed (simp add: Release s1)
next
  case (SessionTry ok s1)
  with try_sem_cases [OF SessionTry(2)] t show ?thesis by (auto simp: table_inv_def)
next
  case (SessionRelease s1)
  with release_sem_Some [OF SessionRelease(3)] t show ?thesis by (auto simp: table_inv_def)
qed (use t in \<open>auto simp: table_inv_def stop_engine_def cancel_all_def\<close>)

lemma eng_inv_reach:
  assumes "eng_reach cfg d s"
  shows "slots_inv s \<and> runs_inv s \<and> table_inv s \<and> es_cap s = nat (ac_max_concurrent cfg)"
  using assms
proof (induction rule: rtranclp_induct)
  case base
  show ?case by (simp add: new_engine_state_def slots_inv_def runs_inv_def table_inv_def)
next
  case (step s s')
  have "es_cap s' = es_cap s"
    using step(2)
  proof cases
    case (Check day now limit req ok s1)
    with submit_checks_state [OF Check(2)] show ?thesis by auto
  next
    case (Release r s1)
    with release_sem_Some [OF Release(5)] show ?thesis by auto
  next
    case (SessionTry ok s1)
    with try_sem_cases [OF SessionTry(2)] show ?thesis by auto
  next
    case (SessionRelease s1)
    with release_sem_Some [OF SessionRelease(3)] show ?thesis by auto
  qed (auto simp: submit_acquire_def launch_def try_sem_def register_in_flight_def unregister_in_flight_def
      stop_engine_def cancel_all_def)
  with step runs_inv_step slots_inv_step table_inv_step show ?case by metis
qed

text \<open>
  C5. In every interleaving of submissions, direct runs, sessions and shutdown, the slots taken
  are exactly the diagnoses started by \<open>Submit\<close> that have not returned plus the remote sessions
  holding one, never more than \<open>MaxConcurrentDiagnoses\<close>; a slot is refused exactly when all are
  taken, giving one back never blocks for a holder, and every entry of the table is the number of
  a run of that key which has registered and not yet left.
\<close>

theorem engine_slots:
  assumes "eng_reach cfg d s"
  shows "es_used s = es_sessions s + length (filter run_slot (es_runs s))
    \<and> es_used s \<le> nat (ac_max_concurrent cfg)
    \<and> (fst (try_sem s) \<longleftrightarrow> es_used s < nat (ac_max_concurrent cfg))
    \<and> (0 < es_sessions s \<or> (\<exists>r \<in> set (es_runs s). run_slot r) \<longrightarrow> release_sem s \<noteq> None)
    \<and> (\<forall>k i. mget (es_in_flight s) k = Some i \<longrightarrow>
          (\<exists>r \<in> set (es_runs s). run_id r = i \<and> run_key (run_req r) = k \<and> live r))"
proof -
  note inv = eng_inv_reach [OF assms]
  have "0 < es_sessions s \<or> (\<exists>r \<in> set (es_runs s). run_slot r) \<Longrightarrow> 0 < es_used s"
    using inv by (auto simp: slots_inv_def filter_empty_conv)
  then show ?thesis
    using inv sem.acquire_iff [of s] sem.release_some [of s] by (auto simp: slots_inv_def table_inv_def)
qed


text \<open>Without overlapping runs of one target, every live run has its entry.\<close>

definition one_per_target :: "engine_state \<Rightarrow> bool" where
  "one_per_target s \<longleftrightarrow> distinct (map (\<lambda>r. run_key (run_req r)) (es_runs s))"

definition eng_step_sep :: "engine_state \<Rightarrow> engine_state \<Rightarrow> bool" where
  "eng_step_sep s s' \<longleftrightarrow> eng_step s s' \<and> one_per_target s'"

lemma other_key:
  "one_per_target s \<Longrightarrow> runs_inv s \<Longrightarrow> r \<in> set (es_runs s) \<Longrightarrow> x \<in> set (es_runs s) \<Longrightarrow> run_id x \<noteq> run_id r \<Longrightarrow>
   run_key (run_req x) \<noteq> run_key (run_req r)"
  by (auto simp: one_per_target_def distinct_map inj_on_def)

lemma covered_subset:
  "covered s \<Longrightarrow> es_in_flight s' = es_in_flight s \<Longrightarrow> {r \<in> set (es_runs s'). live r} \<subseteq> set (es_runs s) \<Longrightarrow> covered s'"
  by (auto simp: covered_def)

lemma covered_step:
  assumes step: "eng_step s s'" and c: "covered s" and runs: "runs_inv s" and keys: "one_per_target s"
  shows "covered s'"
  using step
proof cases
  case (Check day now limit req ok s1)
  with submit_checks_state [OF Check(2)] c show ?thesis by (auto simp: covered_def)
next
  case (Acquire req)
  with c show ?thesis
    by (auto simp: covered_def submit_acquire_def launch_def try_sem_def live_def split: if_splits)
next
  case (Direct req)
  with c show ?thesis by (auto simp: covered_def launch_def live_def)
next
  case (Register r)
  have iff: "\<forall>x \<in> set (es_runs s). (run_key (run_req x) = run_key (run_req r)) = (run_id x = run_id r)"
    using other_key [OF keys runs Register(2)] same_run [OF runs _ Register(2)] by blast
  show ?thesis
    unfolding covered_def
  proof (intro ballI impI)
    fix x' assume x': "x' \<in> set (es_runs s')" "live x'"
    then obtain x where x: "x \<in> set (es_runs s)"
        "x' = (if run_id x = run_id r then x\<lparr>run_phase := Registered\<rparr> else x)"
      by (auto simp: Register(1) set_phase_runs register_in_flight_def)
    with x' c iff show "mget (es_in_flight s') (run_key (run_req x')) = Some (run_id x')"
      by (auto simp: Register(1) register_in_flight_def covered_def split: if_splits)
  qed
next
  case (Report r d re ai)
  have same: "x = r" if "x \<in> set (es_runs s)" "run_id x = run_id r" for x
    using same_run [OF runs that(1) Report(2) that(2)] .
  have "mget (es_in_flight s) (run_key (run_req r)) = Some (run_id r)"
    using c Report(2,3) by (simp add: covered_def live_def)
  with Report c show ?thesis
    by (auto simp: covered_def set_phase_runs dest: same)
next
  case (Unregister r)
  with c show ?thesis
    using other_key [OF keys runs Unregister(2)]
    by (auto simp: covered_def set_phase_runs unregister_in_flight_def)
next
  case (Return r)
  with c show ?thesis by (intro covered_subset [OF c]) auto
next
  case (Release r s1)
  with c release_sem_Some [OF Release(5)] show ?thesis by (intro covered_subset [OF c]) auto
next
  case (SessionTry ok s1)
  with try_sem_cases [OF SessionTry(2)] c show ?thesis by (auto simp: covered_def)
next
  case (SessionRelease s1)
  with release_sem_Some [OF SessionRelease(3)] c show ?thesis by (auto simp: covered_def)
qed (use c in \<open>auto simp: covered_def stop_engine_def cancel_all_def\<close>)

lemma covered_reach:
  assumes "eng_step_sep\<^sup>*\<^sup>* (new_engine_state cfg d) s"
  shows "covered s \<and> runs_inv s \<and> one_per_target s"
  using assms
proof (induction rule: rtranclp_induct)
  case base
  show ?case by (simp add: new_engine_state_def covered_def runs_inv_def one_per_target_def)
next
  case (step s s')
  then show ?case using covered_step runs_inv_step by (auto simp: eng_step_sep_def)
qed

text \<open>
  As long as no two diagnoses of the same target run at once, \<open>Shutdown\<close> cancels every
  diagnosis that has registered and not yet left, and afterwards nothing is accepted any more.
\<close>

theorem shutdown_cancels:
  assumes "eng_step_sep\<^sup>*\<^sup>* (new_engine_state cfg d) s" and "r \<in> set (es_runs s)" and "live r"
  shows "run_id r \<in> set (es_cancelled (engine_shutdown s))
    \<and> submit day now limit req (engine_shutdown s) = engine_shutdown s"
proof -
  have "mget (es_in_flight s) (run_key (run_req r)) = Some (run_id r)"
    using covered_reach [OF assms(1)] assms(2,3) by (simp add: covered_def)
  then have "run_id r \<in> snd ` set (es_in_flight s)" by (force dest: mget_Some_in)
  then show ?thesis
    by (simp add: engine_shutdown_def cancel_all_def stop_engine_def submit_def submit_checks_def)
qed

section \<open>Overlapping diagnoses\<close>

definition example_state ::
  "nat \<Rightarrow> (string, nat) gomap \<Rightarrow> run list \<Rightarrow> diagnose_request list \<Rightarrow> nat \<Rightarrow> engine_state" where
  "example_state usd tbl rs checked nxt =
     \<lparr>es_cap = 3, es_used = usd, es_in_flight = tbl, es_stopped = False,
      es_dstate = new_diagnose_state (\<lambda>_. ''d'') 0, es_cancelled = [], es_runs = rs, es_sessions = 0,
      es_checked = checked, es_next = nxt\<rparr>"

definition example_run :: "nat \<Rightarrow> phase \<Rightarrow> run" where
  "example_run i ph = \<lparr>run_id = i, run_req = example_request ''disk'' ''t'', run_phase = ph, run_slot = True\<rparr>"

lemmas example_defs = example_state_def example_run_def

lemma example_initial:
  "new_engine_state (ai_apply_defaults (example_ai True 0)) (new_diagnose_state (\<lambda>_. ''d'') 0) = example_state 0 [] [] [] 0"
  by (simp add: example_state_def new_engine_state_def ai_apply_defaults_def example_ai_def)

lemma example_check:
  "eng_step (example_state u t rs [] n) (example_state u t rs [example_request ''disk'' ''t''] n)"
proof -
  have "submit_checks (\<lambda>_. ''d'') 0 0 (example_request ''disk'' ''t'') (example_state u t rs [] n)
      = (True, example_state u t rs [] n)"
    by (simp add: submit_checks_def example_state_def new_diagnose_state_def is_cooldown_active_def
        is_daily_limit_reached_def)
  from eng_step.Check [OF this] show ?thesis by (simp add: example_state_def)
qed

lemma example_acquire:
  "u < 3 \<Longrightarrow> eng_step (example_state u t rs [example_request ''disk'' ''t''] n)
     (example_state (u + 1) t (rs @ [example_run n Launched]) [] (n + 1))"
  using eng_step.Acquire [of "example_request ''disk'' ''t''" "example_state u t rs [example_request ''disk'' ''t''] n"]
  by (simp add: example_defs submit_acquire_def try_sem_def launch_def)

lemma overlap_steps:
  "eng_reach (ai_apply_defaults (example_ai True 0)) (new_diagnose_state (\<lambda>_. ''d'') 0)
     (example_state 2 [(''disk::t'', 1)] [example_run 0 Registered, example_run 1 Registered] [] 2)"
proof -
  let ?req = "example_request ''disk'' ''t''" and ?E = example_state and ?L = Launched and ?R = Registered
  have key: "run_key ?req = ''disk::t''" by (simp add: run_key_def example_request_def)
  have r0: "eng_step (?E 2 [] [example_run 0 ?L, example_run 1 ?L] [] 2)
      (?E 2 [(''disk::t'', 0)] [example_run 0 ?R, example_run 1 ?L] [] 2)"
    using eng_step.Register [of "example_run 0 ?L" "?E 2 [] [example_run 0 ?L, example_run 1 ?L] [] 2"] key
    by (simp add: example_defs register_in_flight_def set_phase_def mput_def)
  have r1: "eng_step (?E 2 [(''disk::t'', 0)] [example_run 0 ?R, example_run 1 ?L] [] 2)
      (?E 2 [(''disk::t'', 1)] [example_run 0 ?R, example_run 1 ?R] [] 2)"
    using eng_step.Register [of "example_run 1 ?L" "?E 2 [(''disk::t'', 0)] [example_run 0 ?R, example_run 1 ?L] [] 2"] key
    by (simp add: example_defs register_in_flight_def set_phase_def mput_def)
  have "eng_step\<^sup>*\<^sup>* (?E 0 [] [] [] 0) (?E 2 [(''disk::t'', 1)] [example_run 0 ?R, example_run 1 ?R] [] 2)"
    using example_check [of 0 "[]" "[]" 0] example_acquire [of 0 "[]" "[]" 0]
      example_check [of 1 "[]" "[example_run 0 ?L]" 1] example_acquire [of 1 "[]" "[example_run 0 ?L]" 1] r0 r1
    by (simp add: numeral_2_eq_2)
  then show ?thesis by (simp only: example_initial)
qed

text \<open>
  The cooldown starts only when a diagnosis ends, so it does not keep two alerts of one
  target from being diagnosed at once: there is an interleaving of two accepted submissions after
  which both runs are registered, the table holds only the second, and \<open>Shutdown\<close> leaves the
  first one running.
\<close>

theorem shutdown_misses_overlap:
  "\<exists>s r r'. eng_reach (ai_apply_defaults (example_ai True 0)) (new_diagnose_state (\<lambda>_. ''d'') 0) s
     \<and> es_runs s = [r, r'] \<and> run_req r = run_req r' \<and> rq_mode (run_req r) \<noteq> ModeInspect
     \<and> run_phase r = Registered \<and> run_phase r' = Registered
     \<and> es_cancelled (engine_shutdown s) = [run_id r'] \<and> run_id r \<noteq> run_id r'"
proof -
  let ?s = "example_state 2 [(''disk::t'', 1)] [example_run 0 Registered, example_run 1 Registered] [] 2"
  have "es_runs ?s = [example_run 0 Registered, example_run 1 Registered]"
      "es_cancelled (engine_shutdown ?s) = [1]"
    by (simp_all add: example_defs engine_shutdown_def stop_engine_def cancel_all_def)
  then show ?thesis
    using overlap_steps
    by (intro exI [of _ ?s] exI [of _ "example_run 0 Registered"] exI [of _ "example_run 1 Registered"])
      (simp add: example_run_def example_request_def ModeInspect_def)
qed


theorem engine_slots_witness:
  "\<exists>s. eng_reach (ai_apply_defaults (example_ai True 0)) (new_diagnose_state (\<lambda>_. ''d'') 0) s
     \<and> length (filter run_slot (es_runs s)) = 2 \<and> es_used s = es_sessions s + 2"
proof -
  let ?s = "example_state 2 [(''disk::t'', 1)] [example_run 0 Registered, example_run 1 Registered] [] 2"
  have "length (filter run_slot (es_runs ?s)) = 2" by (simp add: example_defs)
  with engine_slots [OF overlap_steps] overlap_steps show ?thesis by (intro exI [of _ ?s]) simp
qed

lemma single_steps:
  "eng_step_sep\<^sup>*\<^sup>* (new_engine_state (ai_apply_defaults (example_ai True 0)) (new_diagnose_state (\<lambda>_. ''d'') 0))
     (example_state 1 [(''disk::t'', 0)] [example_run 0 Registered] [] 1)"
proof -
  have key: "run_key (example_request ''disk'' ''t'') = ''disk::t''" by (simp add: run_key_def example_request_def)
  have "eng_step (example_state 1 [] [example_run 0 Launched] [] 1)
      (example_state 1 [(''disk::t'', 0)] [example_run 0 Registered] [] 1)"
    using eng_step.Register [of "example_run 0 Launched" "example_state 1 [] [example_run 0 Launched] [] 1"] key
    by (simp add: example_defs register_in_flight_def set_phase_def mput_def)
  moreover have "one_per_target (example_state 1 t [example_run 0 ph] [] 1)"
      "one_per_target (example_state 0 [] [] [example_request ''disk'' ''t''] 0)" for t ph
    by (simp_all add: one_per_target_def example_defs)
  ultimately have "eng_step_sep (example_state 0 [] [] [] 0) (example_state 0 [] [] [example_request ''disk'' ''t''] 0)"
      "eng_step_sep (example_state 0 [] [] [example_request ''disk'' ''t''] 0) (example_state 1 [] [example_run 0 Launched] [] 1)"
      "eng_step_sep (example_state 1 [] [example_run 0 Launched] [] 1)
         (example_state 1 [(''disk::t'', 0)] [example_run 0 Registered] [] 1)"
    using example_check [of 0 "[]" "[]" 0] example_acquire [of 0 "[]" "[]" 0] by (simp_all add: eng_step_sep_def)
  then show ?thesis
    unfolding example_initial by (meson converse_rtranclp_into_rtranclp r_into_rtranclp)
qed

theorem shutdown_cancels_witness:
  "es_cancelled (engine_shutdown (example_state 1 [(''disk::t'', 0)] [example_run 0 Registered] [] 1)) \<noteq> []"
  using shutdown_cancels [OF single_steps, of "example_run 0 Registered"]
  by (auto simp: example_defs live_def)

section \<open>Draining\<close>

definition phase_weight :: "phase \<Rightarrow> nat" where
  "phase_weight ph = (case ph of Launched \<Rightarrow> 4 | Registered \<Rightarrow> 3 | Reported \<Rightarrow> 2 | Unregistered \<Rightarrow> 1)"

definition work_left :: "engine_state \<Rightarrow> nat" where
  "work_left s = sum_list (map (\<lambda>r. phase_weight (run_phase r)) (es_runs s))"

lemma set_phase_hd:
  assumes "runs_inv s" and "es_runs s = r # rs"
  shows "es_runs (set_phase (run_id r) ph s) = r\<lparr>run_phase := ph\<rparr> # rs"
proof -
  have "\<forall>x \<in> set rs. run_id x \<noteq> run_id r" using assms by (auto simp: runs_inv_def image_iff)
  then show ?thesis using assms(2) by (auto simp: set_phase_def intro: map_idI)
qed

lemma drop_run_hd:
  assumes "runs_inv s" and "es_runs s = r # rs"
  shows "es_runs (drop_run (run_id r) s) = rs"
proof -
  have "\<forall>x \<in> set rs. run_id x \<noteq> run_id r" using assms by (auto simp: runs_inv_def image_iff)
  then show ?thesis using assms(2) by (auto simp: drop_run_def filter_id_conv)
qed

lemma engine_progress:
  assumes runs: "runs_inv s" and slots: "slots_inv s" and rs: "es_runs s = r # rs"
  shows "\<exists>s'. eng_step s s' \<and> work_left s' < work_left s \<and> es_sessions s' = es_sessions s"
proof -
  have r: "r \<in> set (es_runs s)" by (simp add: rs)
  have w: "work_left s = phase_weight (run_phase r) + sum_list (map (\<lambda>r. phase_weight (run_phase r)) rs)"
    by (simp add: work_left_def rs)
  have hd: "work_left (set_phase (run_id r) ph s1) = phase_weight ph + sum_list (map (\<lambda>r. phase_weight (run_phase r)) rs)"
    if "es_runs s1 = es_runs s" "es_next s1 = es_next s" for s1 ph
    using set_phase_hd [of s1 r rs ph] that runs rs by (simp add: work_left_def runs_inv_def)
  have tl: "work_left (drop_run (run_id r) s1) = sum_list (map (\<lambda>r. phase_weight (run_phase r)) rs)"
    if "es_runs s1 = es_runs s" "es_next s1 = es_next s" for s1
    using drop_run_hd [of s1 r rs] that runs rs by (simp add: work_left_def runs_inv_def)
  show ?thesis
  proof (cases "run_phase r")
    case Launched
    show ?thesis
      by (rule exI, rule conjI, rule eng_step.Register [OF r Launched])
        (simp add: hd w register_in_flight_def phase_weight_def Launched)
  next
    case Registered
    show ?thesis
      by (rule exI, rule conjI, rule eng_step.Report [OF r Registered, of "es_dstate s", OF disjI1 [OF refl]])
        (simp add: hd w phase_weight_def Registered)
  next
    case Reported
    show ?thesis
      by (rule exI, rule conjI, rule eng_step.Unregister [OF r Reported])
        (simp add: hd w unregister_in_flight_def phase_weight_def Reported)
  next
    case Unregistered
    show ?thesis
    proof (cases "run_slot r")
      case False
      show ?thesis
        by (rule exI, rule conjI, rule eng_step.Return [OF r Unregistered False])
          (simp add: tl w phase_weight_def Unregistered)
    next
      case True
      then have "0 < es_used s" using slots rs by (simp add: slots_inv_def)
      then obtain s1 where s1: "release_sem s = Some s1" using sem.release_some [of s] by blast
      show ?thesis
        by (rule exI, rule conjI, rule eng_step.Release [OF r Unregistered True s1])
          (use release_sem_Some [OF s1] in \<open>auto simp: tl w phase_weight_def Unregistered\<close>)
    qed
  qed
qed

text \<open>
  C38. No reachable state is stuck: from each one the running diagnoses can all finish, after
  which the table is empty and only the sessions' slots are taken.
\<close>

theorem engine_drains:
  assumes "eng_reach cfg d s"
  shows "\<exists>s'. eng_step\<^sup>*\<^sup>* s s' \<and> es_runs s' = [] \<and> es_in_flight s' = []
    \<and> es_used s' = es_sessions s' \<and> es_sessions s' = es_sessions s"
  using assms
proof (induction "work_left s" arbitrary: s rule: less_induct)
  case less
  note inv = eng_inv_reach [OF less.prems]
  show ?case
  proof (cases "es_runs s")
    case Nil
    then have none: "mget (es_in_flight s) k = None" for k
      using inv by (cases "mget (es_in_flight s) k") (auto simp: table_inv_def)
    then have "es_in_flight s = []"
      using none [of "fst (hd (es_in_flight s))"] by (cases "es_in_flight s") auto
    with Nil inv show ?thesis by (intro exI [of _ s]) (simp add: slots_inv_def)
  next
    case (Cons r rs)
    with engine_progress inv obtain s1 where s1: "eng_step s s1" "work_left s1 < work_left s" "es_sessions s1 = es_sessions s"
      by blast
    from less.hyps [OF s1(2)] less.prems s1 obtain s' where s': "eng_step\<^sup>*\<^sup>* s1 s'" "es_runs s' = []" "es_in_flight s' = []"
        "es_used s' = es_sessions s'" "es_sessions s' = es_sessions s1"
      by (meson rtranclp.rtrancl_into_rtrancl)
    from s1(1) s'(1) have "eng_step\<^sup>*\<^sup>* s s'" by (rule converse_rtranclp_into_rtranclp)
    with s' s1(3) show ?thesis by auto
  qed
qed

theorem engine_drains_witness:
  "\<exists>s'. eng_step\<^sup>*\<^sup>* (example_state 2 [(''disk::t'', 1)] [example_run 0 Registered, example_run 1 Registered] [] 2) s'
     \<and> es_runs s' = [] \<and> es_used s' = 0"
  using engine_drains [OF overlap_steps] by (auto simp: example_state_def)

end
