(* ===== verification/Sessions.thy ===== *)
theory Sessions
  imports Protocol DiagnoseEngine
begin

text \<open>
  Remote sessions (\<open>server/session.go\<close>, \<open>server/session_handler.go\<close>): the goroutine of one
  session as a function of what its runner, its context and its input channel do, and the table of
  sessions with the handlers of the server's messages as a step relation on top of the engine's.
  A session object is known by a number, which also stands for its cancel function.
\<close>

section \<open>Messages of a session\<close>

text \<open>A message handed to the connection; a failing \<open>json.Marshal\<close> drops it.\<close>

datatype out_msg =
  OutOutput session_output_payload
| OutError session_error_payload
| OutAck string ack_payload

definition out_message :: "string \<Rightarrow> out_msg \<Rightarrow> ws_message option" where
  "out_message uuid out =
     (case out of
        OutOutput p \<Rightarrow> map_option (new_message uuid typeSessionOutput) (encode_session_output p)
      | OutError p \<Rightarrow> Some (new_message uuid typeSessionError (encode_session_error p))
      | OutAck ref p \<Rightarrow>
          Some \<lparr>wm_type = typeAck, wm_id = uuid, wm_ref = ref, wm_payload = Some (encode_ack p)\<rparr>)"

definition send_session_output :: "string \<Rightarrow> string \<Rightarrow> string \<Rightarrow> bool \<Rightarrow> string \<Rightarrow> metadata \<Rightarrow> out_msg list" where
  "send_session_output sid delta stage dn report meta =
     (let out = OutOutput \<lparr>so_session_id = sid, so_delta = delta, so_stage = stage, so_done = dn,
            so_report = report, so_metadata = meta\<rparr>
      in case out_message '''' out of None \<Rightarrow> [] | Some _ \<Rightarrow> [out])"

definition send_session_error :: "string \<Rightarrow> string \<Rightarrow> string \<Rightarrow> out_msg list" where
  "send_session_error sid err code = [OutError \<lparr>se_session_id = sid, se_error = err, se_code = code\<rparr>]"

definition send_ack :: "string \<Rightarrow> bool \<Rightarrow> string \<Rightarrow> out_msg list" where
  "send_ack ref ok err = [OutAck ref \<lparr>ack_ok = ok, ack_error = err, ack_warning = ''''\<rparr>]"

section \<open>The goroutine of a session\<close>

record remote_session =
  rs_no :: nat
  rs_id :: string
  rs_type :: string
  rs_chat :: bool

text \<open>
  The environment of one session: which runners are set, when its context is found cancelled
  (\<open>sv_done k\<close> at the \<open>k\<close>-th question), the callback calls and the result of the runner, of
  \<open>NewSession\<close> and of each turn, and what the \<open>select\<close> of the chat loop yields.
\<close>

type_synonym stream_calls = "(string \<times> string \<times> metadata) list"

datatype run_result = RunReport string | RunError string | RunPanic

datatype chat_select = CtxDone | ChatInput string

record session_env =
  sv_has_diagnose :: bool
  sv_has_chat :: bool
  sv_done :: "nat \<Rightarrow> bool"
  sv_stream :: "string \<Rightarrow> string \<Rightarrow> string \<Rightarrow> (string, json) gomap \<Rightarrow> stream_calls \<times> run_result"
  sv_new_session :: "bool \<Rightarrow> stream_calls \<times> run_result"
  sv_turn :: "nat \<Rightarrow> string \<Rightarrow> stream_calls \<times> run_result"
  sv_select :: "chat_select list"

text \<open>Both runners are given a callback that passes its text on and ignores its \<open>done\<close>.\<close>

definition relay :: "string \<Rightarrow> stream_calls \<Rightarrow> out_msg list" where
  "relay sid calls = concat (map (\<lambda>(delta, stage, meta). send_session_output sid delta stage False '''' meta) calls)"

definition params_of :: "session_start_payload \<Rightarrow> (string, json) gomap" where
  "params_of p = (case st_params p of None \<Rightarrow> [] | Some m \<Rightarrow> m)"

definition param_str :: "(string, json) gomap \<Rightarrow> string \<Rightarrow> string" where
  "param_str m k = (case mget m k of Some (JStr s) \<Rightarrow> s | _ \<Rightarrow> '''')"

definition param_bool :: "(string, json) gomap \<Rightarrow> string \<Rightarrow> bool" where
  "param_bool m k = (case mget m k of Some (JBool b) \<Rightarrow> b | _ \<Rightarrow> False)"

text \<open>How a session's body ends: with an outcome and a report, not yet, or in a panic.\<close>

datatype session_end = Ended string string | Waiting | Crashed

definition stream_end :: "session_env \<Rightarrow> string \<Rightarrow> stream_calls \<times> run_result \<Rightarrow> out_msg list \<times> session_end" where
  "stream_end env sid r =
     (case snd r of
        RunReport report \<Rightarrow> (relay sid (fst r), Ended ''ok'' report)
      | RunError e \<Rightarrow>
          if sv_done env 1 then (relay sid (fst r), Ended ''cancelled'' '''')
          else (relay sid (fst r) @ send_session_error sid e ''diagnose_failed'', Ended ''error'' '''')
      | RunPanic \<Rightarrow> (relay sid (fst r), Crashed))"

definition run_inspect_or_diagnose ::
  "session_env \<Rightarrow> remote_session \<Rightarrow> session_start_payload \<Rightarrow> out_msg list \<times> session_end" where
  "run_inspect_or_diagnose env sess p =
     (if \<not> sv_has_diagnose env then
        (send_session_error (rs_id sess) ''diagnose engine not available'' ''engine_unavailable'', Ended ''error'' '''')
      else
        let params = params_of p;
            plugin = param_str params ''plugin'';
            target = param_str params ''target''
        in if rs_type sess = ''inspect'' \<and> plugin = '''' then
             (send_session_error (rs_id sess) ''plugin is required for inspect'' ''missing_plugin'', Ended ''error'' '''')
           else
             let plugin = (if plugin = '''' then ''system'' else plugin);
                 target = (if target = '''' then ''localhost'' else target);
                 mode = (if rs_type sess = ''diagnose'' then ''alert'' else ''inspect'')
             in stream_end env (rs_id sess) (sv_stream env mode plugin target params))"

definition turn_done :: metadata where
  "turn_done = Meta [(''turn_done'', JBool True)]"

text \<open>Turn \<open>k\<close>; a panic of the handle is recovered and the session goes on.\<close>

definition process_turn :: "session_env \<Rightarrow> string \<Rightarrow> nat \<Rightarrow> string \<Rightarrow> out_msg list \<times> string" where
  "process_turn env sid k msg =
     (let (calls, res) = sv_turn env k msg
      in case res of
           RunReport answer \<Rightarrow> (relay sid calls @ send_session_output sid answer ''answer'' False '''' turn_done, '''')
         | RunError e \<Rightarrow>
             if sv_done env (2 + k) then (relay sid calls, ''cancelled'')
             else (relay sid calls @ send_session_output sid e ''error'' False '''' turn_done, '''')
         | RunPanic \<Rightarrow>
             (relay sid calls @ send_session_output sid ''internal error'' ''error'' False '''' turn_done, ''''))"

fun chat_loop :: "session_env \<Rightarrow> string \<Rightarrow> nat \<Rightarrow> chat_select list \<Rightarrow> out_msg list \<times> session_end" where
  "chat_loop env sid k [] = ([], Waiting)"
| "chat_loop env sid k (CtxDone # evs) = ([], Ended ''cancelled'' '''')"
| "chat_loop env sid k (ChatInput msg # evs) =
     (let (out, oc) = process_turn env sid (k + 1) msg
      in if oc \<noteq> '''' then (out, Ended oc '''')
         else let (rest, e) = chat_loop env sid (k + 1) evs in (out @ rest, e))"

definition run_chat ::
  "session_env \<Rightarrow> remote_session \<Rightarrow> session_start_payload \<Rightarrow> out_msg list \<times> session_end" where
  "run_chat env sess p =
     (if \<not> sv_has_chat env then
        (send_session_error (rs_id sess) ''chat engine not available'' ''engine_unavailable'', Ended ''error'' '''')
      else if sv_done env 1 then ([], Ended ''cancelled'' '''')
      else
        let params = params_of p;
            (calls, res) = sv_new_session env (param_bool params ''allow_shell'')
        in case res of
             RunPanic \<Rightarrow> (relay (rs_id sess) calls, Crashed)
           | RunError e \<Rightarrow>
               if sv_done env 2 then (relay (rs_id sess) calls, Ended ''cancelled'' '''')
               else (relay (rs_id sess) calls @ send_session_error (rs_id sess) e ''chat_init_failed'', Ended ''error'' '''')
           | RunReport _ \<Rightarrow>
               let msg = param_str params ''message'';
                   r = (if msg \<noteq> '''' then chat_loop env (rs_id sess) 0 (ChatInput msg # sv_select env)
                        else chat_loop env (rs_id sess) 0 (sv_select env))
               in (relay (rs_id sess) calls @ fst r, snd r))"

text \<open>The deferred call sends the closing message when the body has not done so.\<close>

definition run_remote_session ::
  "session_env \<Rightarrow> remote_session \<Rightarrow> session_start_payload \<Rightarrow> out_msg list \<times> session_end" where
  "run_remote_session env sess p =
     (let closing = send_session_output (rs_id sess) '''' '''' True '''' NoMeta
      in if sv_done env 0 then (closing, Ended ''cancelled'' '''')
         else if rs_type sess = ''inspect'' \<or> rs_type sess = ''diagnose'' then
           (case run_inspect_or_diagnose env sess p of
              (out, Ended oc report) \<Rightarrow>
                (out @ (if report \<noteq> '''' then send_session_output (rs_id sess) '''' '''' True report NoMeta else closing),
                 Ended oc report)
            | (out, e) \<Rightarrow> (out @ closing, e))
         else if rs_type sess = ''chat'' then
           (case run_chat env sess p of
              (out, Waiting) \<Rightarrow> (out, Waiting)
            | (out, e) \<Rightarrow> (out @ closing, e))
         else (send_session_error (rs_id sess) (''unknown session type: '' @ rs_type sess) ''invalid_type'' @ closing,
               Ended ''error'' ''''))"

section \<open>The messages of one session\<close>

text \<open>What every message of a session before the closing one looks like.\<close>

definition body_msg :: "string \<Rightarrow> out_msg \<Rightarrow> bool" where
  "body_msg sid out \<longleftrightarrow>
     (case out of
        OutOutput p \<Rightarrow> so_session_id p = sid \<and> \<not> so_done p \<and> so_report p = ''''
      | OutError p \<Rightarrow> se_session_id p = sid
      | OutAck _ _ \<Rightarrow> False)"

definition body_msgs :: "string \<Rightarrow> out_msg list \<Rightarrow> bool" where
  "body_msgs sid out \<longleftrightarrow> (\<forall>m \<in> set out. body_msg sid m)"

named_theorems body_intros

lemma body_msgs_simps [simp]:
  "body_msgs sid []" "body_msgs sid (a @ b) \<longleftrightarrow> body_msgs sid a \<and> body_msgs sid b"
  by (auto simp: body_msgs_def)

lemma body_output [body_intros]: "body_msgs sid (send_session_output sid delta stage False '''' meta)"
  by (simp add: send_session_output_def body_msgs_def body_msg_def Let_def split: option.split)

lemma body_error [body_intros]: "body_msgs sid (send_session_error sid e c)"
  by (simp add: send_session_error_def body_msgs_def body_msg_def)

lemma body_relay [body_intros]: "body_msgs sid (relay sid calls)"
  using body_output [of sid] by (force simp: relay_def body_msgs_def)

lemma body_turn [body_intros]: "body_msgs sid (fst (process_turn env sid k msg))"
  by (auto simp: process_turn_def body_intros split: prod.split run_result.split)

lemma turn_outcome: "snd (process_turn env sid k msg) = '''' \<or> snd (process_turn env sid k msg) = ''cancelled''"
  by (simp add: process_turn_def split: prod.split run_result.split)

text \<open>The loop's equation for an input, without patterns on pairs.\<close>

lemma chat_loop_input:
  "chat_loop env sid k (ChatInput msg # evs) =
     (let t = process_turn env sid (k + 1) msg; c = chat_loop env sid (k + 1) evs
      in if snd t \<noteq> '''' then (fst t, Ended (snd t) '''') else (fst t @ fst c, snd c))"
  by (simp add: case_prod_unfold Let_def)

lemmas chat_loop_eqs = chat_loop.simps(1,2) chat_loop_input

declare chat_loop.simps [simp del]

lemma body_chat [body_intros]: "body_msgs sid (fst (chat_loop env sid k evs))"
proof (induction evs arbitrary: k)
  case (Cons e evs)
  then show ?case by (cases e) (simp_all add: chat_loop_eqs Let_def body_turn)
qed (simp add: chat_loop_eqs)

lemma chat_end:
  "snd (chat_loop env sid k evs) \<noteq> Crashed
   \<and> (\<forall>oc report. snd (chat_loop env sid k evs) = Ended oc report \<longrightarrow> oc = ''cancelled'' \<and> report = '''')"
proof (induction evs arbitrary: k)
  case (Cons e evs)
  then show ?case
    using turn_outcome [of env sid "k + 1"] by (cases e) (auto simp: chat_loop_eqs Let_def)
qed (simp add: chat_loop_eqs)

lemma chat_stops: "CtxDone \<in> set evs \<Longrightarrow> snd (chat_loop env sid k evs) \<noteq> Waiting"
proof (induction evs arbitrary: k)
  case (Cons e evs)
  then show ?case by (cases e) (auto simp: chat_loop_eqs Let_def)
qed simp

text \<open>A turn is closed by a message with \<open>turn_done\<close> unless the session is cancelled.\<close>

lemma turn_closed:
  "snd (process_turn env sid k msg) = '''' \<Longrightarrow>
   \<exists>p. last (fst (process_turn env sid k msg)) = OutOutput p \<and> so_metadata p = turn_done \<and> so_session_id p = sid"
  by (auto simp: process_turn_def send_session_output_def out_message_def encode_session_output_def turn_done_def
      split: prod.splits run_result.splits if_splits)

lemma stream_end_spec: "body_msgs sid (fst (stream_end env sid r)) \<and> snd (stream_end env sid r) \<noteq> Waiting"
  by (simp add: stream_end_def body_intros split: run_result.split)

lemma run_diagnose_spec:
  "body_msgs (rs_id sess) (fst (run_inspect_or_diagnose env sess p))
   \<and> snd (run_inspect_or_diagnose env sess p) \<noteq> Waiting"
  unfolding run_inspect_or_diagnose_def Let_def using stream_end_spec by (simp add: body_intros)

text \<open>The inputs of a chat session: the first message, if any, and what the loop selects.\<close>

definition chat_inputs :: "session_env \<Rightarrow> session_start_payload \<Rightarrow> chat_select list" where
  "chat_inputs env p =
     (if param_str (params_of p) ''message'' \<noteq> '''' then [ChatInput (param_str (params_of p) ''message'')] else [])
     @ sv_select env"

lemma run_chat_cases:
  assumes "sv_has_chat env" and "\<not> sv_done env 1"
    and "sv_new_session env (param_bool (params_of p) ''allow_shell'') = (calls, RunReport x)"
  shows "run_chat env sess p =
    (relay (rs_id sess) calls @ fst (chat_loop env (rs_id sess) 0 (chat_inputs env p)),
     snd (chat_loop env (rs_id sess) 0 (chat_inputs env p)))"
  using assms by (simp add: run_chat_def chat_inputs_def Let_def)

lemma run_chat_early:
  assumes "\<not> (sv_has_chat env \<and> \<not> sv_done env 1
    \<and> (\<exists>calls x. sv_new_session env (param_bool (params_of p) ''allow_shell'') = (calls, RunReport x)))"
  shows "body_msgs (rs_id sess) (fst (run_chat env sess p)) \<and> snd (run_chat env sess p) \<noteq> Waiting
    \<and> (\<forall>oc report. snd (run_chat env sess p) = Ended oc report \<longrightarrow> report = '''')"
proof -
  obtain calls res where r: "sv_new_session env (param_bool (params_of p) ''allow_shell'') = (calls, res)" by force
  show ?thesis using assms by (cases res) (simp_all add: run_chat_def r body_intros)
qed

lemma run_chat_spec:
  "body_msgs (rs_id sess) (fst (run_chat env sess p))
   \<and> (\<forall>oc report. snd (run_chat env sess p) = Ended oc report \<longrightarrow> report = '''')
   \<and> (CtxDone \<in> set (sv_select env) \<longrightarrow> snd (run_chat env sess p) \<noteq> Waiting)"
proof (cases "sv_has_chat env \<and> \<not> sv_done env 1
    \<and> (\<exists>calls x. sv_new_session env (param_bool (params_of p) ''allow_shell'') = (calls, RunReport x))")
  case True
  then obtain calls x where "sv_has_chat env" "\<not> sv_done env 1"
      "sv_new_session env (param_bool (params_of p) ''allow_shell'') = (calls, RunReport x)" by blast
  note eq = run_chat_cases [OF this, of sess]
  have "CtxDone \<in> set (sv_select env) \<Longrightarrow> CtxDone \<in> set (chat_inputs env p)" by (simp add: chat_inputs_def)
  then show ?thesis
    using chat_end [of env "rs_id sess" 0 "chat_inputs env p"] chat_stops [of "chat_inputs env p" env "rs_id sess" 0]
    by (simp add: eq body_intros)
next
  case False
  then show ?thesis using run_chat_early [OF False, of sess] by simp
qed

definition closing_msg :: "string \<Rightarrow> string \<Rightarrow> out_msg" where
  "closing_msg sid report =
     OutOutput \<lparr>so_session_id = sid, so_delta = '''', so_stage = '''', so_done = True, so_report = report,
       so_metadata = NoMeta\<rparr>"

lemma send_closing: "send_session_output sid '''' '''' True report NoMeta = [closing_msg sid report]"
  by (simp add: send_session_output_def closing_msg_def out_message_def encode_session_output_def)

lemma run_diagnose_report:
  "run_inspect_or_diagnose env sess p = (out, Ended oc report) \<Longrightarrow> report \<noteq> '''' \<Longrightarrow> oc = ''ok''"
  by (auto simp: run_inspect_or_diagnose_def stream_end_def Let_def split: if_splits run_result.splits)


definition example_session_env :: session_env where
  "example_session_env =
     \<lparr>sv_has_diagnose = True, sv_has_chat = True, sv_done = (\<lambda>_. False), sv_stream = (\<lambda>_ _ _ _. ([], RunReport ''r'')),
      sv_new_session = (\<lambda>_. ([], RunReport '''')), sv_turn = (\<lambda>_ m. ([], RunPanic)), sv_select = [ChatInput ''hi'', CtxDone]\<rparr>"

definition example_session :: "nat \<Rightarrow> string \<Rightarrow> remote_session" where
  "example_session i typ = \<lparr>rs_no = i, rs_id = ''s'', rs_type = typ, rs_chat = (typ = ''chat'')\<rparr>"

definition example_start :: "string \<Rightarrow> session_start_payload" where
  "example_start typ = \<lparr>st_session_id = ''s'', st_session_type = typ, st_user_name = '''', st_params = None\<rparr>"


section \<open>The table of sessions\<close>

definition sm_add :: "remote_session \<Rightarrow> (string, remote_session) gomap \<Rightarrow> bool \<times> (string, remote_session) gomap" where
  "sm_add s m = (if mget m (rs_id s) \<noteq> None then (False, m) else (True, mput (rs_id s) s m))"

text \<open>\<open>remove\<close> and \<open>cancelAll\<close> also give the sessions whose cancel function they call.\<close>

definition sm_remove :: "string \<Rightarrow> (string, remote_session) gomap \<Rightarrow> (string, remote_session) gomap \<times> nat list" where
  "sm_remove sid m = (case mget m sid of None \<Rightarrow> (m, []) | Some s \<Rightarrow> (mdel sid m, [rs_no s]))"

definition sm_get :: "string \<Rightarrow> (string, remote_session) gomap \<Rightarrow> remote_session option" where
  "sm_get sid m = mget m sid"

definition sm_count :: "(string, remote_session) gomap \<Rightarrow> nat" where
  "sm_count m = length m"

definition sm_cancel_all :: "(string, remote_session) gomap \<Rightarrow> (string, remote_session) gomap \<times> nat list" where
  "sm_cancel_all m = ([], map (\<lambda>(k, s). rs_no s) m)"

section \<open>The handlers\<close>

text \<open>
  The state of one connection's sessions above the engine: the table, the session that
  \<open>handleSessionStart\<close> is about to add, the goroutines that still run their session, those that
  have removed it and not yet given their slot back, the called cancel functions, the contents of
  the input channels, the answers sent, and how many sessions of earlier connections still hold a
  slot.
\<close>

record session_state =
  ss_engine :: engine_state
  ss_table :: "(string, remote_session) gomap"
  ss_pending :: "(string \<times> remote_session) option"
  ss_running :: "remote_session list"
  ss_leaving :: "remote_session list"
  ss_cancelled :: "nat list"
  ss_inputs :: "nat \<Rightarrow> string list"
  ss_acks :: "out_msg list"
  ss_next :: nat
  ss_others :: nat

definition session_start_unavailable :: "bool \<Rightarrow> bool \<Rightarrow> bool \<Rightarrow> string \<Rightarrow> string" where
  "session_start_unavailable has_limiter has_chat has_diagnose typ =
     (if \<not> has_limiter then (if typ = ''chat'' then ''chat engine not available'' else ''diagnose engine not available'')
      else if typ = ''chat'' then (if \<not> has_chat then ''chat engine not available'' else '''')
      else if typ = ''inspect'' \<or> typ = ''diagnose'' then (if \<not> has_diagnose then ''diagnose engine not available'' else '''')
      else '''')"

text \<open>The checks before a slot is asked for: the reason of a refusal, or the payload.\<close>

definition start_checks :: "bool \<Rightarrow> bool \<Rightarrow> bool \<Rightarrow> ws_message \<Rightarrow> string + session_start_payload" where
  "start_checks has_limiter has_chat has_diagnose msg =
     (case decode_payload decode_session_start msg of
        None \<Rightarrow> Inl ''invalid payload''
      | Some p \<Rightarrow>
          if st_session_id p = '''' then Inl ''missing session_id''
          else let e = session_start_unavailable has_limiter has_chat has_diagnose (st_session_type p)
            in if e \<noteq> '''' then Inl e else Inr p)"

definition refuse :: "ws_message \<Rightarrow> string \<Rightarrow> session_state \<Rightarrow> session_state" where
  "refuse msg e s = s\<lparr>ss_acks := ss_acks s @ send_ack (wm_id msg) False e\<rparr>"

definition session_of :: "nat \<Rightarrow> session_start_payload \<Rightarrow> remote_session" where
  "session_of i p =
     \<lparr>rs_no = i, rs_id = st_session_id p, rs_type = st_session_type p, rs_chat = (st_session_type p = ''chat'')\<rparr>"

definition start_acquire :: "ws_message \<Rightarrow> session_start_payload \<Rightarrow> session_state \<Rightarrow> session_state" where
  "start_acquire msg p s =
     (case try_sem (ss_engine s) of
        (False, e) \<Rightarrow> refuse msg ''max concurrent sessions reached'' (s\<lparr>ss_engine := e\<rparr>)
      | (True, e) \<Rightarrow>
          s\<lparr>ss_engine := e\<lparr>es_sessions := es_sessions e + 1\<rparr>,
            ss_pending := Some (wm_id msg, session_of (ss_next s) p),
            ss_next := ss_next s + 1, ss_inputs := (ss_inputs s)(ss_next s := [])\<rparr>)"

text \<open>Giving a slot back; \<open>None\<close> would be a receive that blocks.\<close>

definition give_back :: "session_state \<Rightarrow> session_state option" where
  "give_back s = map_option (\<lambda>e. s\<lparr>ss_engine := e\<lparr>es_sessions := es_sessions e - 1\<rparr>\<rparr>) (release_sem (ss_engine s))"

definition start_add :: "session_state \<Rightarrow> session_state option" where
  "start_add s =
     (case ss_pending s of
        None \<Rightarrow> Some s
      | Some (ref, sess) \<Rightarrow>
          let s = s\<lparr>ss_pending := None\<rparr>
          in case sm_add sess (ss_table s) of
               (False, m) \<Rightarrow>
                 map_option (\<lambda>s. s\<lparr>ss_acks := ss_acks s @ send_ack ref False ''duplicate session_id''\<rparr>)
                   (give_back (s\<lparr>ss_cancelled := ss_cancelled s @ [rs_no sess]\<rparr>))
             | (True, m) \<Rightarrow>
                 Some (s\<lparr>ss_table := m, ss_acks := ss_acks s @ send_ack ref True '''',
                         ss_running := ss_running s @ [sess]\<rparr>))"

definition handle_session_start ::
  "bool \<Rightarrow> bool \<Rightarrow> bool \<Rightarrow> ws_message \<Rightarrow> session_state \<Rightarrow> session_state option" where
  "handle_session_start has_limiter has_chat has_diagnose msg s =
     (case start_checks has_limiter has_chat has_diagnose msg of
        Inl e \<Rightarrow> Some (refuse msg e s)
      | Inr p \<Rightarrow> start_add (start_acquire msg p s))"

definition handle_session_input :: "ws_message \<Rightarrow> session_state \<Rightarrow> session_state" where
  "handle_session_input msg s =
     (case decode_payload decode_session_input msg of
        None \<Rightarrow> s
      | Some p \<Rightarrow>
          (case sm_get (si_session_id p) (ss_table s) of
             None \<Rightarrow> s
           | Some sess \<Rightarrow>
               if \<not> rs_chat sess then s
               else if si_message p = '''' then s
               else if length (ss_inputs s (rs_no sess)) < 8
                 then s\<lparr>ss_inputs := (ss_inputs s)(rs_no sess := ss_inputs s (rs_no sess) @ [si_message p])\<rparr>
               else s))"

definition remove_session :: "string \<Rightarrow> session_state \<Rightarrow> session_state" where
  "remove_session sid s =
     (let (m, cs) = sm_remove sid (ss_table s) in s\<lparr>ss_table := m, ss_cancelled := ss_cancelled s @ cs\<rparr>)"

definition handle_session_cancel :: "ws_message \<Rightarrow> session_state \<Rightarrow> session_state" where
  "handle_session_cancel msg s =
     (case decode_payload decode_session_cancel msg of
        None \<Rightarrow> s
      | Some p \<Rightarrow> remove_session (sc_session_id p) s)"

definition cancel_sessions :: "session_state \<Rightarrow> session_state" where
  "cancel_sessions s =
     (let (m, cs) = sm_cancel_all (ss_table s) in s\<lparr>ss_table := m, ss_cancelled := ss_cancelled s @ cs\<rparr>)"

definition new_session_state :: "engine_state \<Rightarrow> session_state" where
  "new_session_state e =
     \<lparr>ss_engine = e, ss_table = [], ss_pending = None, ss_running = [], ss_leaving = [], ss_cancelled = [],
      ss_inputs = (\<lambda>_. []), ss_acks = [], ss_next = 0, ss_others = es_sessions e\<rparr>"

section \<open>Interleavings\<close>

text \<open>
  The reader handles one message at a time, so at most one start is under way; the engine, the
  sessions' goroutines and those of earlier connections interleave with it.
\<close>

inductive ses_step :: "session_state \<Rightarrow> session_state \<Rightarrow> bool" where
  Engine: "eng_step (ss_engine s) e \<Longrightarrow> es_sessions e = es_sessions (ss_engine s) \<Longrightarrow>
    ses_step s (s\<lparr>ss_engine := e\<rparr>)"
| Refuse: "start_checks l c d msg = Inl e \<Longrightarrow> ss_pending s = None \<Longrightarrow> ses_step s (refuse msg e s)"
| StartAcquire: "start_checks l c d msg = Inr p \<Longrightarrow> ss_pending s = None \<Longrightarrow> ses_step s (start_acquire msg p s)"
| StartAdd: "ss_pending s \<noteq> None \<Longrightarrow> start_add s = Some s' \<Longrightarrow> ses_step s s'"
| Input: "ss_pending s = None \<Longrightarrow> ses_step s (handle_session_input msg s)"
| Cancel: "ss_pending s = None \<Longrightarrow> ses_step s (handle_session_cancel msg s)"
| Disconnect: "ss_pending s = None \<Longrightarrow> ses_step s (cancel_sessions s)"
| Consume: "r \<in> set (ss_running s) \<Longrightarrow> ss_inputs s (rs_no r) = m # ms \<Longrightarrow>
    ses_step s (s\<lparr>ss_inputs := (ss_inputs s)(rs_no r := ms)\<rparr>)"
| Leave: "r \<in> set (ss_running s) \<Longrightarrow>
    ses_step s ((remove_session (rs_id r) s)\<lparr>ss_running := remove1 r (ss_running s), ss_leaving := ss_leaving s @ [r]\<rparr>)"
| GiveBack: "r \<in> set (ss_leaving s) \<Longrightarrow> give_back s = Some s' \<Longrightarrow>
    ses_step s (s'\<lparr>ss_leaving := remove1 r (ss_leaving s')\<rparr>)"
| Other: "0 < ss_others s \<Longrightarrow> give_back s = Some s' \<Longrightarrow> ses_step s (s'\<lparr>ss_others := ss_others s' - 1\<rparr>)"

inductive_cases ses_stepE: "ses_step s s'"

definition pending_sessions :: "session_state \<Rightarrow> remote_session list" where
  "pending_sessions s = (case ss_pending s of None \<Rightarrow> [] | Some (ref, r) \<Rightarrow> [r])"

definition all_sessions :: "session_state \<Rightarrow> remote_session list" where
  "all_sessions s = pending_sessions s @ ss_running s @ ss_leaving s"

definition counts_inv :: "session_state \<Rightarrow> bool" where
  "counts_inv s \<longleftrightarrow> es_sessions (ss_engine s) = ss_others s + length (all_sessions s)"

definition numbers_inv :: "session_state \<Rightarrow> bool" where
  "numbers_inv s \<longleftrightarrow> distinct (map rs_no (all_sessions s)) \<and> (\<forall>r \<in> set (all_sessions s). rs_no r < ss_next s)
     \<and> (\<forall>i \<in> set (ss_cancelled s). i < ss_next s)"

definition sessions_inv :: "session_state \<Rightarrow> bool" where
  "sessions_inv s \<longleftrightarrow> go_map_ok (ss_table s)
     \<and> (\<forall>k r. mget (ss_table s) k = Some r \<longrightarrow> r \<in> set (ss_running s) \<and> rs_id r = k)
     \<and> (\<forall>i. length (ss_inputs s i) \<le> 8)"

lemma give_back_Some:
  "give_back s = Some s' \<Longrightarrow> 0 < es_used (ss_engine s) \<and>
   s' = s\<lparr>ss_engine := (ss_engine s)\<lparr>es_used := es_used (ss_engine s) - 1, es_sessions := es_sessions (ss_engine s) - 1\<rparr>\<rparr>"
  by (auto simp: give_back_def dest!: release_sem_Some)

lemma start_acquire_cases:
  "(start_acquire msg p s = refuse msg ''max concurrent sessions reached'' s \<and> \<not> fst (try_sem (ss_engine s)))
   \<or> (fst (try_sem (ss_engine s)) \<and> start_acquire msg p s =
        s\<lparr>ss_engine := (ss_engine s)\<lparr>es_used := es_used (ss_engine s) + 1, es_sessions := es_sessions (ss_engine s) + 1\<rparr>,
          ss_pending := Some (wm_id msg, session_of (ss_next s) p), ss_next := ss_next s + 1,
          ss_inputs := (ss_inputs s)(ss_next s := [])\<rparr>)"
  by (auto simp: start_acquire_def try_sem_def)

lemma session_of_no [simp]: "rs_no (session_of i p) = i"
  by (simp add: session_of_def)

lemma start_add_cases:
  assumes "start_add s = Some s'" and "ss_pending s = Some (ref, r)"
  shows "(mget (ss_table s) (rs_id r) \<noteq> None \<and> 0 < es_used (ss_engine s) \<and>
      s' = s\<lparr>ss_pending := None, ss_cancelled := ss_cancelled s @ [rs_no r],
        ss_engine := (ss_engine s)\<lparr>es_used := es_used (ss_engine s) - 1, es_sessions := es_sessions (ss_engine s) - 1\<rparr>,
        ss_acks := ss_acks s @ send_ack ref False ''duplicate session_id''\<rparr>)
    \<or> (mget (ss_table s) (rs_id r) = None \<and>
      s' = s\<lparr>ss_pending := None, ss_table := mput (rs_id r) r (ss_table s), ss_acks := ss_acks s @ send_ack ref True '''',
        ss_running := ss_running s @ [r]\<rparr>)"
  using assms by (auto simp: start_add_def sm_add_def Let_def split: if_splits dest!: give_back_Some)

lemma start_add_frame:
  assumes "start_add s = Some s'" and "ss_pending s = Some (ref, r)"
  shows "ss_pending s' = None \<and> ss_next s' = ss_next s \<and> ss_leaving s' = ss_leaving s
    \<and> set (ss_cancelled s') \<subseteq> insert (rs_no r) (set (ss_cancelled s))
    \<and> (ss_running s' = ss_running s \<or> ss_running s' = ss_running s @ [r])"
  using start_add_cases [OF assms] by (elim disjE) auto

lemma remove_session_simps [simp]:
  "ss_engine (remove_session sid s) = ss_engine s" "ss_pending (remove_session sid s) = ss_pending s"
  "ss_running (remove_session sid s) = ss_running s" "ss_leaving (remove_session sid s) = ss_leaving s"
  "ss_inputs (remove_session sid s) = ss_inputs s" "ss_next (remove_session sid s) = ss_next s"
  "ss_others (remove_session sid s) = ss_others s" "ss_acks (remove_session sid s) = ss_acks s"
  "mget (ss_table (remove_session sid s)) k = (if k = sid then None else mget (ss_table s) k)"
  "go_map_ok (ss_table s) \<Longrightarrow> go_map_ok (ss_table (remove_session sid s))"
  "ss_cancelled (remove_session sid s) = ss_cancelled s @ (case mget (ss_table s) sid of None \<Rightarrow> [] | Some r \<Rightarrow> [rs_no r])"
  by (auto simp: remove_session_def sm_remove_def split: option.split)

lemma handle_session_cancel_cases:
  "handle_session_cancel msg s = s \<or> (\<exists>sid. handle_session_cancel msg s = remove_session sid s)"
  by (auto simp: handle_session_cancel_def split: option.split)

lemma handle_session_input_cases:
  "handle_session_input msg s = s \<or> (\<exists>i m. length (ss_inputs s i) < 8
     \<and> handle_session_input msg s = s\<lparr>ss_inputs := (ss_inputs s)(i := ss_inputs s i @ [m])\<rparr>)"
  by (auto simp: handle_session_input_def split: option.split)

lemma cancel_sessions_eq:
  "cancel_sessions s = s\<lparr>ss_table := [], ss_cancelled := ss_cancelled s @ map (\<lambda>(k, r). rs_no r) (ss_table s)\<rparr>"
  by (simp add: cancel_sessions_def sm_cancel_all_def)

lemma refuse_simps [simp]:
  "ss_engine (refuse msg e s) = ss_engine s" "ss_table (refuse msg e s) = ss_table s" "ss_pending (refuse msg e s) = ss_pending s"
  "ss_running (refuse msg e s) = ss_running s" "ss_leaving (refuse msg e s) = ss_leaving s"
  "ss_cancelled (refuse msg e s) = ss_cancelled s" "ss_inputs (refuse msg e s) = ss_inputs s"
  "ss_next (refuse msg e s) = ss_next s" "ss_others (refuse msg e s) = ss_others s"
  by (simp_all add: refuse_def)

section \<open>Invariants of the sessions\<close>

lemmas session_lists = all_sessions_def pending_sessions_def

lemma session_release_step:
  assumes "counts_inv s" and "all_sessions s \<noteq> [] \<or> 0 < ss_others s" and "0 < es_used (ss_engine s)"
  shows "eng_step (ss_engine s)
    ((ss_engine s)\<lparr>es_used := es_used (ss_engine s) - 1, es_sessions := es_sessions (ss_engine s) - 1\<rparr>)"
proof -
  have "0 < es_sessions (ss_engine s)" using assms(1,2) by (auto simp: counts_inv_def)
  from eng_step.SessionRelease [OF this, of "(ss_engine s)\<lparr>es_used := es_used (ss_engine s) - 1\<rparr>"] assms(3)
  show ?thesis by (simp add: release_sem_def)
qed

text \<open>The session layer refines the engine: each of its steps is none or one of the engine's.\<close>

lemma session_sim:
  assumes "ses_step s s'" and c: "counts_inv s"
  shows "ss_engine s' = ss_engine s \<or> eng_step (ss_engine s) (ss_engine s')"
  using assms(1)
proof cases
  case (StartAcquire l cc d msg p)
  have "eng_step (ss_engine s) ((ss_engine s)\<lparr>es_used := es_used (ss_engine s) + 1, es_sessions := es_sessions (ss_engine s) + 1\<rparr>)"
    if "fst (try_sem (ss_engine s))"
    using eng_step.SessionTry [of "ss_engine s" True] that by (simp add: try_sem_def split: if_splits)
  then show ?thesis using start_acquire_cases [of msg p s] StartAcquire(1) by auto
next
  case StartAdd
  then obtain ref r where p: "ss_pending s = Some (ref, r)" by force
  from start_add_cases [OF StartAdd(2) p] show ?thesis
  proof
    assume dup: "mget (ss_table s) (rs_id r) \<noteq> None \<and> 0 < es_used (ss_engine s) \<and>
      s' = s\<lparr>ss_pending := None, ss_cancelled := ss_cancelled s @ [rs_no r],
        ss_engine := (ss_engine s)\<lparr>es_used := es_used (ss_engine s) - 1, es_sessions := es_sessions (ss_engine s) - 1\<rparr>,
        ss_acks := ss_acks s @ send_ack ref False ''duplicate session_id''\<rparr>"
    then show ?thesis using session_release_step [OF c] p by (simp add: session_lists)
  qed simp
next
  case (Input msg)
  then show ?thesis using handle_session_input_cases [of msg s] by auto
next
  case (Cancel msg)
  then show ?thesis using handle_session_cancel_cases [of msg s] by auto
next
  case (GiveBack r s1)
  from give_back_Some [OF GiveBack(3)] have "0 < es_used (ss_engine s)" "ss_engine s' = (ss_engine s)\<lparr>es_used := es_used (ss_engine s) - 1,
      es_sessions := es_sessions (ss_engine s) - 1\<rparr>" by (simp_all add: GiveBack(1))
  moreover have "all_sessions s \<noteq> []" using GiveBack(2) by (auto simp: session_lists)
  ultimately show ?thesis using session_release_step [OF c] by simp
next
  case (Other s1)
  from give_back_Some [OF Other(3)] have "0 < es_used (ss_engine s)" "ss_engine s' = (ss_engine s)\<lparr>es_used := es_used (ss_engine s) - 1,
      es_sessions := es_sessions (ss_engine s) - 1\<rparr>" by (simp_all add: Other(1))
  then show ?thesis using session_release_step [OF c] Other(2) by simp
qed (auto simp: cancel_sessions_eq)

lemma length_remove1_in: "x \<in> set xs \<Longrightarrow> Suc (length (remove1 x xs)) = length xs"
  by (induction xs) auto

lemma counts_inv_step:
  assumes "ses_step s s'" and c: "counts_inv s"
  shows "counts_inv s'"
  using assms(1)
proof cases
  case (StartAcquire l cc d msg p)
  with c start_acquire_cases [of msg p s] show ?thesis by (auto simp: counts_inv_def session_lists)
next
  case StartAdd
  then obtain ref r where p: "ss_pending s = Some (ref, r)" by force
  from start_add_cases [OF StartAdd(2) p] p c show ?thesis by (auto simp: counts_inv_def session_lists)
next
  case (Input msg)
  with c show ?thesis using handle_session_input_cases [of msg s] by (auto simp: counts_inv_def session_lists)
next
  case (Cancel msg)
  with c show ?thesis using handle_session_cancel_cases [of msg s] by (auto simp: counts_inv_def session_lists)
next
  case (Leave r)
  with c length_remove1_in [OF Leave(2)] show ?thesis by (auto simp: counts_inv_def session_lists)
next
  case (GiveBack r s1)
  from give_back_Some [OF GiveBack(3)] have s1: "ss_engine s1 = (ss_engine s)\<lparr>es_used := es_used (ss_engine s) - 1,
      es_sessions := es_sessions (ss_engine s) - 1\<rparr>" "ss_others s1 = ss_others s" "ss_leaving s1 = ss_leaving s"
      "ss_running s1 = ss_running s" "ss_pending s1 = ss_pending s" by simp_all
  show ?thesis using c length_remove1_in [OF GiveBack(2)] by (auto simp: GiveBack(1) s1 counts_inv_def session_lists)
next
  case (Other s1)
  with give_back_Some [OF Other(3)] c show ?thesis by (auto simp: counts_inv_def session_lists)
qed (use c in \<open>auto simp: counts_inv_def session_lists cancel_sessions_eq\<close>)

lemma distinct_move:
  "distinct (map f (a @ xs @ ys)) \<Longrightarrow> x \<in> set xs \<Longrightarrow> distinct (map f (a @ remove1 x xs @ ys @ [x]))"
proof -
  assume d: "distinct (map f (a @ xs @ ys))" and x: "x \<in> set xs"
  have "mset (a @ remove1 x xs @ ys @ [x]) = mset (a @ xs @ ys)" using x by simp
  then have "mset (map f (a @ remove1 x xs @ ys @ [x])) = mset (map f (a @ xs @ ys))" by (metis mset_map)
  with d show ?thesis using mset_eq_imp_distinct_iff by blast
qed

lemma distinct_drop1: "distinct (map f (a @ xs)) \<Longrightarrow> distinct (map f (a @ remove1 x xs))"
  by (auto simp: distinct_map inj_on_def distinct_remove1 dest: notin_set_remove1 set_remove1_subset [THEN subsetD])

lemma numbers_inv_frame:
  "numbers_inv s \<Longrightarrow> all_sessions s' = all_sessions s \<Longrightarrow> ss_next s' = ss_next s \<Longrightarrow>
   \<forall>i \<in> set (ss_cancelled s'). i \<in> set (ss_cancelled s) \<or> i < ss_next s \<Longrightarrow> numbers_inv s'"
  by (auto simp: numbers_inv_def)

lemma numbers_inv_step:
  assumes "ses_step s s'" and n: "numbers_inv s" and t: "sessions_inv s"
  shows "numbers_inv s'"
  using assms(1)
proof cases
  case (StartAcquire l cc d msg p)
  from start_acquire_cases [of msg p s] show ?thesis
  proof
    assume a: "fst (try_sem (ss_engine s)) \<and> start_acquire msg p s =
        s\<lparr>ss_engine := (ss_engine s)\<lparr>es_used := es_used (ss_engine s) + 1, es_sessions := es_sessions (ss_engine s) + 1\<rparr>,
          ss_pending := Some (wm_id msg, session_of (ss_next s) p), ss_next := ss_next s + 1,
          ss_inputs := (ss_inputs s)(ss_next s := [])\<rparr>"
    have "\<forall>r \<in> set (all_sessions s). rs_no r < ss_next s" using n by (simp add: numbers_inv_def)
    then have "ss_next s \<notin> rs_no ` set (ss_running s @ ss_leaving s)"
      using StartAcquire by (auto simp: session_lists)
    with a n StartAcquire show ?thesis by (auto simp: numbers_inv_def session_lists less_Suc_eq)
  qed (use n StartAcquire in \<open>auto simp: numbers_inv_def session_lists\<close>)
next
  case StartAdd
  then obtain ref r where p: "ss_pending s = Some (ref, r)" by force
  from start_add_frame [OF StartAdd(2) p] have f: "ss_pending s' = None" "ss_next s' = ss_next s" "ss_leaving s' = ss_leaving s"
      "set (ss_cancelled s') \<subseteq> insert (rs_no r) (set (ss_cancelled s))"
      "ss_running s' = ss_running s \<or> ss_running s' = ss_running s @ [r]" by auto
  from f(5) show ?thesis using n f(1-4) by (elim disjE) (auto simp: numbers_inv_def session_lists p)
next
  case (Input msg)
  then show ?thesis
    using handle_session_input_cases [of msg s] by (intro numbers_inv_frame [OF n]) (auto simp: session_lists)
next
  case (Cancel msg)
  have "rs_no r < ss_next s" if "mget (ss_table s) k = Some r" for k r
    using t n that by (auto simp: sessions_inv_def numbers_inv_def session_lists)
  with Cancel show ?thesis using handle_session_cancel_cases [of msg s]
    by (intro numbers_inv_frame [OF n]) (auto simp: session_lists split: option.splits)
next
  case Disconnect
  have "rs_no r < ss_next s" if "(k, r) \<in> set (ss_table s)" for k r
    using t n that by (auto simp: sessions_inv_def numbers_inv_def session_lists mget_in_iff)
  then show ?thesis
    by (intro numbers_inv_frame [OF n]) (auto simp: Disconnect(1) cancel_sessions_eq session_lists)
next
  case (Leave r)
  have "\<forall>k x. mget (ss_table s) k = Some x \<longrightarrow> rs_no x < ss_next s"
    using t n by (auto simp: sessions_inv_def numbers_inv_def session_lists)
  then have cs: "\<forall>i \<in> set (ss_cancelled s'). i < ss_next s"
    using n by (auto simp: Leave(1) numbers_inv_def split: option.splits)
  have d: "distinct (map rs_no (pending_sessions s @ remove1 r (ss_running s) @ ss_leaving s @ [r]))"
    using n Leave(2) by (intro distinct_move) (simp_all add: numbers_inv_def all_sessions_def)
  have a: "all_sessions s' = pending_sessions s @ remove1 r (ss_running s) @ ss_leaving s @ [r]"
    by (simp add: Leave(1) session_lists)
  have "set (all_sessions s') \<subseteq> set (all_sessions s)"
    unfolding a using Leave(2) set_remove1_subset [of r "ss_running s"] by (auto simp: all_sessions_def)
  then have "\<forall>x \<in> set (all_sessions s'). rs_no x < ss_next s" using n by (auto simp: numbers_inv_def)
  with cs d a show ?thesis by (simp add: numbers_inv_def Leave(1))
next
  case (GiveBack r s1)
  have "distinct (map rs_no ((pending_sessions s @ ss_running s) @ remove1 r (ss_leaving s)))"
    using n by (intro distinct_drop1) (simp add: numbers_inv_def all_sessions_def)
  with give_back_Some [OF GiveBack(3)] n set_remove1_subset [of r "ss_leaving s"] show ?thesis
    by (auto simp: GiveBack(1) numbers_inv_def session_lists)
next
  case (Other s1)
  with give_back_Some [OF Other(3)] show ?thesis by (intro numbers_inv_frame [OF n]) (auto simp: session_lists)
qed (intro numbers_inv_frame [OF n]; auto simp: session_lists)+

lemma sessions_inv_frame:
  "sessions_inv s \<Longrightarrow> ss_table s' = ss_table s \<Longrightarrow> set (ss_running s) \<subseteq> set (ss_running s') \<Longrightarrow>
   \<forall>i. length (ss_inputs s' i) \<le> 8 \<Longrightarrow> sessions_inv s'"
  by (auto simp: sessions_inv_def)

lemma sessions_inv_inputs: "sessions_inv s \<Longrightarrow> length (ss_inputs s i) \<le> 8"
  by (simp add: sessions_inv_def)

lemma sessions_inv_step:
  assumes "ses_step s s'" and t: "sessions_inv s"
  shows "sessions_inv s'"
  using assms(1)
proof cases
  case (StartAcquire l cc d msg p)
  with start_acquire_cases [of msg p s] show ?thesis
    using sessions_inv_inputs [OF t] by (intro sessions_inv_frame [OF t]) auto
next
  case StartAdd
  then obtain ref r where p: "ss_pending s = Some (ref, r)" by force
  from start_add_cases [OF StartAdd(2) p] t show ?thesis by (auto simp: sessions_inv_def split: if_splits)
next
  case (Input msg)
  then show ?thesis
    using handle_session_input_cases [of msg s] sessions_inv_inputs [OF t] by (intro sessions_inv_frame [OF t]) auto
next
  case (Cancel msg)
  with t show ?thesis using handle_session_cancel_cases [of msg s] by (auto simp: sessions_inv_def split: if_splits)
next
  case Disconnect
  with t show ?thesis by (simp add: cancel_sessions_eq sessions_inv_def)
next
  case (Consume r m ms)
  have "length ms \<le> 8" using sessions_inv_inputs [OF t, of "rs_no r"] Consume(3) by simp
  with Consume show ?thesis
    using sessions_inv_inputs [OF t] by (intro sessions_inv_frame [OF t]) auto
next
  case (Leave r)
  with t show ?thesis by (auto simp: sessions_inv_def) (metis in_set_remove1)
next
  case (GiveBack r s1)
  with give_back_Some [OF GiveBack(3)] show ?thesis
    using sessions_inv_inputs [OF t] by (intro sessions_inv_frame [OF t]) auto
next
  case (Other s1)
  with give_back_Some [OF Other(3)] show ?thesis
    using sessions_inv_inputs [OF t] by (intro sessions_inv_frame [OF t]) auto
qed (intro sessions_inv_frame [OF t]; use sessions_inv_inputs [OF t] in auto)+

text \<open>A connection starts in any state the engine can be in.\<close>

definition ses_reach :: "ai_config \<Rightarrow> dstate \<Rightarrow> session_state \<Rightarrow> bool" where
  "ses_reach cfg d s \<longleftrightarrow> (\<exists>e. eng_reach cfg d e \<and> ses_step\<^sup>*\<^sup>* (new_session_state e) s)"

lemma new_session_inv:
  "counts_inv (new_session_state e) \<and> numbers_inv (new_session_state e) \<and> sessions_inv (new_session_state e)"
  by (simp add: new_session_state_def counts_inv_def numbers_inv_def sessions_inv_def session_lists)

lemma ses_steps_inv:
  assumes "ses_step\<^sup>*\<^sup>* s0 s" and "counts_inv s0 \<and> numbers_inv s0 \<and> sessions_inv s0"
  shows "counts_inv s \<and> numbers_inv s \<and> sessions_inv s \<and> eng_step\<^sup>*\<^sup>* (ss_engine s0) (ss_engine s)"
  using assms(1)
proof (induction rule: rtranclp_induct)
  case base
  with assms(2) show ?case by simp
next
  case (step s s')
  then show ?case
    using counts_inv_step numbers_inv_step sessions_inv_step session_sim [OF step(2)]
    by (metis rtranclp.rtrancl_into_rtrancl)
qed

lemma ses_reach_inv:
  "ses_reach cfg d s \<Longrightarrow> counts_inv s \<and> numbers_inv s \<and> sessions_inv s \<and> eng_reach cfg d (ss_engine s)"
  using ses_steps_inv [OF _ new_session_inv] unfolding ses_reach_def
  by (metis new_session_state_def rtranclp_trans session_state.select_convs(1))

text \<open>
  C9. The sessions of a connection are a refinement of the engine's concurrency: whatever the
  interleaving of messages, goroutines and diagnoses, the engine is in one of its own reachable
  states, every session holds exactly one slot from its start until it has removed itself, so that
  running diagnoses and sessions together never exceed \<open>MaxConcurrentDiagnoses\<close>; a session can
  always give its slot back; every entry of the table is a running session with that identifier;
  and no session has more than eight inputs waiting.
\<close>

theorem session_slots:
  assumes "ses_reach cfg d s"
  shows "eng_reach cfg d (ss_engine s)
    \<and> es_used (ss_engine s) = length (filter run_slot (es_runs (ss_engine s))) + ss_others s + length (all_sessions s)
    \<and> es_used (ss_engine s) \<le> nat (ac_max_concurrent cfg)
    \<and> (all_sessions s \<noteq> [] \<longrightarrow> give_back s \<noteq> None)
    \<and> (\<forall>k r. mget (ss_table s) k = Some r \<longrightarrow> r \<in> set (ss_running s) \<and> rs_id r = k)
    \<and> (\<forall>i. length (ss_inputs s i) \<le> 8)"
proof -
  note inv = ses_reach_inv [OF assms]
  have e: "slots_inv (ss_engine s)" "es_cap (ss_engine s) = nat (ac_max_concurrent cfg)"
    using inv eng_inv_reach by blast+
  have "all_sessions s \<noteq> [] \<Longrightarrow> 0 < es_used (ss_engine s)"
    using inv e by (auto simp: counts_inv_def slots_inv_def)
  then have "all_sessions s \<noteq> [] \<longrightarrow> give_back s \<noteq> None"
    using sem.release_some [of "ss_engine s"] by (auto simp: give_back_def)
  then show ?thesis using inv e by (simp add: counts_inv_def slots_inv_def sessions_inv_def)
qed

section \<open>Identifiers in use\<close>

text \<open>No identifier is started while a session with it still runs.\<close>

definition fresh_ids :: "session_state \<Rightarrow> bool" where
  "fresh_ids s \<longleftrightarrow> distinct (map rs_id (pending_sessions s @ ss_running s))"

definition ses_step_fresh :: "session_state \<Rightarrow> session_state \<Rightarrow> bool" where
  "ses_step_fresh s s' \<longleftrightarrow> ses_step s s' \<and> fresh_ids s'"

definition reachable_by_id :: "session_state \<Rightarrow> bool" where
  "reachable_by_id s \<longleftrightarrow>
     (\<forall>r \<in> set (ss_running s). rs_no r \<in> set (ss_cancelled s) \<or> mget (ss_table s) (rs_id r) = Some r)"

lemma fresh_ids_unique:
  "fresh_ids s \<Longrightarrow> r \<in> set (ss_running s) \<Longrightarrow> x \<in> set (ss_running s) \<Longrightarrow> rs_id x = rs_id r \<Longrightarrow> x = r"
  by (auto simp: fresh_ids_def distinct_map inj_on_def)

lemma reachable_by_id_frame:
  "reachable_by_id s \<Longrightarrow> ss_table s' = ss_table s \<Longrightarrow> ss_running s' = ss_running s \<Longrightarrow>
   set (ss_cancelled s) \<subseteq> set (ss_cancelled s') \<Longrightarrow> reachable_by_id s'"
  by (auto simp: reachable_by_id_def)

lemma reachable_by_id_step:
  assumes "ses_step s s'" and r: "reachable_by_id s" and f: "fresh_ids s" and t: "sessions_inv s"
  shows "reachable_by_id s'"
  using assms(1)
proof cases
  case (StartAcquire l cc d msg p)
  with start_acquire_cases [of msg p s] show ?thesis by (intro reachable_by_id_frame [OF r]) auto
next
  case StartAdd
  then obtain ref x where p: "ss_pending s = Some (ref, x)" by force
  have "rs_id y \<noteq> rs_id x" if "y \<in> set (ss_running s)" for y
  proof -
    have "rs_id x \<notin> rs_id ` set (ss_running s)" using f p by (simp add: fresh_ids_def pending_sessions_def)
    then show ?thesis using that by (metis image_eqI)
  qed
  with start_add_cases [OF StartAdd(2) p] r show ?thesis by (elim disjE) (auto simp: reachable_by_id_def)
next
  case (Input msg)
  then show ?thesis
    using handle_session_input_cases [of msg s] by (intro reachable_by_id_frame [OF r]) auto
next
  case (Cancel msg)
  from handle_session_cancel_cases [of msg s] show ?thesis
  proof
    assume "\<exists>sid. handle_session_cancel msg s = remove_session sid s"
    then obtain sid where e: "s' = remove_session sid s" using Cancel by auto
    show ?thesis using r by (auto simp: e reachable_by_id_def split: option.splits)
  qed (use r Cancel in simp)
next
  case Disconnect
  have "rs_no x \<in> set (ss_cancelled s')" if "x \<in> set (ss_running s)" for x
  proof -
    have "rs_no x \<in> set (ss_cancelled s) \<or> (rs_id x, x) \<in> set (ss_table s)"
      using r that by (auto simp: reachable_by_id_def dest: mget_Some_in)
    then show ?thesis by (force simp: Disconnect(1) cancel_sessions_eq)
  qed
  then show ?thesis by (auto simp: Disconnect(1) cancel_sessions_eq reachable_by_id_def)
next
  case (Leave x)
  have "rs_id y \<noteq> rs_id x" if "y \<in> set (remove1 x (ss_running s))" for y
  proof
    assume "rs_id y = rs_id x"
    moreover have "y \<in> set (ss_running s)" using that set_remove1_subset by fast
    ultimately have "y = x" using fresh_ids_unique [OF f Leave(2)] by blast
    moreover have "distinct (ss_running s)" using f by (auto simp: fresh_ids_def distinct_map)
    ultimately show False using that by simp
  qed
  with r show ?thesis
    using set_remove1_subset [of x "ss_running s"] by (fastforce simp: Leave(1) reachable_by_id_def)
next
  case (GiveBack x s1)
  with give_back_Some [OF GiveBack(3)] show ?thesis by (intro reachable_by_id_frame [OF r]) auto
next
  case (Other s1)
  with give_back_Some [OF Other(3)] show ?thesis by (intro reachable_by_id_frame [OF r]) auto
qed (intro reachable_by_id_frame [OF r]; auto)+

lemma fresh_steps:
  assumes "ses_step_fresh\<^sup>*\<^sup>* (new_session_state e) s"
  shows "ses_step\<^sup>*\<^sup>* (new_session_state e) s \<and> reachable_by_id s \<and> fresh_ids s"
  using assms
proof (induction rule: rtranclp_induct)
  case base
  show ?case by (simp add: new_session_state_def reachable_by_id_def fresh_ids_def pending_sessions_def)
next
  case (step s s')
  then have "sessions_inv s" using ses_steps_inv [OF _ new_session_inv] by blast
  with step reachable_by_id_step [of s s'] show ?case
    by (auto simp: ses_step_fresh_def intro: rtranclp.rtrancl_into_rtrancl)
qed

text \<open>
  C39. As long as the server starts no identifier whose previous session still runs, every running
  session is either cancelled already or found under its identifier, so a cancel message reaches
  it; and a session that ends cancels no other one.
\<close>

theorem session_isolation:
  assumes "ses_step_fresh\<^sup>*\<^sup>* (new_session_state e) s" and "r \<in> set (ss_running s)"
  shows "(rs_no r \<in> set (ss_cancelled s) \<or> mget (ss_table s) (rs_id r) = Some r)
    \<and> rs_no r \<in> set (ss_cancelled (remove_session (rs_id r) s))
    \<and> (\<forall>x \<in> set (ss_running s). rs_no x \<in> set (ss_cancelled (remove_session (rs_id r) s)) \<longrightarrow>
         x = r \<or> rs_no x \<in> set (ss_cancelled s))"
proof -
  note inv = fresh_steps [OF assms(1)]
  have t: "sessions_inv s" "numbers_inv s" using inv ses_steps_inv [OF _ new_session_inv] by blast+
  have no: "rs_no x = rs_no y \<Longrightarrow> x = y" if "x \<in> set (ss_running s)" "y \<in> set (ss_running s)" for x y
    using t(2) that by (auto simp: numbers_inv_def session_lists distinct_map inj_on_def)
  have "x = r" if "mget (ss_table s) (rs_id r) = Some y" "rs_no x = rs_no y" "x \<in> set (ss_running s)" for x y
  proof -
    have "y \<in> set (ss_running s)" "rs_id y = rs_id r" using t(1) that(1) by (auto simp: sessions_inv_def)
    with no [OF that(3), of y] that(2) fresh_ids_unique [of s r y] inv assms(2) show ?thesis by auto
  qed
  then have "\<forall>x \<in> set (ss_running s). \<forall>y. mget (ss_table s) (rs_id r) = Some y \<and> rs_no x = rs_no y \<longrightarrow> x = r"
    by blast
  with inv assms(2) show ?thesis
    by (cases "mget (ss_table s) (rs_id r)") (auto simp: reachable_by_id_def)
qed

section \<open>A reused identifier\<close>

definition start_msg :: ws_message where
  "start_msg = \<lparr>wm_type = typeSessionStart, wm_id = ''1'', wm_ref = '''',
     wm_payload = Some (JObj [(''session_id'', JStr ''s''), (''session_type'', JStr ''inspect'')])\<rparr>"

definition cancel_msg :: ws_message where
  "cancel_msg = \<lparr>wm_type = typeSessionCancel, wm_id = ''2'', wm_ref = '''',
     wm_payload = Some (JObj [(''session_id'', JStr ''s'')])\<rparr>"

lemma fold_session_members [simp]:
  "fold_name ''session_id'' = ''session_id''" "fold_name ''session_type'' = ''session_type''"
  by (simp_all add: fold_plain byte_def)

lemma start_msg_checks: "start_checks True True True start_msg = Inr (example_start ''inspect'')"
  by (simp add: start_checks_def start_msg_def decode_payload_def decode_session_start_def decode_struct_def
      str_field_def session_start_unavailable_def example_start_def)

lemma cancel_msg_handled: "handle_session_cancel cancel_msg s = remove_session ''s'' s"
  by (simp add: handle_session_cancel_def cancel_msg_def decode_payload_def decode_session_cancel_def
      decode_struct_def str_field_def)

definition example_engine_state :: "nat \<Rightarrow> engine_state" where
  "example_engine_state n =
     \<lparr>es_cap = 3, es_used = n, es_in_flight = [], es_stopped = False,
      es_dstate = new_diagnose_state (\<lambda>_. ''d'') 0, es_cancelled = [], es_runs = [], es_sessions = n,
      es_checked = [], es_next = 0\<rparr>"

text \<open>A session state by its table, its running sessions and the called cancel functions.\<close>

definition example_sessions ::
  "(string, remote_session) gomap \<Rightarrow> remote_session list \<Rightarrow> nat list \<Rightarrow> out_msg list \<Rightarrow> nat \<Rightarrow> session_state" where
  "example_sessions m rs cs acks n =
     \<lparr>ss_engine = example_engine_state (length rs), ss_table = m, ss_pending = None, ss_running = rs,
      ss_leaving = [], ss_cancelled = cs, ss_inputs = (\<lambda>_. []), ss_acks = acks, ss_next = n, ss_others = 0\<rparr>"

lemma example_session_start:
  assumes "length rs < 3" and "mget m ''s'' = None"
  shows "\<exists>s1. ses_step (example_sessions m rs cs acks n) s1
    \<and> ses_step s1 (example_sessions (mput ''s'' (example_session n ''inspect'') m) (rs @ [example_session n ''inspect'']) cs
         (acks @ send_ack ''1'' True '''') (n + 1))
    \<and> (pending_sessions s1 = [example_session n ''inspect''] \<and> ss_running s1 = rs)"
proof (intro exI conjI)
  let ?s = "example_sessions m rs cs acks n" and ?r = "example_session n ''inspect''"
  let ?s1 = "start_acquire start_msg (example_start ''inspect'') ?s"
  have r: "session_of n (example_start ''inspect'') = ?r"
    by (simp add: session_of_def example_start_def example_session_def)
  have s1: "?s1 = ?s\<lparr>ss_engine := example_engine_state (Suc (length rs)), ss_pending := Some (''1'', ?r), ss_next := n + 1\<rparr>"
    using assms(1) by (simp add: start_acquire_def example_sessions_def example_engine_state_def try_sem_def r start_msg_def
        fun_upd_idem)
  show "ses_step ?s ?s1"
    by (rule ses_step.StartAcquire [OF start_msg_checks]) (simp add: example_sessions_def)
  show "ses_step ?s1 (example_sessions (mput ''s'' ?r m) (rs @ [?r]) cs (acks @ send_ack ''1'' True '''') (n + 1))"
    unfolding s1 by (rule ses_step.StartAdd)
      (use assms(2) in \<open>simp_all add: start_add_def sm_add_def example_sessions_def example_session_def Let_def\<close>)
  show "pending_sessions ?s1 = [?r]" "ss_running ?s1 = rs"
    unfolding s1 by (simp_all add: pending_sessions_def example_sessions_def)
qed

lemma example_initial_session: "new_session_state (example_engine_state 0) = example_sessions [] [] [] [] 0"
  by (simp add: new_session_state_def example_sessions_def example_engine_state_def)

lemma example_engine_reach:
  "eng_reach (ai_apply_defaults (example_ai True 0)) (new_diagnose_state (\<lambda>_. ''d'') 0) (example_engine_state 0)"
proof -
  have "new_engine_state (ai_apply_defaults (example_ai True 0)) (new_diagnose_state (\<lambda>_. ''d'') 0) = example_engine_state 0"
    by (simp add: example_engine_state_def new_engine_state_def ai_apply_defaults_def example_ai_def)
  then show ?thesis by simp
qed

text \<open>
  A cancel message frees the identifier at once although the goroutine of its session still runs:
  when the server starts a new session under it, the end of the old goroutine removes and cancels
  the new one, which nobody asked for.
\<close>

theorem reused_identifier_cancelled:
  "\<exists>s s' r r'. ses_reach (ai_apply_defaults (example_ai True 0)) (new_diagnose_state (\<lambda>_. ''d'') 0) s
     \<and> ss_running s = [r, r'] \<and> rs_id r = rs_id r' \<and> rs_no r' \<notin> set (ss_cancelled s)
     \<and> mget (ss_table s) (rs_id r') = Some r'
     \<and> ses_step s s' \<and> ss_running s' = [r'] \<and> rs_no r' \<in> set (ss_cancelled s') \<and> mget (ss_table s') (rs_id r') = None"
proof -
  let ?r = "\<lambda>i. example_session i ''inspect''" and ?ack = "send_ack ''1'' True ''''"
  have id [simp]: "rs_id (?r i) = ''s''" "rs_no (?r i) = i" for i by (simp_all add: example_session_def)
  have m: "mput ''s'' (?r i) [] = [(''s'', ?r i)]" for i by (simp add: mput_def)
  obtain s1 where a: "ses_step (example_sessions [] [] [] [] 0) s1"
      "ses_step s1 (example_sessions [(''s'', ?r 0)] [?r 0] [] ?ack 1)"
    using example_session_start [of "[]" "[]" "[]" "[]" 0] by (auto simp: m)
  have b: "ses_step (example_sessions [(''s'', ?r 0)] [?r 0] [] ?ack 1) (example_sessions [] [?r 0] [0] ?ack 1)"
    using ses_step.Cancel [of "example_sessions [(''s'', ?r 0)] [?r 0] [] ?ack 1" cancel_msg]
    by (simp add: cancel_msg_handled example_sessions_def remove_session_def sm_remove_def mdel_def)
  let ?s = "example_sessions [(''s'', ?r 1)] [?r 0, ?r 1] [0] (?ack @ ?ack) 2"
  obtain s2 where c: "ses_step (example_sessions [] [?r 0] [0] ?ack 1) s2" "ses_step s2 ?s"
    using example_session_start [of "[?r 0]" "[]" "[0]" ?ack 1] by (auto simp: m numeral_2_eq_2)
  have "ses_step\<^sup>*\<^sup>* (example_sessions [] [] [] [] 0) ?s"
    using a b c by (meson converse_rtranclp_into_rtranclp rtranclp.rtrancl_refl)
  then have reach: "ses_reach (ai_apply_defaults (example_ai True 0)) (new_diagnose_state (\<lambda>_. ''d'') 0) ?s"
    unfolding ses_reach_def using example_engine_reach by (metis example_initial_session)
  let ?s' = "(remove_session ''s'' ?s)\<lparr>ss_running := remove1 (?r 0) (ss_running ?s), ss_leaving := ss_leaving ?s @ [?r 0]\<rparr>"
  have "ses_step ?s ?s'" using ses_step.Leave [of "?r 0" ?s] by (simp add: example_sessions_def)
  moreover have "ss_running ?s' = [?r 1]" "1 \<in> set (ss_cancelled ?s')" "mget (ss_table ?s') ''s'' = None"
    by (simp_all add: example_sessions_def)
  moreover have "ss_running ?s = [?r 0, ?r 1]" "rs_no (?r 1) \<notin> set (ss_cancelled ?s)" "mget (ss_table ?s) ''s'' = Some (?r 1)"
    by (simp_all add: example_sessions_def)
  ultimately show ?thesis using reach by (intro exI conjI) (assumption | simp)+
qed

theorem session_slots_witness:
  "\<exists>s. ses_reach (ai_apply_defaults (example_ai True 0)) (new_diagnose_state (\<lambda>_. ''d'') 0) s
     \<and> ss_running s \<noteq> [] \<and> give_back s \<noteq> None"
proof -
  obtain s where s: "ses_reach (ai_apply_defaults (example_ai True 0)) (new_diagnose_state (\<lambda>_. ''d'') 0) s" "ss_running s \<noteq> []"
    using reused_identifier_cancelled by (metis list.distinct(1))
  then have "all_sessions s \<noteq> []" by (simp add: all_sessions_def)
  with session_slots [OF s(1)] s show ?thesis by blast
qed

theorem session_isolation_witness:
  "\<exists>s r. ss_running s = [r] \<and> rs_no r \<in> set (ss_cancelled (remove_session (rs_id r) s))"
proof -
  let ?r = "example_session 0 ''inspect''"
  obtain s1 where a: "ses_step (example_sessions [] [] [] [] 0) s1"
      "ses_step s1 (example_sessions [(''s'', ?r)] [?r] [] (send_ack ''1'' True '''') 1)"
      "pending_sessions s1 = [?r]" "ss_running s1 = []"
    using example_session_start [of "[]" "[]" "[]" "[]" 0] by (auto simp: mput_def)
  have "fresh_ids s1" "fresh_ids (example_sessions [(''s'', ?r)] [?r] [] (send_ack ''1'' True '''') 1)"
    using a by (simp_all add: fresh_ids_def) (simp add: example_sessions_def pending_sessions_def)
  then have "ses_step_fresh\<^sup>*\<^sup>* (new_session_state (example_engine_state 0)) (example_sessions [(''s'', ?r)] [?r] [] (send_ack ''1'' True '''') 1)"
    using a unfolding example_initial_session
    by (meson converse_rtranclp_into_rtranclp rtranclp.rtrancl_refl ses_step_fresh_def)
  from session_isolation [OF this, of ?r] show ?thesis
    by (intro exI [of _ "example_sessions [(''s'', ?r)] [?r] [] (send_ack ''1'' True '''') 1"] exI [of _ ?r])
      (simp add: example_sessions_def)
qed

end
