(* ===== verification/RingBuffer.thy ===== *)
theory RingBuffer
  imports Prelude
begin

text \<open>
  The alert ring buffer (\<open>server/ringbuf.go\<close>): a fixed array of event pointers (\<open>None\<close> is
  nil) written at \<open>rb_head\<close>, of which the last \<open>rb_count\<close> are live.  Every method holds the
  mutex from its first to its last access, so each is one atomic step.  \<open>ring_items\<close> is the
  abstract queue; \<open>ring_ok\<close> also says that no slot outside the live window keeps a pointer.
  The locale \<open>bounded_fifo\<close> is what a client of the buffer may rely on.
\<close>

record 'p ring =
  rb_buf :: "'p option list"
  rb_cap :: nat
  rb_head :: nat
  rb_count :: nat

definition new_ring_buffer :: "int \<Rightarrow> 'p ring" where
  "new_ring_buffer capacity =
     (let c = (if capacity \<le> 0 then 1000 else nat capacity)
      in \<lparr>rb_buf = replicate c None, rb_cap = c, rb_head = 0, rb_count = 0\<rparr>)"

definition ring_push :: "'p option \<Rightarrow> 'p ring \<Rightarrow> 'p ring" where
  "ring_push e r =
     (let r1 = r\<lparr>rb_buf := (rb_buf r)[rb_head r := e]\<rparr>;
          r2 = r1\<lparr>rb_head := (rb_head r1 + 1) mod rb_cap r1\<rparr>
      in if rb_count r2 < rb_cap r2 then r2\<lparr>rb_count := rb_count r2 + 1\<rparr> else r2)"

definition ring_tail :: "'p ring \<Rightarrow> nat" where
  "ring_tail r = nat ((int (rb_head r) - int (rb_count r) + int (rb_cap r)) mod int (rb_cap r))"

fun drain_loop :: "nat \<Rightarrow> nat \<Rightarrow> nat \<Rightarrow> nat \<Rightarrow> 'p option list \<Rightarrow> 'p option list \<times> 'p option list" where
  "drain_loop 0 i tail cp bs = ([], bs)"
| "drain_loop (Suc k) i tail cp bs =
     (let idx = (tail + i) mod cp;
          rest = drain_loop k (Suc i) tail cp (bs[idx := None])
      in (bs ! idx # fst rest, snd rest))"

text \<open>\<open>Drain\<close>; \<open>None\<close> is the panic of \<open>make\<close> with a negative length.\<close>

definition ring_drain :: "int \<Rightarrow> 'p ring \<Rightarrow> ('p option list \<times> 'p ring) option" where
  "ring_drain max_items r =
     (if rb_count r = 0 then Some ([], r)
      else let n = (if int (rb_count r) > max_items then max_items else int (rb_count r))
        in if n < 0 then None
           else let d = drain_loop (nat n) 0 (ring_tail r) (rb_cap r) (rb_buf r)
             in Some (fst d, r\<lparr>rb_buf := snd d, rb_count := rb_count r - nat n\<rparr>))"

definition ring_len :: "'p ring \<Rightarrow> nat" where
  "ring_len r = rb_count r"

section \<open>Invariant and abstraction\<close>

definition ring_slot :: "'p ring \<Rightarrow> nat \<Rightarrow> nat" where
  "ring_slot r i = (ring_tail r + i) mod rb_cap r"

definition ring_ok :: "'p ring \<Rightarrow> bool" where
  "ring_ok r \<longleftrightarrow> 0 < rb_cap r \<and> length (rb_buf r) = rb_cap r \<and> rb_head r < rb_cap r
     \<and> rb_count r \<le> rb_cap r
     \<and> (\<forall>i \<in> {rb_count r..<rb_cap r}. rb_buf r ! ring_slot r i = None)"

definition ring_items :: "'p ring \<Rightarrow> 'p option list" where
  "ring_items r = map (\<lambda>i. rb_buf r ! ring_slot r i) [0..<rb_count r]"

lemma mod_shift_inj: "(a + i) mod c = (a + j) mod c \<Longrightarrow> i < c \<Longrightarrow> j < c \<Longrightarrow> i = (j::nat)"
proof (induction i j rule: linorder_wlog)
  case (le i j)
  then have "c dvd (a + j) - (a + i)" by (metis add_le_cancel_left mod_eq_dvd_iff_nat)
  then have "c dvd j - i" by simp
  with le show ?case by (metis diff_is_0_eq' dvd_imp_le le_neq_implies_less less_imp_diff_less not_le zero_less_diff)
qed simp

lemma ring_tail_nat:
  assumes "rb_count r \<le> rb_cap r"
  shows "ring_tail r = (rb_head r + rb_cap r - rb_count r) mod rb_cap r"
proof -
  from assms have "rb_count r \<le> rb_head r + rb_cap r" by simp
  then have "int (rb_head r) - int (rb_count r) + int (rb_cap r) = int (rb_head r + rb_cap r - rb_count r)"
    by simp
  then show ?thesis unfolding ring_tail_def by (simp only: flip: of_nat_mod)
qed

lemma ring_slot_less: "ring_ok r \<Longrightarrow> ring_slot r i < rb_cap r"
  by (simp add: ring_slot_def ring_ok_def)

lemma ring_slot_inj: "ring_slot r i = ring_slot r j \<Longrightarrow> i < rb_cap r \<Longrightarrow> j < rb_cap r \<Longrightarrow> i = j"
  unfolding ring_slot_def by (rule mod_shift_inj)

lemma ring_slot_surj:
  assumes "ring_ok r" "j < rb_cap r"
  shows "\<exists>i < rb_cap r. ring_slot r i = j"
proof -
  let ?S = "{..<rb_cap r}"
  have "inj_on (ring_slot r) ?S" by (rule inj_onI) (auto dest: ring_slot_inj)
  moreover have "ring_slot r ` ?S \<subseteq> ?S" using assms by (auto simp: ring_slot_less)
  ultimately have "ring_slot r ` ?S = ?S" by (intro card_subset_eq) (simp_all add: card_image)
  then have "j \<in> ring_slot r ` ?S" using assms(2) by simp
  then show ?thesis by auto
qed

lemma ring_slot_count: "ring_ok r \<Longrightarrow> ring_slot r (rb_count r) = rb_head r"
proof -
  assume ok: "ring_ok r"
  then have "rb_count r \<le> rb_cap r" "rb_head r < rb_cap r" by (simp_all add: ring_ok_def)
  then show ?thesis
    by (simp add: ring_slot_def ring_tail_nat mod_add_left_eq)
qed

lemma length_ring_items [simp]: "length (ring_items r) = rb_count r"
  by (simp add: ring_items_def)

lemma ring_items_nth: "i < rb_count r \<Longrightarrow> ring_items r ! i = rb_buf r ! ring_slot r i"
  by (simp add: ring_items_def)

lemma new_ring_ok: "ring_ok (new_ring_buffer c)"
  by (auto simp: ring_ok_def new_ring_buffer_def Let_def ring_slot_def)

lemma new_ring_items: "ring_items (new_ring_buffer c) = []"
  by (simp add: ring_items_def new_ring_buffer_def Let_def)


section \<open>Push\<close>

lemma ring_push_fields:
  "rb_cap (ring_push e r) = rb_cap r"
  "rb_buf (ring_push e r) = (rb_buf r)[rb_head r := e]"
  "rb_head (ring_push e r) = (rb_head r + 1) mod rb_cap r"
  "rb_count (ring_push e r) = (if rb_count r < rb_cap r then rb_count r + 1 else rb_count r)"
  by (simp_all add: ring_push_def Let_def)

lemma ring_push_slot:
  assumes ok: "ring_ok r"
  shows "ring_slot (ring_push e r) i
    = ring_slot r (if rb_count r < rb_cap r then i else i + 1)"
proof -
  let ?c = "rb_cap r" and ?n = "rb_count r" and ?h = "rb_head r"
  have b: "?n \<le> ?c" "?h < ?c" using ok by (simp_all add: ring_ok_def)
  have t: "ring_tail r = (?h + ?c - ?n) mod ?c" using b by (simp add: ring_tail_nat)
  have t': "ring_tail (ring_push e r) = ((?h + 1) mod ?c + ?c - rb_count (ring_push e r)) mod ?c"
    using b by (subst ring_tail_nat) (simp_all add: ring_push_fields)
  show ?thesis
  proof (cases "?n < ?c")
    case True
    have "((?h + 1) mod ?c + ?c - (?n + 1)) mod ?c = (?h + ?c - ?n) mod ?c"
    proof (cases "?h + 1 < ?c")
      case True
      with b show ?thesis by simp
    next
      case False
      with b have h: "?h + 1 = ?c" by simp
      then have e1: "?h + ?c - ?n = (?c - (?n + 1)) + ?c" using True by simp
      have e2: "(?h + 1) mod ?c = 0" using h by simp
      show ?thesis unfolding e1 e2 by simp
    qed
    with t t' True show ?thesis by (simp add: ring_slot_def ring_push_fields)
  next
    case False
    with b have n: "?n = ?c" by simp
    with t have "ring_tail r = ?h" using b by simp
    moreover from n t' have "ring_tail (ring_push e r) = (?h + 1) mod ?c"
      using b by (simp add: ring_push_fields)
    ultimately show ?thesis
      using False by (simp add: ring_slot_def ring_push_fields mod_add_left_eq mod_simps)
  qed
qed

lemma ring_slot_wrap: "ring_slot r (rb_cap r + i) = ring_slot r i"
  by (simp add: ring_slot_def add.left_commute)

lemma ring_push_nth:
  assumes ok: "ring_ok r" and i: "i < rb_cap r"
  shows "rb_buf (ring_push e r) ! ring_slot r i = (if ring_slot r i = rb_head r then e else rb_buf r ! ring_slot r i)"
  using ring_slot_less [OF ok, of i] ok by (auto simp: ring_push_fields ring_ok_def nth_list_update)

lemma ring_push_step:
  assumes ok: "ring_ok r"
  shows "ring_ok (ring_push e r)"
    and "ring_items (ring_push e r)
      = (if rb_count r < rb_cap r then ring_items r else tl (ring_items r)) @ [e]"
proof -
  let ?c = "rb_cap r" and ?n = "rb_count r" and ?r = "ring_push e r"
  have b: "0 < ?c" "?n \<le> ?c" "length (rb_buf r) = ?c" "rb_head r < ?c"
    using ok by (simp_all add: ring_ok_def)
  have head: "rb_head r = ring_slot r ?n" using ring_slot_count [OF ok] by simp
  have free: "\<And>i. ?n \<le> i \<Longrightarrow> i < ?c \<Longrightarrow> rb_buf r ! ring_slot r i = None"
    using ok by (simp add: ring_ok_def)
  have "ring_ok ?r \<and> ring_items ?r = (if ?n < ?c then ring_items r else tl (ring_items r)) @ [e]"
  proof (cases "?n < ?c")
    case True
    have hd: "\<And>i. i < ?c \<Longrightarrow> ring_slot r i = rb_head r \<longleftrightarrow> i = ?n"
      using head True by (auto dest: ring_slot_inj)
    have "ring_items ?r = ring_items r @ [e]"
    proof (rule nth_equalityI)
      show "length (ring_items ?r) = length (ring_items r @ [e])"
        using True by (simp add: ring_push_fields)
      fix i assume "i < length (ring_items ?r)"
      then have i: "i < ?n + 1" using True by (simp add: ring_push_fields)
      then show "ring_items ?r ! i = (ring_items r @ [e]) ! i"
        using True hd [of i] ring_push_nth [OF ok, of i e]
        by (simp add: ring_items_nth ring_push_fields(4) ring_push_slot [OF ok] nth_append)
    qed
    moreover have "ring_ok ?r"
      unfolding ring_ok_def
      using b True free hd ring_push_nth [OF ok, of _ e]
      by (simp add: ring_push_slot [OF ok]) (simp add: ring_push_fields)
    ultimately show ?thesis using True by simp
  next
    case False
    with b have n: "?n = ?c" by simp
    have hd: "\<And>i. i < ?c \<Longrightarrow> ring_slot r i = rb_head r \<longleftrightarrow> i = 0"
      using head n b ring_slot_wrap [of r 0] by (auto dest: ring_slot_inj)
    have "ring_items ?r = tl (ring_items r) @ [e]"
    proof (rule nth_equalityI)
      show "length (ring_items ?r) = length (tl (ring_items r) @ [e])"
        using n b by (simp add: ring_push_fields)
      fix i assume "i < length (ring_items ?r)"
      then have i: "i < ?c" using n by (simp add: ring_push_fields)
      show "ring_items ?r ! i = (tl (ring_items r) @ [e]) ! i"
      proof (cases "i + 1 < ?c")
        case True
        then have "i < ?n - 1" using n by simp
        with True hd [of "i + 1"] n i ring_push_nth [OF ok, of "i + 1" e] show ?thesis
          by (simp add: ring_items_nth ring_push_fields(4) ring_push_slot [OF ok] nth_append nth_tl)
      next
        case False
        with i have i1: "i + 1 = ?c" by simp
        then have "ring_slot r (i + 1) = ring_slot r 0" using ring_slot_wrap [of r 0] by simp
        moreover have "i = ?n - 1" using i1 n by simp
        ultimately show ?thesis
          using hd [of 0] i1 n i b ring_push_nth [OF ok, of 0 e]
          by (simp add: ring_items_nth ring_push_fields(4) ring_push_slot [OF ok] nth_append)
      qed
    qed
    moreover have "ring_ok ?r"
      using b n by (simp add: ring_ok_def ring_push_fields)
    ultimately show ?thesis using False by simp
  qed
  then show "ring_ok ?r"
    and "ring_items ?r = (if ?n < ?c then ring_items r else tl (ring_items r)) @ [e]" by auto
qed

section \<open>Drain\<close>

lemma drain_loop_fst:
  "i + k \<le> cp \<Longrightarrow> length bs = cp \<Longrightarrow>
   fst (drain_loop k i tail cp bs) = map (\<lambda>j. bs ! ((tail + j) mod cp)) [i..<i + k]"
proof (induction k arbitrary: i bs)
  case 0
  then show ?case by simp
next
  case (Suc k)
  have "\<And>j. Suc i \<le> j \<Longrightarrow> j < cp \<Longrightarrow> (tail + i) mod cp \<noteq> (tail + j) mod cp"
    using Suc.prems(1) by (metis Suc_n_not_le_n le_trans less_or_eq_imp_le linorder_not_less mod_shift_inj)
  with Suc show ?case
    by (auto simp: Let_def upt_rec [of i] nth_list_update)
qed

lemma drain_loop_snd:
  "length bs = cp \<Longrightarrow> m < cp \<Longrightarrow>
   snd (drain_loop k i tail cp bs) ! m
     = (if m \<in> (\<lambda>j. (tail + j) mod cp) ` {i..<i + k} then None else bs ! m)"
proof (induction k arbitrary: i bs)
  case 0
  then show ?case by simp
next
  case (Suc k)
  have "{i..<i + Suc k} = insert i {Suc i..<Suc i + k}" by auto
  with Suc show ?case by (simp add: Let_def nth_list_update)
qed

lemma drain_loop_length [simp]: "length (snd (drain_loop k i tail cp bs)) = length bs"
  by (induction k arbitrary: i bs) (auto simp: Let_def)


lemma ring_drain_step:
  assumes ok: "ring_ok r"
  shows "\<exists>r'. ring_drain (int n) r = Some (take n (ring_items r), r') \<and> ring_ok r'
    \<and> ring_items r' = drop n (ring_items r) \<and> rb_cap r' = rb_cap r"
proof (cases "rb_count r = 0")
  case True
  then have "ring_items r = []" by (simp add: ring_items_def)
  with True ok show ?thesis by (simp add: ring_drain_def)
next
  case False
  let ?c = "rb_cap r" and ?k = "rb_count r" and ?t = "ring_tail r"
  define m where "m = min n ?k"
  define r' where "r' = r\<lparr>rb_buf := snd (drain_loop m 0 ?t ?c (rb_buf r)), rb_count := ?k - m\<rparr>"
  have b: "0 < ?c" "?k \<le> ?c" "length (rb_buf r) = ?c" "rb_head r < ?c" "m \<le> ?k"
    using ok by (simp_all add: ring_ok_def m_def)
  have free: "\<And>i. ?k \<le> i \<Longrightarrow> i < ?c \<Longrightarrow> rb_buf r ! ring_slot r i = None"
    using ok by (simp add: ring_ok_def)
  have "take n (ring_items r) = take m (ring_items r)"
    by (simp add: m_def min_def)
  also have "\<dots> = map (\<lambda>i. rb_buf r ! ring_slot r i) [0..<m]"
    using b(5) by (simp add: ring_items_def take_map)
  finally have fst: "fst (drain_loop m 0 ?t ?c (rb_buf r)) = take n (ring_items r)"
    using b by (simp add: drain_loop_fst ring_slot_def)
  have slot: "ring_slot r' i = ring_slot r (m + i)" for i
  proof -
    have "ring_tail r' = (rb_head r + ?c - (?k - m)) mod ?c"
      using b by (subst ring_tail_nat) (simp_all add: r'_def)
    also have "rb_head r + ?c - (?k - m) = (rb_head r + ?c - ?k) + m" using b by simp
    finally show ?thesis
      using b by (simp add: ring_slot_def ring_tail_nat r'_def mod_simps add.assoc)
  qed
  have nth: "rb_buf r' ! ring_slot r i = (if i < m then None else rb_buf r ! ring_slot r i)" if "i < ?c" for i
  proof -
    have "ring_slot r i \<in> (\<lambda>j. (?t + j) mod ?c) ` {0..<0 + m} \<longleftrightarrow> i < m"
      using that b mod_shift_inj [of ?t i ?c] by (auto simp: ring_slot_def)
    then show ?thesis
      using ring_slot_less [OF ok, of i] b by (simp add: r'_def drain_loop_snd)
  qed
  have items: "ring_items r' = drop n (ring_items r)"
  proof (rule nth_equalityI)
    show "length (ring_items r') = length (drop n (ring_items r))" by (simp add: r'_def m_def)
    fix i assume "i < length (ring_items r')"
    then have "i < ?k - m" by (simp add: r'_def)
    moreover from this have "m = n" by (simp add: m_def)
    ultimately show "ring_items r' ! i = drop n (ring_items r) ! i"
      using b nth [of "m + i"] slot [of i] by (simp add: ring_items_nth r'_def)
  qed
  have "rb_buf r' ! ring_slot r' i = None" if "?k - m \<le> i" "i < ?c" for i
  proof (cases "m + i < ?c")
    case True
    with that nth [of "m + i"] free [of "m + i"] slot [of i] show ?thesis by simp
  next
    case False
    then have "ring_slot r (m + i) = ring_slot r (m + i - ?c)"
      using ring_slot_wrap [of r "m + i - ?c"] by simp
    moreover have "m + i - ?c < m" "m + i - ?c < ?c" using that b False by simp_all
    ultimately show ?thesis using nth [of "m + i - ?c"] slot [of i] by simp
  qed
  then have "ring_ok r'" using b by (simp add: ring_ok_def r'_def)
  moreover have "ring_drain (int n) r = Some (take n (ring_items r), r')"
    using False fst by (cases "n < rb_count r") (simp_all add: ring_drain_def Let_def r'_def m_def)
  ultimately show ?thesis using items by (auto simp: r'_def)
qed

section \<open>The interface\<close>

locale bounded_fifo =
  fixes push :: "'e \<Rightarrow> 'q \<Rightarrow> 'q"
    and drain :: "nat \<Rightarrow> 'q \<Rightarrow> ('e list \<times> 'q) option"
    and items :: "'q \<Rightarrow> 'e list"
    and capacity :: "'q \<Rightarrow> nat"
    and ok :: "'q \<Rightarrow> bool"
  assumes push_ok: "ok q \<Longrightarrow> ok (push e q)"
    and push_items: "ok q \<Longrightarrow>
      items (push e q) = (if length (items q) < capacity q then items q else tl (items q)) @ [e]"
    and push_capacity: "ok q \<Longrightarrow> capacity (push e q) = capacity q"
    and items_bound: "ok q \<Longrightarrow> length (items q) \<le> capacity q"
    and capacity_pos: "ok q \<Longrightarrow> 0 < capacity q"
    and drain_step: "ok q \<Longrightarrow> \<exists>q'. drain n q = Some (take n (items q), q') \<and> ok q'
      \<and> items q' = drop n (items q) \<and> capacity q' = capacity q"
begin

lemma push_drop:
  "ok q \<Longrightarrow> items (push e q) = drop (length (items q @ [e]) - capacity q) (items q @ [e])"
  using items_bound [of q] capacity_pos [of q]
  by (cases "items q") (auto simp: push_items not_less le_Suc_eq)

lemma push_all:
  "ok q \<Longrightarrow> ok (fold push es q) \<and> capacity (fold push es q) = capacity q
    \<and> items (fold push es q) = drop (length (items q @ es) - capacity q) (items q @ es)"
proof (induction es arbitrary: q)
  case Nil
  then show ?case using items_bound [of q] by simp
next
  case (Cons e es)
  then have ok: "ok (push e q)" and cap: "capacity (push e q) = capacity q"
    by (simp_all add: push_ok push_capacity)
  let ?a = "length (items q) + 1 - capacity q"
  have a: "items (push e q) = drop ?a (items q @ [e])" "?a \<le> length (items q @ [e])"
    using push_drop [OF Cons.prems, of e] capacity_pos [OF Cons.prems] by simp_all
  have X: "items (push e q) @ es = drop ?a (items q @ e # es)"
    using a capacity_pos [OF Cons.prems] by simp
  have "length (items (push e q) @ es) - capacity q + ?a = length (items q @ e # es) - capacity q"
    unfolding X using items_bound [OF Cons.prems] capacity_pos [OF Cons.prems] by simp
  then have "drop (length (items (push e q) @ es) - capacity q) (items (push e q) @ es)
      = drop (length (items q @ e # es) - capacity q) (items q @ e # es)"
    unfolding X drop_drop by simp
  with Cons.IH [OF ok] cap show ?case by simp
qed

lemma drain_fst: "ok q \<Longrightarrow> drain n q = Some (xs, q') \<Longrightarrow> xs = take n (items q)"
  using drain_step [of q n] by auto

lemma drain_next: "ok q \<Longrightarrow> drain n q = Some (xs, q') \<Longrightarrow> ok q' \<and> items q' = drop n (items q) \<and> capacity q' = capacity q"
  using drain_step [of q n] by auto

lemma drain_no_loss: "ok q \<Longrightarrow> drain n q = Some (xs, q') \<Longrightarrow> xs @ items q' = items q"
  using drain_step [of q n] by auto

lemma drain_progress:
  "ok q \<Longrightarrow> 0 < n \<Longrightarrow> items q \<noteq> [] \<Longrightarrow> drain n q = Some (xs, q') \<Longrightarrow> length (items q') < length (items q)"
  using drain_next [of q n xs q'] by (cases "items q") auto

end

definition ring_drain_nat :: "nat \<Rightarrow> 'p ring \<Rightarrow> ('p option list \<times> 'p ring) option" where
  "ring_drain_nat n r = ring_drain (int n) r"

interpretation ring_fifo: bounded_fifo ring_push ring_drain_nat ring_items rb_cap ring_ok
proof unfold_locales
  show "ring_ok r \<Longrightarrow> ring_ok (ring_push e r)" for r :: "'a ring" and e
    by (rule ring_push_step(1))
  show "ring_ok r \<Longrightarrow> ring_items (ring_push e r)
      = (if length (ring_items r) < rb_cap r then ring_items r else tl (ring_items r)) @ [e]" for r :: "'a ring" and e
    by (simp add: ring_push_step(2))
  show "ring_ok r \<Longrightarrow> rb_cap (ring_push e r) = rb_cap r" for r :: "'a ring" and e
    by (simp add: ring_push_fields)
  show "ring_ok r \<Longrightarrow> length (ring_items r) \<le> rb_cap r" for r :: "'a ring"
    by (simp add: ring_ok_def)
  show "ring_ok r \<Longrightarrow> 0 < rb_cap r" for r :: "'a ring"
    by (simp add: ring_ok_def)
  show "ring_ok r \<Longrightarrow> \<exists>r'. ring_drain_nat n r = Some (take n (ring_items r), r') \<and> ring_ok r'
      \<and> ring_items r' = drop n (ring_items r) \<and> rb_cap r' = rb_cap r" for r :: "'a ring" and n
    unfolding ring_drain_nat_def by (rule ring_drain_step)
qed


section \<open>What the buffer promises\<close>

definition ring_capacity :: "int \<Rightarrow> nat" where
  "ring_capacity c = (if c \<le> 0 then 1000 else nat c)"

lemma new_ring_cap: "rb_cap (new_ring_buffer c) = ring_capacity c"
  by (simp add: new_ring_buffer_def ring_capacity_def Let_def)

lemma ring_pushes:
  "ring_ok (fold ring_push es (new_ring_buffer c))"
  "rb_cap (fold ring_push es (new_ring_buffer c)) = ring_capacity c"
  "ring_items (fold ring_push es (new_ring_buffer c)) = drop (length es - ring_capacity c) es"
  using ring_fifo.push_all [OF new_ring_ok, of es c] by (simp_all add: new_ring_items new_ring_cap)

text \<open>
  C13. Best-effort FIFO with bounded memory: after any sequence of pushes on a fresh buffer, a
  drain of at most \<open>n\<close> events returns, in order, the oldest \<open>n\<close> of the last \<open>cap\<close> pushed, and
  leaves exactly the rest; the older ones were overwritten, nothing else is lost.
\<close>

theorem ring_best_effort_fifo:
  "\<exists>r'. ring_drain (int n) (fold ring_push es (new_ring_buffer c))
      = Some (take n (drop (length es - ring_capacity c) es), r')
    \<and> ring_items r' = drop n (drop (length es - ring_capacity c) es)"
  using ring_drain_step [OF ring_pushes(1) [of es c], of n]
  unfolding ring_pushes by blast

text \<open>
  A drained slot holds no pointer: once the buffer is empty every slot of the array is nil,
  so no event is kept alive.
\<close>

theorem ring_empty_releases_all:
  assumes "ring_ok r" and "ring_drain (int n) r = Some (es, r')" and "rb_count r \<le> n"
  shows "rb_buf r' = replicate (rb_cap r) None"
proof -
  from ring_fifo.drain_next [OF assms(1), of n es r'] assms(2)
  have ok: "ring_ok r'" and items: "ring_items r' = drop n (ring_items r)" and cap: "rb_cap r' = rb_cap r"
    by (auto simp: ring_drain_nat_def)
  from items assms(3) have "rb_count r' = 0" using length_ring_items [of r'] by simp
  with ok have free: "\<And>i. i < rb_cap r' \<Longrightarrow> rb_buf r' ! ring_slot r' i = None"
    by (simp add: ring_ok_def)
  have "rb_buf r' ! j = None" if "j < rb_cap r'" for j
    using ring_slot_surj [OF ok that] free by auto
  then show ?thesis
    using ok cap by (intro nth_equalityI) (simp_all add: ring_ok_def)
qed

theorem ring_empty_releases_all_witness:
  "\<exists>es r'. ring_drain (int 5) (fold ring_push [Some 1, Some 2, Some (3::nat)] (new_ring_buffer 2)) = Some (es, r')
    \<and> rb_buf r' = [None, None]"
proof -
  let ?r = "fold ring_push [Some 1, Some 2, Some (3::nat)] (new_ring_buffer 2)"
  obtain es r' where d: "ring_drain (int 5) ?r = Some (es, r')"
    using ring_drain_step [OF ring_pushes(1) [of "[Some 1, Some 2, Some (3::nat)]" 2], of 5] by blast
  have "rb_count ?r \<le> 5"
    by (simp add: ring_push_fields new_ring_buffer_def)
  then have "rb_buf r' = replicate (rb_cap ?r) None"
    by (rule ring_empty_releases_all [OF ring_pushes(1) d])
  also have "rb_cap ?r = 2"
    unfolding ring_pushes(2) by (simp add: ring_capacity_def)
  finally show ?thesis using d by (auto simp: numeral_2_eq_2)
qed

end
