(* ===== verification/ServerConn.thy ===== *)
theory ServerConn
  imports Sessions RingBuffer Config
begin

text \<open>
  One connection to the server and its repetition (\<open>server/conn.go\<close>, \<open>server/notifier.go\<close>):
  registration, the dispatch of the server's messages, the flushing of the alert buffer, the
  waits between attempts, and the goroutines of a connection as a step relation on their send
  channel.  What the network, the clock and the identity store answer is the environment's.
\<close>

definition heartbeatInterval :: int where "heartbeatInterval = 30 * second"
definition writeTimeout :: int where "writeTimeout = 10 * second"
definition readTimeout :: int where "readTimeout = 90 * second"
definition ackTimeout :: int where "ackTimeout = 10 * second"
definition sendChSize :: nat where "sendChSize = 64"
definition alertFlushInterval :: int where "alertFlushInterval = second"
definition alertFlushBatch :: nat where "alertFlushBatch = 100"

section \<open>The alert buffer\<close>

text \<open>The package variable: \<open>None\<close> until \<open>InitAlertBuffer\<close>; it outlives the connections.\<close>

definition init_alert_buffer :: "int \<Rightarrow> addr ring option" where
  "init_alert_buffer capacity = Some (new_ring_buffer capacity)"

definition send_alert_event :: "addr option \<Rightarrow> addr ring option \<Rightarrow> addr ring option" where
  "send_alert_event e rg = (case rg of None \<Rightarrow> None | Some r \<Rightarrow> Some (ring_push e r))"

definition server_notifier_forward :: "addr option \<Rightarrow> addr ring option \<Rightarrow> bool \<times> addr ring option" where
  "server_notifier_forward e rg = (True, send_alert_event e rg)"

definition alert_item :: "event \<Rightarrow> alert_event_item" where
  "alert_item e =
     \<lparr>it_event_time = event_time e, it_event_status = event_status e, it_alert_key = alert_key e,
      it_labels = labels e, it_attrs = attrs e, it_description = description e,
      it_description_format = description_format e\<rparr>"

lemma ring_drain_count:
  "ring_drain (int n) r = Some (es, r') \<Longrightarrow> es \<noteq> [] \<Longrightarrow> rb_count r' < rb_count r"
proof -
  assume d: "ring_drain (int n) r = Some (es, r')"
  assume ne: "es \<noteq> []"
  have c: "rb_count r \<noteq> 0"
  proof
    assume "rb_count r = 0"
    with d ne show False by (simp add: ring_drain_def)
  qed
  define m where "m = (if int (rb_count r) > int n then int n else int (rb_count r))"
  from d c have e: "es = fst (drain_loop (nat m) 0 (ring_tail r) (rb_cap r) (rb_buf r))" "rb_count r' = rb_count r - nat m"
    by (auto simp: ring_drain_def Let_def m_def split: if_splits)
  have "nat m \<noteq> 0" using e(1) ne by (auto split: if_splits)
  with e(2) c show ?thesis by simp
qed

text \<open>
  \<open>flushAlertEvents\<close>: batches until the buffer is empty or a send finds the connection done; then
  the batch just drained is dropped.  The result is the batches sent, the batch dropped and the
  buffer; \<open>None\<close> is the nil dereference of an event that is a nil pointer.  \<open>ok k\<close> tells whether
  the \<open>k\<close>-th send succeeds.
\<close>

function flush_loop ::
  "(nat \<Rightarrow> bool) \<Rightarrow> nat \<Rightarrow> addr ring \<Rightarrow> (addr list list \<times> addr list \<times> addr ring) option" where
  "flush_loop ok k r =
     (case ring_drain (int alertFlushBatch) r of
        None \<Rightarrow> None
      | Some (es, r') \<Rightarrow>
          if es = [] then Some ([], [], r')
          else if None \<in> set es then None
          else let batch = map the es in
            if ok k then map_option (\<lambda>(sent, lost, r''). (batch # sent, lost, r'')) (flush_loop ok (k + 1) r')
            else Some ([], batch, r'))"
  by auto

termination
  by (relation "measure (\<lambda>(ok, k, r). rb_count r)") (auto dest: ring_drain_count)

declare flush_loop.simps [simp del]

definition alert_events_message :: "(addr \<Rightarrow> event) \<Rightarrow> string \<Rightarrow> addr list \<Rightarrow> ws_message" where
  "alert_events_message hp uuid batch =
     new_message uuid typeAlertEvents (encode_alert_events (map (\<lambda>a. alert_item (hp a)) batch))"

definition flush_alert_events ::
  "(addr \<Rightarrow> event) \<Rightarrow> string \<Rightarrow> (nat \<Rightarrow> bool) \<Rightarrow> addr ring \<Rightarrow> (ws_message list \<times> addr ring) option" where
  "flush_alert_events hp uuid ok r =
     map_option (\<lambda>(sent, lost, r'). (map (alert_events_message hp uuid) sent, r')) (flush_loop ok 0 r)"

definition heartbeat_message :: "string \<Rightarrow> session_state \<Rightarrow> ws_message" where
  "heartbeat_message uuid s =
     new_message uuid typeHeartbeat
       (encode_heartbeat \<lparr>hb_active_sessions = int (sm_count (ss_table s)), hb_active_alerts = 0\<rparr>)"

section \<open>Messages from the server\<close>

record conn_state =
  cn_retry_after_sec :: int
  cn_cancelled :: bool
  cn_sessions :: session_state

definition handle_server_message ::
  "bool \<Rightarrow> bool \<Rightarrow> bool \<Rightarrow> ws_message \<Rightarrow> conn_state \<Rightarrow> conn_state option" where
  "handle_server_message has_limiter has_chat has_diagnose msg c =
     (if wm_type msg = typeDisconnect then
        (let c = (case decode_payload decode_disconnect msg of
                    None \<Rightarrow> c | Some p \<Rightarrow> c\<lparr>cn_retry_after_sec := dc_retry_after_sec p\<rparr>)
         in Some (c\<lparr>cn_cancelled := True\<rparr>))
      else if wm_type msg = typeAck \<or> wm_type msg = typePing then Some c
      else if wm_type msg = typeSessionStart then
        map_option (\<lambda>s. c\<lparr>cn_sessions := s\<rparr>)
          (handle_session_start has_limiter has_chat has_diagnose msg (cn_sessions c))
      else if wm_type msg = typeSessionInput then Some (c\<lparr>cn_sessions := handle_session_input msg (cn_sessions c)\<rparr>)
      else if wm_type msg = typeSessionCancel then Some (c\<lparr>cn_sessions := handle_session_cancel msg (cn_sessions c)\<rparr>)
      else Some c)"

text \<open>What the reads yield: the connection's end, a text that is no JSON message, or a message.\<close>

datatype ws_read = ReadError | ReadText "json option"

definition parse_message :: "json option \<Rightarrow> ws_message option" where
  "parse_message j = (case j of None \<Rightarrow> None | Some j \<Rightarrow> decode_message j)"

text \<open>
  \<open>readLoop\<close>: once the context is cancelled the next read fails.  The flag tells whether the loop
  has returned; \<open>None\<close> is a handler that blocks for ever.
\<close>

fun read_loop :: "bool \<Rightarrow> bool \<Rightarrow> bool \<Rightarrow> ws_read list \<Rightarrow> conn_state \<Rightarrow> (bool \<times> conn_state) option" where
  "read_loop l ch d [] c = Some (cn_cancelled c, c)"
| "read_loop l ch d (ReadError # rs) c = Some (True, c)"
| "read_loop l ch d (ReadText j # rs) c =
     (if cn_cancelled c then Some (True, c)
      else case parse_message j of
        None \<Rightarrow> read_loop l ch d rs c
      | Some msg \<Rightarrow> Option.bind (handle_server_message l ch d msg c) (read_loop l ch d rs))"

section \<open>A connection attempt\<close>

datatype conn_result =
  CleanExit
| AuthFailed string
| SetupFailed string
| Disconnected int
| Lost

record conn_env =
  ce_url :: "string + string"
  ce_agent_id :: "string + string"
  ce_read_ca :: "string \<Rightarrow> string + bool"
  ce_dial :: "(int option \<times> string) option"
  ce_write_register :: "string option"
  ce_read_ack :: "string + json option"
  ce_reads :: "ws_read list"
  ce_sessions :: session_state

definition build_headers :: "server_config \<Rightarrow> string \<Rightarrow> (string \<times> string) list" where
  "build_headers cfg agent_id =
     (if sv_agent_token cfg \<noteq> '''' then [(''X-Agent-Token'', sv_agent_token cfg)] else [])
     @ [(''X-Agent-ID'', agent_id), (''X-Proto-Version'', ''1'')]"

text \<open>The TLS options: none, or whether verification is skipped and the file of the roots.\<close>

definition build_http_client ::
  "(string \<Rightarrow> string + bool) \<Rightarrow> server_config \<Rightarrow> string + (bool \<times> string option) option" where
  "build_http_client read_ca cfg =
     (if sv_ca_file cfg = '''' \<and> \<not> sv_tls_skip_verify cfg then Inr None
      else if sv_ca_file cfg \<noteq> '''' then
        (case read_ca (sv_ca_file cfg) of
           Inl e \<Rightarrow> Inl (''read ca_file '' @ sv_ca_file cfg @ '': '' @ e)
         | Inr False \<Rightarrow> Inl (''ca_file '' @ sv_ca_file cfg @ '' contains no valid certificates'')
         | Inr True \<Rightarrow> Inr (Some (sv_tls_skip_verify cfg, Some (sv_ca_file cfg))))
      else Inr (Some (sv_tls_skip_verify cfg, None)))"

definition recv_ack :: "string + json option \<Rightarrow> string + ack_payload" where
  "recv_ack rd =
     (case rd of
        Inl e \<Rightarrow> Inl (''read ack: '' @ e)
      | Inr j \<Rightarrow>
          (case parse_message j of
             None \<Rightarrow> Inl ''unmarshal ack''
           | Some msg \<Rightarrow>
               if wm_type msg \<noteq> typeAck then Inl (''expected ack, got '' @ wm_type msg)
               else (case decode_payload decode_ack msg of None \<Rightarrow> Inl ''ack payload'' | Some p \<Rightarrow> Inr p)))"

text \<open>\<open>None\<close>: the connection is still up when the given reads are used up.\<close>

definition run_conn ::
  "bool \<Rightarrow> bool \<Rightarrow> bool \<Rightarrow> server_config \<Rightarrow> conn_env \<Rightarrow> (conn_result \<times> session_state) option" where
  "run_conn l ch d cfg env =
     (let stop = (\<lambda>r. Some (r, ce_sessions env)) in
      if \<not> sv_enabled cfg \<or> sv_address cfg = '''' then stop CleanExit
      else case ce_url env of
        Inl e \<Rightarrow> stop (SetupFailed (''resolve server websocket url: '' @ e))
      | Inr url \<Rightarrow>
        (case ce_agent_id env of
           Inl e \<Rightarrow> stop (SetupFailed (''load agent_id: '' @ e))
         | Inr aid \<Rightarrow>
           (case build_http_client (ce_read_ca env) cfg of
              Inl e \<Rightarrow> stop (SetupFailed (''tls config: '' @ e))
            | Inr hc \<Rightarrow>
              (case ce_dial env of
                 Some (st, e) \<Rightarrow> if st = Some 401 then stop (AuthFailed e) else stop (SetupFailed (''ws dial: '' @ e))
               | None \<Rightarrow>
                 (case ce_write_register env of
                    Some e \<Rightarrow> stop (SetupFailed (''register: '' @ e))
                  | None \<Rightarrow>
                    (case recv_ack (ce_read_ack env) of
                       Inl e \<Rightarrow> stop (SetupFailed (''register ack: '' @ e))
                     | Inr a \<Rightarrow>
                       if \<not> ack_ok a then stop (SetupFailed (''register rejected: '' @ ack_error a))
                       else (case read_loop l ch d (ce_reads env)
                                 \<lparr>cn_retry_after_sec = 0, cn_cancelled = False, cn_sessions = ce_sessions env\<rparr> of
                          None \<Rightarrow> None
                        | Some (False, c) \<Rightarrow> None
                        | Some (True, c) \<Rightarrow>
                            Some (if cn_retry_after_sec c > 0 then Disconnected (cn_retry_after_sec c) else Lost,
                                  cancel_sessions (cn_sessions c)))))))))"

definition send_register ::
  "string \<Rightarrow> string \<Rightarrow> string \<Rightarrow> string \<Rightarrow> string \<Rightarrow> (string, string) gomap option \<Rightarrow> string list option \<Rightarrow> string \<Rightarrow> int
   \<Rightarrow> ws_message" where
  "send_register uuid hostname ip os_name arch lbls plugins version uptime =
     new_message uuid typeRegister
       (encode_register \<lparr>rg_hostname = hostname, rg_ip = ip, rg_os = os_name, rg_arch = arch, rg_labels = lbls,
          rg_plugins = plugins, rg_agent_version = version, rg_uptime_sec = uptime\<rparr>)"
section \<open>Reconnecting\<close>

definition clamp_backoff :: "int \<Rightarrow> int \<Rightarrow> int \<Rightarrow> int" where
  "clamp_backoff d mn mx = (if d < mn then mn else if d > mx then mx else d)"

text \<open>The wait and the next back-off after an attempt that returned \<open>r\<close>.\<close>

definition next_reconnect_state ::
  "conn_result \<Rightarrow> int \<Rightarrow> int \<Rightarrow> int \<Rightarrow> int \<Rightarrow> int \<Rightarrow> int \<times> int" where
  "next_reconnect_state r backoff normal_min normal_max auth_min auth_max =
     (case r of
        CleanExit \<Rightarrow> (0, backoff)
      | Disconnected n \<Rightarrow>
          let wait = wrap64 (n * second) in (if wait < normal_min then normal_min else wait, normal_min)
      | AuthFailed _ \<Rightarrow>
          let backoff = (if backoff < auth_min then auth_min else backoff)
          in (backoff, clamp_backoff (wrap64 (backoff * 2)) auth_min auth_max)
      | Lost \<Rightarrow> (normal_min, clamp_backoff (wrap64 (normal_min * 2)) normal_min normal_max)
      | SetupFailed _ \<Rightarrow> (backoff, clamp_backoff (wrap64 (backoff * 2)) normal_min normal_max))"

text \<open>\<open>u\<close> is \<open>rand.Float64()\<close>; the arithmetic is that of the reals, the conversion truncates.\<close>

definition conn_jitter :: "int \<Rightarrow> real \<Rightarrow> real \<Rightarrow> int" where
  "conn_jitter d pct u =
     (let x = (u * 2 - 1) * (of_int d * pct) in d + (if x < 0 then \<lceil>x\<rceil> else \<lfloor>x\<rfloor>))"

definition normalMin :: int where "normalMin = second"
definition normalMax :: int where "normalMax = 300 * second"
definition authMin :: int where "authMin = 60 * second"
definition authMax :: int where "authMax = 1800 * second"

lemmas backoff_limits = normalMin_def normalMax_def authMin_def authMax_def second_def

text \<open>
  \<open>RunForever\<close> on the results of its attempts, the \<open>i\<close>-th random number and the attempt at which
  the context is found cancelled: the waits before and after jitter.
\<close>

fun run_forever_loop :: "conn_result list \<Rightarrow> (nat \<Rightarrow> real) \<Rightarrow> nat \<Rightarrow> int \<Rightarrow> (int \<times> int) list" where
  "run_forever_loop [] u i backoff = []"
| "run_forever_loop (r # rs) u i backoff =
     (let (wait, next) = next_reconnect_state r backoff normalMin normalMax authMin authMax
      in (wait, conn_jitter wait (1 / 4) (u i)) # run_forever_loop rs u (i + 1) next)"

definition run_forever :: "server_config \<Rightarrow> conn_result list \<Rightarrow> (nat \<Rightarrow> real) \<Rightarrow> (int \<times> int) list" where
  "run_forever cfg rs u =
     (if \<not> sv_enabled cfg \<or> sv_address cfg = '''' then [] else run_forever_loop rs u 0 normalMin)"

lemma conn_jitter_bounds:
  assumes "0 \<le> d" and "0 \<le> u" and "u \<le> 1"
  shows "3 * d \<le> 4 * conn_jitter d (1 / 4) u + 3 \<and> 4 * conn_jitter d (1 / 4) u \<le> 5 * d"
proof -
  let ?x = "(u * 2 - 1) * (of_int d * (1 / 4))"
  have "(u * 2 - 1) * of_int d \<le> 1 * of_int d" "- 1 * of_int d \<le> (u * 2 - 1) * of_int d"
    using assms by (intro mult_right_mono; simp)+
  then have x: "4 * ?x \<le> of_int d" "- of_int d \<le> 4 * ?x" by simp_all
  define t where "t = (if ?x < 0 then \<lceil>?x\<rceil> else \<lfloor>?x\<rfloor>)"
  have "4 * of_int t \<le> (of_int d :: real) \<and> - of_int d \<le> (4 * of_int t + 3 :: real)"
  proof (cases "?x < 0")
    case True
    then have "t = \<lceil>?x\<rceil>" "\<lceil>?x\<rceil> \<le> 0" by (simp_all add: t_def ceiling_le_zero)
    then have "(of_int t :: real) \<le> 0" "?x \<le> of_int t" using le_of_int_ceiling [of ?x] by (simp, simp only:)
    with x(2) assms(1) show ?thesis by linarith
  next
    case False
    then have "t = \<lfloor>?x\<rfloor>" "0 \<le> \<lfloor>?x\<rfloor>" by (simp_all add: t_def)
    then have "0 \<le> (of_int t :: real)" "of_int t \<le> ?x" using of_int_floor_le [of ?x] by (simp, simp only:)
    with x(1) assms(1) show ?thesis by linarith
  qed
  then have "of_int (4 * t) \<le> (of_int d :: real)" "of_int (- d) \<le> (of_int (4 * t + 3) :: real)" by simp_all
  then have "4 * t \<le> d" "- d \<le> 4 * t + 3" by (simp_all only: of_int_le_iff)
  moreover have "conn_jitter d (1 / 4) u = d + t" unfolding conn_jitter_def t_def Let_def ..
  ultimately show ?thesis by simp
qed

text \<open>The state of the back-off: in its range, and small unless an authentication failure is recent.\<close>

definition backoff_ok :: "bool \<Rightarrow> int \<Rightarrow> bool" where
  "backoff_ok auth b \<longleftrightarrow> normalMin \<le> b \<and> b \<le> (if auth then authMax else normalMax)"

text \<open>Whether the back-off may still stem from an authentication failure after the results \<open>rs\<close>.\<close>

fun auth_recent :: "bool \<Rightarrow> conn_result list \<Rightarrow> bool" where
  "auth_recent a [] = a"
| "auth_recent a (r # rs) = auth_recent (case r of AuthFailed _ \<Rightarrow> True | CleanExit \<Rightarrow> a | _ \<Rightarrow> False) rs"

lemma backoff_wrap: "normalMin \<le> b \<Longrightarrow> b \<le> authMax \<Longrightarrow> wrap64 (b * 2) = b * 2"
  by (rule wrap64_id) (auto simp: int64_ok_def backoff_limits)

lemma next_backoff_ok:
  assumes "backoff_ok a b"
  shows "backoff_ok (case r of AuthFailed _ \<Rightarrow> True | CleanExit \<Rightarrow> a | _ \<Rightarrow> False)
    (snd (next_reconnect_state r b normalMin normalMax authMin authMax))"
proof -
  have b: "normalMin \<le> b" "b \<le> authMax" using assms by (auto simp: backoff_ok_def backoff_limits split: if_splits)
  have w: "wrap64 (normalMin * 2) = normalMin * 2" by (rule backoff_wrap) (simp_all add: backoff_limits)
  show ?thesis
  proof (cases r)
    case CleanExit
    with assms show ?thesis by (simp add: next_reconnect_state_def)
  next
    case (AuthFailed e)
    have "wrap64 ((if b < authMin then authMin else b) * 2) = (if b < authMin then authMin else b) * 2"
      by (rule backoff_wrap) (use b in \<open>auto simp: backoff_limits\<close>)
    with b show ?thesis
      by (auto simp: AuthFailed next_reconnect_state_def backoff_ok_def clamp_backoff_def backoff_limits Let_def)
  next
    case (SetupFailed e)
    with b backoff_wrap [OF b] show ?thesis
      by (auto simp: next_reconnect_state_def backoff_ok_def clamp_backoff_def backoff_limits)
  next
    case (Disconnected n)
    then show ?thesis by (simp add: next_reconnect_state_def backoff_ok_def backoff_limits Let_def)
  next
    case Lost
    with w show ?thesis by (simp add: next_reconnect_state_def backoff_ok_def clamp_backoff_def backoff_limits)
  qed
qed

abbreviation next_backoff :: "conn_result \<Rightarrow> int \<Rightarrow> int" where
  "next_backoff r b \<equiv> snd (next_reconnect_state r b normalMin normalMax authMin authMax)"

abbreviation wait_of :: "conn_result \<Rightarrow> int \<Rightarrow> int" where
  "wait_of r b \<equiv> fst (next_reconnect_state r b normalMin normalMax authMin authMax)"

lemma run_forever_split:
  "run_forever_loop (pre @ r # post) u i b ! length pre
     = (wait_of r (fold next_backoff pre b), conn_jitter (wait_of r (fold next_backoff pre b)) (1 / 4) (u (i + length pre)))"
  by (induction pre arbitrary: i b) (simp_all add: case_prod_unfold Let_def)

lemma backoff_after: "backoff_ok a b \<Longrightarrow> backoff_ok (auth_recent a rs) (fold next_backoff rs b)"
proof (induction rs arbitrary: a b)
  case (Cons r rs)
  from Cons.IH [OF next_backoff_ok [OF Cons.prems]] show ?case by simp
qed simp

lemma wait_spec:
  assumes "backoff_ok a b"
  shows "case r of
      CleanExit \<Rightarrow> wait_of r b = 0
    | Lost \<Rightarrow> wait_of r b = normalMin
    | Disconnected n \<Rightarrow> wait_of r b = max normalMin (wrap64 (n * second))
    | AuthFailed _ \<Rightarrow> authMin \<le> wait_of r b \<and> wait_of r b \<le> authMax
    | SetupFailed _ \<Rightarrow> normalMin \<le> wait_of r b \<and> wait_of r b \<le> (if a then authMax else normalMax)"
  using assms by (cases r) (auto simp: next_reconnect_state_def backoff_ok_def backoff_limits max_def Let_def split: if_splits)

text \<open>Doubling under repeated failures of one kind.\<close>

lemma setup_backoff:
  "fold next_backoff (replicate k (SetupFailed e)) normalMin = min normalMax (2 ^ k * second)"
proof (induction k)
  case 0
  show ?case by (simp add: backoff_limits)
next
  case (Suc k)
  let ?b = "min normalMax (2 ^ k * second)"
  have "(1::int) \<le> 2 ^ k" by simp
  then have p: "1 \<le> 2 * (2::int) ^ k" by linarith
  have b: "normalMin \<le> ?b" "?b \<le> authMax" by (auto simp: backoff_limits)
  have "fold next_backoff (replicate (Suc k) (SetupFailed e)) normalMin = next_backoff (SetupFailed e) ?b"
    using Suc by (simp add: replicate_append_same [symmetric])
  also have "\<dots> = clamp_backoff (?b * 2) normalMin normalMax"
    using backoff_wrap [OF b] by (simp add: next_reconnect_state_def)
  also have "\<dots> = min normalMax (2 ^ Suc k * second)"
    using p by (auto simp: clamp_backoff_def backoff_limits min_def)
  finally show ?case .
qed

lemma fold_replicate_Suc: "fold f (replicate (Suc k) x) b = f x (fold f (replicate k x) b)"
  unfolding replicate_append_same [symmetric] replicate_Suc by simp

definition at_least_auth :: "int \<Rightarrow> int" where
  "at_least_auth b = (if b < authMin then authMin else b)"

lemma next_auth:
  "next_reconnect_state (AuthFailed e) b normalMin normalMax authMin authMax
     = (at_least_auth b, clamp_backoff (wrap64 (at_least_auth b * 2)) authMin authMax)"
  by (simp add: next_reconnect_state_def at_least_auth_def Let_def)

lemma auth_backoff:
  "at_least_auth (fold next_backoff (replicate k (AuthFailed e)) normalMin) = min authMax (2 ^ k * authMin)"
proof (induction k)
  case 0
  show ?case by (simp add: backoff_limits at_least_auth_def)
next
  case (Suc k)
  let ?b = "min authMax (2 ^ k * authMin)"
  have "(1::int) \<le> 2 ^ k" by simp
  then have p: "1 \<le> 60 * (2::int) ^ k" "1 \<le> 2 * (2::int) ^ k" by linarith+
  then have b: "normalMin \<le> ?b" "?b \<le> authMax" by (auto simp: backoff_limits min_def)
  have "fold next_backoff (replicate (Suc k) (AuthFailed e)) normalMin = clamp_backoff (?b * 2) authMin authMax"
    unfolding fold_replicate_Suc next_auth Suc snd_conv backoff_wrap [OF b] ..
  also have "\<dots> = min authMax (2 ^ Suc k * authMin)"
    using p by (auto simp: clamp_backoff_def backoff_limits min_def)
  finally have e: "fold next_backoff (replicate (Suc k) (AuthFailed e)) normalMin = min authMax (2 ^ Suc k * authMin)" .
  show ?case unfolding e using p by (auto simp: at_least_auth_def backoff_limits)
qed

lemma auth_wait:
  "wait_of (AuthFailed e) (fold next_backoff (replicate k (AuthFailed e)) normalMin) = min authMax (2 ^ k * authMin)"
  unfolding next_auth fst_conv auth_backoff ..


definition example_server_config :: server_config where
  "example_server_config = \<lparr>sv_enabled = True, sv_address = ''h'', sv_agent_token = '''', sv_ca_file = '''',
     sv_tls_skip_verify = False, sv_alert_buffer_size = 0\<rparr>"


section \<open>Flushing\<close>

lemma flush_spec:
  assumes "ring_ok r" and "None \<notin> set (ring_items r)"
  shows "\<exists>sent lost r'. flush_loop ok k r = Some (sent, lost, r') \<and> ring_ok r' \<and> rb_cap r' = rb_cap r
    \<and> map Some (concat sent @ lost) @ ring_items r' = ring_items r
    \<and> (\<forall>b \<in> set sent. b \<noteq> [] \<and> length b \<le> alertFlushBatch) \<and> length lost \<le> alertFlushBatch
    \<and> (\<forall>i < length sent. ok (k + i)) \<and> (lost = [] \<longrightarrow> ring_items r' = []) \<and> (lost \<noteq> [] \<longrightarrow> \<not> ok (k + length sent))"
  using assms
proof (induction ok k r rule: flush_loop.induct)
  case (1 ok k r)
  from ring_drain_step [OF "1.prems"(1), of alertFlushBatch] obtain r1 where
    d: "ring_drain (int alertFlushBatch) r = Some (take alertFlushBatch (ring_items r), r1)" "ring_ok r1"
       "ring_items r1 = drop alertFlushBatch (ring_items r)" "rb_cap r1 = rb_cap r" by blast
  let ?es = "take alertFlushBatch (ring_items r)" and ?batch = "map the (take alertFlushBatch (ring_items r))"
  have b0: "0 < alertFlushBatch" by (simp add: alertFlushBatch_def)
  have nn: "None \<notin> set ?es" "None \<notin> set (ring_items r1)"
    using "1.prems"(2) unfolding d(3) by (meson in_set_takeD in_set_dropD)+
  have some: "map Some ?batch = ?es" using nn(1) by (auto intro!: map_idI simp: comp_def) (metis option.collapse)
  have len: "length ?batch \<le> alertFlushBatch" by simp
  have join: "map Some ?batch @ ring_items r1 = ring_items r" unfolding some d(3) by simp
  show ?case
  proof (cases "?es = []")
    case True
    then have "ring_items r1 = []" "ring_items r = []" using b0 d(3) by auto
    with True d show ?thesis by (simp add: flush_loop.simps [of ok k r])
  next
    case ne: False
    show ?thesis
    proof (cases "ok k")
      case True
      from "1.IH" [OF d(1) _ ne nn(1) refl True d(2) nn(2)] obtain sent lost r' where s:
          "flush_loop ok (k + 1) r1 = Some (sent, lost, r')" "ring_ok r'" "rb_cap r' = rb_cap r1"
          "map Some (concat sent @ lost) @ ring_items r' = ring_items r1"
          "\<forall>b \<in> set sent. b \<noteq> [] \<and> length b \<le> alertFlushBatch" "length lost \<le> alertFlushBatch"
          "\<forall>i < length sent. ok (k + 1 + i)" "lost = [] \<longrightarrow> ring_items r' = []" "lost \<noteq> [] \<longrightarrow> \<not> ok (k + 1 + length sent)"
        by blast
      have "flush_loop ok k r = Some (?batch # sent, lost, r')"
        using d(1) ne nn(1) True s(1) by (simp add: flush_loop.simps [of ok k r])
      moreover have "\<forall>i < length (?batch # sent). ok (k + i)"
        using True s(7) by (auto simp: less_Suc_eq_0_disj)
      ultimately show ?thesis
        using s ne len join d(4) by (intro exI [of _ "?batch # sent"] exI [of _ lost] exI [of _ r']) auto
    next
      case False
      then have "flush_loop ok k r = Some ([], ?batch, r1)"
        using d(1) ne nn(1) by (simp add: flush_loop.simps [of ok k r])
      moreover have "?batch \<noteq> []" using ne by simp
      ultimately show ?thesis
        using d(2,4) len join False by (intro exI [of _ "[]"] exI [of _ ?batch] exI [of _ r1]) auto
    qed
  qed
qed

text \<open>
  C12. A flush neither reorders nor duplicates events: what was in the buffer is, in order, what
  the messages carry in batches of at most a hundred, then at most one batch that is dropped
  because the connection had ended, then what is still buffered; without such a failure
  everything is sent and the buffer is empty.
\<close>

theorem alert_flush:
  assumes "ring_ok r" and "None \<notin> set (ring_items r)"
    and f: "flush_alert_events hp uuid ok r = out"
  shows "\<exists>sent lost r'. out = Some (map (alert_events_message hp uuid) sent, r') \<and> ring_ok r'
    \<and> ring_items r = map Some (concat sent @ lost) @ ring_items r'
    \<and> (\<forall>b \<in> set sent. b \<noteq> [] \<and> length b \<le> 100) \<and> length lost \<le> 100
    \<and> (if \<forall>i. ok i then lost = [] \<and> ring_items r' = [] else lost \<noteq> [] \<longrightarrow> \<not> ok (length sent))"
proof -
  from flush_spec [OF assms(1,2), of ok 0] obtain sent lost r' where s:
      "flush_loop ok 0 r = Some (sent, lost, r')" "ring_ok r'" "map Some (concat sent @ lost) @ ring_items r' = ring_items r"
      "\<forall>b \<in> set sent. b \<noteq> [] \<and> length b \<le> alertFlushBatch" "length lost \<le> alertFlushBatch"
      "lost = [] \<longrightarrow> ring_items r' = []" "lost \<noteq> [] \<longrightarrow> \<not> ok (length sent)"
    by auto
  then show ?thesis
    using f by (intro exI [of _ sent] exI [of _ lost] exI [of _ r']) (auto simp: flush_alert_events_def alertFlushBatch_def)
qed

theorem alert_flush_witness:
  "\<exists>sent r'. flush_alert_events (\<lambda>_. zero_event) '''' (\<lambda>_. True) (fold ring_push [Some 1, Some 2] (new_ring_buffer 2))
       = Some (map (alert_events_message (\<lambda>_. zero_event) '''') sent, r') \<and> concat sent = [1, 2]"
proof -
  let ?r = "fold ring_push [Some 1, Some 2] (new_ring_buffer 2) :: addr ring"
  have r: "ring_ok ?r" "ring_items ?r = [Some 1, Some 2]"
    using ring_fifo.push_all [OF new_ring_ok [of 2], of "[Some 1, Some 2 :: addr option]"]
    by (simp_all add: new_ring_items new_ring_cap ring_capacity_def)
  from alert_flush [OF r(1) _ refl, of "\<lambda>_. zero_event" "''''" "\<lambda>_. True"] r(2) show ?thesis
    by (auto simp: map_eq_Cons_conv)
qed

section \<open>The goroutines of a connection\<close>

text \<open>
  What they share: the fill of the send channel, the cancelled context, the closed \<open>done\<close> channel.
  The reader blocks in an acknowledgement until the channel has room or \<open>done\<close> is closed; the writer
  ends on a failed write or a cancelled context; \<open>done\<close> is closed only after the reader has returned.
\<close>

datatype reader = Reading | Acking | Returned

record conn_machine =
  cm_reader :: reader
  cm_writer :: bool
  cm_fill :: nat
  cm_ctx :: bool
  cm_done :: bool

definition new_conn_machine :: conn_machine where
  "new_conn_machine = \<lparr>cm_reader = Reading, cm_writer = True, cm_fill = 0, cm_ctx = False, cm_done = False\<rparr>"

inductive conn_step :: "conn_machine \<Rightarrow> conn_machine \<Rightarrow> bool" where
  ReadStart: "cm_reader c = Reading \<Longrightarrow> \<not> cm_ctx c \<Longrightarrow> conn_step c (c\<lparr>cm_reader := Acking\<rparr>)"
| ReadDisconnect: "cm_reader c = Reading \<Longrightarrow> \<not> cm_ctx c \<Longrightarrow> conn_step c (c\<lparr>cm_ctx := True\<rparr>)"
| ReadFails: "cm_reader c = Reading \<Longrightarrow> conn_step c (c\<lparr>cm_reader := Returned\<rparr>)"
| AckSent: "cm_reader c = Acking \<Longrightarrow> cm_fill c < sendChSize \<Longrightarrow>
    conn_step c (c\<lparr>cm_reader := Reading, cm_fill := cm_fill c + 1\<rparr>)"
| AckDropped: "cm_reader c = Acking \<Longrightarrow> cm_done c \<Longrightarrow> conn_step c (c\<lparr>cm_reader := Reading\<rparr>)"
| Enqueue: "cm_fill c < sendChSize \<Longrightarrow> conn_step c (c\<lparr>cm_fill := cm_fill c + 1\<rparr>)"
| Written: "cm_writer c \<Longrightarrow> 0 < cm_fill c \<Longrightarrow> conn_step c (c\<lparr>cm_fill := cm_fill c - 1\<rparr>)"
| WriteFails: "cm_writer c \<Longrightarrow> 0 < cm_fill c \<Longrightarrow>
    conn_step c (c\<lparr>cm_fill := cm_fill c - 1, cm_writer := False, cm_ctx := True\<rparr>)"
| WriterStops: "cm_writer c \<Longrightarrow> cm_ctx c \<Longrightarrow> conn_step c (c\<lparr>cm_writer := False\<rparr>)"
| Shutdown: "\<not> cm_ctx c \<Longrightarrow> conn_step c (c\<lparr>cm_ctx := True\<rparr>)"
| Close: "cm_reader c = Returned \<Longrightarrow> conn_step c (c\<lparr>cm_ctx := True, cm_done := True\<rparr>)"

inductive_cases conn_stepE: "conn_step c c'"

definition wedged :: "conn_machine \<Rightarrow> bool" where
  "wedged c \<longleftrightarrow> cm_reader c = Acking \<and> \<not> cm_writer c \<and> cm_fill c = sendChSize \<and> \<not> cm_done c"

abbreviation conn_reach :: "conn_machine \<Rightarrow> bool" where
  "conn_reach c \<equiv> conn_step\<^sup>*\<^sup>* new_conn_machine c"

lemma fill_bound: "conn_reach c \<Longrightarrow> cm_fill c \<le> sendChSize"
proof (induction rule: rtranclp_induct)
  case base
  show ?case by (simp add: new_conn_machine_def)
next
  case (step c c')
  from step(2,3) show ?case by (cases rule: conn_step.cases) auto
qed

lemma wedged_step: "conn_step c c' \<Longrightarrow> wedged c \<Longrightarrow> wedged c'"
  by (elim conn_stepE) (auto simp: wedged_def)

lemma wedged_forever: "conn_step\<^sup>*\<^sup>* c c' \<Longrightarrow> wedged c \<Longrightarrow> wedged c'"
  by (induction rule: rtranclp_induct) (auto intro: wedged_step)

lemma returned_closes: "cm_reader c = Returned \<Longrightarrow> \<exists>c'. conn_step\<^sup>*\<^sup>* c c' \<and> cm_done c'"
  using conn_step.Close [of c] by (intro exI [of _ "c\<lparr>cm_ctx := True, cm_done := True\<rparr>"]) auto

lemma reading_closes: "cm_reader c = Reading \<Longrightarrow> \<exists>c'. conn_step\<^sup>*\<^sup>* c c' \<and> cm_done c'"
  using conn_step.ReadFails [of c] returned_closes [of "c\<lparr>cm_reader := Returned\<rparr>"]
  by (auto intro: converse_rtranclp_into_rtranclp)

lemma room_closes:
  assumes "cm_reader c = Acking" and "cm_fill c < sendChSize"
  shows "\<exists>c'. conn_step\<^sup>*\<^sup>* c c' \<and> cm_done c'"
  using conn_step.AckSent [OF assms] reading_closes [of "c\<lparr>cm_reader := Reading, cm_fill := cm_fill c + 1\<rparr>"]
  by (auto intro: converse_rtranclp_into_rtranclp)

lemma fills: "cm_fill c + n \<le> sendChSize \<Longrightarrow> conn_step\<^sup>*\<^sup>* c (c\<lparr>cm_fill := cm_fill c + n\<rparr>)"
proof (induction n)
  case (Suc n)
  have "conn_step (c\<lparr>cm_fill := cm_fill c + n\<rparr>) (c\<lparr>cm_fill := cm_fill c + Suc n\<rparr>)"
    using conn_step.Enqueue [of "c\<lparr>cm_fill := cm_fill c + n\<rparr>"] Suc.prems by simp
  moreover have "conn_step\<^sup>*\<^sup>* c (c\<lparr>cm_fill := cm_fill c + n\<rparr>)" using Suc by simp
  ultimately show ?case by (rule rtranclp.rtrancl_into_rtrancl [rotated])
qed simp

lemma wedge_reachable: "conn_reach \<lparr>cm_reader = Acking, cm_writer = False, cm_fill = sendChSize, cm_ctx = True, cm_done = False\<rparr>"
proof -
  let ?m = "\<lambda>w n x. \<lparr>cm_reader = Acking, cm_writer = w, cm_fill = n, cm_ctx = x, cm_done = False\<rparr>"
  have "conn_step new_conn_machine (?m True 0 False)"
    using conn_step.ReadStart [of new_conn_machine] by (simp add: new_conn_machine_def)
  moreover have "conn_step\<^sup>*\<^sup>* (?m True 0 False) (?m True sendChSize False)"
    using fills [of "?m True 0 False" sendChSize] by simp
  moreover have "conn_step (?m True sendChSize False) (?m False (sendChSize - 1) True)"
    using conn_step.WriteFails [of "?m True sendChSize False"] by (simp add: sendChSize_def)
  moreover have "conn_step (?m False (sendChSize - 1) True) (?m False sendChSize True)"
    using conn_step.Enqueue [of "?m False (sendChSize - 1) True"] by (simp add: sendChSize_def)
  ultimately show ?thesis
    by (meson converse_rtranclp_into_rtranclp rtranclp.rtrancl_into_rtrancl)
qed

text \<open>
  C14. A connection can be taken down, so that \<open>RunForever\<close> makes its next attempt, from every
  reachable state but one kind: the reader is sending an acknowledgement, the channel is full and
  the writer has ended after a failed write.  \<open>done\<close>, which would release the reader, is closed
  only when the reader has returned, so from there nothing helps any more, not even the
  cancellation of the context; and such a state is reachable.
\<close>

theorem connection_shutdown:
  assumes "conn_reach c"
  shows "((\<exists>c'. conn_step\<^sup>*\<^sup>* c c' \<and> cm_done c') \<longleftrightarrow> \<not> wedged c)
    \<and> (wedged c \<longrightarrow> (\<forall>c'. conn_step\<^sup>*\<^sup>* c c' \<longrightarrow> wedged c'))
    \<and> (\<exists>w. conn_reach w \<and> wedged w \<and> cm_ctx w)"
proof (intro conjI)
  show "(\<exists>c'. conn_step\<^sup>*\<^sup>* c c' \<and> cm_done c') \<longleftrightarrow> \<not> wedged c"
  proof
    assume "\<exists>c'. conn_step\<^sup>*\<^sup>* c c' \<and> cm_done c'"
    then show "\<not> wedged c" using wedged_forever by (auto simp: wedged_def)
  next
    assume nw: "\<not> wedged c"
    show "\<exists>c'. conn_step\<^sup>*\<^sup>* c c' \<and> cm_done c'"
    proof (cases "cm_reader c")
      case Acking
      consider "cm_done c" | "cm_fill c < sendChSize" | "cm_fill c = sendChSize" "cm_writer c"
        using nw Acking fill_bound [OF assms] unfolding wedged_def by (metis nat_less_le)
      then show ?thesis
      proof cases
        case 3
        let ?c = "c\<lparr>cm_fill := cm_fill c - 1\<rparr>"
        have "conn_step c ?c" using conn_step.Written [of c] 3 by (simp add: sendChSize_def)
        moreover have "\<exists>c'. conn_step\<^sup>*\<^sup>* ?c c' \<and> cm_done c'"
          by (rule room_closes) (use 3 Acking in \<open>simp_all add: sendChSize_def\<close>)
        ultimately show ?thesis by (meson converse_rtranclp_into_rtranclp)
      qed (use room_closes [OF Acking] in auto)
    qed (use reading_closes returned_closes in auto)
  qed
  show "wedged c \<longrightarrow> (\<forall>c'. conn_step\<^sup>*\<^sup>* c c' \<longrightarrow> wedged c')" using wedged_forever by blast
  show "\<exists>w. conn_reach w \<and> wedged w \<and> cm_ctx w"
    using wedge_reachable by (intro exI conjI) (auto simp: wedged_def)
qed

theorem connection_shutdown_witness: "\<exists>c'. conn_step\<^sup>*\<^sup>* new_conn_machine c' \<and> cm_done c'"
  using connection_shutdown [OF rtranclp.rtrancl_refl] by (simp add: wedged_def new_conn_machine_def)

end
