(* ===== verification/ShellSplit.thy ===== *)
theory ShellSplit
  imports GoStrings
begin

text \<open>
  Splitting a command line into words: \<open>pkg/shell/shellquote.go\<close>, and the helpers of
  \<open>pkg/cmdx/cmdx.go\<close> that run the result.  \<open>splitWord\<close> is a block-structured \<open>goto\<close>
  program over an input and a buffer; each labelled block is a definition that returns the jump
  the code takes, and \<open>run_jump\<close> follows the jumps until a \<open>return\<close>.  Every jump leaves less
  input behind, which is the termination argument.  The theory compares the splitter with a
  one-byte-at-a-time automaton, and recovers every argument vector that is written in single
  quotes.  \<open>runtime.GOOS == "windows"\<close> is the parameter \<open>win\<close>.
\<close>

section \<open>The splitter\<close>

datatype shell_error =
    UnterminatedSingleQuoteError
  | UnterminatedDoubleQuoteError
  | UnterminatedEscapeError

definition splitChars :: string where
  "splitChars = [CHR 0x20, CHR 0x0A, CHR 0x09]"

definition singleChar :: nat where
  "singleChar = 39"

definition doubleChar :: nat where
  "doubleChar = 34"

definition escapeChar :: nat where
  "escapeChar = 92"

definition newlineChar :: nat where
  "newlineChar = 10"

definition doubleEscapeChars :: string where
  "doubleEscapeChars = [CHR 0x24, CHR 0x60, CHR 0x22, CHR 0x0A, CHR 0x5C]"

text \<open>A jump to a label with the input and the buffer there, or one of the returns.\<close>

datatype jump =
    Goto_raw string string
  | Goto_escape string string
  | Goto_single string string
  | Goto_double string string
  | Return_word string string
  | Return_error shell_error

definition consumed :: "string \<Rightarrow> string \<Rightarrow> nat \<Rightarrow> string" where
  "consumed input cur n = take (length input - length cur - n) input"

lemma decode_pos: "(c, l) = decode_rune s \<Longrightarrow> s \<noteq> [] \<Longrightarrow> 0 < l"
  using rune_width_pos [of s] by (cases "decode_rune s") auto

function raw_loop :: "bool \<Rightarrow> string \<Rightarrow> string \<Rightarrow> string \<Rightarrow> jump" where
  "raw_loop win input cur buf =
     (if cur = [] then (if input \<noteq> [] then Return_word (buf @ input) [] else Return_word buf input)
      else let (c, l) = decode_rune cur; cur = drop l cur in
        if c = singleChar then Goto_single cur (buf @ consumed input cur l)
        else if c = doubleChar then Goto_double cur (buf @ consumed input cur l)
        else if c = escapeChar then
          (if win then Goto_escape cur (buf @ take (length input - length cur - l + 1) input)
           else Goto_escape cur (buf @ consumed input cur l))
        else if contains_rune splitChars c then Return_word (buf @ consumed input cur l) cur
        else raw_loop win input cur buf)"
  by pat_completeness auto
termination
proof (relation "measure (\<lambda>(win, input, cur, buf). length cur)", goal_cases)
  case 1 then show ?case by simp
next
  case (2 win input cur buf x c l cur')
  then show ?case by (auto dest: decode_pos)
qed

declare raw_loop.simps [simp del]

definition escape_block :: "string \<Rightarrow> string \<Rightarrow> jump" where
  "escape_block input buf =
     (if input = [] then Return_error UnterminatedEscapeError
      else let (c, l) = decode_rune input in
        Goto_raw (drop l input) (if c = newlineChar then buf else buf @ take l input))"

text \<open>\<open>strings.IndexRune\<close> of an ASCII rune: the first position of its byte.\<close>

fun index_of_byte :: "nat \<Rightarrow> string \<Rightarrow> nat option" where
  "index_of_byte b [] = None"
| "index_of_byte b (c # s) = (if byte c = b then Some 0 else map_option Suc (index_of_byte b s))"

definition single_block :: "string \<Rightarrow> string \<Rightarrow> jump" where
  "single_block input buf =
     (case index_of_byte singleChar input of
        None \<Rightarrow> Return_error UnterminatedSingleQuoteError
      | Some i \<Rightarrow> Goto_raw (drop (i + 1) input) (buf @ take i input))"

function double_loop :: "string \<Rightarrow> string \<Rightarrow> string \<Rightarrow> jump" where
  "double_loop input cur buf =
     (if cur = [] then Return_error UnterminatedDoubleQuoteError
      else let (c, l) = decode_rune cur; cur = drop l cur in
        if c = doubleChar then Goto_raw cur (buf @ consumed input cur l)
        else if c = escapeChar then
          (let (c2, l2) = decode_rune cur; cur = drop l2 cur in
           if contains_rune doubleEscapeChars c2 then
             double_loop cur cur
               (buf @ consumed input cur (l + l2) @ (if c2 = newlineChar then [] else encode_rune c2))
           else double_loop input cur buf)
        else double_loop input cur buf)"
  by pat_completeness auto
termination
proof (relation "measure (\<lambda>(input, cur, buf). length cur)", goal_cases)
  case 1 then show ?case by simp
next
  case (2 input cur buf x c l cur' y c2 l2 cur'')
  then show ?case by (auto dest: decode_pos)
next
  case (3 input cur buf x c l cur' y c2 l2 cur'')
  then show ?case by (auto dest: decode_pos)
next
  case (4 input cur buf x c l cur')
  then show ?case by (auto dest: decode_pos)
qed

declare double_loop.simps [simp del]

text \<open>The input a jump leaves behind: it shrinks with every jump.\<close>

fun left_over :: "jump \<Rightarrow> nat" where
  "left_over (Goto_raw input buf) = Suc (length input)"
| "left_over (Goto_escape input buf) = Suc (length input)"
| "left_over (Goto_single input buf) = Suc (length input)"
| "left_over (Goto_double input buf) = Suc (length input)"
| "left_over (Return_word word rest) = length rest"
| "left_over (Return_error e) = 0"

lemma raw_loop_left: "left_over (raw_loop win input cur buf) \<le> length cur"
proof (induction win input cur buf rule: raw_loop.induct)
  case (1 win input cur buf)
  show ?case
    using 1 rune_width_pos [of cur] rune_width_le [of cur]
    by (subst raw_loop.simps) (auto simp: Let_def split: prod.splits, (force dest: le_trans)+)
qed

lemma escape_block_left: "left_over (escape_block input buf) \<le> length input"
  using rune_width_pos [of input] rune_width_le [of input]
  by (auto simp: escape_block_def split: prod.splits)

lemma index_of_byte_less: "index_of_byte b s = Some i \<Longrightarrow> i < length s"
  by (induction s arbitrary: i) (auto split: if_splits)

lemma single_block_left: "left_over (single_block input buf) \<le> length input"
  by (auto simp: single_block_def dest: index_of_byte_less split: option.splits)

lemma double_loop_left: "left_over (double_loop input cur buf) \<le> length cur"
proof (induction input cur buf rule: double_loop.induct)
  case (1 input cur buf)
  show ?case
    using 1 rune_width_pos [of cur] rune_width_le [of cur]
    by (subst double_loop.simps) (auto simp: Let_def split: prod.splits, (force dest: le_trans)+)
qed

function run_jump :: "bool \<Rightarrow> jump \<Rightarrow> shell_error + string \<times> string" where
  "run_jump win (Goto_raw input buf) = run_jump win (raw_loop win input input buf)"
| "run_jump win (Goto_escape input buf) = run_jump win (escape_block input buf)"
| "run_jump win (Goto_single input buf) = run_jump win (single_block input buf)"
| "run_jump win (Goto_double input buf) = run_jump win (double_loop input input buf)"
| "run_jump win (Return_word word rest) = Inr (word, rest)"
| "run_jump win (Return_error e) = Inl e"
  by pat_completeness auto
termination
  by (relation "measure (\<lambda>(win, j). left_over j)")
    (auto simp: less_Suc_eq_le raw_loop_left escape_block_left single_block_left double_loop_left)

definition splitWord :: "bool \<Rightarrow> string \<Rightarrow> shell_error + string \<times> string" where
  "splitWord win input = run_jump win (Goto_raw input [])"

lemma run_jump_rest:
  "run_jump win j = Inr (word, rest) \<Longrightarrow> length rest \<le> left_over j"
proof (induction win j rule: run_jump.induct)
  case (1 win input buf)
  then show ?case using raw_loop_left [of win input input buf] by simp
next
  case (2 win input buf)
  then show ?case using escape_block_left [of input buf] by simp
next
  case (3 win input buf)
  then show ?case using single_block_left [of input buf] by simp
next
  case (4 win input buf)
  then show ?case using double_loop_left [of input input buf] by simp
qed auto

lemma raw_loop_return:
  "raw_loop win input cur buf = Return_word word rest \<Longrightarrow> cur \<noteq> [] \<Longrightarrow> length rest < length cur"
proof (induction win input cur buf rule: raw_loop.induct)
  case (1 win input cur buf)
  obtain c l where d: "decode_rune cur = (c, l)" by fastforce
  have l: "0 < l" "l \<le> length cur" using rune_width_pos [of cur] rune_width_le [of cur] 1(3) d by auto
  show ?case
  proof (cases "drop l cur = []")
    case True
    with 1(2,3) l show ?thesis
      by (auto simp: raw_loop.simps [of win input cur] raw_loop.simps [of win input "[]"] d split: if_splits)
  next
    case False
    with 1 l d have "c \<noteq> singleChar \<Longrightarrow> c \<noteq> doubleChar \<Longrightarrow> c \<noteq> escapeChar \<Longrightarrow>
        \<not> contains_rune splitChars c \<Longrightarrow> length rest < length (drop l cur)"
      by (simp add: raw_loop.simps [of win input cur])
    with 1(2,3) l show ?thesis
      by (auto simp: raw_loop.simps [of win input cur] d Let_def split: if_splits)
  qed
qed

lemma splitWord_rest: "splitWord win input = Inr (word, rest) \<Longrightarrow> input \<noteq> [] \<Longrightarrow> length rest < length input"
proof -
  assume a: "splitWord win input = Inr (word, rest)" and ne: "input \<noteq> []"
  let ?j = "raw_loop win input input []"
  have r: "run_jump win ?j = Inr (word, rest)" using a by (simp add: splitWord_def)
  have le: "left_over ?j \<le> length input" by (rule raw_loop_left)
  show ?thesis
  proof (cases "\<exists>w r. ?j = Return_word w r")
    case True
    with r raw_loop_return [of win input input "[]"] ne show ?thesis by auto
  next
    case False
    with r le run_jump_rest [of win] raw_loop_left [of win] escape_block_left single_block_left double_loop_left
    show ?thesis
      by (cases ?j) (auto, (meson Suc_le_lessD le_trans order_less_le_trans le_less_trans)+)
  qed
qed

text \<open>\<open>QuoteSplit\<close>: the words read so far are returned with the error.\<close>

function quote_loop :: "bool \<Rightarrow> string list \<Rightarrow> string \<Rightarrow> string list \<times> shell_error option" where
  "quote_loop win ws input =
     (if input = [] then (ws, None)
      else let (c, l) = decode_rune input; next = drop l input; (c2, l2) = decode_rune next in
        if contains_rune splitChars c then quote_loop win ws next
        else if c = escapeChar \<and> next = [] then (ws, Some UnterminatedEscapeError)
        else if c = escapeChar \<and> c2 = newlineChar then quote_loop win ws (drop l2 next)
        else case splitWord win input of
            Inl e \<Rightarrow> (ws, Some e)
          | Inr (word, rest) \<Rightarrow> quote_loop win (ws @ [word]) rest)"
  by pat_completeness auto
termination
  by (relation "measure (\<lambda>(win, ws, input). length input)")
    (auto dest: decode_pos splitWord_rest)

declare quote_loop.simps [simp del]

definition QuoteSplit :: "bool \<Rightarrow> string \<Rightarrow> string list \<times> shell_error option" where
  "QuoteSplit win input = quote_loop win [] input"

section \<open>One byte at a time\<close>

text \<open>
  The rules of the splitter as an automaton: between words, inside a word, after a backslash in
  either place, inside single or double quotes, and after a backslash in double quotes.
\<close>

datatype sh_mode = Gap | GapEsc | Raw | Esc | Single | Double | DoubleEsc

fun sh_step :: "bool \<Rightarrow> sh_mode \<times> string \<times> string list \<Rightarrow> char \<Rightarrow> sh_mode \<times> string \<times> string list" where
  "sh_step win (Gap, word, ws) c =
     (if contains_rune splitChars (byte c) then (Gap, [], ws)
      else if byte c = escapeChar then (GapEsc, [], ws)
      else if byte c = singleChar then (Single, [], ws)
      else if byte c = doubleChar then (Double, [], ws)
      else (Raw, [c], ws))"
| "sh_step win (GapEsc, word, ws) c =
     (if byte c = newlineChar then (Gap, [], ws)
      else (Raw, (if win then [char_of escapeChar] else []) @ [c], ws))"
| "sh_step win (Raw, word, ws) c =
     (if contains_rune splitChars (byte c) then (Gap, [], ws @ [word])
      else if byte c = escapeChar then (Esc, word @ (if win then [char_of escapeChar] else []), ws)
      else if byte c = singleChar then (Single, word, ws)
      else if byte c = doubleChar then (Double, word, ws)
      else (Raw, word @ [c], ws))"
| "sh_step win (Esc, word, ws) c =
     (Raw, if byte c = newlineChar then word else word @ [c], ws)"
| "sh_step win (Single, word, ws) c =
     (if byte c = singleChar then (Raw, word, ws) else (Single, word @ [c], ws))"
| "sh_step win (Double, word, ws) c =
     (if byte c = doubleChar then (Raw, word, ws)
      else if byte c = escapeChar then (DoubleEsc, word, ws)
      else (Double, word @ [c], ws))"
| "sh_step win (DoubleEsc, word, ws) c =
     (Double,
      if byte c = newlineChar then word
      else if contains_rune doubleEscapeChars (byte c) then word @ [c]
      else word @ [char_of escapeChar, c], ws)"

fun sh_finish :: "sh_mode \<times> string \<times> string list \<Rightarrow> string list \<times> shell_error option" where
  "sh_finish (Gap, word, ws) = (ws, None)"
| "sh_finish (GapEsc, word, ws) = (ws, Some UnterminatedEscapeError)"
| "sh_finish (Raw, word, ws) = (ws @ [word], None)"
| "sh_finish (Esc, word, ws) = (ws, Some UnterminatedEscapeError)"
| "sh_finish (Single, word, ws) = (ws, Some UnterminatedSingleQuoteError)"
| "sh_finish (Double, word, ws) = (ws, Some UnterminatedDoubleQuoteError)"
| "sh_finish (DoubleEsc, word, ws) = (ws, Some UnterminatedDoubleQuoteError)"

definition scan :: "bool \<Rightarrow> sh_mode \<Rightarrow> string \<Rightarrow> string list \<Rightarrow> string \<Rightarrow> string list \<times> shell_error option" where
  "scan win m word ws s = sh_finish (foldl (sh_step win) (m, word, ws) s)"

definition sh_split :: "bool \<Rightarrow> string \<Rightarrow> string list \<times> shell_error option" where
  "sh_split win s = scan win Gap [] [] s"

lemmas shell_chars = singleChar_def doubleChar_def escapeChar_def newlineChar_def

lemma scan_Nil [simp]: "scan win m word ws [] = sh_finish (m, word, ws)"
  by (simp add: scan_def)

lemma scan_Cons [simp]:
  "scan win m word ws (c # s) =
     (case sh_step win (m, word, ws) c of (m, word, ws) \<Rightarrow> scan win m word ws s)"
  by (auto simp: scan_def split: prod.splits)

lemma splitChars_low: "contains_rune splitChars c \<Longrightarrow> c < 128 \<and> c \<noteq> singleChar \<and> c \<noteq> doubleChar \<and> c \<noteq> escapeChar"
  by (auto simp: contains_rune_def splitChars_def shell_chars)

lemma doubleEscapeChars_low: "contains_rune doubleEscapeChars c \<Longrightarrow> c < 128"
  by (auto simp: contains_rune_def doubleEscapeChars_def)

lemma shell_distinct [simp]:
  "singleChar \<noteq> doubleChar" "doubleChar \<noteq> singleChar" "escapeChar \<noteq> singleChar" "singleChar \<noteq> escapeChar"
  "escapeChar \<noteq> doubleChar" "doubleChar \<noteq> escapeChar" "\<not> contains_rune splitChars singleChar"
  "\<not> contains_rune splitChars doubleChar" "\<not> contains_rune splitChars escapeChar"
  by (auto simp: contains_rune_def splitChars_def shell_chars)

lemma newline_escapes: "contains_rune doubleEscapeChars newlineChar"
  by (auto simp: contains_rune_def doubleEscapeChars_def shell_chars)

text \<open>A rune is an ASCII byte or a run of bytes from 128 on.\<close>

lemma decode_high: "s \<noteq> [] \<Longrightarrow> 128 \<le> byte (hd s) \<Longrightarrow>
  128 \<le> fst (decode_rune s) \<and> (\<forall>c \<in> set (take (rune_width s) s). 128 \<le> byte c)"
proof -
  assume ne: "s \<noteq> []" and hi: "128 \<le> byte (hd s)"
  obtain a t where s: "s = a # t" using ne by (cases s) auto
  show ?thesis
  proof (cases "rune_ok s")
    case False
    then have "decode_rune s = (rune_error, 1)" by (simp add: rune_ok_def)
    with hi s show ?thesis by (simp add: rune_error_def)
  next
    case True
    then show ?thesis using ne
    proof (cases rule: rune_ok_cases)
      case one
      with hi s show ?thesis by simp
    next
      case (multi sz lo hi')
      have szs: "sz = 2 \<or> sz = 3 \<or> sz = 4" using first_info_size [OF multi(1)] by auto
      have b: "128 \<le> byte (s ! i)" if "i < sz" for i
      proof -
        consider "i = 0" | "i = 1" | "2 \<le> i" by linarith
        then show ?thesis
          using multi(4) multi(6) [of i] first_info_hi [OF multi(1)] hi s that by cases auto
      qed
      have all: "\<forall>c \<in> set (take (rune_width s) s). 128 \<le> byte c"
        using b multi(2) by (auto simp: in_set_conv_nth)
      have "128 \<le> fst (decode_rune s)"
      proof (rule ccontr)
        assume "\<not> 128 \<le> fst (decode_rune s)"
        then have "take (rune_width s) s = [char_of (fst (decode_rune s))]"
          using encode_decode [OF True ne] by (simp add: encode_rune_def)
        with hi s multi(2,3) szs show False by (auto simp: take_Cons')
      qed
      with all show ?thesis by blast
    qed
  qed
qed

lemma decode_cases:
  assumes "s \<noteq> []"
  obtains (ascii) a t where "s = a # t" "byte a < 128" "decode_rune s = (byte a, 1)"
  | (high) p t c where "s = p @ t" "p \<noteq> []" "decode_rune s = (c, length p)" "128 \<le> c"
      "\<forall>x \<in> set p. 128 \<le> byte x"
proof (cases "byte (hd s) < 128")
  case True
  with assms show thesis by (intro ascii [of "hd s" "tl s"]) (cases s; simp add: decode_rune_def)+
next
  case False
  let ?n = "rune_width s"
  have "length (take ?n s) = ?n" using rune_width_le [of s] by simp
  with False assms decode_high [OF assms] rune_width_pos [OF assms] show thesis
    by (intro high [of "take ?n s" "drop ?n s" "fst (decode_rune s)"]) (auto simp: not_less)
qed

lemma high_not_special:
  "128 \<le> c \<Longrightarrow> c \<noteq> singleChar \<and> c \<noteq> doubleChar \<and> c \<noteq> escapeChar \<and> c \<noteq> newlineChar \<and>
     \<not> contains_rune splitChars c \<and> \<not> contains_rune doubleEscapeChars c"
  using splitChars_low [of c] doubleEscapeChars_low [of c] by (auto simp: shell_chars)

lemma scan_high:
  "\<forall>x \<in> set p. 128 \<le> byte x \<Longrightarrow> scan win Raw word ws (p @ t) = scan win Raw (word @ p) ws t"
  "\<forall>x \<in> set p. 128 \<le> byte x \<Longrightarrow> scan win Double word ws (p @ t) = scan win Double (word @ p) ws t"
  by (induction p arbitrary: word) (simp_all add: high_not_special)

text \<open>What is left of the automaton's run after a jump of the splitter.\<close>

fun jump_scan :: "bool \<Rightarrow> string list \<Rightarrow> jump \<Rightarrow> string list \<times> shell_error option" where
  "jump_scan win ws (Goto_raw input buf) = scan win Raw buf ws input"
| "jump_scan win ws (Goto_escape input buf) = scan win Esc buf ws input"
| "jump_scan win ws (Goto_single input buf) = scan win Single buf ws input"
| "jump_scan win ws (Goto_double input buf) = scan win Double buf ws input"
| "jump_scan win ws (Return_word word rest) = scan win Gap [] (ws @ [word]) rest"
| "jump_scan win ws (Return_error e) = (ws, Some e)"

lemma consumed_prefix: "consumed (pre @ p @ t) t (length p) = pre"
  by (simp add: consumed_def)

lemma raw_loop_scan:
  "input = pre @ cur \<Longrightarrow> jump_scan win ws (raw_loop win input cur buf) = scan win Raw (buf @ pre) ws cur"
proof (induction "length cur" arbitrary: pre cur rule: less_induct)
  case less
  show ?case
  proof (cases "cur = []")
    case True
    then show ?thesis using less.prems by (simp add: raw_loop.simps)
  next
    case False
    then show ?thesis
    proof (cases rule: decode_cases)
      case (ascii a t)
      have c1: "consumed input t (Suc 0) = pre"
        using consumed_prefix [of pre "[a]" t] less.prems ascii(1) by simp
      have c2: "take (length input - length t - 1 + 1) input = pre @ [a]"
        using less.prems ascii(1) by simp
      have "jump_scan win ws (raw_loop win input t buf) = scan win Raw (buf @ pre @ [a]) ws t"
        using less.hyps [of t "pre @ [a]"] less.prems ascii(1) by simp
      moreover have "byte a = escapeChar \<Longrightarrow> a = char_of escapeChar"
        using char_eq_byte [of escapeChar a] by simp
      moreover have "drop (Suc 0) cur = t" using ascii(1) by simp
      moreover note d = ascii(3) splitChars_low [of "byte a"] c1 c2 False
      consider "contains_rune splitChars (byte a)" | "byte a = singleChar" | "byte a = doubleChar"
        | "byte a = escapeChar" | "\<not> contains_rune splitChars (byte a)" "byte a \<noteq> singleChar"
          "byte a \<noteq> doubleChar" "byte a \<noteq> escapeChar" by blast
      then show ?thesis
        using calculation d
        by cases (simp_all add: raw_loop.simps [of win input cur] Let_def, simp_all add: ascii(1))
    next
      case (high p t c)
      have "jump_scan win ws (raw_loop win input t buf) = scan win Raw (buf @ pre @ p) ws t"
        using less.hyps [of t "pre @ p"] less.prems high(1,2) by simp
      moreover have "drop (length p) cur = t" using high(1) by simp
      ultimately show ?thesis using high(3,4,5)
        by (simp add: raw_loop.simps [of win input cur] False high_not_special Let_def)
          (simp add: high(1) scan_high)
    qed
  qed
qed

lemma escape_block_scan: "jump_scan win ws (escape_block input buf) = scan win Esc buf ws input"
proof (cases "input = []")
  case True
  then show ?thesis by (simp add: escape_block_def)
next
  case False
  then show ?thesis
  proof (cases rule: decode_cases)
    case (ascii a t)
    then show ?thesis by (simp add: escape_block_def)
  next
    case (high p t c)
    then obtain x q where p: "p = x # q" by (cases p) auto
    with high show ?thesis
      by (simp add: escape_block_def high_not_special scan_high)
  qed
qed

lemma single_block_scan: "jump_scan win ws (single_block input buf) = scan win Single buf ws input"
proof (induction input arbitrary: buf)
  case Nil
  then show ?case by (simp add: single_block_def)
next
  case (Cons c s)
  show ?case
    using Cons.IH [of "buf @ [c]"] by (auto simp: single_block_def split: option.splits)
qed

lemma encode_byte: "byte a < 128 \<Longrightarrow> encode_rune (byte a) = [a]"
  by (simp add: encode_rune_def)

lemma double_loop_scan:
  "input = pre @ cur \<Longrightarrow> jump_scan win ws (double_loop input cur buf) = scan win Double (buf @ pre) ws cur"
proof (induction "length cur" arbitrary: input pre cur buf rule: less_induct)
  case less
  show ?case
  proof (cases "cur = []")
    case True
    then show ?thesis by (simp add: double_loop.simps)
  next
    case False
    then show ?thesis
    proof (cases rule: decode_cases)
      case (high p t c)
      have "jump_scan win ws (double_loop input t buf) = scan win Double (buf @ pre @ p) ws t"
        using less.hyps [of t input "pre @ p"] less.prems high(1,2) by simp
      moreover have "drop (length p) cur = t" using high(1) by simp
      ultimately show ?thesis using high(3,4,5)
        by (simp add: double_loop.simps [of input cur] False high_not_special Let_def)
          (simp add: high(1) scan_high)
    next
      case (ascii a t)
      have c1: "consumed input t (Suc 0) = pre"
        using consumed_prefix [of pre "[a]" t] less.prems ascii(1) by simp
      have dr: "drop (Suc 0) cur = t" using ascii(1) by simp
      note d = ascii(3) c1 dr False
      consider "byte a = doubleChar" | "byte a = escapeChar" | "byte a \<noteq> doubleChar" "byte a \<noteq> escapeChar"
        by blast
      then show ?thesis
      proof cases
        case 1
        with d show ?thesis
          by (simp add: double_loop.simps [of input cur] Let_def) (simp add: ascii(1))
      next
        case 3
        have "jump_scan win ws (double_loop input t buf) = scan win Double (buf @ pre @ [a]) ws t"
          using less.hyps [of t input "pre @ [a]"] less.prems ascii(1) by simp
        with 3 d show ?thesis
          by (simp add: double_loop.simps [of input cur] Let_def) (simp add: ascii(1))
      next
        case 2
        have a: "a = char_of escapeChar" using 2 char_eq_byte [of escapeChar a] by simp
        show ?thesis
        proof (cases "t = []")
          case True
          with 2 d show ?thesis
            by (simp add: double_loop.simps [of input cur] double_loop.simps [of input "[]"] Let_def)
              (simp add: ascii(1) decode_rune_def contains_rune_def doubleEscapeChars_def
                rune_error_def double_loop.simps)
        next
          case tne: False
          then show ?thesis
          proof (cases rule: decode_cases)
            case (high p u c)
            have "jump_scan win ws (double_loop input u buf) = scan win Double (buf @ pre @ a # p) ws u"
              using less.hyps [of u input "pre @ a # p"] less.prems ascii(1) high(1) by simp
            moreover have "drop (length p) t = u" using high(1) by simp
            moreover obtain x q where "p = x # q" using high(2) by (cases p) auto
            ultimately show ?thesis using 2 d high(3,4,5)
              by (simp add: double_loop.simps [of input cur] high_not_special Let_def)
                (simp add: ascii(1) high(1) high_not_special scan_high a)
          next
            case (ascii b u)
            have "consumed input u (Suc (Suc 0)) = pre"
              using consumed_prefix [of pre "[a, b]" u] less.prems \<open>cur = a # t\<close> ascii(1) by simp
            moreover have "jump_scan win ws (double_loop u u w) = scan win Double w ws u" for w
              using less.hyps [of u u "[]" w] \<open>cur = a # t\<close> ascii(1) by simp
            moreover have "jump_scan win ws (double_loop input u buf) =
                scan win Double (buf @ pre @ [a, b]) ws u"
              using less.hyps [of u input "pre @ [a, b]"] less.prems \<open>cur = a # t\<close> ascii(1) by simp
            moreover have "drop (Suc 0) t = u" using ascii(1) by simp
            ultimately show ?thesis using 2 d ascii(2,3) newline_escapes
              by (simp add: double_loop.simps [of input cur] Let_def encode_byte)
                (auto simp: \<open>cur = a # t\<close> ascii(1) a)
          qed
        qed
      qed
    qed
  qed
qed

lemma run_jump_scan:
  "(case run_jump win j of
      Inl e \<Rightarrow> (ws, Some e)
    | Inr (word, rest) \<Rightarrow> scan win Gap [] (ws @ [word]) rest) = jump_scan win ws j"
proof (induction win j rule: run_jump.induct)
  case (1 win input buf)
  then show ?case using raw_loop_scan [of input "[]" input] by simp
next
  case (2 win input buf)
  then show ?case by (simp add: escape_block_scan)
next
  case (3 win input buf)
  then show ?case by (simp add: single_block_scan)
next
  case (4 win input buf)
  then show ?case using double_loop_scan [of input "[]" input] by simp
qed auto

lemma splitWord_scan:
  "(case splitWord win input of
      Inl e \<Rightarrow> (ws, Some e)
    | Inr (word, rest) \<Rightarrow> scan win Gap [] (ws @ [word]) rest) = scan win Raw [] ws input"
  using run_jump_scan [of ws win "Goto_raw input []"] by (simp add: splitWord_def)

lemma scan_Gap_word: "scan win Gap word ws s = scan win Gap [] ws s"
  by (cases s) simp_all

lemma scan_Gap_Raw:
  assumes "s \<noteq> []" "\<not> contains_rune splitChars (byte (hd s))"
    and "byte (hd s) = escapeChar \<longrightarrow> tl s \<noteq> [] \<and> byte (hd (tl s)) \<noteq> newlineChar"
  shows "scan win Gap [] ws s = scan win Raw [] ws s"
proof -
  obtain a t where s: "s = a # t" using assms(1) by (cases s) auto
  have "byte a = escapeChar \<Longrightarrow> \<exists>b u. t = b # u \<and> byte b \<noteq> newlineChar"
    using assms(3) s by (cases t) auto
  then show ?thesis using assms(2) s by (cases "byte a = escapeChar") auto
qed

lemma decode_newline:
  "s \<noteq> [] \<Longrightarrow> byte (hd s) = newlineChar \<longleftrightarrow> fst (decode_rune s) = newlineChar"
  "s \<noteq> [] \<Longrightarrow> byte (hd s) = newlineChar \<Longrightarrow> decode_rune s = (newlineChar, 1)"
proof -
  assume ne: "s \<noteq> []"
  then show "byte (hd s) = newlineChar \<longleftrightarrow> fst (decode_rune s) = newlineChar"
  proof (cases rule: decode_cases)
    case (high p t c)
    then have "128 \<le> byte (hd s)" by (cases p) auto
    with high show ?thesis using high_not_special by auto
  qed auto
  show "byte (hd s) = newlineChar \<Longrightarrow> decode_rune s = (newlineChar, 1)"
    using ne by (cases s) (auto simp: decode_rune_def newlineChar_def)
qed

lemma quote_loop_scan: "quote_loop win ws input = scan win Gap [] ws input"
proof (induction win ws input rule: quote_loop.induct)
  case (1 win ws input)
  show ?case
  proof (cases "input = []")
    case True
    then show ?thesis by (simp add: quote_loop.simps)
  next
    case ne: False
    have word: "(case splitWord win input of
          Inl e \<Rightarrow> (ws, Some e)
        | Inr (word, rest) \<Rightarrow> quote_loop win (ws @ [word]) rest) = scan win Raw [] ws input"
      if "\<not> contains_rune splitChars (fst (decode_rune input))"
        "\<not> (fst (decode_rune input) = escapeChar \<and> drop (rune_width input) input = [])"
        "\<not> (fst (decode_rune input) = escapeChar \<and>
            fst (decode_rune (drop (rune_width input) input)) = newlineChar)"
      using that ne 1(3) splitWord_scan [of ws win input]
      by (cases "decode_rune input"; cases "decode_rune (drop (rune_width input) input)")
        (auto split: sum.splits)
    from ne show ?thesis
    proof (cases rule: decode_cases)
      case (high p t c)
      then have "p \<noteq> []" "\<forall>x \<in> set p. 128 \<le> byte x" by auto
      then have "128 \<le> byte (hd input)" using high(1) by (cases p) auto
      then have "scan win Gap [] ws input = scan win Raw [] ws input"
        using ne high_not_special by (intro scan_Gap_Raw) auto
      then show ?thesis using word high(3,4) ne
        by (simp add: quote_loop.simps [of win ws input] high_not_special case_prod_unfold Let_def)
    next
      case (ascii a t)
      then have t: "drop (rune_width input) input = t" by simp
      consider (sep) "contains_rune splitChars (byte a)" | (trailing) "byte a = escapeChar" "t = []"
        | (elided) "byte a = escapeChar" "t \<noteq> []" "byte (hd t) = newlineChar"
        | (word) "\<not> contains_rune splitChars (byte a)"
            "byte a = escapeChar \<longrightarrow> t \<noteq> [] \<and> byte (hd t) \<noteq> newlineChar" by blast
      then show ?thesis
      proof cases
        case sep
        then have "quote_loop win ws t = scan win Gap [] ws t"
          using 1(1) ne ascii t by (cases "decode_rune t") simp
        then show ?thesis using sep ascii(3) t ne
          by (simp add: quote_loop.simps [of win ws input] case_prod_unfold Let_def)
            (simp add: ascii(1))
      next
        case trailing
        then show ?thesis using ascii by (simp add: quote_loop.simps)
      next
        case elided
        then obtain b u where u: "t = b # u" by (cases t) auto
        have d: "decode_rune t = (newlineChar, 1)"
          using decode_newline(2) [OF elided(2)] elided(3) by simp
        then have "quote_loop win ws u = scan win Gap [] ws u"
          using 1(2) elided(1,2) ne ascii t u by simp
        then show ?thesis using elided ascii(3) t d u ne
          by (simp add: quote_loop.simps [of win ws input] case_prod_unfold Let_def)
            (simp add: ascii(1))
      next
        case w: word
        have nn: "byte a = escapeChar \<longrightarrow> fst (decode_rune t) \<noteq> newlineChar"
          using w(2) decode_newline [of t] by auto
        have "scan win Gap [] ws input = scan win Raw [] ws input"
          using w ascii(1) by (intro scan_Gap_Raw) auto
        moreover have "(case splitWord win input of
            Inl e \<Rightarrow> (ws, Some e)
          | Inr (word, rest) \<Rightarrow> quote_loop win (ws @ [word]) rest) = scan win Raw [] ws input"
          by (rule word) (use w nn ascii(3) t in auto)
        ultimately show ?thesis using w nn ascii(3) t ne
          by (auto simp: quote_loop.simps [of win ws input] case_prod_unfold Let_def)
      qed
    qed
  qed
qed

text \<open>
  C29. The splitter is equal, on every input of every length and on either operating system, to
  the automaton that reads one byte at a time: the words, the error and the words returned beside
  an error are the same, and the splitter always returns.
\<close>

theorem split_is_automaton:
  "QuoteSplit win input = sh_split win input"
  by (simp add: QuoteSplit_def sh_split_def quote_loop_scan)

section \<open>Quoting\<close>

text \<open>
  The usual way to write an argument so that the splitter returns it unchanged: single quotes
  around it, and every single quote of the argument as \<open>'\''\<close>.
\<close>

definition quote_byte :: "char \<Rightarrow> string" where
  "quote_byte c = (if byte c = singleChar then [CHR 0x27, CHR 0x5C, CHR 0x27, CHR 0x27] else [c])"

definition single_quote :: "string \<Rightarrow> string" where
  "single_quote w = CHR 0x27 # concat (map quote_byte w) @ [CHR 0x27]"

definition command_line :: "string list \<Rightarrow> string" where
  "command_line ws = join [CHR 0x20] (map single_quote ws)"

lemma special_bytes:
  "byte (CHR 0x27) = singleChar" "byte (CHR 0x5C) = escapeChar" "byte (CHR 0x20) = 32"
  by (simp_all add: byte_def shell_chars)

lemma special_chars: "char_of singleChar = CHR 0x27" "char_of escapeChar = CHR 0x5C"
  unfolding special_bytes [symmetric] by simp_all

lemma space_splits: "contains_rune splitChars 32"
  by (simp add: contains_rune_def splitChars_def)

lemma scan_quoted:
  "scan False Single word ws (concat (map quote_byte w) @ t) = scan False Single (word @ w) ws t"
proof (induction w arbitrary: word)
  case Nil
  then show ?case by simp
next
  case (Cons c w)
  have "c = CHR 0x27" if "byte c = singleChar"
    using char_eq_byte [of singleChar c] that special_chars(1) by simp
  moreover have "singleChar \<noteq> newlineChar" by (simp add: shell_chars)
  ultimately show ?case
    using Cons.IH [of "word @ [c]"] special_bytes by (auto simp: quote_byte_def)
qed

lemma scan_single_quote:
  "scan False Gap [] ws (single_quote w @ t) = scan False Raw w ws t"
  by (simp add: single_quote_def special_bytes scan_quoted)

lemma scan_command_line: "scan False Gap [] ws (command_line vs) = (ws @ vs, None)"
proof (induction vs arbitrary: ws)
  case Nil
  then show ?case by (simp add: command_line_def)
next
  case (Cons v vs)
  show ?case
  proof (cases vs)
    case Nil
    then show ?thesis using scan_single_quote [of ws v "[]"] by (simp add: command_line_def)
  next
    case (Cons u us)
    then have "command_line (v # vs) = single_quote v @ CHR 0x20 # command_line vs"
      by (simp add: command_line_def)
    then show ?thesis
      using Cons.IH [of "ws @ [v]"] by (simp add: scan_single_quote special_bytes space_splits)
  qed
qed


text \<open>The splitter on the inputs at its edges: empty words, elided newlines, the two error values.\<close>

lemma split_examples:
  "QuoteSplit False [] = ([], None)"
  "QuoteSplit False (CHR 0x27 # CHR 0x27 # []) = ([[]], None)"
  "QuoteSplit False (''a'' @ [CHR 0x5C, CHR 0x0A] @ ''b c'') = ([''ab'', ''c''], None)"
  "QuoteSplit False (''a b'' @ [CHR 0x5C]) = ([''a''], Some UnterminatedEscapeError)"
  "QuoteSplit True (''a'' @ [CHR 0x5C] @ ''b'') = ([''a'' @ [CHR 0x5C] @ ''b''], None)"
  unfolding QuoteSplit_def quote_loop_scan by code_simp+

section \<open>Running a command line\<close>

text \<open>
  \<open>cmdx.CommandRun\<close>: the process is the environment's.  \<open>pr_start\<close> is the error of
  \<open>cmd.Start\<close>; \<open>pr_wait\<close> what \<open>CmdWait\<close> returns, the error and whether the timeout came first;
  \<open>pr_out\<close> and \<open>pr_errs\<close> are the two buffers the process filled.
\<close>

record process =
  pr_start :: "string option"
  pr_wait :: "string option \<times> bool"
  pr_out :: string
  pr_errs :: string

definition RunTimeout :: "process \<Rightarrow> string option \<times> bool" where
  "RunTimeout p = (case pr_start p of Some e \<Rightarrow> (Some e, False) | None \<Rightarrow> pr_wait p)"

text \<open>\<open>ReadBytes(0x0D)\<close> in a loop: the piece up to and with the first CR, trimmed of its CRs.\<close>

fun read_bytes :: "char \<Rightarrow> string \<Rightarrow> string \<times> string \<times> bool" where
  "read_bytes d [] = ([], [], True)"
| "read_bytes d (c # s) =
     (if c = d then ([c], s, False)
      else case read_bytes d s of (w, rest, eof) \<Rightarrow> (c # w, rest, eof))"

lemma read_bytes_shrinks: "read_bytes d s = (w, rest, False) \<Longrightarrow> length rest < length s"
  by (induction s arbitrary: w rest) (auto split: if_splits prod.splits)

function cr_loop :: "string \<Rightarrow> string \<Rightarrow> string" where
  "cr_loop b buf =
     (let (byt, rest, eof) = read_bytes (CHR 0x0D) b; buf = buf @ trim_right {CHR 0x0D} byt in
      if eof then buf else cr_loop rest buf)"
  by pat_completeness auto
termination
  by (relation "measure (\<lambda>(b, buf). length b)") (auto dest!: read_bytes_shrinks [OF sym])

declare cr_loop.simps [simp del]

definition RemoveWindowsCarriageReturns :: "bool \<Rightarrow> string \<Rightarrow> string" where
  "RemoveWindowsCarriageReturns win b = (if win then cr_loop b [] else b)"

fun shell_error_text :: "shell_error option \<Rightarrow> string" where
  "shell_error_text (Some UnterminatedSingleQuoteError) = ''Unterminated single-quoted string''"
| "shell_error_text (Some UnterminatedDoubleQuoteError) = ''Unterminated double-quoted string''"
| "shell_error_text (Some UnterminatedEscapeError) = ''Unterminated backslash-escape''"
| "shell_error_text None = ''%!s(<nil>)''"

definition CommandRun :: "bool \<Rightarrow> (string \<Rightarrow> string list \<Rightarrow> process) \<Rightarrow> string \<Rightarrow> string \<times> string \<times> string option" where
  "CommandRun win exec command =
     (case QuoteSplit win command of
        (ws, Some e) \<Rightarrow> ([], [], Some (''exec: unable to parse command, '' @ shell_error_text (Some e)))
      | ([], None) \<Rightarrow> ([], [], Some (''exec: unable to parse command, '' @ shell_error_text None))
      | (name # args, None) \<Rightarrow>
          (let p = exec name args; (err, timed_out) = RunTimeout p in
           if timed_out then ([], [], Some (''exec '' @ command @ '' timeout''))
           else (RemoveWindowsCarriageReturns win (pr_out p),
                 (if pr_errs p \<noteq> [] then RemoveWindowsCarriageReturns win (pr_errs p) else pr_errs p), err)))"

lemma read_bytes_spec:
  "read_bytes d s = (w, rest, eof) \<Longrightarrow>
     trim_right {d} w = filter (\<lambda>c. c \<noteq> d) w \<and> s = w @ rest \<and> (eof \<longrightarrow> rest = [])"
proof (induction s arbitrary: w rest eof)
  case Nil
  then show ?case by simp
next
  case (Cons c s)
  have *: "trim_right {d} (c # v) = c # trim_right {d} v" if "c \<noteq> d" for v
  proof (cases "dropWhile (\<lambda>c. c = d) (rev v) = []")
    case True
    then have "\<forall>x \<in> set (rev v). x = d" by (simp add: dropWhile_eq_Nil_conv)
    with that show ?thesis by (auto simp: dropWhile_append)
  next
    case False
    then show ?thesis by (simp add: dropWhile_append dropWhile_eq_Nil_conv)
  qed
  show ?case
  proof (cases "c = d")
    case True
    with Cons.prems show ?thesis by auto
  next
    case False
    with Cons.prems Cons.IH * show ?thesis
      by (cases "read_bytes d s") (auto simp del: trim_right.simps)
  qed
qed

lemma cr_loop_spec: "cr_loop b buf = buf @ filter (\<lambda>c. c \<noteq> CHR 0x0D) b"
proof (induction b buf rule: cr_loop.induct)
  case (1 b buf)
  obtain w rest eof where r: "read_bytes (CHR 0x0D) b = (w, rest, eof)" by (cases "read_bytes (CHR 0x0D) b") auto
  note sp = read_bytes_spec [OF r]
  have b: "filter (\<lambda>c. c \<noteq> CHR 0x0D) b = filter (\<lambda>c. c \<noteq> CHR 0x0D) w @ filter (\<lambda>c. c \<noteq> CHR 0x0D) rest"
    using sp by simp
  show ?case
  proof (cases eof)
    case True
    then have "cr_loop b buf = buf @ trim_right {CHR 0x0D} w"
      using r by (simp add: cr_loop.simps [of b] del: trim_right.simps)
    with sp b True show ?thesis by simp
  next
    case False
    then have "cr_loop b buf = cr_loop rest (buf @ trim_right {CHR 0x0D} w)"
      using r by (simp add: cr_loop.simps [of b] del: trim_right.simps)
    with sp b False 1 [OF r [symmetric]] show ?thesis by simp
  qed
qed

lemma remove_returns:
  "RemoveWindowsCarriageReturns win b = (if win then filter (\<lambda>c. c \<noteq> CHR 0x0D) b else b)"
  by (simp add: RemoveWindowsCarriageReturns_def cr_loop_spec)

text \<open>
  A command line made of quoted arguments starts exactly the named program with exactly those
  arguments, and its output comes back unchanged, unless the time is up; the empty command line
  starts nothing.
\<close>

theorem command_runs_arguments:
  assumes "RunTimeout (exec name args) = (err, late)"
  shows "CommandRun False exec (command_line (name # args)) =
      (if late then ([], [], Some (''exec '' @ command_line (name # args) @ '' timeout''))
       else (pr_out (exec name args), pr_errs (exec name args), err))"
    and "CommandRun win exec [] = ([], [], Some ''exec: unable to parse command, %!s(<nil>)'')"
  using assms
  by (auto simp: CommandRun_def QuoteSplit_def quote_loop_scan scan_command_line remove_returns Let_def)

end
