(* ===== verification/McpClient.thy ===== *)
theory McpClient
  imports Protocol
begin

text \<open>
  The client of one MCP server process: the JSON-RPC messages and tool descriptions of
  \<open>mcp/types.go\<close> and the calls of \<open>mcp/client.go\<close>.  The process is the environment's: what the
  reader of a call delivers, the errors of writes, the JSON text and its parse errors are
  parameters.  The last part lets calls, the readers they start, the server and the ends of
  contexts take their steps in every order; there the reader that a cancelled call leaves behind
  matters.
\<close>

section \<open>Messages\<close>

definition protocolVersion :: string where
  "protocolVersion = ''2024-11-05''"

record jsonrpc_request =
  rq_id :: int
  rq_method :: string
  rq_params :: "json option"

definition encode_request :: "jsonrpc_request \<Rightarrow> json" where
  "encode_request r =
     JObj ([(''jsonrpc'', JStr ''2.0'')]
       @ (if rq_id r = 0 then [] else [(''id'', JNum (itoa (rq_id r)))])
       @ [(''method'', JStr (rq_method r))]
       @ (case rq_params r of None \<Rightarrow> [] | Some j \<Rightarrow> [(''params'', j)]))"

record jsonrpc_error =
  je_code :: int
  je_message :: string

definition error_fields :: "(string \<times> (json \<Rightarrow> jsonrpc_error \<Rightarrow> jsonrpc_error option)) list" where
  "error_fields =
     [(''code'', int_field (\<lambda>i e. e\<lparr>je_code := i\<rparr>)), (''message'', str_field (\<lambda>s e. e\<lparr>je_message := s\<rparr>))]"

record jsonrpc_response =
  rs_jsonrpc :: string
  rs_id :: int
  rs_result :: "json option"
  rs_error :: "jsonrpc_error option"

text \<open>A pointer to a struct: null makes it nil, an object fills what it points to.\<close>

definition error_field :: "json \<Rightarrow> jsonrpc_response \<Rightarrow> jsonrpc_response option" where
  "error_field j r =
     (case j of
        JNull \<Rightarrow> Some (r\<lparr>rs_error := None\<rparr>)
      | JObj kvs \<Rightarrow>
          map_option (\<lambda>e. r\<lparr>rs_error := Some e\<rparr>)
            (set_members error_fields kvs
              (case rs_error r of None \<Rightarrow> \<lparr>je_code = 0, je_message = ''''\<rparr> | Some e \<Rightarrow> e))
      | _ \<Rightarrow> None)"

definition decode_response :: "json \<Rightarrow> jsonrpc_response option" where
  "decode_response =
     decode_struct
       [(''jsonrpc'', str_field (\<lambda>s r. r\<lparr>rs_jsonrpc := s\<rparr>)), (''id'', int_field (\<lambda>i r. r\<lparr>rs_id := i\<rparr>)),
        (''result'', raw_field (\<lambda>j r. r\<lparr>rs_result := Some j\<rparr>)), (''error'', error_field)]
       \<lparr>rs_jsonrpc = '''', rs_id = 0, rs_result = None, rs_error = None\<rparr>"

text \<open>
  A slice field: null makes it nil, an array replaces it (also a repeated one), a nested struct
  is filled in place.
\<close>

fun decode_all :: "(json \<Rightarrow> 'a option) \<Rightarrow> json list \<Rightarrow> 'a list option" where
  "decode_all dec [] = Some []"
| "decode_all dec (j # js) =
     (case dec j of None \<Rightarrow> None | Some x \<Rightarrow> map_option (\<lambda>xs. x # xs) (decode_all dec js))"

definition list_field :: "(json \<Rightarrow> 'b option) \<Rightarrow> ('b list \<Rightarrow> 'a \<Rightarrow> 'a) \<Rightarrow> json \<Rightarrow> 'a \<Rightarrow> 'a option" where
  "list_field dec upd j v =
     (case j of
        JNull \<Rightarrow> Some (upd [] v)
      | JArr js \<Rightarrow> map_option (\<lambda>xs. upd xs v) (decode_all dec js)
      | _ \<Rightarrow> None)"

record implementation_id =
  im_name :: string
  im_version :: string

definition encode_implementation :: "implementation_id \<Rightarrow> json" where
  "encode_implementation i = JObj ([(''name'', JStr (im_name i))] @ omit_str ''version'' (im_version i))"

definition implementation_fields :: "(string \<times> (json \<Rightarrow> implementation_id \<Rightarrow> implementation_id option)) list" where
  "implementation_fields =
     [(''name'', str_field (\<lambda>s i. i\<lparr>im_name := s\<rparr>)), (''version'', str_field (\<lambda>s i. i\<lparr>im_version := s\<rparr>))]"

text \<open>\<open>clientCaps\<close> is an empty struct.\<close>

record initialize_params =
  ip_version :: string
  ip_client :: implementation_id

definition encode_initialize :: "initialize_params \<Rightarrow> json" where
  "encode_initialize p =
     JObj [(''protocolVersion'', JStr (ip_version p)), (''capabilities'', JObj []),
           (''clientInfo'', encode_implementation (ip_client p))]"

record initialize_result =
  ir_version :: string
  ir_server :: implementation_id

definition server_info_field :: "json \<Rightarrow> initialize_result \<Rightarrow> initialize_result option" where
  "server_info_field j r =
     map_option (\<lambda>i. r\<lparr>ir_server := i\<rparr>) (decode_struct implementation_fields (ir_server r) j)"

definition decode_initialize :: "json \<Rightarrow> initialize_result option" where
  "decode_initialize =
     decode_struct
       [(''protocolversion'', str_field (\<lambda>s r. r\<lparr>ir_version := s\<rparr>)), (''serverinfo'', server_info_field)]
       \<lparr>ir_version = '''', ir_server = \<lparr>im_name = '''', im_version = ''''\<rparr>\<rparr>"

record mcp_tool =
  mt_name :: string
  mt_description :: string
  mt_schema :: "json option"

definition decode_tool :: "json \<Rightarrow> mcp_tool option" where
  "decode_tool =
     decode_struct
       [(''name'', str_field (\<lambda>s t. t\<lparr>mt_name := s\<rparr>)),
        (''description'', str_field (\<lambda>s t. t\<lparr>mt_description := s\<rparr>)),
        (''inputschema'', raw_field (\<lambda>j t. t\<lparr>mt_schema := Some j\<rparr>))]
       \<lparr>mt_name = '''', mt_description = '''', mt_schema = None\<rparr>"

definition decode_tools_list :: "json \<Rightarrow> mcp_tool list option" where
  "decode_tools_list = decode_struct [(''tools'', list_field decode_tool (\<lambda>ts _. ts))] []"

text \<open>A nil map of arguments is left out, as is an empty one.\<close>

definition encode_tool_call :: "string \<Rightarrow> (string, json) gomap option \<Rightarrow> json" where
  "encode_tool_call name args =
     JObj ([(''name'', JStr name)]
       @ (case args of
            None \<Rightarrow> []
          | Some m \<Rightarrow> if m = [] then [] else [(''arguments'', encode_map m)]))"

record tool_content =
  ct_type :: string
  ct_text :: string

definition decode_content :: "json \<Rightarrow> tool_content option" where
  "decode_content =
     decode_struct
       [(''type'', str_field (\<lambda>s c. c\<lparr>ct_type := s\<rparr>)), (''text'', str_field (\<lambda>s c. c\<lparr>ct_text := s\<rparr>))]
       \<lparr>ct_type = '''', ct_text = ''''\<rparr>"

record tool_call_result =
  tr_content :: "tool_content list"
  tr_is_error :: bool

definition decode_tool_result :: "json \<Rightarrow> tool_call_result option" where
  "decode_tool_result =
     decode_struct
       [(''content'', list_field decode_content (\<lambda>cs r. r\<lparr>tr_content := cs\<rparr>)),
        (''iserror'', bool_field (\<lambda>b r. r\<lparr>tr_is_error := b\<rparr>))]
       \<lparr>tr_content = [], tr_is_error = False\<rparr>"

section \<open>The parameters of a tool\<close>

record prop_schema =
  ps_type :: string
  ps_description :: string

definition decode_prop :: "json \<Rightarrow> prop_schema option" where
  "decode_prop =
     decode_struct
       [(''type'', str_field (\<lambda>s p. p\<lparr>ps_type := s\<rparr>)),
        (''description'', str_field (\<lambda>s p. p\<lparr>ps_description := s\<rparr>))]
       \<lparr>ps_type = '''', ps_description = ''''\<rparr>"

record input_schema =
  is_properties :: "(string, prop_schema) gomap"
  is_required :: "string list"

fun put_props :: "(string \<times> json) list \<Rightarrow> (string, prop_schema) gomap \<Rightarrow> (string, prop_schema) gomap option" where
  "put_props [] m = Some m"
| "put_props ((k, j) # kvs) m =
     (case decode_prop j of None \<Rightarrow> None | Some p \<Rightarrow> put_props kvs (mput k p m))"

definition props_field :: "json \<Rightarrow> input_schema \<Rightarrow> input_schema option" where
  "props_field j s =
     (case j of
        JNull \<Rightarrow> Some (s\<lparr>is_properties := []\<rparr>)
      | JObj kvs \<Rightarrow> map_option (\<lambda>m. s\<lparr>is_properties := m\<rparr>) (put_props kvs (is_properties s))
      | _ \<Rightarrow> None)"

definition decode_str :: "json \<Rightarrow> string option" where
  "decode_str j = (case j of JStr s \<Rightarrow> Some s | JNull \<Rightarrow> Some '''' | _ \<Rightarrow> None)"

definition decode_schema :: "json \<Rightarrow> input_schema option" where
  "decode_schema =
     decode_struct
       [(''properties'', props_field), (''required'', list_field decode_str (\<lambda>rs s. s\<lparr>is_required := rs\<rparr>))]
       \<lparr>is_properties = [], is_required = []\<rparr>"

text \<open>
  \<open>ExtractParams\<close>: the parameters have the four fields of the tools' own.  The order is that
  of a Go map's iteration: some order of the properties.
\<close>

definition extract_params :: "mcp_tool \<Rightarrow> tool_param list" where
  "extract_params t =
     (case mt_schema t of
        None \<Rightarrow> []
      | Some j \<Rightarrow>
          (case decode_schema j of
             None \<Rightarrow> []
           | Some s \<Rightarrow>
               map (\<lambda>(name, p). \<lparr>tp_name = name, tp_type = ps_type p, tp_description = ps_description p,
                   tp_required = (name \<in> set (is_required s))\<rparr>) (is_properties s)))"

section \<open>Reading a response\<close>

record mcp_env =
  me_decode :: "string \<Rightarrow> json option"
  me_render :: "json \<Rightarrow> string"
  me_json_err :: "string \<Rightarrow> string"

declare trim_line.simps [simp del]

text \<open>The \<open>id\<close> of a line that decodes as an object: null counts as absent.\<close>

definition peek_id :: "json \<Rightarrow> json option option" where
  "peek_id j = decode_struct [(''id'', raw_field (\<lambda>j _. if j = JNull then None else Some j))] None j"

text \<open>
  The loop of the reader: banners, blank lines and notifications are passed over; a line that is
  no JSON is delivered and fails later.
\<close>

definition is_answer :: "mcp_env \<Rightarrow> string \<Rightarrow> bool" where
  "is_answer env raw =
     (let line = trim_line raw in
      if length line = 0 then False
      else if line ! 0 \<noteq> CHR ''{'' then False
      else case me_decode env line of
          None \<Rightarrow> True
        | Some j \<Rightarrow> peek_id j \<noteq> Some None)"

fun read_answer :: "mcp_env \<Rightarrow> string list \<Rightarrow> (string \<times> string list) option" where
  "read_answer env [] = None"
| "read_answer env (l # ls) = (if is_answer env l then Some (trim_line l, ls) else read_answer env ls)"

datatype rpc_error =
    ClientClosed
  | SendFailed string
  | ContextEnded string
  | ReadFailed string
  | BadLine string
  | IdMismatch int int
  | ServerError jsonrpc_error
  | BadResult json

fun rpc_error_text :: "mcp_env \<Rightarrow> rpc_error \<Rightarrow> string" where
  "rpc_error_text env ClientClosed = ''client closed''"
| "rpc_error_text env (SendFailed e) = e"
| "rpc_error_text env (ContextEnded e) = e"
| "rpc_error_text env (ReadFailed e) = ''read response: '' @ e"
| "rpc_error_text env (BadLine l) =
     ''unmarshal response: '' @ me_json_err env l @ '' (raw: '' @ trunc_raw l @ '')''"
| "rpc_error_text env (IdMismatch got want) =
     ''response id mismatch: got '' @ itoa got @ '', want '' @ itoa want"
| "rpc_error_text env (ServerError e) = je_message e"
| "rpc_error_text env (BadResult j) = me_json_err env (me_render env j)"

text \<open>What ends the wait of \<open>recv\<close>: the reader's line or error, or the end of the context.\<close>

datatype delivery = Delivered string | ReadErr string | Cancelled string

definition recv :: "mcp_env \<Rightarrow> int \<Rightarrow> delivery \<Rightarrow> rpc_error + json option" where
  "recv env expected d =
     (case d of
        Cancelled e \<Rightarrow> Inl (ContextEnded e)
      | ReadErr e \<Rightarrow> Inl (ReadFailed e)
      | Delivered line \<Rightarrow>
          (case Option.bind (me_decode env line) decode_response of
             None \<Rightarrow> Inl (BadLine line)
           | Some resp \<Rightarrow>
               if rs_id resp \<noteq> expected then Inl (IdMismatch (rs_id resp) expected)
               else case rs_error resp of
                   Some e \<Rightarrow> Inl (ServerError e)
                 | None \<Rightarrow> Inr (rs_result resp)))"

text \<open>The last lines of \<open>recv\<close>: the result is decoded when it is there.\<close>

definition decode_result :: "(json \<Rightarrow> 'a option) \<Rightarrow> 'a \<Rightarrow> rpc_error + json option \<Rightarrow> rpc_error + 'a" where
  "decode_result dec zero r =
     (case r of
        Inl e \<Rightarrow> Inl e
      | Inr None \<Rightarrow> Inr zero
      | Inr (Some j) \<Rightarrow> (case dec j of None \<Rightarrow> Inl (BadResult j) | Some x \<Rightarrow> Inr x))"

section \<open>Calls\<close>

text \<open>
  \<open>mc_sent\<close> are the lines written to the process, \<open>mc_writes\<close> counts the attempts.  Encoding
  the parameters of the three methods cannot fail.
\<close>

record mcp_client =
  mc_name :: string
  mc_next :: int
  mc_closed :: bool
  mc_sent :: "string list"
  mc_writes :: nat

record mcp_world =
  mw_deliver :: "int \<Rightarrow> delivery"
  mw_write :: "nat \<Rightarrow> string option"
  mw_stderr :: string
  mw_exit :: "string option"

definition send_request :: "mcp_env \<Rightarrow> mcp_world \<Rightarrow> jsonrpc_request \<Rightarrow> mcp_client \<Rightarrow> string option \<times> mcp_client" where
  "send_request env w req c =
     (case mw_write w (mc_writes c) of
        Some e \<Rightarrow> (Some e, c\<lparr>mc_writes := mc_writes c + 1\<rparr>)
      | None \<Rightarrow> (None, c\<lparr>mc_writes := mc_writes c + 1,
                         mc_sent := mc_sent c @ [me_render env (encode_request req) @ nl]\<rparr>))"

definition next_id :: "mcp_client \<Rightarrow> int" where
  "next_id c = wrap64 (mc_next c + 1)"

definition rpc_call ::
  "mcp_env \<Rightarrow> mcp_world \<Rightarrow> string \<Rightarrow> json option \<Rightarrow> mcp_client \<Rightarrow> (rpc_error + json option) \<times> mcp_client" where
  "rpc_call env w rpc_method params c =
     (if mc_closed c then (Inl ClientClosed, c)
      else
        let id = next_id c; c = c\<lparr>mc_next := id\<rparr> in
        case send_request env w \<lparr>rq_id = id, rq_method = rpc_method, rq_params = params\<rparr> c of
          (Some e, c) \<Rightarrow> (Inl (SendFailed e), c)
        | (None, c) \<Rightarrow> (recv env id (mw_deliver w id), c))"

definition rpc_notify ::
  "mcp_env \<Rightarrow> mcp_world \<Rightarrow> string \<Rightarrow> json option \<Rightarrow> mcp_client \<Rightarrow> rpc_error option \<times> mcp_client" where
  "rpc_notify env w rpc_method params c =
     (if mc_closed c then (Some ClientClosed, c)
      else
        case send_request env w \<lparr>rq_id = 0, rq_method = rpc_method, rq_params = params\<rparr> c of
          (Some e, c) \<Rightarrow> (Some (SendFailed e), c)
        | (None, c) \<Rightarrow> (None, c))"

definition client_params :: initialize_params where
  "client_params =
     \<lparr>ip_version = protocolVersion, ip_client = \<lparr>im_name = ''catpaw'', im_version = ''1.0''\<rparr>\<rparr>"

definition mcp_initialize :: "mcp_env \<Rightarrow> mcp_world \<Rightarrow> mcp_client \<Rightarrow> string option \<times> mcp_client" where
  "mcp_initialize env w c =
     (case rpc_call env w ''initialize'' (Some (encode_initialize client_params)) c of
        (r, c) \<Rightarrow>
          (case decode_result decode_initialize \<lparr>ir_version = '''', ir_server = \<lparr>im_name = '''', im_version = ''''\<rparr>\<rparr> r of
             Inl e \<Rightarrow> (Some (''mcp '' @ mc_name c @ '': initialize: '' @ rpc_error_text env e), c)
           | Inr res \<Rightarrow>
               (case rpc_notify env w ''notifications/initialized'' None c of
                  (e, c) \<Rightarrow> (map_option (rpc_error_text env) e, c))))"

definition list_mcp_tools :: "mcp_env \<Rightarrow> mcp_world \<Rightarrow> mcp_client \<Rightarrow> (string + mcp_tool list) \<times> mcp_client" where
  "list_mcp_tools env w c =
     (case rpc_call env w ''tools/list'' None c of
        (r, c) \<Rightarrow>
          (case decode_result decode_tools_list [] r of
             Inl e \<Rightarrow> (Inl (''mcp '' @ mc_name c @ '': tools/list: '' @ rpc_error_text env e), c)
           | Inr ts \<Rightarrow> (Inr ts, c)))"

fun text_parts :: "tool_content list \<Rightarrow> string list" where
  "text_parts [] = []"
| "text_parts (c # cs) =
     (if ct_type c = ''text'' \<and> ct_text c \<noteq> '''' then ct_text c # text_parts cs else text_parts cs)"

definition extract_texts :: "tool_content list \<Rightarrow> string" where
  "extract_texts contents = join nl (text_parts contents)"

definition tool_outcome :: "string \<Rightarrow> tool_call_result \<Rightarrow> string + string" where
  "tool_outcome tool_name res =
     (if tr_is_error res then
        (let texts = extract_texts (tr_content res) in
         if texts \<noteq> '''' then Inl (''mcp tool '' @ tool_name @ '' error: '' @ texts)
         else Inl (''mcp tool '' @ tool_name @ '' returned an error''))
      else Inr (extract_texts (tr_content res)))"

definition mcp_call_tool ::
  "mcp_env \<Rightarrow> mcp_world \<Rightarrow> string \<Rightarrow> (string, json) gomap option \<Rightarrow> mcp_client \<Rightarrow> (string + string) \<times> mcp_client" where
  "mcp_call_tool env w tool_name args c =
     (case rpc_call env w ''tools/call'' (Some (encode_tool_call tool_name args)) c of
        (r, c) \<Rightarrow>
          (case decode_result decode_tool_result \<lparr>tr_content = [], tr_is_error = False\<rparr> r of
             Inl e \<Rightarrow> (Inl (''mcp '' @ mc_name c @ '': tools/call '' @ tool_name @ '': '' @ rpc_error_text env e), c)
           | Inr res \<Rightarrow> (tool_outcome tool_name res, c)))"

definition mcp_close :: "mcp_world \<Rightarrow> mcp_client \<Rightarrow> string option \<times> mcp_client" where
  "mcp_close w c = (if mc_closed c then (None, c) else (mw_exit w, c\<lparr>mc_closed := True\<rparr>))"

text \<open>
  \<open>NewClient\<close>: the errors of the two pipes and of the start, the last marked when the command
  was not found.
\<close>

record spawn =
  sp_stdin :: "string option"
  sp_stdout :: "string option"
  sp_start :: "(string \<times> bool) option"

definition new_mcp_client :: "(string \<Rightarrow> string) \<Rightarrow> spawn \<Rightarrow> string \<Rightarrow> string \<Rightarrow> string + mcp_client" where
  "new_mcp_client quote_verb sp name command =
     (case sp_stdin sp of
        Some e \<Rightarrow> Inl (''mcp '' @ name @ '': stdin pipe: '' @ e)
      | None \<Rightarrow>
          (case sp_stdout sp of
             Some e \<Rightarrow> Inl (''mcp '' @ name @ '': stdout pipe: '' @ e)
           | None \<Rightarrow>
               (case sp_start sp of
                  Some (e, True) \<Rightarrow>
                    Inl (''mcp '' @ name @ '': start '' @ quote_verb command @ '': '' @ e
                      @ '' (hint: use absolute path, e.g. run `which '' @ command @ ''`)'')
                | Some (e, False) \<Rightarrow> Inl (''mcp '' @ name @ '': start '' @ quote_verb command @ '': '' @ e)
                | None \<Rightarrow> Inr \<lparr>mc_name = name, mc_next = 0, mc_closed = False, mc_sent = [], mc_writes = 0\<rparr>)))"

text \<open>\<open>buildEnv\<close>: \<open>environ\<close> is \<open>os.Environ\<close>.\<close>

definition build_env :: "string list \<Rightarrow> (string, string) gomap \<Rightarrow> string list" where
  "build_env environ extra = environ @ map (\<lambda>(k, v). k @ ''='' @ v) extra"

section \<open>Calls, readers and contexts in every order\<close>

text \<open>
  \<open>ln_call\<close> is the call that holds the mutex, with what its reader has put into the channel;
  \<open>ln_orphans\<close> counts the readers of ended calls that still read the same buffered output.  One
  \<open>ReadBytes\<close> with what follows it up to the next is a step.  \<open>ln_written\<close>, \<open>ln_log\<close> and
  \<open>ln_cancelled\<close> record the server's lines, the ended calls and whether a context ended first.
\<close>

record mcp_link =
  ln_next :: int
  ln_call :: "(int \<times> delivery option) option"
  ln_orphans :: nat
  ln_out :: "string list"
  ln_eof :: "string option"
  ln_written :: "string list"
  ln_log :: "(int \<times> (rpc_error + json option)) list"
  ln_cancelled :: bool

definition new_link :: mcp_link where
  "new_link = \<lparr>ln_next = 0, ln_call = None, ln_orphans = 0, ln_out = [], ln_eof = None, ln_written = [],
     ln_log = [], ln_cancelled = False\<rparr>"

definition start_reader :: "mcp_link \<Rightarrow> mcp_link" where
  "start_reader s = (let rid = wrap64 (ln_next s + 1) in s\<lparr>ln_next := rid, ln_call := Some (rid, None)\<rparr>)"

definition failed_send :: "string \<Rightarrow> mcp_link \<Rightarrow> mcp_link" where
  "failed_send e s =
     (let rid = wrap64 (ln_next s + 1) in s\<lparr>ln_next := rid, ln_log := ln_log s @ [(rid, Inl (SendFailed e))]\<rparr>)"

definition end_call :: "mcp_env \<Rightarrow> int \<Rightarrow> delivery \<Rightarrow> mcp_link \<Rightarrow> mcp_link" where
  "end_call env rid d s = s\<lparr>ln_call := None, ln_log := ln_log s @ [(rid, recv env rid d)]\<rparr>"

definition abandon :: "mcp_env \<Rightarrow> int \<Rightarrow> delivery option \<Rightarrow> string \<Rightarrow> mcp_link \<Rightarrow> mcp_link" where
  "abandon env rid d e s =
     (end_call env rid (Cancelled e) s)
       \<lparr>ln_orphans := (if d = None then ln_orphans s + 1 else ln_orphans s), ln_cancelled := True\<rparr>"

inductive link_step :: "mcp_env \<Rightarrow> mcp_link \<Rightarrow> mcp_link \<Rightarrow> bool" for env :: mcp_env where
  call_starts: "ln_call s = None \<Longrightarrow> link_step env s (start_reader s)"
| send_fails: "ln_call s = None \<Longrightarrow> link_step env s (failed_send e s)"
| server_writes: "ln_eof s = None \<Longrightarrow>
    link_step env s (s\<lparr>ln_out := ln_out s @ [l], ln_written := ln_written s @ [l]\<rparr>)"
| server_ends: "link_step env s (s\<lparr>ln_eof := Some e\<rparr>)"
| own_skips: "ln_call s = Some (rid, None) \<Longrightarrow> ln_out s = l # ls \<Longrightarrow> \<not> is_answer env l \<Longrightarrow>
    link_step env s (s\<lparr>ln_out := ls\<rparr>)"
| own_reads: "ln_call s = Some (rid, None) \<Longrightarrow> ln_out s = l # ls \<Longrightarrow> is_answer env l \<Longrightarrow>
    link_step env s (s\<lparr>ln_out := ls, ln_call := Some (rid, Some (Delivered (trim_line l)))\<rparr>)"
| own_eof: "ln_call s = Some (rid, None) \<Longrightarrow> ln_out s = [] \<Longrightarrow> ln_eof s = Some e \<Longrightarrow>
    link_step env s (s\<lparr>ln_call := Some (rid, Some (ReadErr e))\<rparr>)"
| orphan_skips: "0 < ln_orphans s \<Longrightarrow> ln_out s = l # ls \<Longrightarrow> \<not> is_answer env l \<Longrightarrow>
    link_step env s (s\<lparr>ln_out := ls\<rparr>)"
| orphan_reads: "0 < ln_orphans s \<Longrightarrow> ln_out s = l # ls \<Longrightarrow> is_answer env l \<Longrightarrow>
    link_step env s (s\<lparr>ln_out := ls, ln_orphans := ln_orphans s - 1\<rparr>)"
| orphan_eof: "0 < ln_orphans s \<Longrightarrow> ln_out s = [] \<Longrightarrow> ln_eof s = Some e \<Longrightarrow>
    link_step env s (s\<lparr>ln_orphans := ln_orphans s - 1\<rparr>)"
| call_ends: "ln_call s = Some (rid, Some d) \<Longrightarrow> link_step env s (end_call env rid d s)"
| context_ends: "ln_call s = Some (rid, d) \<Longrightarrow> link_step env s (abandon env rid d e s)"

inductive link_reach :: "mcp_env \<Rightarrow> mcp_link \<Rightarrow> bool" for env :: mcp_env where
  start: "link_reach env new_link"
| step: "link_reach env s \<Longrightarrow> link_step env s s' \<Longrightarrow> link_reach env s'"

text \<open>
  An own line for every answer: what a call got without an error came from a line of the server
  that carries the call's identifier.
\<close>

definition answered_by :: "mcp_env \<Rightarrow> string list \<Rightarrow> int \<times> (rpc_error + json option) \<Rightarrow> bool" where
  "answered_by env ls entry \<longleftrightarrow>
     (case entry of (rid, r) \<Rightarrow>
        (case r of
           Inl e \<Rightarrow> True
         | Inr res \<Rightarrow>
             (\<exists>l \<in> set ls. is_answer env l \<and>
               (case Option.bind (me_decode env (trim_line l)) decode_response of
                  None \<Rightarrow> False
                | Some resp \<Rightarrow> rs_id resp = rid \<and> rs_error resp = None \<and> rs_result resp = res))))"

definition pending_from :: "mcp_env \<Rightarrow> string list \<Rightarrow> (int \<times> delivery option) option \<Rightarrow> bool" where
  "pending_from env ls c \<longleftrightarrow>
     (case c of Some (rid, Some (Delivered t)) \<Rightarrow> (\<exists>l \<in> set ls. is_answer env l \<and> t = trim_line l) | _ \<Rightarrow> True)"

definition link_ok :: "mcp_env \<Rightarrow> mcp_link \<Rightarrow> bool" where
  "link_ok env s \<longleftrightarrow>
     set (ln_out s) \<subseteq> set (ln_written s) \<and> pending_from env (ln_written s) (ln_call s)
       \<and> (\<forall>x \<in> set (ln_log s). answered_by env (ln_written s) x)"

lemma answered_mono: "answered_by env ls x \<Longrightarrow> set ls \<subseteq> set ls' \<Longrightarrow> answered_by env ls' x"
  by (auto simp: answered_by_def split: sum.splits)

lemma pending_mono: "pending_from env ls c \<Longrightarrow> set ls \<subseteq> set ls' \<Longrightarrow> pending_from env ls' c"
  by (auto simp: pending_from_def split: option.splits delivery.splits; blast)

lemma recv_answered:
  "pending_from env ls (Some (rid, Some d)) \<Longrightarrow> answered_by env ls (rid, recv env rid d)"
  by (auto simp: pending_from_def answered_by_def recv_def split: delivery.splits option.splits sum.splits)

lemma link_step_ok: "link_step env s s' \<Longrightarrow> link_ok env s \<Longrightarrow> link_ok env s'"
proof (induction rule: link_step.induct)
  case (call_starts s)
  then show ?case by (simp add: link_ok_def start_reader_def pending_from_def Let_def)
next
  case (send_fails s e)
  then show ?case by (auto simp: link_ok_def failed_send_def answered_by_def Let_def)
next
  case (server_writes s l)
  then show ?case
    using answered_mono [of env "ln_written s" _ "ln_written s @ [l]"]
      pending_mono [of env "ln_written s" _ "ln_written s @ [l]"]
    by (simp add: link_ok_def subset_insertI subset_insertI2)
next
  case (own_reads s rid l ls)
  then show ?case by (auto simp: link_ok_def pending_from_def)
next
  case (own_eof s rid e)
  then show ?case by (auto simp: link_ok_def pending_from_def)
next
  case (call_ends s rid d)
  then show ?case
    using recv_answered [of env "ln_written s" rid d]
    by (auto simp: link_ok_def end_call_def pending_from_def)
next
  case (context_ends s rid d e)
  then show ?case
    by (auto simp: link_ok_def abandon_def end_call_def pending_from_def recv_def answered_by_def)
qed (auto simp: link_ok_def)

lemma link_reach_ok: "link_reach env s \<Longrightarrow> link_ok env s"
proof (induction rule: link_reach.induct)
  case start
  then show ?case by (simp add: link_ok_def new_link_def pending_from_def)
next
  case (step s s')
  then show ?case using link_step_ok by blast
qed

section \<open>Calls that are not cancelled\<close>

text \<open>
  As long as no context ends first, the calls are numbered in order and the answers of the
  server, in order, are the ones the calls got: \<open>took\<close> is an ended call that took a line.
\<close>

definition took :: "int \<times> (rpc_error + json option) \<Rightarrow> bool" where
  "took x = (case snd x of Inl (SendFailed e) \<Rightarrow> False | Inl (ReadFailed e) \<Rightarrow> False | _ \<Rightarrow> True)"

definition answers :: "mcp_env \<Rightarrow> string list \<Rightarrow> string list" where
  "answers env ls = map trim_line (filter (is_answer env) ls)"

definition in_hand :: "(int \<times> delivery option) option \<Rightarrow> string list" where
  "in_hand c = (case c of Some (i, Some (Delivered t)) \<Rightarrow> [t] | _ \<Rightarrow> [])"

definition got_line :: "mcp_env \<Rightarrow> int \<times> (rpc_error + json option) \<Rightarrow> string \<Rightarrow> bool" where
  "got_line env x a \<longleftrightarrow> snd x = recv env (fst x) (Delivered a)"

definition started :: "mcp_link \<Rightarrow> nat" where
  "started s = length (ln_log s) + (if ln_call s = None then 0 else 1)"

definition numbered :: "mcp_link \<Rightarrow> bool" where
  "numbered s \<longleftrightarrow>
     map fst (ln_log s) = map (\<lambda>k. wrap64 (int k + 1)) [0..<length (ln_log s)]
       \<and> ln_next s = wrap64 (int (started s))
       \<and> (\<forall>i d. ln_call s = Some (i, d) \<longrightarrow> i = wrap64 (int (length (ln_log s)) + 1))"

definition in_step :: "mcp_env \<Rightarrow> mcp_link \<Rightarrow> bool" where
  "in_step env s \<longleftrightarrow>
     (\<not> ln_cancelled s \<longrightarrow>
        ln_orphans s = 0 \<and> (\<forall>i e. ln_call s \<noteq> Some (i, Some (Cancelled e)))
        \<and> (\<exists>used. list_all2 (got_line env) (filter took (ln_log s)) used
              \<and> answers env (ln_written s) = used @ in_hand (ln_call s) @ answers env (ln_out s)))"

lemma wrap64_next: "wrap64 (wrap64 a + 1) = wrap64 (a + 1)" "wrap64 (1 + wrap64 a) = wrap64 (1 + a)"
  by (simp_all add: wrap64_def mod_simps algebra_simps)

lemma link_step_numbered: "link_step env s s' \<Longrightarrow> numbered s \<Longrightarrow> numbered s'"
  by (induction rule: link_step.induct)
    (auto simp: numbered_def started_def start_reader_def failed_send_def abandon_def end_call_def
      wrap64_next Let_def add.commute)

lemma took_recv: "took (i, recv env i (Delivered t))"
  by (auto simp: took_def recv_def split: option.splits)

lemma link_step_in_step: "link_step env s s' \<Longrightarrow> in_step env s \<Longrightarrow> in_step env s'"
proof (induction rule: link_step.induct)
  case (call_starts s)
  then show ?case by (simp add: in_step_def start_reader_def in_hand_def Let_def)
next
  case (send_fails s e)
  then show ?case by (simp add: in_step_def failed_send_def in_hand_def took_def Let_def)
next
  case (server_writes s l)
  then show ?case by (auto simp: in_step_def answers_def)
next
  case (own_skips s i l ls)
  then show ?case by (auto simp: in_step_def answers_def)
next
  case (own_reads s i l ls)
  then show ?case by (auto simp: in_step_def answers_def in_hand_def)
next
  case (own_eof s i e)
  then show ?case by (auto simp: in_step_def answers_def in_hand_def)
next
  case (call_ends s i d)
  show ?case
  proof (cases d)
    case (Delivered t)
    show ?thesis
    proof (cases "ln_cancelled s")
      case True
      then show ?thesis by (simp add: in_step_def end_call_def)
    next
      case False
      with call_ends Delivered obtain used where
        u: "list_all2 (got_line env) (filter took (ln_log s)) used"
          "answers env (ln_written s) = used @ [t] @ answers env (ln_out s)" "ln_orphans s = 0"
        by (auto simp: in_step_def in_hand_def)
      have "list_all2 (got_line env) (filter took (ln_log s) @ [(i, recv env i (Delivered t))]) (used @ [t])"
        by (rule list_all2_appendI [OF u(1)]) (simp add: got_line_def)
      with u(2,3) show ?thesis
        by (auto simp: in_step_def end_call_def in_hand_def took_recv Delivered)
    qed
  next
    case (ReadErr e)
    with call_ends show ?thesis
      by (auto simp: in_step_def end_call_def in_hand_def took_def recv_def)
  next
    case (Cancelled e)
    with call_ends show ?thesis by (auto simp: in_step_def end_call_def)
  qed
next
  case (context_ends s i d e)
  then show ?case by (simp add: in_step_def abandon_def)
qed (auto simp: in_step_def)

lemma link_reach_in_step: "link_reach env s \<Longrightarrow> numbered s \<and> in_step env s"
proof (induction rule: link_reach.induct)
  case start
  then show ?case
    by (auto simp: numbered_def in_step_def started_def new_link_def in_hand_def answers_def wrap64_def)
next
  case (step s s')
  then show ?case using link_step_numbered link_step_in_step by blast
qed

text \<open>
  C18. Whatever the order of the steps, a call that returns a result got it from an answer with its
  own identifier, and the calls are numbered one after the other.  While no context has ended
  first, no reader is left behind and the calls that took an answer took the server's answers in
  order, one each; the answers that are left are the one in the channel and the unread ones.
\<close>

theorem rpc_correlation:
  assumes "link_reach env s"
  shows "(\<forall>x \<in> set (ln_log s). answered_by env (ln_written s) x)
    \<and> (\<forall>k < length (ln_log s). fst (ln_log s ! k) = wrap64 (int k + 1))
    \<and> (\<not> ln_cancelled s \<longrightarrow> ln_orphans s = 0 \<and>
      (\<exists>used. list_all2 (got_line env) (filter took (ln_log s)) used
         \<and> answers env (ln_written s) = used @ in_hand (ln_call s) @ answers env (ln_out s)))"
proof (intro conjI)
  have num: "numbered s" and st: "in_step env s" using link_reach_in_step [OF assms] by auto
  show "\<forall>x \<in> set (ln_log s). answered_by env (ln_written s) x"
    using link_reach_ok [OF assms] by (simp add: link_ok_def)
  show "\<forall>k < length (ln_log s). fst (ln_log s ! k) = wrap64 (int k + 1)"
  proof (intro allI impI)
    fix k assume k: "k < length (ln_log s)"
    have "map fst (ln_log s) ! k = map (\<lambda>k. wrap64 (int k + 1)) [0..<length (ln_log s)] ! k"
      using num by (simp add: numbered_def)
    with k show "fst (ln_log s ! k) = wrap64 (int k + 1)" by simp
  qed
  show "\<not> ln_cancelled s \<longrightarrow> ln_orphans s = 0 \<and>
      (\<exists>used. list_all2 (got_line env) (filter took (ln_log s)) used
         \<and> answers env (ln_written s) = used @ in_hand (ln_call s) @ answers env (ln_out s))"
    using st by (simp add: in_step_def)
qed

section \<open>After a call was cancelled\<close>

definition proper_answer :: "mcp_env \<Rightarrow> nat \<Rightarrow> string \<Rightarrow> bool" where
  "proper_answer env k l \<longleftrightarrow>
     is_answer env l \<and>
       (case Option.bind (me_decode env (trim_line l)) decode_response of
          None \<Rightarrow> False | Some resp \<Rightarrow> rs_id resp = int k \<and> rs_error resp = None)"

text \<open>The link after the first call was cancelled and \<open>n\<close> more calls were made.\<close>

definition late_state :: "(nat \<Rightarrow> string) \<Rightarrow> string \<Rightarrow> nat \<Rightarrow> mcp_link" where
  "late_state line e n =
     \<lparr>ln_next = int n + 1, ln_call = None, ln_orphans = 1, ln_out = [], ln_eof = None,
      ln_written = map line [1..<n + 1],
      ln_log = (1, Inl (ContextEnded e))
        # map (\<lambda>k. (int k + 1, Inl (IdMismatch (int k) (int k + 1)))) [1..<n + 1],
      ln_cancelled = True\<rparr>"

lemma recv_mismatch:
  "proper_answer env k l \<Longrightarrow> i \<noteq> int k \<Longrightarrow> recv env i (Delivered (trim_line l)) = Inl (IdMismatch (int k) i)"
  by (auto simp: proper_answer_def recv_def split: option.splits)

lemma late_start: "link_reach env (late_state line e 0)"
proof -
  have "link_reach env (start_reader new_link)"
    by (rule link_reach.step [OF link_reach.start link_step.call_starts]) (simp add: new_link_def)
  then have "link_reach env (abandon env 1 None e (start_reader new_link))"
    by (rule link_reach.step [OF _ link_step.context_ends])
      (simp add: new_link_def start_reader_def wrap64_def)
  then show ?thesis
    by (simp add: abandon_def end_call_def start_reader_def new_link_def late_state_def recv_def Let_def wrap64_def)
qed

lemma late_step:
  assumes "link_reach env (late_state line e n)" and "proper_answer env (n + 1) (line (n + 1))" and "int n + 2 < 2 ^ 63"
  shows "link_reach env (late_state line e (n + 1))"
proof -
  let ?l = "line (n + 1)" and ?i = "int n + 2" and ?s = "late_state line e n"
  let ?w = "?s\<lparr>ln_out := [?l], ln_written := ln_written ?s @ [?l]\<rparr>"
  have "link_step env ?s (?s\<lparr>ln_out := ln_out ?s @ [?l], ln_written := ln_written ?s @ [?l]\<rparr>)"
    by (rule link_step.server_writes) (simp add: late_state_def)
  then have w: "link_reach env ?w" using link_reach.step [OF assms(1)] by (simp add: late_state_def)
  have "link_step env ?w (start_reader ?w)" by (rule link_step.call_starts) (simp add: late_state_def)
  moreover have "int64_ok ?i" using assms(3) by (simp add: int64_ok_def)
  ultimately have c: "link_reach env (?w\<lparr>ln_next := ?i, ln_call := Some (?i, None)\<rparr>)"
    using link_reach.step [OF w] by (simp add: start_reader_def late_state_def Let_def add.commute)
  let ?c = "?w\<lparr>ln_next := ?i, ln_call := Some (?i, None)\<rparr>"
  have ans: "is_answer env ?l" using assms(2) unfolding proper_answer_def by (rule conjunct1)
  have "link_step env ?c (?c\<lparr>ln_out := [], ln_call := Some (?i, Some (Delivered (trim_line ?l)))\<rparr>)"
    by (rule link_step.own_reads [OF _ _ ans]) simp_all
  then have r: "link_reach env (?c\<lparr>ln_out := [], ln_call := Some (?i, Some (Delivered (trim_line ?l)))\<rparr>)"
    by (rule link_reach.step [OF c])
  have "link_reach env (end_call env ?i (Delivered (trim_line ?l))
      (?c\<lparr>ln_out := [], ln_call := Some (?i, Some (Delivered (trim_line ?l)))\<rparr>))"
    by (rule link_reach.step [OF r link_step.call_ends]) simp
  then show ?thesis
    using recv_mismatch [OF assms(2), of ?i]
    by (simp add: end_call_def late_state_def add.commute)
qed

lemma late_reach:
  "\<forall>k. 0 < k \<and> k \<le> n \<longrightarrow> proper_answer env k (line k) \<Longrightarrow> int n + 1 < 2 ^ 63 \<Longrightarrow>
     link_reach env (late_state line e n)"
proof (induction n)
  case 0
  then show ?case using late_start by blast
next
  case (Suc n)
  have "link_reach env (late_state line e n)" by (rule Suc.IH) (use Suc.prems in auto)
  from late_step [OF this] Suc.prems show ?case by simp
qed

lemma swallowed_reach:
  assumes "is_answer env l"
  shows "link_reach env
    \<lparr>ln_next = 2, ln_call = Some (2, None), ln_orphans = 0, ln_out = [], ln_eof = None, ln_written = [l],
     ln_log = [(1, Inl (ContextEnded e))], ln_cancelled = True\<rparr>"
proof -
  let ?s = "late_state undefined e 0"
  have a: "link_reach env (start_reader ?s)"
    by (rule link_reach.step [OF late_start link_step.call_starts]) (simp add: late_state_def)
  let ?w = "(start_reader ?s)\<lparr>ln_out := [l], ln_written := [l]\<rparr>"
  have "link_step env (start_reader ?s)
      ((start_reader ?s)\<lparr>ln_out := ln_out (start_reader ?s) @ [l], ln_written := ln_written (start_reader ?s) @ [l]\<rparr>)"
    by (rule link_step.server_writes) (simp add: late_state_def start_reader_def Let_def)
  then have b: "link_reach env ?w"
    using link_reach.step [OF a] by (simp add: late_state_def start_reader_def Let_def)
  have "link_reach env (?w\<lparr>ln_out := [], ln_orphans := ln_orphans ?w - 1\<rparr>)"
    by (rule link_reach.step [OF b link_step.orphan_reads [OF _ _ assms]])
      (simp_all add: late_state_def start_reader_def Let_def)
  then show ?thesis
    by (simp add: late_state_def start_reader_def Let_def wrap64_def)
qed

text \<open>
  C19. The promise of one answer per call ends with the first cancelled call, whose reader stays.
  Even with a server that answers every request in order with its identifier, all the calls after
  it can fail, each with the answer to the call before; and the reader left behind can take the
  answer of a later call, which then waits with nothing left to read.
\<close>

theorem cancelled_call_desynchronises:
  assumes "\<forall>k. 0 < k \<and> k \<le> n \<longrightarrow> proper_answer env k (line k)" and "int n + 1 < 2 ^ 63"
    and "proper_answer env 2 l"
  shows "(\<exists>s. link_reach env s \<and> ln_written s = map line [1..<n + 1]
      \<and> ln_log s = (1, Inl (ContextEnded e))
          # map (\<lambda>k. (int k + 1, Inl (IdMismatch (int k) (int k + 1)))) [1..<n + 1])
    \<and> (\<exists>s. link_reach env s \<and> ln_written s = [l] \<and> ln_log s = [(1, Inl (ContextEnded e))]
      \<and> ln_call s = Some (2, None) \<and> ln_out s = [] \<and> ln_orphans s = 0)"
proof (rule conjI)
  show "\<exists>s. link_reach env s \<and> ln_written s = map line [1..<n + 1]
      \<and> ln_log s = (1, Inl (ContextEnded e))
          # map (\<lambda>k. (int k + 1, Inl (IdMismatch (int k) (int k + 1)))) [1..<n + 1]"
    by (rule exI, rule conjI, rule late_reach [OF assms(1,2), of e]) (simp add: late_state_def)
  have "is_answer env l" using assms(3) by (simp add: proper_answer_def)
  then show "\<exists>s. link_reach env s \<and> ln_written s = [l] \<and> ln_log s = [(1, Inl (ContextEnded e))]
      \<and> ln_call s = Some (2, None) \<and> ln_out s = [] \<and> ln_orphans s = 0"
    by - (rule exI, rule conjI, rule swallowed_reach [of env l e], simp_all)
qed

section \<open>Witnesses\<close>

definition example_mcp_env :: mcp_env where
  "example_mcp_env =
     \<lparr>me_decode = (\<lambda>t.
        if t = ''{1}'' then Some (JObj [(''id'', JNum ''1''), (''result'', JStr ''a'')])
        else if t = ''{2}'' then Some (JObj [(''result'', JStr ''b''), (''id'', JNum ''2'')])
        else if t = ''{note}'' then Some (JObj [(''method'', JStr ''progress'')])
        else None),
      me_render = (\<lambda>_. ''{}''), me_json_err = (\<lambda>_. ''invalid'')\<rparr>"

definition example_line :: "nat \<Rightarrow> string" where
  "example_line k = ''{'' @ digits k @ ''}'' @ nl"

text \<open>A banner, a notification and the answer to the first call, read by its own reader.\<close>

definition example_link :: mcp_link where
  "example_link =
     \<lparr>ln_next = 1, ln_call = None, ln_orphans = 0, ln_out = [], ln_eof = None,
      ln_written = [''{note}'' @ nl, example_line 1],
      ln_log = [(1, recv example_mcp_env 1 (Delivered ''{1}''))], ln_cancelled = False\<rparr>"

lemma example_answers:
  "is_answer example_mcp_env (example_line 1)" "\<not> is_answer example_mcp_env (''{note}'' @ nl)"
  "trim_line (example_line 1) = ''{1}''" "proper_answer example_mcp_env 1 (example_line 1)"
  "proper_answer example_mcp_env 2 (example_line 2)"
  "recv example_mcp_env 1 (Delivered ''{1}'') = Inr (Some (JStr ''a''))"
  by code_simp+

lemma link_writes: "link_reach env s \<Longrightarrow> ln_eof s = None \<Longrightarrow>
    link_reach env (s\<lparr>ln_out := ln_out s @ [l], ln_written := ln_written s @ [l]\<rparr>)"
  by (rule link_reach.step [OF _ link_step.server_writes])

lemma example_link_reach: "link_reach example_mcp_env example_link"
proof -
  let ?n = "''{note}'' @ nl" and ?a = "example_line 1"
  have c: "link_reach example_mcp_env (start_reader new_link)"
    by (rule link_reach.step [OF link_reach.start link_step.call_starts]) (simp add: new_link_def)
  let ?s = "\<lambda>xs ws cl. \<lparr>ln_next = 1, ln_call = Some (1, cl), ln_orphans = 0, ln_out = xs, ln_eof = None,
      ln_written = ws, ln_log = [], ln_cancelled = False\<rparr>"
  have "link_reach example_mcp_env (?s [?n] [?n] None)"
    using link_writes [OF c, of ?n] by (simp add: start_reader_def new_link_def Let_def wrap64_def)
  then have "link_reach example_mcp_env (?s [?n, ?a] [?n, ?a] None)"
    using link_writes [of example_mcp_env "?s [?n] [?n] None" ?a] by simp
  then have "link_reach example_mcp_env (?s [?a] [?n, ?a] None)"
    using link_reach.step [OF _ link_step.own_skips [of "?s [?n, ?a] [?n, ?a] None" 1 ?n "[?a]"]]
      example_answers(2) by simp
  then have "link_reach example_mcp_env (?s [] [?n, ?a] (Some (Delivered (trim_line ?a))))"
    using link_reach.step [OF _ link_step.own_reads [of "?s [?a] [?n, ?a] None" 1 ?a "[]"]]
      example_answers(1) by simp
  then show ?thesis
    using link_reach.step [OF _ link_step.call_ends [of "?s [] [?n, ?a] (Some (Delivered (trim_line ?a)))" 1]]
      example_answers(3) by (simp add: end_call_def example_link_def)
qed

theorem rpc_correlation_witness:
  "answered_by example_mcp_env (ln_written example_link) (1, Inr (Some (JStr ''a'')))
    \<and> fst (ln_log example_link ! 0) = 1 \<and> ln_orphans example_link = 0"
  using rpc_correlation [OF example_link_reach] example_answers(6)
  by (simp add: example_link_def wrap64_def)

theorem cancelled_call_desynchronises_witness:
  "(\<exists>s. link_reach example_mcp_env s \<and> ln_log s = [(1, Inl (ContextEnded ''deadline'')), (2, Inl (IdMismatch 1 2))])
    \<and> (\<exists>s. link_reach example_mcp_env s \<and> ln_call s = Some (2, None) \<and> ln_written s = [example_line 2] \<and> ln_out s = [])"
proof -
  have one: "\<forall>k. 0 < k \<and> k \<le> (1::nat) \<longrightarrow> proper_answer example_mcp_env k (example_line k)"
    using example_answers(4) by (metis One_nat_def Suc_leI le_antisym)
  note w = cancelled_call_desynchronises [of 1 example_mcp_env example_line "example_line 2" "''deadline''",
      OF one _ example_answers(5)]
  show ?thesis using w by fastforce
qed

text \<open>The three calls of the program, on one client: its requests carry 1, 2 and no identifier.\<close>

lemma tool_outcome_texts:
  "tool_outcome t res = Inr s \<Longrightarrow> \<not> tr_is_error res \<and> s = extract_texts (tr_content res)"
  "tr_is_error res \<Longrightarrow> \<exists>e. tool_outcome t res = Inl e"
  by (auto simp: tool_outcome_def Let_def split: if_splits)

lemma closed_client_calls_nothing:
  "mc_closed c \<Longrightarrow> rpc_call env w m p c = (Inl ClientClosed, c) \<and> rpc_notify env w m p c = (Some ClientClosed, c)
     \<and> mcp_close w c = (None, c)"
  by (simp add: rpc_call_def rpc_notify_def mcp_close_def)

lemma rpc_call_frame:
  "rpc_call env w m p c = (r, c') \<Longrightarrow> mc_name c' = mc_name c \<and> mc_closed c' = mc_closed c"
  by (auto simp: rpc_call_def send_request_def Let_def split: if_splits option.splits)

end
