(* ===== verification/McpManager.thy ===== *)
theory McpManager
  imports McpClient Config
begin

text \<open>
  The manager of the MCP servers (\<open>mcp/manager.go\<close>) and the test of their configuration
  (\<open>mcp/test.go\<close>).  Clients are shared by the manager and the functions of the tools, so they
  live in \<open>mg_heap\<close> and are named by their address; \<open>mg_funs\<close> holds the closures, whose handles
  start at \<open>h_base\<close>, above those of the tools registered elsewhere.  The methods that take the
  lock are single steps.
\<close>

section \<open>State\<close>

definition categoryPrefix :: string where
  "categoryPrefix = ''mcp:''"

record mcp_manager =
  mg_clients :: "(string, nat) gomap"
  mg_configs :: "(string, mcp_server_config) gomap"
  mg_builtins :: "(string, string) gomap"
  mg_heap :: "mcp_client list"
  mg_funs :: "(nat \<times> string) list"

definition new_mcp_manager :: mcp_manager where
  "new_mcp_manager = \<lparr>mg_clients = [], mg_configs = [], mg_builtins = [], mg_heap = [], mg_funs = []\<rparr>"

text \<open>
  The host: \<open>h_spawn\<close> says how the start of the \<open>i\<close>-th server goes, \<open>h_world\<close> what the process
  of the client at an address does.
\<close>

record mcp_host =
  h_env :: mcp_env
  h_spawn :: "nat \<Rightarrow> spawn"
  h_world :: "nat \<Rightarrow> mcp_world"
  h_getenv :: "string \<Rightarrow> string"
  h_quote :: "string \<Rightarrow> string"
  h_hostname :: string
  h_ip :: string
  h_base :: nat

section \<open>Starting the servers\<close>

fun convert_params :: "tool_param list \<Rightarrow> tool_param list" where
  "convert_params [] = []"
| "convert_params (p # ps) =
     \<lparr>tp_name = tp_name p, tp_type = tp_type p, tp_description = tp_description p, tp_required = tp_required p\<rparr>
       # convert_params ps"

definition to_any_map :: "(string, string) gomap option \<Rightarrow> (string, json) gomap option" where
  "to_any_map m = map_option (map (\<lambda>(k, v). (k, JStr v))) m"

text \<open>The loop over the tools: each one allowed becomes a tool and a closure.\<close>

definition registered_tool :: "mcp_server_config \<Rightarrow> mcp_tool \<Rightarrow> nat \<Rightarrow> diagnose_tool" where
  "registered_tool srv t f =
     \<lparr>dt_name = ms_name srv @ ''_'' @ mt_name t, dt_description = mt_description t,
      dt_parameters = convert_params (extract_params t), dt_scope = ToolScopeLocal, dt_supported_os = [],
      dt_execute = Some f, dt_remote_execute = None\<rparr>"

fun tools_to_register ::
  "nat \<Rightarrow> mcp_server_config \<Rightarrow> nat \<Rightarrow> mcp_tool list \<Rightarrow> (nat \<times> string) list \<Rightarrow> diagnose_tool list \<times> (nat \<times> string) list" where
  "tools_to_register base srv client [] funs = ([], funs)"
| "tools_to_register base srv client (t # ts) funs =
     (if \<not> is_tool_allowed srv (mt_name t) then tools_to_register base srv client ts funs
      else
        let dt = registered_tool srv t (base + length funs);
            (dts, funs) = tools_to_register base srv client ts (funs @ [(client, mt_name t)])
        in (dt # dts, funs))"

fun register_all :: "string \<Rightarrow> diagnose_tool list \<Rightarrow> tool_registry \<Rightarrow> tool_registry" where
  "register_all cat [] r = r"
| "register_all cat (t # ts) r = register_all cat ts (register cat t r)"

definition server_desc :: "mcp_host \<Rightarrow> string \<Rightarrow> string \<Rightarrow> string" where
  "server_desc h name identity =
     ''External data via MCP server '' @ h_quote h name
       @ (if identity \<noteq> '''' then '' (this host: '' @ identity @ '')'' else '''')"

definition register_mcp_tools ::
  "mcp_host \<Rightarrow> mcp_server_config \<Rightarrow> mcp_tool list \<Rightarrow> nat \<Rightarrow> string \<Rightarrow> mcp_manager \<times> tool_registry
     \<Rightarrow> nat \<times> mcp_manager \<times> tool_registry" where
  "register_mcp_tools h srv ts client identity s =
     (case s of (m, reg) \<Rightarrow>
        let cat = categoryPrefix @ ms_name srv;
            (dts, funs) = tools_to_register (h_base h) srv client ts (mg_funs m)
        in if length dts = 0 then (0, m, reg)
           else
             let reg = register_category cat cat (server_desc h (ms_name srv) identity) ToolScopeLocal reg
             in (length dts, m\<lparr>mg_funs := funs\<rparr>, register_all cat dts reg))"

definition set_client :: "nat \<Rightarrow> mcp_client \<Rightarrow> mcp_manager \<Rightarrow> mcp_manager" where
  "set_client a c m = m\<lparr>mg_heap := (mg_heap m)[a := c]\<rparr>"

text \<open>\<open>startServer\<close>; a server that does not get through its handshake is closed again.\<close>

definition start_server ::
  "mcp_host \<Rightarrow> nat \<Rightarrow> mcp_server_config \<Rightarrow> string \<Rightarrow> mcp_manager \<times> tool_registry
     \<Rightarrow> string option \<times> mcp_manager \<times> tool_registry" where
  "start_server h i srv default_identity s =
     (case s of (m, reg) \<Rightarrow>
        case new_mcp_client (h_quote h) (h_spawn h i) (ms_name srv) (ms_command srv) of
          Inl e \<Rightarrow> (Some e, m, reg)
        | Inr c \<Rightarrow>
            let a = length (mg_heap m); w = h_world h a; m = m\<lparr>mg_heap := mg_heap m @ [c]\<rparr> in
            (case mcp_initialize (h_env h) w c of
               (Some e, c) \<Rightarrow> (Some (''initialize: '' @ e), set_client a (snd (mcp_close w c)) m, reg)
             | (None, c) \<Rightarrow>
                 (case list_mcp_tools (h_env h) w c of
                    (Inl e, c) \<Rightarrow> (Some (''tools/list: '' @ e), set_client a (snd (mcp_close w c)) m, reg)
                  | (Inr ts, c) \<Rightarrow>
                      let m = (set_client a c m)\<lparr>mg_clients := mput (ms_name srv) a (mg_clients m),
                                mg_configs := mput (ms_name srv) srv (mg_configs m)\<rparr>;
                          identity = resolved_identity (h_getenv h) srv default_identity (mg_builtins m);
                          (n, m, reg) = register_mcp_tools h srv ts a identity (m, reg)
                      in (None, m, reg))))"

fun start_loop ::
  "mcp_host \<Rightarrow> string \<Rightarrow> nat \<Rightarrow> mcp_server_config list \<Rightarrow> mcp_manager \<times> tool_registry \<Rightarrow> mcp_manager \<times> tool_registry" where
  "start_loop h ident i [] s = s"
| "start_loop h ident i (srv # srvs) s =
     (if ms_name srv = '''' \<or> ms_command srv = '''' then start_loop h ident (i + 1) srvs s
      else start_loop h ident (i + 1) srvs (snd (start_server h i srv ident s)))"

definition start_all :: "mcp_host \<Rightarrow> mcp_config \<Rightarrow> mcp_manager \<times> tool_registry \<Rightarrow> mcp_manager \<times> tool_registry" where
  "start_all h cfg s =
     (case s of (m, reg) \<Rightarrow>
        start_loop h (mcp_default_identity cfg) 0 (mcp_servers cfg)
          (m\<lparr>mg_builtins := host_builtins (h_hostname h) (h_ip h)\<rparr>, reg))"

text \<open>The function of a registered tool.\<close>

definition mcp_execute ::
  "mcp_host \<Rightarrow> nat \<Rightarrow> (string, string) gomap option \<Rightarrow> mcp_manager \<Rightarrow> (string + string) \<times> mcp_manager" where
  "mcp_execute h f args m =
     (case mg_funs m ! (f - h_base h) of (a, captured) \<Rightarrow>
        case mcp_call_tool (h_env h) (h_world h a) captured (to_any_map args) (mg_heap m ! a) of
          (r, c) \<Rightarrow> (r, set_client a c m))"

section \<open>Closing and asking\<close>

fun close_loop :: "mcp_host \<Rightarrow> (string \<times> nat) list \<Rightarrow> mcp_manager \<Rightarrow> mcp_manager" where
  "close_loop h [] m = m"
| "close_loop h ((n, a) # cs) m =
     close_loop h cs (set_client a (snd (mcp_close (h_world h a) (mg_heap m ! a))) m)"

definition close_manager :: "mcp_host \<Rightarrow> mcp_manager \<Rightarrow> mcp_manager" where
  "close_manager h m = (close_loop h (mg_clients m) m)\<lparr>mg_clients := []\<rparr>"

definition server_names :: "mcp_manager \<Rightarrow> string list" where
  "server_names m = sorted_keys (mg_clients m)"

definition server_count :: "mcp_manager \<Rightarrow> nat" where
  "server_count m = length (mg_clients m)"

fun identity_lines :: "mcp_host \<Rightarrow> mcp_manager \<Rightarrow> string \<Rightarrow> string list \<Rightarrow> string" where
  "identity_lines h m ident [] = ''''"
| "identity_lines h m ident (n # ns) =
     (let d = resolved_identity (h_getenv h) (the (mget (mg_configs m) n)) ident (mg_builtins m) in
      (if d \<noteq> '''' then ''- '' @ n @ '': '' @ d @ nl else '''') @ identity_lines h m ident ns)"

definition identity_summary :: "mcp_host \<Rightarrow> mcp_manager \<Rightarrow> string \<Rightarrow> string" where
  "identity_summary h m ident =
     (if length (mg_configs m) = 0 then '''' else identity_lines h m ident (sorted_keys (mg_configs m)))"

section \<open>No client is lost\<close>

lemma new_client_fresh:
  "new_mcp_client q sp n cmd = Inr c \<Longrightarrow> mc_name c = n \<and> \<not> mc_closed c"
  by (auto simp: new_mcp_client_def split: option.splits prod.splits bool.splits)

lemma initialize_frame:
  "mcp_initialize env w c = (r, c') \<Longrightarrow> mc_name c' = mc_name c \<and> mc_closed c' = mc_closed c"
  by (auto simp: mcp_initialize_def rpc_notify_def send_request_def
      split: prod.splits sum.splits if_splits option.splits dest!: rpc_call_frame)

lemma list_frame:
  "list_mcp_tools env w c = (r, c') \<Longrightarrow> mc_name c' = mc_name c \<and> mc_closed c' = mc_closed c"
  by (auto simp: list_mcp_tools_def split: prod.splits sum.splits dest!: rpc_call_frame)

lemma call_tool_frame:
  "mcp_call_tool env w t args c = (r, c') \<Longrightarrow> mc_name c' = mc_name c \<and> mc_closed c' = mc_closed c"
  by (auto simp: mcp_call_tool_def split: prod.splits sum.splits dest!: rpc_call_frame)

lemma close_frame [simp]:
  "mc_name (snd (mcp_close w c)) = mc_name c" "mc_closed (snd (mcp_close w c))"
  by (simp_all add: mcp_close_def)

lemma set_client_simps [simp]:
  "mg_clients (set_client a c m) = mg_clients m" "mg_configs (set_client a c m) = mg_configs m"
  "mg_builtins (set_client a c m) = mg_builtins m" "mg_funs (set_client a c m) = mg_funs m"
  "mg_heap (set_client a c m) = (mg_heap m)[a := c]"
  by (simp_all add: set_client_def)

text \<open>Every client that is not closed is the one the table has under its name, and conversely.\<close>

definition clients_ok :: "mcp_manager \<Rightarrow> bool" where
  "clients_ok m \<longleftrightarrow>
     (\<forall>n a. mget (mg_clients m) n = Some a \<longleftrightarrow>
        a < length (mg_heap m) \<and> mc_name (mg_heap m ! a) = n \<and> \<not> mc_closed (mg_heap m ! a))"

lemma clients_ok_cong:
  "mg_clients m' = mg_clients m \<Longrightarrow> mg_heap m' = mg_heap m \<Longrightarrow> clients_ok m \<Longrightarrow> clients_ok m'"
  by (simp add: clients_ok_def)

lemma clients_ok_closed:
  assumes "clients_ok m" "mc_closed c"
  shows "clients_ok (m\<lparr>mg_heap := mg_heap m @ [c]\<rparr>)"
  using assms by (auto simp: clients_ok_def nth_append)

lemma clients_ok_new:
  assumes "clients_ok m" "\<not> mc_closed c" "mget (mg_clients m) (mc_name c) = None"
  shows "clients_ok (m\<lparr>mg_heap := mg_heap m @ [c], mg_clients := mput (mc_name c) (length (mg_heap m)) (mg_clients m)\<rparr>)"
  using assms by (auto simp: clients_ok_def nth_append less_Suc_eq; metis option.distinct(1))

lemma register_mcp_frame:
  "register_mcp_tools h srv ts a ident (m, reg) = (n, m', reg') \<Longrightarrow>
     mg_clients m' = mg_clients m \<and> mg_heap m' = mg_heap m \<and> mg_configs m' = mg_configs m"
  by (auto simp: register_mcp_tools_def Let_def split: prod.splits if_splits)

text \<open>What a start does to the table and the heap: nothing, a closed client more, or an open one.\<close>

lemma start_server_cases:
  assumes "start_server h i srv ident (m, reg) = (r, m', reg')"
  obtains (nothing) "m' = m" "reg' = reg"
  | (failed) c where "mc_closed c" "mc_name c = ms_name srv" "m' = m\<lparr>mg_heap := mg_heap m @ [c]\<rparr>" "reg' = reg"
  | (started) c ts m1 n identity where "\<not> mc_closed c" "mc_name c = ms_name srv"
      "m1 = m\<lparr>mg_heap := mg_heap m @ [c], mg_clients := mput (ms_name srv) (length (mg_heap m)) (mg_clients m),
              mg_configs := mput (ms_name srv) srv (mg_configs m)\<rparr>"
      "register_mcp_tools h srv ts (length (mg_heap m)) identity (m1, reg) = (n, m', reg')"
proof (cases "new_mcp_client (h_quote h) (h_spawn h i) (ms_name srv) (ms_command srv)")
  case (Inl e)
  then show thesis by - (rule nothing; use assms Inl in \<open>auto simp: start_server_def\<close>)
next
  case new: (Inr c)
  let ?w = "h_world h (length (mg_heap m))"
  obtain r1 c1 where ini: "mcp_initialize (h_env h) ?w c = (r1, c1)" by force
  have n1: "mc_name c1 = ms_name srv" "\<not> mc_closed c1"
    using new_client_fresh [OF new] initialize_frame [OF ini] by auto
  show thesis
  proof (cases r1)
    case (Some e)
    with assms new ini n1 show thesis
      by (intro failed [of "snd (mcp_close ?w c1)"]) (auto simp: start_server_def set_client_def Let_def)
  next
    case None
    obtain r2 c2 where ls: "list_mcp_tools (h_env h) ?w c1 = (r2, c2)" by force
    have n2: "mc_name c2 = ms_name srv" "\<not> mc_closed c2" using n1 list_frame [OF ls] by auto
    show thesis
    proof (cases r2)
      case (Inl e)
      with assms new ini None ls n2 show thesis
        by (intro failed [of "snd (mcp_close ?w c2)"]) (auto simp: start_server_def set_client_def Let_def)
    next
      case (Inr ts)
      with assms new ini None ls n2 obtain n where
        "register_mcp_tools h srv ts (length (mg_heap m))
          (resolved_identity (h_getenv h) srv ident (mg_builtins m))
          (m\<lparr>mg_heap := mg_heap m @ [c2], mg_clients := mput (ms_name srv) (length (mg_heap m)) (mg_clients m),
             mg_configs := mput (ms_name srv) srv (mg_configs m)\<rparr>, reg) = (n, m', reg')"
        by (auto simp: start_server_def set_client_def Let_def split: prod.splits)
      then show thesis by (rule started [OF n2(2,1) refl])
    qed
  qed
qed

lemma start_server_clients:
  assumes "start_server h i srv ident (m, reg) = (r, m', reg')" "clients_ok m"
    "mget (mg_clients m) (ms_name srv) = None"
  shows "clients_ok m' \<and> (\<forall>n. n \<noteq> ms_name srv \<longrightarrow> mget (mg_clients m') n = mget (mg_clients m) n)"
  using assms(1)
proof (cases rule: start_server_cases)
  case nothing
  with assms show ?thesis by simp
next
  case (failed c)
  with assms clients_ok_closed show ?thesis by simp
next
  case (started c ts m1 n identity)
  note f = register_mcp_frame [OF started(4)]
  have "clients_ok (m\<lparr>mg_heap := mg_heap m @ [c], mg_clients := mput (ms_name srv) (length (mg_heap m)) (mg_clients m)\<rparr>)"
    using clients_ok_new [OF assms(2) started(1)] started(2) assms(3) by simp
  then have "clients_ok m'" by (rule clients_ok_cong [rotated 2]) (simp_all add: f started(3))
  then show ?thesis using f by (simp add: started(3))
qed

lemma start_loop_clients:
  "clients_ok (fst s) \<Longrightarrow> distinct (map ms_name srvs) \<Longrightarrow>
   \<forall>srv \<in> set srvs. mget (mg_clients (fst s)) (ms_name srv) = None \<Longrightarrow>
   clients_ok (fst (start_loop h ident i srvs s))"
proof (induction srvs arbitrary: i s)
  case Nil
  then show ?case by simp
next
  case (Cons srv srvs)
  obtain m reg where s: "s = (m, reg)" by force
  obtain r m' reg' where st: "start_server h i srv ident (m, reg) = (r, m', reg')" by (metis surj_pair)
  have "clients_ok m' \<and> (\<forall>n. n \<noteq> ms_name srv \<longrightarrow> mget (mg_clients m') n = mget (mg_clients m) n)"
    by (rule start_server_clients [OF st]) (use Cons.prems s in auto)
  moreover have "\<forall>v \<in> set srvs. ms_name v \<noteq> ms_name srv"
    using Cons.prems(2) by (auto simp: image_iff)
  ultimately have "clients_ok (fst (start_loop h ident (i + 1) srvs (m', reg')))"
    using Cons.prems s by (intro Cons.IH) auto
  moreover have "clients_ok (fst (start_loop h ident (i + 1) srvs s))"
    using Cons.prems by (intro Cons.IH) auto
  ultimately show ?case by (simp add: s st)
qed

lemma close_loop_heap:
  "length (mg_heap (close_loop h cs m)) = length (mg_heap m) \<and> mg_clients (close_loop h cs m) = mg_clients m"
  by (induction h cs m rule: close_loop.induct) auto

lemma close_loop_closed:
  "a < length (mg_heap m) \<Longrightarrow> mc_closed (mg_heap m ! a) \<or> a \<in> snd ` set cs \<Longrightarrow>
     mc_closed (mg_heap (close_loop h cs m) ! a)"
proof (induction h cs m rule: close_loop.induct)
  case (1 h m)
  then show ?case by simp
next
  case (2 h n b cs m)
  then show ?case by (cases "a = b") auto
qed

lemma close_manager_closed:
  assumes "clients_ok m" "a < length (mg_heap (close_manager h m))"
  shows "mc_closed (mg_heap (close_manager h m) ! a)"
proof -
  have a: "a < length (mg_heap m)" using assms(2) close_loop_heap by (simp add: close_manager_def)
  have "mc_closed (mg_heap m ! a) \<or> a \<in> snd ` set (mg_clients m)"
  proof (cases "mc_closed (mg_heap m ! a)")
    case False
    with assms(1) a have "mget (mg_clients m) (mc_name (mg_heap m ! a)) = Some a" by (simp add: clients_ok_def)
    then show ?thesis by (auto dest!: mget_Some_in intro: rev_image_eqI)
  qed simp
  with close_loop_closed [OF a] show ?thesis by (simp add: close_manager_def)
qed

section \<open>What the tools do\<close>

abbreviation allowed_tools :: "mcp_server_config \<Rightarrow> mcp_tool list \<Rightarrow> mcp_tool list" where
  "allowed_tools srv ts \<equiv> filter (\<lambda>t. is_tool_allowed srv (mt_name t)) ts"

lemma tools_to_register_eq:
  "tools_to_register base srv a ts funs =
     (map (\<lambda>(f, t). registered_tool srv t f)
        (zip [base + length funs..<base + length funs + length (allowed_tools srv ts)] (allowed_tools srv ts)),
      funs @ map (\<lambda>t. (a, mt_name t)) (allowed_tools srv ts))"
  by (induction ts arbitrary: funs) (simp_all add: upt_conv_Cons del: upt_Suc)

lemma register_index:
  "mget (tool_index (register cat t r)) n =
     (if mget (tool_index r) (dt_name t) = None \<and> n = dt_name t then Some t else mget (tool_index r) n)"
  by (auto simp: register_def Let_def)

lemma register_category_index [simp]:
  "tool_index (register_category name plugin desc scope r) = tool_index r"
  by (simp add: register_category_def Let_def)

lemma register_all_index:
  "mget (tool_index (register_all cat ts r)) n = Some t \<Longrightarrow>
     mget (tool_index r) n = Some t \<or> t \<in> set ts \<and> n = dt_name t"
  by (induction cat ts r rule: register_all.induct) (auto simp: register_index split: if_splits)

lemma register_all_built: "registry_built r \<Longrightarrow> registry_built (register_all cat ts r)"
  by (induction cat ts r rule: register_all.induct) (auto intro: registry_built.intros)

definition tool_ok :: "nat \<Rightarrow> mcp_server_config list \<Rightarrow> mcp_manager \<Rightarrow> string \<Rightarrow> nat \<Rightarrow> bool" where
  "tool_ok base srvs m n f \<longleftrightarrow>
     f - base < length (mg_funs m) \<and>
     (case mg_funs m ! (f - base) of (a, raw) \<Rightarrow>
        a < length (mg_heap m) \<and> n = mc_name (mg_heap m ! a) @ ''_'' @ raw
          \<and> (\<exists>srv \<in> set srvs. ms_name srv = mc_name (mg_heap m ! a) \<and> is_tool_allowed srv raw))"

definition tools_ok :: "nat \<Rightarrow> mcp_server_config list \<Rightarrow> mcp_manager \<Rightarrow> tool_registry \<Rightarrow> bool" where
  "tools_ok base srvs m reg \<longleftrightarrow>
     (\<forall>n t f. mget (tool_index reg) n = Some t \<longrightarrow> dt_execute t = Some f \<longrightarrow> base \<le> f \<longrightarrow> tool_ok base srvs m n f)"

text \<open>More clients and more functions leave the old tools as they are.\<close>

lemma tool_ok_grow:
  "tool_ok base srvs m n f \<Longrightarrow> mg_heap m' = mg_heap m @ cs \<Longrightarrow> mg_funs m' = mg_funs m @ fs \<Longrightarrow>
     tool_ok base srvs m' n f"
  by (auto simp: tool_ok_def nth_append split: prod.splits)

lemma tools_ok_grow:
  "tools_ok base srvs m reg \<Longrightarrow> mg_heap m' = mg_heap m @ cs \<Longrightarrow> mg_funs m' = mg_funs m @ fs \<Longrightarrow>
     tools_ok base srvs m' reg"
  by (auto simp: tools_ok_def intro: tool_ok_grow)

lemma registered_tool_ok:
  assumes "t \<in> set (fst (tools_to_register base srv a ts funs))" "srv \<in> set srvs" "dt_execute t = Some f"
    and "mg_funs m = snd (tools_to_register base srv a ts funs)" "a < length (mg_heap m)"
    "mc_name (mg_heap m ! a) = ms_name srv"
  shows "tool_ok base srvs m (dt_name t) f"
proof -
  let ?ok = "allowed_tools srv ts"
  obtain k where k: "k < length ?ok" "t = registered_tool srv (?ok ! k) (base + length funs + k)"
    using assms(1) by (auto simp: tools_to_register_eq in_set_zip)
  have "?ok ! k \<in> set ?ok" using k(1) by (rule nth_mem)
  with k assms(2-) show ?thesis
    by (auto simp: tool_ok_def tools_to_register_eq registered_tool_def nth_append)
qed

lemma register_mcp_tools_ok:
  assumes reg: "register_mcp_tools h srv ts a ident (m, reg) = (n, m', reg')"
    and ok: "tools_ok (h_base h) srvs m reg" and srv: "srv \<in> set srvs"
    and a: "a < length (mg_heap m)" "mc_name (mg_heap m ! a) = ms_name srv"
  shows "tools_ok (h_base h) srvs m' reg'"
proof -
  obtain dts funs where d: "tools_to_register (h_base h) srv a ts (mg_funs m) = (dts, funs)" by force
  show ?thesis
  proof (cases "dts = []")
    case True
    with reg ok d show ?thesis by (simp add: register_mcp_tools_def)
  next
    case False
    then have m': "m' = m\<lparr>mg_funs := funs\<rparr>"
      and reg': "\<exists>c p de. reg' = register_all c dts (register_category c p de ToolScopeLocal reg)"
      using reg d by (auto simp: register_mcp_tools_def Let_def)
    obtain fs where fs: "funs = mg_funs m @ fs" using d by (auto simp: tools_to_register_eq)
    have old: "tools_ok (h_base h) srvs m' reg"
      by (rule tools_ok_grow [OF ok, of _ "[]" fs]) (simp_all add: m' fs)
    have new: "tool_ok (h_base h) srvs m' (dt_name t) f" if "t \<in> set dts" "dt_execute t = Some f" for t f
      by (rule registered_tool_ok [of _ _ srv a ts "mg_funs m"]) (use that d srv a m' in simp_all)
    show ?thesis
      unfolding tools_ok_def
    proof (intro allI impI)
      fix n t f
      assume t: "mget (tool_index reg') n = Some t" "dt_execute t = Some f" "h_base h \<le> f"
      then have "mget (tool_index reg) n = Some t \<or> t \<in> set dts \<and> n = dt_name t"
        using reg' register_all_index by fastforce
      with old new t show "tool_ok (h_base h) srvs m' n f" by (auto simp: tools_ok_def)
    qed
  qed
qed

lemma register_mcp_tools_built:
  "register_mcp_tools h srv ts a ident (m, reg) = (n, m', reg') \<Longrightarrow> registry_built reg \<Longrightarrow> registry_built reg'"
  by (auto simp: register_mcp_tools_def Let_def intro: register_all_built registry_built.category
      split: prod.splits if_splits)

lemma start_server_tools:
  assumes "start_server h i srv ident (m, reg) = (r, m', reg')"
    and "tools_ok (h_base h) srvs m reg" "registry_built reg" "srv \<in> set srvs"
  shows "tools_ok (h_base h) srvs m' reg' \<and> registry_built reg'"
  using assms(1)
proof (cases rule: start_server_cases)
  case nothing
  with assms show ?thesis by simp
next
  case (failed c)
  have "tools_ok (h_base h) srvs m' reg"
    by (rule tools_ok_grow [OF assms(2), of _ "[c]" "[]"]) (simp_all add: failed)
  with failed assms show ?thesis by simp
next
  case (started c ts m1 n identity)
  have "tools_ok (h_base h) srvs m1 reg"
    by (rule tools_ok_grow [OF assms(2), of _ "[c]" "[]"]) (simp_all add: started(3))
  then have "tools_ok (h_base h) srvs m' reg'"
    by (rule register_mcp_tools_ok [OF started(4) _ assms(4)]) (simp_all add: started(2,3))
  with started(4) assms(3) register_mcp_tools_built show ?thesis by blast
qed

lemma start_loop_tools:
  "tools_ok (h_base h) all (fst s) (snd s) \<Longrightarrow> registry_built (snd s) \<Longrightarrow> set srvs \<subseteq> set all \<Longrightarrow>
   tools_ok (h_base h) all (fst (start_loop h ident i srvs s)) (snd (start_loop h ident i srvs s))
     \<and> registry_built (snd (start_loop h ident i srvs s))"
proof (induction srvs arbitrary: i s)
  case Nil
  then show ?case by simp
next
  case (Cons srv srvs)
  obtain m reg where s: "s = (m, reg)" by force
  obtain r m' reg' where st: "start_server h i srv ident (m, reg) = (r, m', reg')" by (metis surj_pair)
  have "tools_ok (h_base h) all m' reg' \<and> registry_built reg'"
    by (rule start_server_tools [OF st]) (use Cons.prems s in auto)
  then show ?case
    using Cons.IH [of "(m', reg')" "i + 1"] Cons.IH [of s "i + 1"] Cons.prems by (simp add: s st)
qed

lemma close_loop_funs: "mg_funs (close_loop h cs m) = mg_funs m"
  by (induction h cs m rule: close_loop.induct) simp_all

lemma close_loop_names:
  "a < length (mg_heap m) \<Longrightarrow> mc_name (mg_heap (close_loop h cs m) ! a) = mc_name (mg_heap m ! a)"
proof (induction h cs m rule: close_loop.induct)
  case (1 h m)
  then show ?case by simp
next
  case (2 h n b cs m)
  then show ?case by (cases "a = b") auto
qed

lemma mcp_execute_closed:
  assumes "mg_funs m ! (f - h_base h) = (a, raw)" "mc_closed (mg_heap m ! a)"
  shows "fst (mcp_execute h f args m) =
    Inl (''mcp '' @ mc_name (mg_heap m ! a) @ '': tools/call '' @ raw @ '': client closed'')"
  using assms
  by (simp add: mcp_execute_def mcp_call_tool_def closed_client_calls_nothing decode_result_def case_prod_unfold)

text \<open>
  C20. After the servers of a configuration with distinct names were started, whatever they
  answered: the clients that are open are those in the table, each under its server's name, and
  closing the manager closes every client ever started; the registry is consistent, and every MCP
  tool in it belongs to one configured server whose whitelist allows it, is named after the two,
  and runs that tool on that server's client, or after the closing answers that it is closed.
\<close>

theorem mcp_servers_managed:
  assumes run: "start_all h cfg (new_mcp_manager, reg) = (m, reg')"
    and "distinct (map ms_name (mcp_servers cfg))" and "registry_built reg"
    and fresh: "\<forall>n t f. mget (tool_index reg) n = Some t \<longrightarrow> dt_execute t = Some f \<longrightarrow> f < h_base h"
  shows "(\<forall>n a. mget (mg_clients m) n = Some a \<longleftrightarrow>
      a < length (mg_heap m) \<and> mc_name (mg_heap m ! a) = n \<and> \<not> mc_closed (mg_heap m ! a))
    \<and> (\<forall>i < length (mg_heap (close_manager h m)). mc_closed (mg_heap (close_manager h m) ! i))
    \<and> registry_built reg'
    \<and> (\<forall>tn t f. get_tool tn reg' = Some t \<and> dt_execute t = Some f \<and> h_base h \<le> f \<longrightarrow>
      (\<exists>srv b raw. srv \<in> set (mcp_servers cfg) \<and> is_tool_allowed srv raw \<and> tn = ms_name srv @ ''_'' @ raw
        \<and> b < length (mg_heap m) \<and> mc_name (mg_heap m ! b) = ms_name srv
        \<and> fst (mcp_execute h f args m) = fst (mcp_call_tool (h_env h) (h_world h b) raw (to_any_map args) (mg_heap m ! b))
        \<and> fst (mcp_execute h f args (close_manager h m)) =
            Inl (''mcp '' @ ms_name srv @ '': tools/call '' @ raw @ '': client closed'')))"
proof (intro conjI allI impI)
  let ?s = "(new_mcp_manager\<lparr>mg_builtins := host_builtins (h_hostname h) (h_ip h)\<rparr>, reg)"
  have m: "(m, reg') = start_loop h (mcp_default_identity cfg) 0 (mcp_servers cfg) ?s"
    using run by (simp add: start_all_def)
  have "clients_ok (fst (start_loop h (mcp_default_identity cfg) 0 (mcp_servers cfg) ?s))"
    by (rule start_loop_clients) (simp_all add: assms(2) clients_ok_def new_mcp_manager_def)
  then have cok: "clients_ok m" by (simp add: m [symmetric])
  have "tools_ok (h_base h) (mcp_servers cfg) (fst ?s) reg"
    unfolding tools_ok_def using fresh by (metis not_le)
  then have tok: "tools_ok (h_base h) (mcp_servers cfg) m reg'" and built: "registry_built reg'"
    using start_loop_tools [of h "mcp_servers cfg" ?s "mcp_servers cfg" "mcp_default_identity cfg" 0] assms(3)
      m [symmetric] by auto
  show "mget (mg_clients m) n = Some a \<longleftrightarrow>
      a < length (mg_heap m) \<and> mc_name (mg_heap m ! a) = n \<and> \<not> mc_closed (mg_heap m ! a)" for n a
    using cok by (simp add: clients_ok_def)
  show "mc_closed (mg_heap (close_manager h m) ! i)" if "i < length (mg_heap (close_manager h m))" for i
    using that by (rule close_manager_closed [OF cok])
  show "registry_built reg'" by (rule built)
  fix tn t f
  assume "get_tool tn reg' = Some t \<and> dt_execute t = Some f \<and> h_base h \<le> f"
  then have t: "get_tool tn reg' = Some t" "dt_execute t = Some f" "h_base h \<le> f" by auto
  obtain b raw where p: "mg_funs m ! (f - h_base h) = (b, raw)" by force
  have "tool_ok (h_base h) (mcp_servers cfg) m tn f" using tok t by (simp add: tools_ok_def get_tool_def)
  with p obtain srv where srv: "b < length (mg_heap m)" "tn = mc_name (mg_heap m ! b) @ ''_'' @ raw"
    "srv \<in> set (mcp_servers cfg)" "ms_name srv = mc_name (mg_heap m ! b)" "is_tool_allowed srv raw"
    by (auto simp: tool_ok_def)
  have len: "b < length (mg_heap (close_manager h m))"
    using srv(1) close_loop_heap by (simp add: close_manager_def)
  have "fst (mcp_execute h f args (close_manager h m)) =
      Inl (''mcp '' @ mc_name (mg_heap (close_manager h m) ! b) @ '': tools/call '' @ raw @ '': client closed'')"
    by (rule mcp_execute_closed) (use p close_manager_closed [OF cok len] in \<open>simp_all add: close_manager_def close_loop_funs\<close>)
  also have "mc_name (mg_heap (close_manager h m) ! b) = ms_name srv"
    using srv(1,4) close_loop_names by (simp add: close_manager_def)
  finally show "\<exists>srv b raw. srv \<in> set (mcp_servers cfg) \<and> is_tool_allowed srv raw \<and> tn = ms_name srv @ ''_'' @ raw
        \<and> b < length (mg_heap m) \<and> mc_name (mg_heap m ! b) = ms_name srv
        \<and> fst (mcp_execute h f args m) = fst (mcp_call_tool (h_env h) (h_world h b) raw (to_any_map args) (mg_heap m ! b))
        \<and> fst (mcp_execute h f args (close_manager h m)) =
            Inl (''mcp '' @ ms_name srv @ '': tools/call '' @ raw @ '': client closed'')"
    using srv p by (intro exI [of _ srv] exI [of _ b] exI [of _ raw])
      (simp add: mcp_execute_def case_prod_unfold)
qed

section \<open>Examples\<close>

text \<open>
  A host whose processes all answer \<open>{1}\<close> to the handshake and \<open>{2}\<close>, with the tools \<open>t\<close> and
  \<open>u\<close>, to the listing.
\<close>

definition listing :: json where
  "listing = JObj [(''tools'', JArr [JObj [(''name'', JStr ''t'')], JObj [(''name'', JStr ''u'')]])]"

definition example_host :: mcp_host where
  "example_host =
     \<lparr>h_env = \<lparr>me_decode = (\<lambda>t.
          if t = ''{1}'' then Some (JObj [(''id'', JNum ''1''), (''result'', JObj [])])
          else if t = ''{2}'' then Some (JObj [(''id'', JNum ''2''), (''result'', listing)])
          else None), me_render = (\<lambda>_. ''{}''), me_json_err = (\<lambda>_. ''invalid'')\<rparr>,
      h_spawn = (\<lambda>_. \<lparr>sp_stdin = None, sp_stdout = None, sp_start = None\<rparr>),
      h_world = (\<lambda>_. \<lparr>mw_deliver = (\<lambda>i. if i = 1 then Delivered ''{1}'' else Delivered ''{2}''),
          mw_write = (\<lambda>_. None), mw_stderr = '''', mw_exit = None\<rparr>),
      h_getenv = (\<lambda>_. ''''), h_quote = (\<lambda>s. s), h_hostname = ''db1'', h_ip = ''10.0.0.1'', h_base = 100\<rparr>"

definition example_server :: "string \<Rightarrow> string list \<Rightarrow> mcp_server_config" where
  "example_server name allow =
     \<lparr>ms_name = name, ms_command = ''srv'', ms_args = [], ms_env = [], ms_identity = '''', ms_tools_allow = allow\<rparr>"

definition example_mcp_config :: "mcp_server_config list \<Rightarrow> mcp_config" where
  "example_mcp_config srvs = \<lparr>mcp_enabled = True, mcp_default_identity = '''', mcp_servers = srvs\<rparr>"

definition after_start :: "mcp_server_config list \<Rightarrow> mcp_manager \<times> tool_registry" where
  "after_start srvs = start_all example_host (example_mcp_config srvs) (new_mcp_manager, new_tool_registry)"

lemma after_start_facts:
  "map_option dt_execute (get_tool ''a_u'' (snd (after_start [example_server ''a'' [''u''], example_server ''b'' []])))
     = Some (Some 100)"
  "get_tool ''a_t'' (snd (after_start [example_server ''a'' [''u''], example_server ''b'' []])) = None"
  "map mc_closed (mg_heap (fst (after_start [example_server ''a'' [''u''], example_server ''b'' []]))) = [False, False]"
  by code_simp+

theorem mcp_servers_managed_witness:
  "mget (mg_clients (fst (after_start [example_server ''a'' [''u''], example_server ''b'' []]))) ''b'' = Some 1
   \<and> mc_closed (mg_heap (close_manager example_host
        (fst (after_start [example_server ''a'' [''u''], example_server ''b'' []]))) ! 0)
   \<and> (\<exists>srv raw. is_tool_allowed srv raw \<and> ''a_u'' = ms_name srv @ ''_'' @ raw)"
proof -
  let ?srvs = "[example_server ''a'' [''u''], example_server ''b'' []]"
  let ?m = "fst (after_start ?srvs)" and ?r = "snd (after_start ?srvs)"
  have run: "start_all example_host (example_mcp_config ?srvs) (new_mcp_manager, new_tool_registry) = (?m, ?r)"
    by (simp add: after_start_def)
  have d: "distinct (map ms_name (mcp_servers (example_mcp_config ?srvs)))"
    by (simp add: example_mcp_config_def example_server_def)
  have f: "\<forall>n t f. mget (tool_index new_tool_registry) n = Some t \<longrightarrow> dt_execute t = Some f \<longrightarrow> f < h_base example_host"
    by (simp add: new_tool_registry_def)
  note w = mcp_servers_managed [OF run d registry_built.empty f]
  have heap: "length (mg_heap ?m) = 2" "mc_name (mg_heap ?m ! 1) = ''b''" "\<not> mc_closed (mg_heap ?m ! 1)"
    by code_simp+
  have "length (mg_heap (close_manager example_host ?m)) = 2"
    using heap(1) close_loop_heap by (simp add: close_manager_def)
  then have two: "mc_closed (mg_heap (close_manager example_host ?m) ! 0)" using w by simp
  obtain t where t: "get_tool ''a_u'' ?r = Some t" "dt_execute t = Some 100"
    using after_start_facts(1) by auto
  have "h_base example_host = 100" by (simp add: example_host_def)
  then have "\<exists>srv raw. is_tool_allowed srv raw \<and> ''a_u'' = ms_name srv @ ''_'' @ raw"
    using w t by (metis le_refl)
  moreover have "mget (mg_clients ?m) ''b'' = Some 1"
    using w heap by simp
  ultimately show ?thesis using two by blast
qed

text \<open>
  Nothing keeps two servers from having one name.  The second client then replaces the first in
  the table: the first stays open after the manager was closed, and the tools still run on it.
\<close>

theorem duplicate_server_leaks:
  "map mc_closed (mg_heap (close_manager example_host (fst (after_start [example_server ''a'' [], example_server ''a'' []]))))
     = [False, True]
   \<and> mg_funs (fst (after_start [example_server ''a'' [], example_server ''a'' []])) ! 0 = (0, ''t'')
   \<and> map_option dt_execute (get_tool ''a_t'' (snd (after_start [example_server ''a'' [], example_server ''a'' []])))
     = Some (Some 100)"
  by code_simp

section \<open>Testing a configuration\<close>

text \<open>\<open>elapsed\<close> is the measured time; the client is closed when the function returns.\<close>

record mcp_test_result =
  te_name :: string
  te_status :: string
  te_identity :: string
  te_tools :: "string list"
  te_allowed :: "string list"
  te_message :: string
  te_elapsed :: int

definition append_stderr :: "mcp_world \<Rightarrow> mcp_test_result \<Rightarrow> mcp_test_result" where
  "append_stderr w r =
     (let stderr = trim_space (mw_stderr w) in
      if stderr \<noteq> '''' then r\<lparr>te_message := te_message r @ nl @ ''stderr:'' @ nl @ stderr\<rparr> else r)"

definition test_failed :: "string \<Rightarrow> mcp_test_result \<Rightarrow> mcp_test_result" where
  "test_failed message r = r\<lparr>te_status := ''FAIL'', te_message := message\<rparr>"

text \<open>The last loop, over the discovered tools.\<close>

fun collect_tools :: "mcp_server_config \<Rightarrow> mcp_tool list \<Rightarrow> mcp_test_result \<Rightarrow> mcp_test_result" where
  "collect_tools srv [] r = r"
| "collect_tools srv (t # ts) r =
     (let r = r\<lparr>te_tools := te_tools r @ [mt_name t]\<rparr>;
          r = (if is_tool_allowed srv (mt_name t) then r\<lparr>te_allowed := te_allowed r @ [mt_name t]\<rparr> else r)
      in collect_tools srv ts r)"

definition test_one_server ::
  "mcp_host \<Rightarrow> nat \<Rightarrow> int \<Rightarrow> mcp_server_config \<Rightarrow> string \<Rightarrow> (string, string) gomap \<Rightarrow> mcp_test_result \<times> mcp_client option" where
  "test_one_server h i elapsed srv ident builtins =
     (let r = \<lparr>te_name = ms_name srv, te_status = '''', te_identity = resolved_identity (h_getenv h) srv ident builtins,
            te_tools = [], te_allowed = [], te_message = '''', te_elapsed = elapsed\<rparr>;
          w = h_world h i
      in if ms_name srv = '''' then (test_failed ''server name is empty'' r, None)
         else if ms_command srv = '''' then (test_failed ''command is empty'' r, None)
         else case new_mcp_client (h_quote h) (h_spawn h i) (ms_name srv) (ms_command srv) of
             Inl e \<Rightarrow> (test_failed (''start failed: '' @ e) r, None)
           | Inr c \<Rightarrow>
               (case mcp_initialize (h_env h) w c of
                  (Some e, c) \<Rightarrow>
                    (append_stderr w (test_failed (''initialize failed: '' @ e) r), Some (snd (mcp_close w c)))
                | (None, c) \<Rightarrow>
                    (case list_mcp_tools (h_env h) w c of
                       (Inl e, c) \<Rightarrow>
                         (append_stderr w (test_failed (''tools/list failed: '' @ e) r), Some (snd (mcp_close w c)))
                     | (Inr ts, c) \<Rightarrow>
                         (collect_tools srv ts (r\<lparr>te_status := ''PASS''\<rparr>), Some (snd (mcp_close w c))))))"

fun test_loop ::
  "mcp_host \<Rightarrow> (nat \<Rightarrow> int) \<Rightarrow> string \<Rightarrow> (string, string) gomap \<Rightarrow> nat \<Rightarrow> mcp_server_config list
     \<Rightarrow> (mcp_test_result \<times> mcp_client option) list" where
  "test_loop h el ident builtins i [] = []"
| "test_loop h el ident builtins i (srv # srvs) =
     test_one_server h i (el i) srv ident builtins # test_loop h el ident builtins (i + 1) srvs"

definition config_failure :: "string \<Rightarrow> mcp_test_result" where
  "config_failure message =
     \<lparr>te_name = ''(config)'', te_status = ''FAIL'', te_identity = '''', te_tools = [], te_allowed = [],
      te_message = message, te_elapsed = 0\<rparr>"

definition run_mcp_test :: "mcp_host \<Rightarrow> (nat \<Rightarrow> int) \<Rightarrow> mcp_config \<Rightarrow> (mcp_test_result \<times> mcp_client option) list" where
  "run_mcp_test h el cfg =
     (if \<not> mcp_enabled cfg then [(config_failure ''[ai.mcp] enabled = false or not configured'', None)]
      else if length (mcp_servers cfg) = 0 then
        [(config_failure ''no servers configured under [[ai.mcp.servers]]'', None)]
      else test_loop h el (mcp_default_identity cfg) (host_builtins (h_hostname h) (h_ip h)) 0 (mcp_servers cfg))"

fun count_status :: "mcp_test_result list \<Rightarrow> nat \<times> nat" where
  "count_status [] = (0, 0)"
| "count_status (r # rs) =
     (case count_status rs of (p, f) \<Rightarrow> if te_status r = ''PASS'' then (p + 1, f) else (p, f + 1))"

lemma collect_tools_eq:
  "collect_tools srv ts r =
     r\<lparr>te_tools := te_tools r @ map mt_name ts,
       te_allowed := te_allowed r @ filter (is_tool_allowed srv) (map mt_name ts)\<rparr>"
  by (induction srv ts r rule: collect_tools.induct) (simp_all add: Let_def)

lemma test_one_server_result:
  assumes "test_one_server h i el srv ident builtins = (r, c)"
  shows "(te_status r = ''PASS'' \<or> te_status r = ''FAIL'' \<and> te_tools r = [] \<and> te_message r \<noteq> '''')
     \<and> te_name r = ms_name srv
     \<and> te_allowed r = filter (is_tool_allowed srv) (te_tools r) \<and> (\<forall>c'. c = Some c' \<longrightarrow> mc_closed c')"
  using assms
  by (auto simp: test_one_server_def test_failed_def append_stderr_def collect_tools_eq Let_def
      split: if_splits sum.splits prod.splits option.splits)

text \<open>
  The test of a configuration reports every server once and in order, as passed or as failed
  without tools; the allowed tools are the discovered ones the whitelist lets through, and every
  client it started is closed.
\<close>

theorem mcp_test_isolated:
  assumes "mcp_enabled cfg" "mcp_servers cfg \<noteq> []"
  shows "map (te_name \<circ> fst) (run_mcp_test h el cfg) = map ms_name (mcp_servers cfg)"
    and "(r, c) \<in> set (run_mcp_test h el cfg) \<Longrightarrow>
      (te_status r = ''PASS'' \<or> te_status r = ''FAIL'' \<and> te_tools r = [])
        \<and> set (te_allowed r) \<subseteq> set (te_tools r) \<and> (\<forall>c'. c = Some c' \<longrightarrow> mc_closed c')"
proof -
  have n: "map (te_name \<circ> fst) (test_loop h el ident b i srvs) = map ms_name srvs" for ident b i srvs
    by (induction srvs arbitrary: i) (simp_all add: test_one_server_result [OF surjective_pairing])
  show "map (te_name \<circ> fst) (run_mcp_test h el cfg) = map ms_name (mcp_servers cfg)"
    using assms n by (simp add: run_mcp_test_def)
  have mem: "x \<in> set (test_loop h el ident b i srvs) \<Longrightarrow> \<exists>j srv. x = test_one_server h j (el j) srv ident b"
    for x ident b i srvs
    by (induction srvs arbitrary: i) auto
  assume "(r, c) \<in> set (run_mcp_test h el cfg)"
  then have "(r, c) \<in> set (test_loop h el (mcp_default_identity cfg) (host_builtins (h_hostname h) (h_ip h)) 0
      (mcp_servers cfg))"
    using assms by (simp add: run_mcp_test_def)
  from mem [OF this] obtain j srv where
    "(r, c) = test_one_server h j (el j) srv (mcp_default_identity cfg) (host_builtins (h_hostname h) (h_ip h))"
    by blast
  from test_one_server_result [OF this [symmetric]]
  show "(te_status r = ''PASS'' \<or> te_status r = ''FAIL'' \<and> te_tools r = [])
        \<and> set (te_allowed r) \<subseteq> set (te_tools r) \<and> (\<forall>c'. c = Some c' \<longrightarrow> mc_closed c')"
    by auto
qed

end
