(* ===== verification/SelfTest.thy ===== *)
theory SelfTest
  imports Registry TextLimits
begin

text \<open>
  The self-test of the tools (\<open>diagnose/selftest.go\<close>): every local tool of the chosen categories
  is run once with safe arguments, its outcome is classified, counted and printed.  What a tool
  does, how long it takes and the formatting of seconds are the environment's; the printed text
  is kept as a string.
\<close>

section \<open>Results\<close>

record self_test_result =
  sr_category :: string
  sr_tool :: string
  sr_status :: string
  sr_duration :: int
  sr_out_size :: nat
  sr_message :: string
  sr_args :: "(string, string) gomap"

definition safeDefaults :: "(string, string) gomap" where
  "safeDefaults =
     [(''pid'', ''1''), (''host'', ''localhost''), (''path'', ''/''), (''since'', ''1h''), (''delay'', ''1''),
      (''lines'', ''5''), (''pattern'', ''error''), (''table'', ''filter''), (''interface'', ''''),
      (''port'', ''''), (''max'', ''10''), (''top'', ''5'')]"

text \<open>How a tool ends: with a value and an error, or with a panic that is recovered.\<close>

datatype tool_end = Returned string "string option" | Panicked string

record test_env =
  tv_run :: "nat \<Rightarrow> (string, string) gomap \<Rightarrow> tool_end \<times> int"
  tv_lower :: "string \<Rightarrow> string"
  tv_secs :: "int \<Rightarrow> string"
  tv_os :: string
  tv_arch :: string
  tv_version :: "string option"
  tv_host :: string

section \<open>One tool\<close>

text \<open>The loop over the parameters; an \<open>Inl\<close> is the reason to skip the tool.\<close>

fun safe_args :: "tool_param list \<Rightarrow> (string, string) gomap \<Rightarrow> string + (string, string) gomap" where
  "safe_args [] args = Inr args"
| "safe_args (p # ps) args =
     (if \<not> tp_required p then
        (case mget safeDefaults (tp_name p) of
           Some v \<Rightarrow> if v \<noteq> '''' then safe_args ps (mput (tp_name p) v args) else safe_args ps args
         | None \<Rightarrow> safe_args ps args)
      else
        (case mget safeDefaults (tp_name p) of
           None \<Rightarrow> Inl (''requires '' @ [CHR 0x27] @ tp_name p @ [CHR 0x27] @ '' parameter (no safe default)'')
         | Some v \<Rightarrow>
             if v = '''' then Inl (''requires '' @ [CHR 0x27] @ tp_name p @ [CHR 0x27] @ '' parameter (no safe default)'')
             else safe_args ps (mput (tp_name p) v args)))"

definition build_safe_args :: "diagnose_tool \<Rightarrow> string + (string, string) gomap" where
  "build_safe_args tool = safe_args (dt_parameters tool) []"

definition is_expected_platform_error :: "test_env \<Rightarrow> string \<Rightarrow> bool" where
  "is_expected_platform_error env msg =
     (let low = tv_lower env msg in
      contains low ''requires linux'' \<or> contains low ''linux only'' \<or> contains low ''not supported on'')"

definition is_command_not_found :: "string \<Rightarrow> bool" where
  "is_command_not_found msg \<longleftrightarrow>
     contains msg ''executable file not found'' \<or> contains msg ''command not found''
       \<or> contains msg ''no such file or directory''"

definition micro_sign :: string where
  "micro_sign = [CHR 0xC2, CHR 0xB5]"

definition format_duration :: "test_env \<Rightarrow> int \<Rightarrow> string" where
  "format_duration env d =
     (if d < millisecond then itoa (quot d 1000) @ micro_sign @ ''s''
      else if d < second then itoa (quot d millisecond) @ ''ms''
      else tv_secs env d @ ''s'')"

text \<open>
  \<open>%.1f\<close> of \<open>n/1024\<close>: the quotient is exact in a float, and a tie between two tenths goes to the
  even one.
\<close>

definition tenths_of_kb :: "nat \<Rightarrow> nat" where
  "tenths_of_kb n =
     (let q = (10 * n) div 1024; r = (10 * n) mod 1024 in
      if 512 < r \<or> (r = 512 \<and> odd q) then q + 1 else q)"

definition format_bytes :: "nat \<Rightarrow> string" where
  "format_bytes n =
     (if n < 1024 then digits n @ ''B''
      else digits (tenths_of_kb n div 10) @ ''.'' @ digits (tenths_of_kb n mod 10) @ ''KB'')"

text \<open>The classification after the call: the first that applies.\<close>

definition classify :: "test_env \<Rightarrow> string \<Rightarrow> string option \<Rightarrow> self_test_result \<Rightarrow> self_test_result" where
  "classify env output err r =
     (case err of
        Some msg \<Rightarrow>
          if is_expected_platform_error env msg then r\<lparr>sr_status := ''SKIP'', sr_message := msg\<rparr>
          else if is_command_not_found msg then r\<lparr>sr_status := ''WARN'', sr_message := msg\<rparr>
          else r\<lparr>sr_status := ''FAIL'', sr_message := trunc_message msg 120\<rparr>
      | None \<Rightarrow>
          if output = '''' then r\<lparr>sr_status := ''WARN'', sr_message := ''empty output''\<rparr>
          else if \<not> valid_utf8 output then r\<lparr>sr_status := ''FAIL'', sr_message := ''output contains invalid UTF-8''\<rparr>
          else if sr_duration r > 15 * second then
            r\<lparr>sr_status := ''WARN'', sr_message := ''slow execution ('' @ format_duration env (sr_duration r) @ '')''\<rparr>
          else r\<lparr>sr_status := ''PASS''\<rparr>)"

definition run_one_tool ::
  "test_env \<Rightarrow> string \<Rightarrow> diagnose_tool \<Rightarrow> nat \<Rightarrow> (string, string) gomap \<Rightarrow> self_test_result" where
  "run_one_tool env category tool f args =
     (case tv_run env f args of (e, duration) \<Rightarrow>
        let (output, err) = (case e of Returned out err \<Rightarrow> (out, err) | Panicked v \<Rightarrow> ('''', Some (''PANIC: '' @ v))) in
        classify env output err
          \<lparr>sr_category = category, sr_tool = dt_name tool, sr_status = '''', sr_duration = duration,
           sr_out_size = length output, sr_message = '''', sr_args = args\<rparr>)"

definition skip_result :: "tool_category \<Rightarrow> diagnose_tool \<Rightarrow> string \<Rightarrow> self_test_result" where
  "skip_result cat tool message =
     \<lparr>sr_category = tc_name cat, sr_tool = dt_name tool, sr_status = ''SKIP'', sr_duration = 0, sr_out_size = 0,
      sr_message = message, sr_args = []\<rparr>"

text \<open>The result of a tool, and whether it was run (a skipped one is only printed when verbose).\<close>

definition tool_result_of :: "test_env \<Rightarrow> tool_category \<Rightarrow> diagnose_tool \<Rightarrow> self_test_result \<times> bool" where
  "tool_result_of env cat tool =
     (if dt_scope tool = ToolScopeRemote then (skip_result cat tool ''remote tool (requires connection)'', False)
      else case dt_execute tool of
          None \<Rightarrow> (skip_result cat tool ''no Execute function'', False)
        | Some f \<Rightarrow>
            (case build_safe_args tool of
               Inl skipped \<Rightarrow> (skip_result cat tool skipped, False)
             | Inr args \<Rightarrow> (run_one_tool env (tc_name cat) tool f args, True)))"

section \<open>Printing\<close>

definition esc_seq :: "string \<Rightarrow> string" where
  "esc_seq code = [CHR 0x1B] @ ''['' @ code @ ''m''"

definition color_status :: "string \<Rightarrow> string" where
  "color_status status =
     (if status = ''PASS'' then esc_seq ''32'' @ ''[PASS]'' @ esc_seq ''0''
      else if status = ''FAIL'' then esc_seq ''31'' @ ''[FAIL]'' @ esc_seq ''0''
      else if status = ''WARN'' then esc_seq ''33'' @ ''[WARN]'' @ esc_seq ''0''
      else if status = ''SKIP'' then esc_seq ''90'' @ ''[SKIP]'' @ esc_seq ''0''
      else ''['' @ status @ '']'')"

text \<open>The order of the arguments is that of a Go map's iteration.\<close>

definition format_test_args :: "(string, string) gomap \<Rightarrow> string" where
  "format_test_args args =
     (if length args = 0 then '''' else ''('' @ join '', '' (map (\<lambda>(k, v). k @ ''='' @ v) args) @ '')'')"

definition cat_header_line :: "tool_category \<Rightarrow> string" where
  "cat_header_line cat = tc_name cat @ '' ('' @ digits (length (tc_tools cat)) @ '' tools)'' @ nl"

definition print_cat_header :: "tool_category \<Rightarrow> bool \<times> string \<Rightarrow> bool \<times> string" where
  "print_cat_header cat s = (case s of (printed, out) \<Rightarrow> if printed then (printed, out) else (True, out @ cat_header_line cat))"

definition print_result :: "test_env \<Rightarrow> self_test_result \<Rightarrow> string" where
  "print_result env r =
     ''  '' @ color_status (sr_status r) @ '' '' @ pad_right 28 (sr_tool r) @ '' '' @
     (if sr_status r = ''PASS'' then
        pad_left 8 (format_duration env (sr_duration r)) @ '' '' @ pad_left 6 (format_bytes (sr_out_size r))
          @ (if 0 < length (sr_args r) then '' '' @ format_test_args (sr_args r) else '''')
      else if sr_status r = ''SKIP'' then sr_message r
      else pad_left 8 (format_duration env (sr_duration r)) @ '' '' @ sr_message r) @ nl"

text \<open>\<open>strings.Index\<close>, and the words of \<open>strings.Fields\<close>: \<open>k\<close> bytes of a space are still to be passed.\<close>

fun index_of :: "string \<Rightarrow> string \<Rightarrow> nat option" where
  "index_of [] p = (if p = [] then Some 0 else None)"
| "index_of (c # s) p = (if has_prefix (c # s) p then Some 0 else map_option Suc (index_of s p))"

fun words_of :: "nat \<Rightarrow> string \<Rightarrow> string \<Rightarrow> string list" where
  "words_of k cur [] = (if cur = [] then [] else [cur])"
| "words_of (Suc k) cur (c # s) = words_of k cur s"
| "words_of 0 cur (c # s) =
     (case find (has_prefix (c # s)) space_encodings of
        Some e \<Rightarrow> (if cur = [] then [] else [cur]) @ words_of (length e - 1) [] s
      | None \<Rightarrow> words_of 0 (cur @ [c]) s)"

definition exec_prefix :: string where
  "exec_prefix = ''exec: '' @ dquote"

definition extract_missing_command :: "string \<Rightarrow> string" where
  "extract_missing_command msg =
     (let by_name =
        (case index_of msg '' not found'' of
           Some i \<Rightarrow>
             if 0 < i then
               (let parts = words_of 0 [] (take i msg) in if 0 < length parts then parts ! (length parts - 1) else '''')
             else ''''
         | None \<Rightarrow> '''')
      in case index_of msg exec_prefix of
           Some i \<Rightarrow>
             (let rest = drop (i + 7) msg in
              case index_of rest dquote of Some j \<Rightarrow> if 0 < j then take j rest else by_name | None \<Rightarrow> by_name)
         | None \<Rightarrow> by_name)"

definition commandPackageMap :: "(string, string) gomap" where
  "commandPackageMap =
     [(''traceroute'', ''traceroute''), (''ss'', ''iproute2''), (''ip'', ''iproute2''), (''nft'', ''nftables''),
      (''iptables'', ''iptables''), (''vgs'', ''lvm2''), (''lvs'', ''lvm2''), (''getenforce'', ''libselinux-utils''),
      (''ausearch'', ''auditd''), (''aa-status'', ''apparmor-utils''), (''coredumpctl'', ''systemd-coredump''),
      (''lsblk'', ''util-linux''), (''dmesg'', ''util-linux'')]"

definition command_to_package :: "string \<Rightarrow> string" where
  "command_to_package cmd = (case mget commandPackageMap cmd of Some pkg \<Rightarrow> pkg | None \<Rightarrow> cmd)"

definition install_hint :: "string \<Rightarrow> string" where
  "install_hint msg =
     (let cmd = extract_missing_command msg in
      if cmd = '''' then ''''
      else let pkg = command_to_package cmd in
        ''fix: apt install '' @ pkg @ ''  OR  yum install '' @ pkg @ ''  OR  dnf install '' @ pkg)"

section \<open>All tools\<close>

record test_run =
  st_results :: "self_test_result list"
  st_pass :: nat
  st_fail :: nat
  st_skip :: nat
  st_warn :: nat
  st_out :: string

definition count_result :: "self_test_result \<Rightarrow> test_run \<Rightarrow> test_run" where
  "count_result r s =
     (if sr_status r = ''PASS'' then s\<lparr>st_pass := st_pass s + 1\<rparr>
      else if sr_status r = ''FAIL'' then s\<lparr>st_fail := st_fail s + 1\<rparr>
      else if sr_status r = ''WARN'' then s\<lparr>st_warn := st_warn s + 1\<rparr>
      else if sr_status r = ''SKIP'' then s\<lparr>st_skip := st_skip s + 1\<rparr>
      else s)"

fun test_tools :: "test_env \<Rightarrow> bool \<Rightarrow> tool_category \<Rightarrow> diagnose_tool list \<Rightarrow> bool \<times> test_run \<Rightarrow> bool \<times> test_run" where
  "test_tools env verbose cat [] s = s"
| "test_tools env verbose cat (tool # tools) (header, s) =
     (let (r, was_run) = tool_result_of env cat tool;
          s = count_result r (s\<lparr>st_results := st_results s @ [r]\<rparr>);
          (header, out) = (if was_run \<or> verbose then
              (case print_cat_header cat (header, st_out s) of (header, out) \<Rightarrow> (header, out @ print_result env r))
            else (header, st_out s))
      in test_tools env verbose cat tools (header, s\<lparr>st_out := out\<rparr>))"

definition selected :: "string \<Rightarrow> tool_category \<Rightarrow> bool" where
  "selected pat cat \<longleftrightarrow> \<not> (pat \<noteq> '''' \<and> \<not> contains (tc_name cat) pat \<and> \<not> contains (tc_plugin cat) pat)"

fun test_categories :: "test_env \<Rightarrow> string \<Rightarrow> bool \<Rightarrow> tool_category list \<Rightarrow> test_run \<Rightarrow> test_run" where
  "test_categories env pat verbose [] s = s"
| "test_categories env pat verbose (cat # cats) s =
     (if \<not> selected pat cat then test_categories env pat verbose cats s
      else
        let (header, s) = test_tools env verbose cat (tc_tools cat) (False, s) in
        test_categories env pat verbose cats (if header then s\<lparr>st_out := st_out s @ nl\<rparr> else s))"

definition rule_line :: string where
  "rule_line = replicate 70 (CHR ''='') @ nl"

text \<open>\<open>tv_version\<close> is what \<open>/proc/version\<close> holds.\<close>

definition kernel_version :: "test_env \<Rightarrow> string" where
  "kernel_version env =
     (if tv_os env = ''linux'' then
        (case tv_version env of
           None \<Rightarrow> ''''
         | Some data \<Rightarrow> let fields = words_of 0 [] data in if 3 \<le> length fields then fields ! 2 else '''')
      else '''')"

definition test_banner :: "test_env \<Rightarrow> nat \<Rightarrow> string" where
  "test_banner env ntools =
     ''catpaw selftest '' @ [CHR 0xE2, CHR 0x80, CHR 0x94] @ '' '' @ digits ntools @ '' tools registered, ''
       @ tv_os env @ ''/'' @ tv_arch env
       @ (if kernel_version env \<noteq> '''' then '', kernel '' @ kernel_version env else '''')
       @ (if tv_host env \<noteq> '''' then '', host '' @ tv_host env else '''') @ nl @ rule_line @ nl"

definition summary_line :: "test_run \<Rightarrow> string" where
  "summary_line s =
     rule_line @ ''Summary: '' @ digits (st_pass s) @ '' PASS, '' @ digits (st_skip s) @ '' SKIP, ''
       @ digits (st_warn s) @ '' WARN, '' @ digits (st_fail s) @ '' FAIL (total ''
       @ digits (length (st_results s)) @ '')'' @ nl"

definition fail_details :: "test_run \<Rightarrow> string" where
  "fail_details s =
     (if 0 < st_fail s then
        nl @ ''FAIL details:'' @ nl
          @ concat (map (\<lambda>r. ''  [FAIL] '' @ pad_right 28 (sr_tool r) @ '' '' @ sr_message r @ nl)
              (filter (\<lambda>r. sr_status r = ''FAIL'') (st_results s)))
      else '''')"

definition warn_line :: "self_test_result \<Rightarrow> string" where
  "warn_line r =
     (let hint = install_hint (sr_message r) in
      if hint \<noteq> '''' then
        ''  [WARN] '' @ pad_right 28 (sr_tool r) @ '' '' @ sr_message r @ nl @ ''         '' @ hint @ nl
      else ''  [WARN] '' @ pad_right 28 (sr_tool r) @ '' '' @ sr_message r @ nl)"

definition warn_details :: "test_run \<Rightarrow> string" where
  "warn_details s =
     (if 0 < st_warn s then
        nl @ ''WARN details:'' @ nl
          @ concat (map warn_line (filter (\<lambda>r. sr_status r = ''WARN'') (st_results s)))
      else '''')"

definition run_self_test :: "test_env \<Rightarrow> tool_registry \<Rightarrow> string \<Rightarrow> bool \<Rightarrow> string option \<times> test_run" where
  "run_self_test env reg pat verbose =
     (let s = test_categories env pat verbose (categories_with_tools reg)
            \<lparr>st_results = [], st_pass = 0, st_fail = 0, st_skip = 0, st_warn = 0,
             st_out = test_banner env (tool_count reg)\<rparr>;
          s = s\<lparr>st_out := st_out s @ summary_line s @ fail_details s @ warn_details s\<rparr>
      in (if 0 < st_fail s then Some (digits (st_fail s) @ '' tool(s) failed'') else None, s))"

section \<open>Every tool once, every result counted\<close>

definition statuses :: "string set" where
  "statuses = {''PASS'', ''FAIL'', ''WARN'', ''SKIP''}"

lemma classify_frame [simp]:
  "sr_category (classify env outp err r) = sr_category r" "sr_tool (classify env outp err r) = sr_tool r"
  "sr_duration (classify env outp err r) = sr_duration r" "sr_out_size (classify env outp err r) = sr_out_size r"
  "sr_args (classify env outp err r) = sr_args r"
  by (simp_all add: classify_def split: option.split)

lemma classify_status: "sr_status (classify env outp err r) \<in> statuses"
  by (simp add: classify_def statuses_def split: option.split)

lemma classify_pass:
  "sr_status (classify env outp err r) = ''PASS'' \<longleftrightarrow>
     err = None \<and> outp \<noteq> '''' \<and> valid_utf8 outp \<and> sr_duration r \<le> 15 * second"
  by (simp add: classify_def not_less split: option.split)

definition args_safe :: "(string, string) gomap \<Rightarrow> bool" where
  "args_safe args \<longleftrightarrow> (\<forall>k v. mget args k = Some v \<longrightarrow> v \<noteq> '''' \<and> mget safeDefaults k = Some v)"

lemma args_safe_mput: "args_safe args \<Longrightarrow> v \<noteq> '''' \<Longrightarrow> mget safeDefaults k = Some v \<Longrightarrow> args_safe (mput k v args)"
  by (simp add: args_safe_def)

lemma safe_args_cover:
  "safe_args ps args = Inr args' \<Longrightarrow> args_safe args \<Longrightarrow>
     args_safe args' \<and> (\<forall>k. mget args k \<noteq> None \<longrightarrow> mget args' k \<noteq> None)
       \<and> (\<forall>p \<in> set ps. tp_required p \<longrightarrow> mget args' (tp_name p) \<noteq> None)"
proof (induction ps args rule: safe_args.induct)
  case (1 args)
  then show ?case by simp
next
  case (2 p ps args)
  show ?case
  proof (cases "mget safeDefaults (tp_name p)")
    case None
    with 2 show ?thesis by (auto split: if_splits)
  next
    case (Some v)
    show ?thesis
    proof (cases "v = ''''")
      case True
      with 2 Some show ?thesis by (auto split: if_splits)
    next
      case False
      have safe: "args_safe (mput (tp_name p) v args)" by (rule args_safe_mput [OF 2(6) False Some])
      have run: "safe_args ps (mput (tp_name p) v args) = Inr args'"
        using 2(5) Some False by (simp split: if_splits)
      have "args_safe args' \<and> (\<forall>k. mget (mput (tp_name p) v args) k \<noteq> None \<longrightarrow> mget args' k \<noteq> None)
          \<and> (\<forall>p \<in> set ps. tp_required p \<longrightarrow> mget args' (tp_name p) \<noteq> None)"
        using 2(1-4) safe run Some False by (cases "tp_required p") auto
      then show ?thesis by (auto split: if_splits)
    qed
  qed
qed

lemma tool_result_of_facts:
  assumes "tool_result_of env cat tool = (r, was_run)"
  shows "sr_category r = tc_name cat \<and> sr_tool r = dt_name tool \<and> sr_status r \<in> statuses
    \<and> (sr_status r = ''FAIL'' \<longrightarrow> was_run)
    \<and> (sr_status r = ''PASS'' \<longrightarrow> was_run \<and> dt_scope tool \<noteq> ToolScopeRemote \<and> 0 < sr_out_size r
          \<and> sr_duration r \<le> 15 * second
          \<and> (\<forall>p \<in> set (dt_parameters tool). tp_required p \<longrightarrow> mget (sr_args r) (tp_name p) \<noteq> None)
          \<and> args_safe (sr_args r))"
proof (cases "dt_scope tool = ToolScopeRemote \<or> dt_execute tool = None \<or> (\<exists>e. build_safe_args tool = Inl e)")
  case True
  with assms show ?thesis
    by (auto simp: tool_result_of_def skip_result_def statuses_def split: option.splits sum.splits if_splits)
next
  case False
  then obtain f args where f: "dt_execute tool = Some f" "build_safe_args tool = Inr args" "dt_scope tool \<noteq> ToolScopeRemote"
    by (cases "build_safe_args tool") auto
  have "args_safe args \<and> (\<forall>p \<in> set (dt_parameters tool). tp_required p \<longrightarrow> mget args (tp_name p) \<noteq> None)"
    using safe_args_cover [of "dt_parameters tool" "[]" args] f(2) by (simp add: build_safe_args_def args_safe_def)
  moreover obtain e d where run: "tv_run env f args = (e, d)" by force
  moreover have "r = run_one_tool env (tc_name cat) tool f args" "was_run"
    using assms f by (auto simp: tool_result_of_def)
  ultimately show ?thesis
    using f(3) classify_status
    by (cases e) (auto simp: run_one_tool_def classify_pass)
qed

lemma count_result_other [simp]:
  "st_results (count_result r s) = st_results s" "st_out (count_result r s) = st_out s"
  by (simp_all add: count_result_def)

abbreviation with_status :: "string \<Rightarrow> test_run \<Rightarrow> nat" where
  "with_status st s \<equiv> length (filter (\<lambda>r. sr_status r = st) (st_results s))"

definition counts_ok :: "test_run \<Rightarrow> bool" where
  "counts_ok s \<longleftrightarrow>
     st_pass s = with_status ''PASS'' s \<and> st_fail s = with_status ''FAIL'' s
       \<and> st_warn s = with_status ''WARN'' s \<and> st_skip s = with_status ''SKIP'' s"

lemma counts_ok_cong [simp]: "counts_ok (s\<lparr>st_out := out\<rparr>) = counts_ok s"
  by (simp add: counts_ok_def)

lemma count_result_ok:
  "counts_ok s \<Longrightarrow> counts_ok (count_result r (s\<lparr>st_results := st_results s @ [r]\<rparr>))"
  by (simp add: counts_ok_def count_result_def)

lemma test_tools_results:
  "counts_ok s \<Longrightarrow> test_tools env verbose cat tools (header, s) = (header', s') \<Longrightarrow>
     counts_ok s' \<and> st_results s' = st_results s @ map (\<lambda>t. fst (tool_result_of env cat t)) tools"
proof (induction tools arbitrary: header s)
  case Nil
  then show ?case by simp
next
  case (Cons t tools)
  then show ?case
    using count_result_ok [of s "fst (tool_result_of env cat t)"]
    by (auto simp: case_prod_unfold Let_def simp del: counts_ok_def dest!: Cons.IH [rotated])
qed

lemma test_categories_results:
  "counts_ok s \<Longrightarrow>
     counts_ok (test_categories env pat verbose cats s) \<and>
     st_results (test_categories env pat verbose cats s) =
       st_results s @ concat (map (\<lambda>cat. map (\<lambda>t. fst (tool_result_of env cat t)) (tc_tools cat))
         (filter (selected pat) cats))"
proof (induction cats arbitrary: s)
  case Nil
  then show ?case by simp
next
  case (Cons cat cats)
  show ?case
  proof (cases "selected pat cat")
    case False
    with Cons show ?thesis by simp
  next
    case True
    obtain header s' where t: "test_tools env verbose cat (tc_tools cat) (False, s) = (header, s')" by force
    note r = test_tools_results [OF Cons.prems t]
    then have "counts_ok (if header then s'\<lparr>st_out := st_out s' @ nl\<rparr> else s')" by simp
    from Cons.IH [OF this] r True t show ?thesis by simp
  qed
qed

text \<open>
  The self-test looks at every tool of the selected categories exactly once, in the order of
  the categories, whatever the tools do, panics included; the four counts are those of the
  results and add up to their number, and it reports an error exactly when a tool failed.  A tool
  passes only if it was run here with every required parameter set to its safe value, and
  returned something within 15 seconds.
\<close>

theorem self_test_accounts:
  assumes "run_self_test env reg pat verbose = (err, s)"
  shows "map (\<lambda>r. (sr_category r, sr_tool r)) (st_results s) =
      concat (map (\<lambda>cat. map (\<lambda>t. (tc_name cat, dt_name t)) (tc_tools cat))
        (filter (selected pat) (categories_with_tools reg)))
    \<and> st_pass s + st_fail s + st_warn s + st_skip s = length (st_results s)
    \<and> (err = None \<longleftrightarrow> (\<forall>r \<in> set (st_results s). sr_status r \<noteq> ''FAIL''))
    \<and> (\<forall>r \<in> set (st_results s). sr_status r = ''PASS'' \<longrightarrow>
      0 < sr_out_size r \<and> sr_duration r \<le> 15 * second \<and>
      (\<exists>cat \<in> set (categories_with_tools reg). \<exists>t \<in> set (tc_tools cat). dt_name t = sr_tool r
         \<and> dt_scope t \<noteq> ToolScopeRemote
         \<and> (\<forall>p \<in> set (dt_parameters t). tp_required p \<longrightarrow>
              mget safeDefaults (tp_name p) \<noteq> None \<and> mget (sr_args r) (tp_name p) = mget safeDefaults (tp_name p))))"
proof (intro conjI ballI impI)
  let ?s0 = "\<lparr>st_results = [], st_pass = 0, st_fail = 0, st_skip = 0, st_warn = 0,
      st_out = test_banner env (tool_count reg)\<rparr>"
  let ?s1 = "test_categories env pat verbose (categories_with_tools reg) ?s0"
  have err: "err = (if 0 < st_fail s then Some (digits (st_fail s) @ '' tool(s) failed'') else None)"
    and s: "s = ?s1\<lparr>st_out := st_out ?s1 @ summary_line ?s1 @ fail_details ?s1 @ warn_details ?s1\<rparr>"
    using assms by (auto simp: run_self_test_def Let_def)
  have ok: "counts_ok ?s1" and res: "st_results ?s1 = concat (map (\<lambda>cat. map (\<lambda>t. fst (tool_result_of env cat t))
      (tc_tools cat)) (filter (selected pat) (categories_with_tools reg)))"
    using test_categories_results [of ?s0 env pat verbose "categories_with_tools reg"] by (simp_all add: counts_ok_def)
  have oks: "counts_ok s" and ress: "st_results s = st_results ?s1" using ok s by simp_all
  have names: "sr_category (fst (tool_result_of env cat t)) = tc_name cat" "sr_tool (fst (tool_result_of env cat t)) = dt_name t"
    "sr_status (fst (tool_result_of env cat t)) \<in> statuses" for cat t
    using tool_result_of_facts [OF surjective_pairing] by auto
  show "map (\<lambda>r. (sr_category r, sr_tool r)) (st_results s) =
      concat (map (\<lambda>cat. map (\<lambda>t. (tc_name cat, dt_name t)) (tc_tools cat))
        (filter (selected pat) (categories_with_tools reg)))"
    by (simp add: ress res map_concat names comp_def)
  have st: "\<forall>r \<in> set (st_results s). sr_status r \<in> statuses" by (auto simp: ress res names)
  have "length (filter (\<lambda>r. sr_status r = ''PASS'') rs) + length (filter (\<lambda>r. sr_status r = ''FAIL'') rs)
      + length (filter (\<lambda>r. sr_status r = ''WARN'') rs) + length (filter (\<lambda>r. sr_status r = ''SKIP'') rs) = length rs"
    if "\<forall>r \<in> set rs. sr_status r \<in> statuses" for rs
    using that by (induction rs) (auto simp: statuses_def)
  from this [OF st] oks show "st_pass s + st_fail s + st_warn s + st_skip s = length (st_results s)"
    by (simp add: counts_ok_def)
  show "err = None \<longleftrightarrow> (\<forall>r \<in> set (st_results s). sr_status r \<noteq> ''FAIL'')"
    using err oks by (auto simp: counts_ok_def filter_empty_conv)
  fix r
  assume r: "r \<in> set (st_results s)" "sr_status r = ''PASS''"
  then obtain cat t where ct: "cat \<in> set (categories_with_tools reg)" "t \<in> set (tc_tools cat)"
    "r = fst (tool_result_of env cat t)"
    by (auto simp: ress res)
  have p: "0 < sr_out_size r \<and> sr_duration r \<le> 15 * second \<and> dt_scope t \<noteq> ToolScopeRemote \<and> args_safe (sr_args r)
      \<and> (\<forall>p \<in> set (dt_parameters t). tp_required p \<longrightarrow> mget (sr_args r) (tp_name p) \<noteq> None)"
    using tool_result_of_facts [of env cat t r "snd (tool_result_of env cat t)"] ct(3) r(2) by simp
  then have "\<forall>p \<in> set (dt_parameters t). tp_required p \<longrightarrow>
      mget safeDefaults (tp_name p) \<noteq> None \<and> mget (sr_args r) (tp_name p) = mget safeDefaults (tp_name p)"
    by (auto simp: args_safe_def)
  with p ct names(2) [of cat t] show "0 < sr_out_size r" "sr_duration r \<le> 15 * second"
    "(\<exists>cat \<in> set (categories_with_tools reg). \<exists>t \<in> set (tc_tools cat). dt_name t = sr_tool r
         \<and> dt_scope t \<noteq> ToolScopeRemote
         \<and> (\<forall>p \<in> set (dt_parameters t). tp_required p \<longrightarrow>
              mget safeDefaults (tp_name p) \<noteq> None \<and> mget (sr_args r) (tp_name p) = mget safeDefaults (tp_name p)))"
    by auto
qed

definition disk_tool :: "string \<Rightarrow> string \<Rightarrow> diagnose_tool" where
  "disk_tool name param =
     \<lparr>dt_name = name, dt_description = ''usage'',
      dt_parameters = [\<lparr>tp_name = param, tp_type = ''string'', tp_description = '''', tp_required = True\<rparr>],
      dt_scope = ToolScopeLocal, dt_supported_os = [], dt_execute = Some 7, dt_remote_execute = None\<rparr>"

definition example_tests :: tool_registry where
  "example_tests = register ''disk'' (disk_tool ''disk_port'' ''port'') (register ''disk'' (disk_tool ''disk_usage'' ''path'') new_tool_registry)"

definition example_test_env :: test_env where
  "example_test_env =
     \<lparr>tv_run = (\<lambda>f args. (Returned ''ok'' None, 5)), tv_lower = (\<lambda>s. s), tv_secs = (\<lambda>_. ''1.0''), tv_os = ''linux'',
      tv_arch = ''amd64'', tv_version = Some ''Linux version 6.1'', tv_host = ''db1''\<rparr>"

lemma run_results:
  "st_results (snd (run_self_test env reg pat verbose)) =
     concat (map (\<lambda>cat. map (\<lambda>t. fst (tool_result_of env cat t)) (tc_tools cat))
       (filter (selected pat) (categories_with_tools reg)))"
  using test_categories_results [of "\<lparr>st_results = [], st_pass = 0, st_fail = 0, st_skip = 0, st_warn = 0,
      st_out = test_banner env (tool_count reg)\<rparr>" env pat verbose "categories_with_tools reg"]
  by (simp add: run_self_test_def counts_ok_def Let_def)

lemma example_run_status:
  "map sr_status (st_results (snd (run_self_test example_test_env example_tests '''' False))) = [''PASS'', ''SKIP'']"
proof -
  have c: "categories_with_tools example_tests =
      [\<lparr>tc_name = ''disk'', tc_plugin = ''disk'', tc_description = '''', tc_scope = ToolScopeLocal,
        tc_tools = [disk_tool ''disk_usage'' ''path'', disk_tool ''disk_port'' ''port'']\<rparr>]"
    by (simp add: categories_with_tools_def sorted_categories_def example_tests_def register_def new_tool_registry_def
        disk_tool_def mput_def)
  have v: "valid_utf8 ''ok''" by (rule valid_utf8_ascii) (simp add: byte_def)
  show ?thesis
    unfolding run_results c
    by (simp add: selected_def tool_result_of_def disk_tool_def build_safe_args_def safeDefaults_def mput_def
        ToolScopeLocal_def ToolScopeRemote_def run_one_tool_def example_test_env_def classify_def v second_def
        skip_result_def del: valid_utf8.simps)
qed

theorem self_test_accounts_witness:
  "st_pass (snd (run_self_test example_test_env example_tests '''' False))
     + st_fail (snd (run_self_test example_test_env example_tests '''' False))
     + st_warn (snd (run_self_test example_test_env example_tests '''' False))
     + st_skip (snd (run_self_test example_test_env example_tests '''' False)) = 2
   \<and> fst (run_self_test example_test_env example_tests '''' False) = None
   \<and> 0 < sr_out_size (st_results (snd (run_self_test example_test_env example_tests '''' False)) ! 0)"
proof -
  let ?s = "snd (run_self_test example_test_env example_tests '''' False)"
  note w = self_test_accounts [OF surjective_pairing [of "run_self_test example_test_env example_tests '''' False"]]
  have "length (map sr_status (st_results ?s)) = 2" unfolding example_run_status by simp
  then have len: "length (st_results ?s) = 2" by simp
  then have mem: "st_results ?s ! 0 \<in> set (st_results ?s)" by simp
  have "map sr_status (st_results ?s) ! 0 = ''PASS''" unfolding example_run_status by simp
  with len have pass: "sr_status (st_results ?s ! 0) = ''PASS''" by simp
  have "set (map sr_status (st_results ?s)) = {''PASS'', ''SKIP''}" by (simp only: example_run_status) simp
  then have "sr_status ` set (st_results ?s) = {''PASS'', ''SKIP''}" by (simp only: set_map)
  moreover have "''FAIL'' \<notin> {''PASS'', ''SKIP''}" by simp
  ultimately have "\<forall>r \<in> set (st_results ?s). sr_status r \<noteq> ''FAIL''" by (metis imageI)
  with w have none: "fst (run_self_test example_test_env example_tests '''' False) = None" by blast
  have "0 < sr_out_size (st_results ?s ! 0)" using w mem pass by blast
  with w none len show ?thesis by simp
qed

end
