(* ===== verification/Terminal.thy ===== *)
theory Terminal
  imports Settings SelfTest
begin

text \<open>
  What the interactive commands print about the progress of a chat (\<open>pkg/term/progress.go\<close>).  A
  printing function is the list of the texts it prints, one per call; the spinner, a goroutine with a
  ticker and a channel that is closed to stop it, is a step relation.
\<close>

section \<open>Durations and sizes\<close>

text \<open>\<open>time.Duration.String\<close> and \<open>Round\<close>, \<open>Truncate\<close>; the magnitude is an unsigned number.\<close>

definition frac :: "nat \<Rightarrow> nat \<Rightarrow> string" where
  "frac prec u =
     (let d = digits (u mod 10 ^ prec);
          f = trim_right {CHR ''0''} (replicate (prec - length d) (CHR ''0'') @ d)
      in if f = '''' then '''' else ''.'' @ f)"

definition duration_string :: "int \<Rightarrow> string" where
  "duration_string d =
     (let u = nat \<bar>d\<bar> in
      (if d < 0 then ''-'' else '''') @
      (if u = 0 then ''0s''
       else if u < 1000 then digits u @ ''ns''
       else if u < 1000000 then digits (u div 1000) @ frac 3 u @ micro_sign @ ''s''
       else if u < 1000000000 then digits (u div 1000000) @ frac 6 u @ ''ms''
       else
         (let s = u div 1000000000; m = s div 60; h = m div 60 in
          (if 0 < h then digits h @ ''h'' else '''') @
          (if 0 < m then digits (m mod 60) @ ''m'' else '''') @
          digits (s mod 60) @ frac 9 u @ ''s'')))"

definition duration_truncate :: "int \<Rightarrow> int \<Rightarrow> int" where
  "duration_truncate m d = (if m \<le> 0 then d else m * quot d m)"

text \<open>Halfway values go away from zero; a result outside 64 bits is replaced by the extreme value.\<close>

definition duration_round :: "int \<Rightarrow> int \<Rightarrow> int" where
  "duration_round m d =
     (if m \<le> 0 then d
      else let r = \<bar>d\<bar> mod m; v = (if 2 * r < m then \<bar>d\<bar> - r else \<bar>d\<bar> + m - r)
        in if d < 0 then max (- v) (- (2 ^ 63)) else min v (2 ^ 63 - 1))"

definition fmt_dur :: "int \<Rightarrow> string" where
  "fmt_dur d =
     (if d < second then itoa (quot d millisecond) @ ''ms''
      else fixed1 (in_units d second) @ ''s'')"

definition fmt_bytes :: "int \<Rightarrow> string" where
  "fmt_bytes n =
     (if n < 1024 then itoa n @ ''B''
      else fixed1 (float64 (float64 (of_int n) / 1024)) @ ''KB'')"

section \<open>Progress of a chat\<close>

definition ColorReset :: string where "ColorReset = esc_seq ''0''"
definition ColorCyan :: string where "ColorCyan = esc_seq ''36''"
definition ColorYellow :: string where "ColorYellow = esc_seq ''33''"
definition ColorGreen :: string where "ColorGreen = esc_seq ''32''"
definition ColorRed :: string where "ColorRed = esc_seq ''31''"
definition ColorGray :: string where "ColorGray = esc_seq ''90''"

definition erase_line :: string where
  "erase_line = [CHR 0x0D, CHR 0x1B] @ ''[K''"

definition print_thinking_done :: "int \<Rightarrow> int \<Rightarrow> string list" where
  "print_thinking_done k elapsed =
     [''  '' @ ColorGray @ ''[round '' @ itoa k @ '']'' @ ColorReset @ '' ''
      @ ColorCyan @ [CHR 0xE2, CHR 0x9F, CHR 0xB3] @ '' thinking'' @ ColorReset @ '' ''
      @ ColorGray @ ''('' @ fmt_dur elapsed @ '')'' @ ColorReset @ nl]"

definition tool_label :: "string \<Rightarrow> string" where
  "tool_label name = ''  '' @ ColorYellow @ [CHR 0xE2, CHR 0x96, CHR 0xB6] @ '' '' @ name @ ColorReset"

definition print_tool_start :: "string \<Rightarrow> string \<Rightarrow> string list" where
  "print_tool_start name args_display =
     (if args_display \<noteq> '''' then [tool_label name @ '' '' @ ColorGray @ args_display @ ColorReset]
      else [tool_label name])"

definition print_tool_done :: "string \<Rightarrow> string \<Rightarrow> int \<Rightarrow> int \<Rightarrow> bool \<Rightarrow> string list" where
  "print_tool_done name args_display elapsed result_len is_err =
     (let status = (if is_err then ColorRed @ [CHR 0xE2, CHR 0x9C, CHR 0x97] @ '' error'' @ ColorReset
           else ColorGreen @ [CHR 0xE2, CHR 0x9C, CHR 0x93] @ '' '' @ fmt_bytes result_len @ ColorReset)
      in if args_display \<noteq> '''' then
           [erase_line @ tool_label name @ '' '' @ ColorGray @ args_display @ ColorReset @ '' ''
            @ ColorGray @ ''('' @ fmt_dur elapsed @ '')'' @ ColorReset @ '' '' @ status @ nl]
         else
           [erase_line @ tool_label name @ '' ''
            @ ColorGray @ ''('' @ fmt_dur elapsed @ '')'' @ ColorReset @ '' '' @ status @ nl])"

text \<open>
  The two loops over lines, with the sign in front of a line.  \<open>None\<close> is a panic of \<open>TruncLine\<close>.
  A negative limit shows no line, but is counted as if it had.
\<close>

fun shown_lines :: "string \<Rightarrow> string list \<Rightarrow> string list option" where
  "shown_lines sign [] = Some []"
| "shown_lines sign (l # ls) =
     (case trunc_line l 120 of
        None \<Rightarrow> None
      | Some t \<Rightarrow> map_option (\<lambda>out. (''  '' @ ColorGray @ sign @ '' '' @ t @ ColorReset @ nl) # out) (shown_lines sign ls))"

definition print_lines :: "string \<Rightarrow> string list \<Rightarrow> int \<Rightarrow> string list option" where
  "print_lines sign lines max_lines =
     (let showing = min (int (length lines)) max_lines in
      map_option (\<lambda>out. out @
          (if showing < int (length lines)
           then [''  '' @ ColorGray @ sign @ '' ... ('' @ itoa (int (length lines) - showing) @ '' more lines)'' @ ColorReset @ nl]
           else []))
        (shown_lines sign (take (nat showing) lines)))"

definition print_tool_output :: "string \<Rightarrow> int \<Rightarrow> string list option" where
  "print_tool_output result max_lines =
     print_lines [CHR 0xE2, CHR 0x94, CHR 0x82] (split_on (CHR 0x0A) (trim_right {CHR 0x0A} result)) max_lines"

definition print_ai_reasoning :: "string \<Rightarrow> string list option" where
  "print_ai_reasoning s =
     (let s = trim_space s in
      if s = '''' then Some []
      else print_lines [CHR 0xF0, CHR 0x9F, CHR 0x92, CHR 0xAD] (split_on (CHR 0x0A) s) 3)"

section \<open>The spinner\<close>

definition spinnerFrames :: "string list" where
  "spinnerFrames = [''|'', ''/'', ''-'', [CHR 0x5C]]"

text \<open>\<open>sp_done\<close>: the channel is closed; \<open>sp_returned\<close>: \<open>Stop\<close> has returned; \<open>sp_out\<close> what was printed.\<close>

record spinner =
  sp_msg :: string
  sp_done :: bool
  sp_running :: bool
  sp_returned :: bool
  sp_i :: nat
  sp_out :: "string list"

definition start_spinner :: "string \<Rightarrow> spinner" where
  "start_spinner msg =
     \<lparr>sp_msg = msg, sp_done = False, sp_running = True, sp_returned = False, sp_i = 0, sp_out = []\<rparr>"

definition spinner_frame :: "spinner \<Rightarrow> int \<Rightarrow> string" where
  "spinner_frame s elapsed =
     erase_line @ ''  '' @ ColorCyan @ spinnerFrames ! (sp_i s mod length spinnerFrames) @ ColorReset @ '' '' @ sp_msg s
       @ '' ('' @ duration_string (duration_truncate second elapsed) @ '')''"

text \<open>A closed channel and a tick can both be ready: the \<open>select\<close> may take either.\<close>

inductive spin_step :: "spinner \<Rightarrow> spinner \<Rightarrow> bool" where
  Tick: "sp_running s \<Longrightarrow> spin_step s (s\<lparr>sp_i := sp_i s + 1, sp_out := sp_out s @ [spinner_frame s elapsed]\<rparr>)"
| Finish: "sp_running s \<Longrightarrow> sp_done s \<Longrightarrow> spin_step s (s\<lparr>sp_running := False, sp_out := sp_out s @ [erase_line]\<rparr>)"
| CloseDone: "\<not> sp_done s \<Longrightarrow> spin_step s (s\<lparr>sp_done := True\<rparr>)"
| WaitReturns: "sp_done s \<Longrightarrow> \<not> sp_running s \<Longrightarrow> \<not> sp_returned s \<Longrightarrow> spin_step s (s\<lparr>sp_returned := True\<rparr>)"

inductive_cases spin_stepE: "spin_step s s'"

section \<open>Lemmas\<close>

text \<open>The two ways of the program to print a size in kilobytes agree.\<close>

lemma round_half_even_parts:
  assumes "0 \<le> r" "r < 1"
  shows "round_half_even (of_int q + r) = (if r < 1 / 2 \<or> r = 1 / 2 \<and> even q then q else q + 1)"
proof -
  have "\<lfloor>of_int q + r\<rfloor> = q" using assms by (intro floor_unique) simp_all
  then show ?thesis by (auto simp: round_half_even_def)
qed

lemma round_tenths: "round_half_even (of_nat (10 * n) / 1024) = int (tenths_of_kb n)"
proof -
  define q m where "q = 10 * n div 1024" and "m = 10 * n mod 1024"
  have m: "(of_nat m :: rat) < 1024" by (simp add: m_def)
  have "10 * n = q * 1024 + m" unfolding q_def m_def by (rule div_mult_mod_eq [symmetric])
  then have x: "(of_nat (10 * n) / 1024 :: rat) = of_int (int q) + of_nat m / 1024"
    by (simp only: of_nat_add of_nat_mult of_nat_numeral of_int_of_nat_eq add_divide_distrib)
  have h: "of_nat m / 1024 < (1/2 :: rat) \<longleftrightarrow> m < 512" "of_nat m / 1024 = (1/2 :: rat) \<longleftrightarrow> m = 512"
    by (simp_all add: divide_less_eq divide_eq_eq)
  have "tenths_of_kb n = (if m < 512 \<or> m = 512 \<and> even q then q else q + 1)"
    by (auto simp: tenths_of_kb_def Let_def simp flip: q_def m_def)
  then show ?thesis
    unfolding x using round_half_even_parts [of "of_nat m / 1024" "int q"] m by (simp add: h)
qed

lemma fmt_bytes_agrees:
  assumes "n < 2 ^ 53"
  shows "fmt_bytes (int n) = format_bytes n"
proof (cases "n < 1024")
  case False
  have "\<bar>int n\<bar> < 2 ^ 53" using assms by simp
  note e = float64_exact [OF this, of "-10"] float64_of_int [OF this]
  have "float64 (of_nat n) = of_nat n" using e(2) by simp
  moreover have "(2 :: rat) powi -10 = 1 / 1024" by (simp add: power_int_def power_one_over)
  then have "float64 (of_nat n / 1024) = of_nat n / 1024" using e(1) by simp
  ultimately have "fmt_bytes (int n) = fixed1 (of_nat n / 1024) @ ''KB''"
    using False by (simp only: fmt_bytes_def of_int_of_nat_eq) simp
  moreover have "10 * \<bar>of_nat n / 1024\<bar> = (of_nat (10 * n) / 1024 :: rat)" by simp
  moreover have "\<not> of_nat n / 1024 < (0 :: rat)" by simp
  ultimately show ?thesis
    using False by (simp only: format_bytes_def fixed1_def Let_def round_tenths nat_int) simp
qed (simp add: fmt_bytes_def format_bytes_def itoa_def)

lemma trunc_line_120: "trunc_line l 120 \<noteq> None"
  by (simp add: trunc_line_def Let_def)

lemma shown_lines_total: "\<exists>out. shown_lines sign ls = Some out \<and> length out = length ls"
proof (induction ls)
  case (Cons l ls)
  from trunc_line_120 [of l] Cons show ?case by auto
qed simp

text \<open>The output of a tool takes at most one line more than the limit, however long it is; no call panics.\<close>

lemma print_tool_output_bounded:
  assumes "0 \<le> max_lines"
  shows "\<exists>out. print_tool_output result max_lines = Some out \<and> int (length out) \<le> max_lines + 1"
proof -
  let ?ls = "split_on (CHR 0x0A) (trim_right {CHR 0x0A} result)" and ?s = "[CHR 0xE2, CHR 0x94, CHR 0x82]"
  obtain out where "shown_lines ?s (take (nat (min (int (length ?ls)) max_lines)) ?ls) = Some out"
    "length out = length (take (nat (min (int (length ?ls)) max_lines)) ?ls)"
    using shown_lines_total by blast
  with assms show ?thesis by (auto simp: print_tool_output_def print_lines_def Let_def)
qed

lemma print_ai_reasoning_bounded: "\<exists>out. print_ai_reasoning s = Some out \<and> length out \<le> 4"
proof -
  let ?ls = "split_on (CHR 0x0A) (trim_space s)" and ?s = "[CHR 0xF0, CHR 0x9F, CHR 0x92, CHR 0xAD]"
  obtain out where "shown_lines ?s (take (nat (min (int (length ?ls)) 3)) ?ls) = Some out"
    "length out = length (take (nat (min (int (length ?ls)) 3)) ?ls)"
    using shown_lines_total by blast
  then show ?thesis by (auto simp: print_ai_reasoning_def print_lines_def Let_def)
qed

text \<open>
  When \<open>Stop\<close> has returned, the spinner has erased its line and nothing can be printed any more;
  until then every text it printed began by erasing the line.
\<close>

definition spinner_ok :: "spinner \<Rightarrow> bool" where
  "spinner_ok s \<longleftrightarrow> (sp_returned s \<longrightarrow> sp_done s \<and> \<not> sp_running s)
     \<and> (\<not> sp_running s \<longrightarrow> sp_done s \<and> sp_out s \<noteq> [] \<and> last (sp_out s) = erase_line)
     \<and> (\<forall>t \<in> set (sp_out s). take 4 t = erase_line)"

lemma spinner_ok_reachable: "spin_step\<^sup>*\<^sup>* (start_spinner msg) s \<Longrightarrow> spinner_ok s"
proof (induction rule: rtranclp_induct)
  case base
  show ?case by (simp add: spinner_ok_def start_spinner_def)
next
  case (step s s')
  have "take 4 erase_line = erase_line" "take 4 (spinner_frame s e) = erase_line" for e
    by (simp_all add: erase_line_def spinner_frame_def)
  with step(2,3) show ?case by (auto simp: spinner_ok_def elim!: spin_stepE)
qed

lemma spinner_erased:
  assumes "spin_step\<^sup>*\<^sup>* (start_spinner msg) s" "sp_returned s"
  shows "last (sp_out s) = erase_line \<and> (\<forall>s'. \<not> spin_step s s')"
  using spinner_ok_reachable [OF assms(1)] assms(2) by (auto simp: spinner_ok_def elim!: spin_stepE)

text \<open>\<open>Stop\<close> can always return, and a second call of \<open>Stop\<close> would close a closed channel.\<close>

lemma spinner_stops:
  assumes "spin_step\<^sup>*\<^sup>* (start_spinner msg) s"
  shows "\<exists>s'. spin_step\<^sup>*\<^sup>* s s' \<and> sp_returned s'"
proof -
  have close: "\<exists>s'. spin_step\<^sup>*\<^sup>* t s' \<and> sp_done s' \<and> (sp_running s' \<longleftrightarrow> sp_running t) \<and> (sp_returned s' \<longleftrightarrow> sp_returned t)" for t
    using CloseDone [of t] by (cases "sp_done t") (auto intro: exI [of _ t] exI [of _ "t\<lparr>sp_done := True\<rparr>"])
  have finish: "sp_done t \<Longrightarrow> \<exists>s'. spin_step\<^sup>*\<^sup>* t s' \<and> sp_done s' \<and> \<not> sp_running s'" for t
    using Finish [of t]
    by (cases "sp_running t") (auto intro: exI [of _ t] exI [of _ "t\<lparr>sp_running := False, sp_out := sp_out t @ [erase_line]\<rparr>"])
  have ret: "sp_done t \<Longrightarrow> \<not> sp_running t \<Longrightarrow> \<exists>s'. spin_step\<^sup>*\<^sup>* t s' \<and> sp_returned s'" for t
    using WaitReturns [of t] by (cases "sp_returned t") (auto intro: exI [of _ t] exI [of _ "t\<lparr>sp_returned := True\<rparr>"])
  from close [of s] finish ret show ?thesis by (meson rtranclp_trans)
qed

end
