(* ===== verification/McpReport.thy ===== *)
theory McpReport
  imports McpManager Terminal
begin

text \<open>
  The printed result of an MCP test (\<open>PrintTestResults\<close> of \<open>mcp/test.go\<close>), as the list of the texts
  that are printed, one per call.
\<close>

section \<open>Results of an MCP test\<close>

definition rule60 :: string where
  "rule60 = concat (replicate 60 [CHR 0xE2, CHR 0x94, CHR 0x80])"

definition print_test_result :: "mcp_test_result \<Rightarrow> string list" where
  "print_test_result r =
     [nl @ (if te_status r \<noteq> ''PASS'' then esc_seq ''31'' else esc_seq ''32'') @ ''['' @ te_status r @ '']''
        @ esc_seq ''0'' @ '' '' @ te_name r]
     @ (if 0 < te_elapsed r then [''  ('' @ duration_string (duration_round millisecond (te_elapsed r)) @ '')''] else [])
     @ [nl]
     @ (if te_identity r \<noteq> '''' then [''  identity: '' @ te_identity r @ nl] else [])
     @ (if te_status r = ''PASS'' then
          [''  tools: '' @ digits (length (te_tools r)) @ '' discovered'']
          @ (if length (te_allowed r) < length (te_tools r)
             then ['', '' @ digits (length (te_allowed r)) @ '' allowed by whitelist''] else [])
          @ [nl] @ map (\<lambda>name. ''    '' @ [CHR 0xE2, CHR 0x9C, CHR 0x93] @ '' '' @ name @ nl) (te_allowed r)
        else [''  error: '' @ te_message r @ nl])"

fun print_results_loop :: "mcp_test_result list \<Rightarrow> nat \<Rightarrow> nat \<Rightarrow> string list \<times> nat \<times> nat" where
  "print_results_loop [] passed failed = ([], passed, failed)"
| "print_results_loop (r # rs) passed failed =
     (case print_results_loop rs (if te_status r = ''PASS'' then passed + 1 else passed)
             (if te_status r = ''PASS'' then failed else failed + 1) of
        (out, p, f) \<Rightarrow> (print_test_result r @ out, p, f))"

definition print_test_results :: "mcp_test_result list \<Rightarrow> string list" where
  "print_test_results results =
     (case print_results_loop results 0 0 of
        (out, p, f) \<Rightarrow>
          [''MCP Server Test Results'' @ nl, rule60 @ nl] @ out @
          [nl, rule60 @ nl, ''Total: '' @ digits (length results) @ '' server(s), '',
           if f = 0 then esc_seq ''32'' @ digits p @ '' passed'' @ esc_seq ''0'' @ nl
           else esc_seq ''32'' @ digits p @ '' passed'' @ esc_seq ''0'' @ '', '' @ esc_seq ''31'' @ digits f
             @ '' failed'' @ esc_seq ''0'' @ nl])"

text \<open>The totals under a test report are the numbers of its passed and of its other servers.\<close>

lemma print_results_counts:
  "snd (print_results_loop rs p f) = (p + fst (count_status rs), f + snd (count_status rs))"
  by (induction rs arbitrary: p f) (auto split: prod.splits simp: prod_eq_iff)

lemma print_results_text: "fst (print_results_loop rs p f) = concat (map print_test_result rs)"
proof (induction rs arbitrary: p f)
  case (Cons r rs)
  show ?case by (simp add: split_beta Cons.IH)
qed simp

end
