(* ===== verification/Prompt.thy ===== *)
theory Prompt
  imports DiagnoseRun "HOL-Library.Sublist"
begin

text \<open>
  The template of the system prompt (\<open>promptRaw\<close> of \<open>diagnose/prompt.go\<close>) as \<open>text/template\<close> runs it:
  one definition per branch, with the white space removed where an action has a trim marker.  Text
  outside ASCII is written by its code points; \<open>nl\<close> is a line break.  The template cannot fail: its
  fields exist, and \<open>index\<close> is only used where there is a check.
\<close>

section \<open>Template\<close>

definition prompt_system_task :: "string" where
  "prompt_system_task =
     nl
     @ of_runes [0x4F60, 0x7684, 0x4EFB, 0x52A1, 0x662F, 0x5BF9, 0x6574, 0x4E2A, 0x7CFB, 0x7EDF, 0x505A, 0x5168,
         0x9762, 0x5065, 0x5EB7, 0x4F53, 0x68C0, 0xFF0C, 0x53D1, 0x73B0, 0x6F5C, 0x5728, 0x95EE, 0x9898,
         0xFF0C, 0x5E76, 0x7ED9, 0x51FA, 0x6309, 0x4F18, 0x5148, 0x7EA7, 0x6392, 0x5E8F, 0x7684, 0x5EFA,
         0x8BAE, 0x3002]"

definition prompt_domain_task :: "prompt_data \<Rightarrow> string" where
  "prompt_domain_task d =
     nl
     @ of_runes [0x4F60, 0x7684, 0x4EFB, 0x52A1, 0x662F, 0x56F4, 0x7ED5]
     @ '' '' @ pr_plugin d @ '' ''
     @ of_runes [0x9886, 0x57DF, 0x505A, 0x4E13, 0x9879, 0x5DE1, 0x68C0, 0xFF0C, 0x4F18, 0x5148, 0x68C0, 0x67E5,
         0x4E0E, 0x8BE5, 0x9886, 0x57DF, 0x76F4, 0x63A5, 0x76F8, 0x5173, 0x7684, 0x6307, 0x6807, 0x3002]
     @ nl
     @ of_runes [0x9664, 0x975E, 0x5DF2, 0x7ECF, 0x53D1, 0x73B0, 0x660E, 0x786E, 0x7EBF, 0x7D22, 0x8868, 0x660E,
         0x95EE, 0x9898, 0x7531, 0x5176, 0x4ED6, 0x9886, 0x57DF, 0x5F15, 0x8D77, 0xFF0C, 0x5426, 0x5219,
         0x4E0D, 0x8981, 0x6269, 0x5C55, 0x5230, 0x65E0, 0x5173, 0x9886, 0x57DF, 0x3002]"

definition prompt_inspect_task :: "prompt_data \<Rightarrow> string" where
  "prompt_inspect_task d =
     nl @ nl
     @ of_runes [0x7528, 0x6237, 0x8BF7, 0x6C42, 0x5BF9, 0x4EE5, 0x4E0B, 0x76EE, 0x6807, 0x8FDB, 0x884C, 0x4E3B,
         0x52A8, 0x5065, 0x5EB7, 0x5DE1, 0x68C0, 0xFF1A]
     @ nl @ nl @ of_runes [0x63D2, 0x4EF6] @ '': '' @ pr_plugin d @ nl @ of_runes [0x76EE, 0x6807] @ '': ''
     @ pr_target d @ nl @ of_runes [0x5F53, 0x524D, 0x8FD0, 0x884C, 0x73AF, 0x5883] @ '': ''
     @ pr_runtime_os d @ nl @ nl
     @ of_runes [0x8FD9, 0x4E0D, 0x662F, 0x544A, 0x8B66, 0x89E6, 0x53D1, 0x7684, 0x8BCA, 0x65AD, 0xFF0C, 0x800C,
         0x662F, 0x4E00, 0x6B21, 0x4E3B, 0x52A8, 0x5DE1, 0x68C0, 0x3002]
     @ (if pr_system_inspect d then prompt_system_task else prompt_domain_task d)"

definition single_check :: "check_snapshot \<Rightarrow> string" where
  "single_check c =
     ''### '' @ of_runes [0x544A, 0x8B66, 0x8BE6, 0x60C5] @ nl @ of_runes [0x68C0, 0x67E5, 0x9879] @ '': ''
     @ cs_check c @ nl @ of_runes [0x4E25, 0x91CD, 0x7EA7, 0x522B] @ '': '' @ cs_status c @ nl
     @ of_runes [0x5F53, 0x524D, 0x503C] @ '': '' @ cs_current_value c
     @ (if cs_threshold_desc c \<noteq> '''' then nl @ of_runes [0x9608, 0x503C] @ '': '' @ cs_threshold_desc c else '''')
     @ nl @ of_runes [0x63CF, 0x8FF0] @ '': '' @ cs_description c"

definition numbered_check :: "nat \<Rightarrow> check_snapshot \<Rightarrow> string" where
  "numbered_check i c =
     nl @ ''['' @ digits (i + 1) @ ''] '' @ cs_check c @ '' - '' @ cs_status c @ nl @ ''    ''
     @ of_runes [0x5F53, 0x524D, 0x503C] @ '': '' @ cs_current_value c
     @ (if cs_threshold_desc c \<noteq> '''' then nl @ ''    '' @ of_runes [0x9608, 0x503C] @ '': '' @ cs_threshold_desc c else '''')
     @ nl @ ''    '' @ of_runes [0x63CF, 0x8FF0] @ '': '' @ cs_description c"

fun numbered_checks :: "nat \<Rightarrow> check_snapshot list \<Rightarrow> string" where
  "numbered_checks i [] = ''''"
| "numbered_checks i (c # cs) = numbered_check i c @ numbered_checks (i + 1) cs"

definition several_checks :: "prompt_data \<Rightarrow> string" where
  "several_checks d =
     ''### ''
     @ of_runes [0x544A, 0x8B66, 0x8BE6, 0x60C5, 0xFF08, 0x540C, 0x4E00, 0x76EE, 0x6807, 0x6709]
     @ '' '' @ digits (length (pr_checks d)) @ '' ''
     @ of_runes [0x4E2A, 0x5F02, 0x5E38, 0x68C0, 0x67E5, 0x9879, 0xFF0C, 0x53EF, 0x80FD, 0x5B58, 0x5728, 0x5173,
         0x8054, 0xFF09]
     @ nl @ numbered_checks 0 (pr_checks d) @ nl
     @ of_runes [0x8BF7, 0x7279, 0x522B, 0x5173, 0x6CE8, 0x8FD9, 0x4E9B, 0x5F02, 0x5E38, 0x4E4B, 0x95F4, 0x662F,
         0x5426, 0x5B58, 0x5728, 0x5171, 0x540C, 0x6839, 0x56E0, 0x3002]"

definition alert_context :: "prompt_data \<Rightarrow> string" where
  "alert_context d =
     ''### '' @ of_runes [0x544A, 0x8B66, 0x4E0A, 0x4E0B, 0x6587] @ nl @ pr_descriptions d"

definition prompt_alert_task :: "prompt_data \<Rightarrow> string" where
  "prompt_alert_task d =
     nl @ nl @ ''catpaw ''
     @ of_runes [0x76D1, 0x63A7, 0x7CFB, 0x7EDF, 0x68C0, 0x6D4B, 0x5230, 0x4EE5, 0x4E0B, 0x544A, 0x8B66, 0xFF1A]
     @ nl @ nl @ of_runes [0x63D2, 0x4EF6] @ '': '' @ pr_plugin d @ nl @ of_runes [0x76EE, 0x6807] @ '': ''
     @ pr_target d @ nl @ nl
     @ (if length (pr_checks d) = 1 then single_check (hd (pr_checks d))
       else if 1 < length (pr_checks d) then several_checks d
       else if pr_descriptions d \<noteq> '''' then alert_context d else '''')
     @ nl @ nl
     @ of_runes [0x4F60, 0x7684, 0x4EFB, 0x52A1, 0x662F, 0x8BCA, 0x65AD, 0x8FD9, 0x4E2A, 0x95EE, 0x9898, 0x7684,
         0x6839, 0x56E0, 0xFF0C, 0x5E76, 0x7ED9, 0x51FA, 0x5EFA, 0x8BAE, 0x64CD, 0x4F5C, 0x3002]"

definition prompt_tools :: "prompt_data \<Rightarrow> string" where
  "prompt_tools d =
     nl @ nl @ ''## '' @ of_runes [0x53EF, 0x7528, 0x5DE5, 0x5177] @ nl @ nl
     @ of_runes [0x4F60, 0x53EF, 0x4EE5, 0x76F4, 0x63A5, 0x8C03, 0x7528, 0x4EE5, 0x4E0B]
     @ '' '' @ pr_plugin d @ '' ''
     @ of_runes [0x5DE5, 0x5177, 0xFF08, 0x65E0, 0x9700, 0x901A, 0x8FC7]
     @ '' call_tool'' @ of_runes [0xFF09, 0xFF1A] @ nl @ pr_direct_tools d @ nl @ nl
     @ of_runes [0x4EE5, 0x4E0B, 0x662F, 0x7CFB, 0x7EDF, 0x4E2D, 0x6240, 0x6709, 0x53EF, 0x7528, 0x7684, 0x8BCA,
         0x65AD, 0x5DE5, 0x5177, 0xFF08, 0x6309, 0x9886, 0x57DF, 0x5206, 0x7C7B, 0xFF09, 0xFF1A]
     @ nl @ nl @ pr_tool_catalog d @ nl @ nl
     @ of_runes [0x8C03, 0x7528, 0x5176, 0x4ED6, 0x9886, 0x57DF, 0x7684, 0x5DE5, 0x5177, 0xFF1A]
     @ ''call_tool(name='' @ dquote @ of_runes [0x5DE5, 0x5177, 0x540D] @ dquote @ '', tool_args=''
     @ [CHR 0x27] @ ''{'' @ dquote @ of_runes [0x53C2, 0x6570, 0x540D] @ dquote @ '':'' @ dquote
     @ of_runes [0x503C] @ dquote @ ''}'' @ [CHR 0x27] @ '')'' @ nl
     @ of_runes [0x5982, 0x9700, 0x67E5, 0x770B, 0x67D0, 0x7C7B, 0x5DE5, 0x5177, 0x7684, 0x8BE6, 0x7EC6, 0x53C2,
         0x6570, 0x8BF4, 0x660E, 0xFF1A]
     @ ''list_tools(category='' @ dquote @ of_runes [0x7C7B, 0x522B, 0x540D] @ dquote @ '')'' @ nl @ nl
     @ of_runes [0x6CE8, 0x610F, 0xFF1A, 0x4E0A, 0x8FF0] @ '' '' @ pr_plugin d @ '' ''
     @ of_runes [0x5DE5, 0x5177, 0x8BF7, 0x76F4, 0x63A5, 0x8C03, 0x7528, 0xFF0C, 0x4E0D, 0x8981, 0x901A, 0x8FC7]
     @ '' call_tool '' @ of_runes [0x5305, 0x88C5, 0x3002]"

definition system_strategy :: "string" where
  "system_strategy =
     nl @ ''1. '' @ of_runes [0x8FD9, 0x662F] @ '' '' @ dquote @ ''inspect system'' @ dquote
     @ of_runes [0xFF0C, 0x5141, 0x8BB8, 0x505A, 0x8DE8, 0x9886, 0x57DF, 0x7CFB, 0x7EDF, 0x4F53, 0x68C0]
     @ nl @ ''2. '' @ of_runes [0x5148, 0x6536, 0x96C6] @ '' CPU''
     @ of_runes [0x3001, 0x5185, 0x5B58, 0x3001, 0x78C1, 0x76D8, 0x3001, 0x7F51, 0x7EDC, 0x3001, 0x8FDB, 0x7A0B,
         0x7B49, 0x7CFB, 0x7EDF, 0x6838, 0x5FC3, 0x6307, 0x6807]
     @ nl @ ''3. ''
     @ of_runes [0x6839, 0x636E, 0x5F02, 0x5E38, 0x73B0, 0x8C61, 0x518D, 0x6DF1, 0x5165, 0x5230, 0x5177, 0x4F53,
         0x5B50, 0x9886, 0x57DF]
     @ nl @ ''4. **''
     @ of_runes [0x6BCF, 0x8F6E, 0x5C3D, 0x53EF, 0x80FD, 0x5E76, 0x884C, 0x8C03, 0x7528, 0x591A, 0x4E2A, 0x5DE5,
         0x5177]
     @ ''**''
     @ of_runes [0xFF0C, 0x51CF, 0x5C11, 0x4EA4, 0x4E92, 0x8F6E, 0x6B21]"

definition domain_strategy :: "prompt_data \<Rightarrow> string" where
  "domain_strategy d =
     nl @ ''1. '' @ of_runes [0x8FD9, 0x662F] @ '' '' @ dquote @ ''inspect '' @ pr_plugin d @ dquote
     @ of_runes [0xFF0C, 0x9ED8, 0x8BA4, 0x53EA, 0x505A] @ '' '' @ pr_plugin d @ '' ''
     @ of_runes [0x9886, 0x57DF, 0x4E13, 0x9879, 0x5DE1, 0x68C0, 0xFF0C, 0x4E0D, 0x8981, 0x628A, 0x5B83, 0x5F53,
         0x6210, 0x6574, 0x673A, 0x4F53, 0x68C0]
     @ nl @ ''2. '' @ of_runes [0x9996, 0x5148, 0x4F7F, 0x7528] @ '' '' @ pr_plugin d @ '' ''
     @ of_runes [0x7684, 0x6838, 0x5FC3, 0x5DE5, 0x5177, 0x6536, 0x96C6, 0x5173, 0x952E, 0x6307, 0x6807]
     @ nl @ ''3. '' @ of_runes [0x53EA, 0x6709, 0x5728] @ '' '' @ pr_plugin d @ '' ''
     @ of_runes [0x7ED3, 0x679C, 0x5DF2, 0x7ECF, 0x663E, 0x793A, 0x51FA, 0x660E, 0x786E, 0x5173, 0x8054, 0x65F6,
         0xFF0C, 0x624D, 0x5141, 0x8BB8, 0x6269, 0x5C55, 0x5230]
     @ '' 1-2 '' @ of_runes [0x4E2A, 0x76F8, 0x5173, 0x9886, 0x57DF] @ nl @ ''4. '' @ of_runes [0x5BF9]
     @ '' '' @ pr_plugin d @ '' ''
     @ of_runes [0x65E0, 0x76F4, 0x63A5, 0x5E2E, 0x52A9, 0x7684, 0x5DE5, 0x5177, 0x4E0D, 0x8981, 0x8C03, 0x7528]
     @ nl @ ''5. **'' @ of_runes [0x4F18, 0x5148, 0x5C11, 0x800C, 0x51C6] @ ''**''
     @ of_runes [0xFF0C, 0x4E0D, 0x8981, 0x4E3A, 0x4E86, 0x201C, 0x5168, 0x9762, 0x201D, 0x800C, 0x8C03, 0x7528,
         0x65E0, 0x5173, 0x5DE5, 0x5177]"

definition inspect_strategy :: "prompt_data \<Rightarrow> string" where
  "inspect_strategy d =
     nl @ nl @ ''## '' @ of_runes [0x5DE1, 0x68C0, 0x7B56, 0x7565]
     @ (if pr_system_inspect d then system_strategy else domain_strategy d)"

definition alert_strategy :: "prompt_data \<Rightarrow> string" where
  "alert_strategy d =
     nl @ nl @ ''## '' @ of_runes [0x8BCA, 0x65AD, 0x7B56, 0x7565] @ nl @ nl @ ''- **''
     @ of_runes [0x6548, 0x7387, 0x4F18, 0x5148] @ ''**''
     @ of_runes [0xFF1A, 0x5982, 0x679C, 0x5F53, 0x524D, 0x4FE1, 0x606F, 0x5DF2, 0x8DB3, 0x4EE5, 0x5224, 0x65AD,
         0x6839, 0x56E0, 0xFF0C, 0x7ACB, 0x5373, 0x8F93, 0x51FA, 0x7ED3, 0x8BBA, 0xFF0C, 0x4E0D, 0x8981,
         0x4E3A, 0x4E86, 0x5168, 0x9762, 0x6027, 0x8FDB, 0x884C, 0x4E0D, 0x5FC5, 0x8981, 0x7684, 0x68C0,
         0x67E5]
     @ nl @ ''- **'' @ of_runes [0x5E76, 0x884C, 0x8C03, 0x7528] @ ''**''
     @ of_runes [0xFF1A, 0x9700, 0x8981, 0x591A, 0x4E2A, 0x9886, 0x57DF, 0x6570, 0x636E, 0x65F6, 0xFF0C, 0x5728,
         0x540C, 0x4E00, 0x8F6E, 0x4E2D, 0x5E76, 0x884C, 0x8C03, 0x7528, 0x591A, 0x4E2A, 0x5DE5, 0x5177]
     @ nl @ ''- **'' @ of_runes [0x805A, 0x7126, 0x95EE, 0x9898] @ ''**''
     @ of_runes [0xFF1A, 0x4F18, 0x5148, 0x68C0, 0x67E5, 0x4E0E, 0x544A, 0x8B66, 0x76F4, 0x63A5, 0x76F8, 0x5173,
         0x7684, 0x6307, 0x6807, 0xFF1B, 0x53EA, 0x5728, 0x521D, 0x6B65, 0x5206, 0x6790, 0x65E0, 0x6CD5,
         0x89E3, 0x91CA, 0x95EE, 0x9898, 0x65F6, 0x624D, 0x6269, 0x5C55, 0x5230, 0x5176, 0x4ED6, 0x9886,
         0x57DF]
     @ nl @ ''- '' @ of_runes [0x6839, 0x56E0, 0x53EF, 0x80FD, 0x4E0D, 0x5728] @ '' '' @ pr_plugin d @ '' ''
     @ of_runes [0x81EA, 0x8EAB, 0xFF08, 0x5982, 0x6570, 0x636E, 0x5E93, 0x6162, 0x53EF, 0x80FD, 0x6E90, 0x4E8E,
         0x78C1, 0x76D8]
     @ '' I/O''
     @ of_runes [0xFF09, 0xFF0C, 0x4F46, 0x8BF7, 0x5148, 0x786E, 0x8BA4, 0x76F4, 0x63A5, 0x76F8, 0x5173, 0x6307,
         0x6807, 0x540E, 0x518D, 0x51B3, 0x5B9A, 0x662F, 0x5426, 0x6269, 0x5C55]"

definition remote_note :: "prompt_data \<Rightarrow> string" where
  "remote_note d =
     nl @ ''- [!] '' @ of_runes [0x76EE, 0x6807] @ '' '' @ pr_target d @ '' ''
     @ of_runes [0x662F, 0x8FDC, 0x7AEF, 0x4E3B, 0x673A, 0xFF0C, 0x672C, 0x673A, 0x57FA, 0x7840, 0x8BBE, 0x65BD,
         0x5DE5, 0x5177, 0xFF08]
     @ ''disk'' @ of_runes [0x3001] @ ''cpu'' @ of_runes [0x3001] @ ''memory '' @ of_runes [0x7B49, 0xFF09]
     @ nl @ ''  '' @ of_runes [0x53CD, 0x6620, 0x7684, 0x662F] @ '' catpaw ''
     @ of_runes [0x6240, 0x5728, 0x4E3B, 0x673A] @ '' '' @ pr_local_host d @ '' ''
     @ of_runes [0x7684, 0x72B6, 0x6001, 0xFF0C, 0x4E0D, 0x662F, 0x76EE, 0x6807, 0x4E3B, 0x673A, 0x7684, 0x72B6,
         0x6001]
     @ nl @ ''  ''
     @ of_runes [0x8FD9, 0x4E9B, 0x5DE5, 0x5177, 0x7684, 0x7ED3, 0x679C, 0x4EC5, 0x5728]
     @ '' catpaw ''
     @ of_runes [0x4E0E, 0x76EE, 0x6807, 0x90E8, 0x7F72, 0x5728, 0x540C, 0x4E00, 0x53F0, 0x673A, 0x5668, 0x65F6,
         0x6709, 0x53C2, 0x8003, 0x4EF7, 0x503C]"

definition local_note :: "prompt_data \<Rightarrow> string" where
  "local_note d =
     nl @ ''- catpaw '' @ of_runes [0x4E0E, 0x76EE, 0x6807] @ '' '' @ pr_target d @ '' ''
     @ of_runes [0x5728, 0x540C, 0x4E00, 0x53F0, 0x673A, 0x5668, 0x4E0A, 0xFF0C, 0x672C, 0x673A, 0x57FA, 0x7840,
         0x8BBE, 0x65BD, 0x5DE5, 0x5177, 0x53EF, 0x76F4, 0x63A5, 0x7528, 0x4E8E, 0x8F85, 0x52A9, 0x8BCA,
         0x65AD]
     @ nl @ ''- ''
     @ of_runes [0x5F53, 0x524D, 0x64CD, 0x4F5C, 0x7CFB, 0x7EDF, 0x662F]
     @ '' '' @ pr_runtime_os d
     @ of_runes [0xFF0C, 0x53EA, 0x5E94, 0x4F7F, 0x7528, 0x8BE5, 0x64CD, 0x4F5C, 0x7CFB, 0x7EDF, 0x652F, 0x6301,
         0x7684, 0x5DE5, 0x5177, 0xFF1B, 0x4E0D, 0x8981, 0x8BF7, 0x6C42, 0x5176, 0x4ED6, 0x64CD, 0x4F5C,
         0x7CFB, 0x7EDF, 0x4E13, 0x5C5E, 0x5DE5, 0x5177]"

definition inspect_format :: "string" where
  "inspect_format =
     nl @ nl
     @ of_runes [0x8BF7, 0x6309, 0x4EE5, 0x4E0B, 0x683C, 0x5F0F, 0x8F93, 0x51FA, 0x5065, 0x5EB7, 0x62A5, 0x544A,
         0xFF1A]
     @ nl @ nl @ ''### 1. '' @ of_runes [0x5DE1, 0x68C0, 0x6458, 0x8981] @ nl
     @ of_runes [0x4E00, 0x53E5, 0x8BDD, 0x603B, 0x7ED3, 0x76EE, 0x6807, 0x7684, 0x6574, 0x4F53, 0x5065, 0x5EB7,
         0x72B6, 0x6001]
     @ nl @ nl @ ''### 2. '' @ of_runes [0x68C0, 0x67E5, 0x9879, 0x660E, 0x7EC6] @ nl
     @ of_runes [0x9010, 0x9879, 0x5217, 0x51FA, 0x68C0, 0x67E5, 0x7ED3, 0x679C, 0xFF0C, 0x6BCF, 0x9879, 0x4F7F,
         0x7528, 0x72B6, 0x6001, 0x6807, 0x8BB0, 0xFF1A]
     @ nl @ ''- [OK] ''
     @ of_runes [0x6B63, 0x5E38, 0xFF1A, 0x6307, 0x6807, 0x5728, 0x5065, 0x5EB7, 0x8303, 0x56F4, 0x5185]
     @ nl @ ''- [WARN] ''
     @ of_runes [0x8B66, 0x544A, 0xFF1A, 0x6307, 0x6807, 0x504F, 0x79BB, 0x6B63, 0x5E38, 0x4F46, 0x5C1A, 0x672A,
         0x8FBE, 0x5230, 0x544A, 0x8B66, 0x9608, 0x503C, 0xFF0C, 0x9700, 0x5173, 0x6CE8]
     @ nl @ ''- [CRIT] ''
     @ of_runes [0x5F02, 0x5E38, 0xFF1A, 0x6307, 0x6807, 0x5DF2, 0x8FBE, 0x5230, 0x5371, 0x9669, 0x6C34, 0x5E73,
         0xFF0C, 0x9700, 0x7ACB, 0x5373, 0x5904, 0x7406]
     @ nl @ nl
     @ of_runes [0x6BCF, 0x9879, 0x9644, 0x5E26, 0x5173, 0x952E, 0x6570, 0x503C, 0x548C, 0x5224, 0x65AD, 0x4F9D,
         0x636E]
     @ nl @ nl @ ''### 3. '' @ of_runes [0x98CE, 0x9669, 0x4E0E, 0x5EFA, 0x8BAE] @ nl @ ''- ''
     @ of_runes [0x53D1, 0x73B0, 0x7684, 0x6F5C, 0x5728, 0x98CE, 0x9669, 0xFF08, 0x5C1A, 0x672A, 0x89E6, 0x53D1,
         0x544A, 0x8B66, 0x4F46, 0x8D8B, 0x52BF, 0x4E0D, 0x597D, 0x7684, 0x6307, 0x6807, 0xFF09]
     @ nl @ ''- ''
     @ of_runes [0x4F18, 0x5316, 0x5EFA, 0x8BAE, 0xFF08, 0x6309, 0x7D27, 0x6025, 0x7A0B, 0x5EA6, 0x6392, 0x5E8F,
         0xFF09]"

definition alert_format :: "string" where
  "alert_format =
     nl @ nl @ ''- ''
     @ of_runes [0x8BED, 0x8A00, 0x7CBE, 0x70BC, 0xFF0C, 0x5173, 0x952E, 0x6570, 0x503C, 0x5185, 0x5D4C, 0x5230,
         0x5206, 0x6790, 0x8981, 0x70B9, 0x4E2D]
     @ nl @ ''- ''
     @ of_runes [0x6700, 0x7EC8, 0x8F93, 0x51FA, 0x8BF7, 0x6309, 0x4EE5, 0x4E0B, 0x683C, 0x5F0F, 0xFF1A]
     @ nl @ ''  1. ''
     @ of_runes [0x8BCA, 0x65AD, 0x6458, 0x8981, 0xFF08, 0x4E00, 0x53E5, 0x8BDD, 0xFF09]
     @ nl @ ''  2. ''
     @ of_runes [0x6839, 0x56E0, 0x5206, 0x6790, 0xFF08, 0x8981, 0x70B9, 0x5217, 0x8868, 0xFF0C, 0x6BCF, 0x6761,
         0x542B, 0x5173, 0x952E, 0x6570, 0x503C, 0xFF09]
     @ nl @ ''  3. ''
     @ of_runes [0x5EFA, 0x8BAE, 0x64CD, 0x4F5C, 0xFF08, 0x6309, 0x7D27, 0x6025]
     @ ''/'' @ of_runes [0x77ED, 0x671F] @ ''/'' @ of_runes [0x4E2D, 0x671F, 0x5206, 0x7C7B, 0xFF09] @ nl
     @ ''- ''
     @ of_runes [0x4E0D, 0x8981, 0x8F93, 0x51FA, 0x539F, 0x59CB, 0x6570, 0x636E, 0x7684, 0x5B8C, 0x6574, 0x5185,
         0x5BB9, 0xFF0C, 0x53EA, 0x5F15, 0x7528, 0x5173, 0x952E, 0x6570, 0x503C]"

definition language_note :: "prompt_data \<Rightarrow> string" where
  "language_note d =
     nl @ nl @ ''IMPORTANT: You MUST respond in '' @ pr_language d
     @ ''. All output including section headers, analysis, and recommendations must be in '' @ pr_language d
     @ ''.''"

definition prompt_text :: "prompt_data \<Rightarrow> string" where
  "prompt_text d =
     of_runes [0x4F60, 0x662F, 0x4E00, 0x4F4D, 0x8D44, 0x6DF1, 0x8FD0, 0x7EF4, 0x548C]
     @ '' DBA '' @ of_runes [0x4E13, 0x5BB6, 0x3002]
     @ (if pr_mode d = ''inspect'' then prompt_inspect_task d else prompt_alert_task d) @ prompt_tools d
     @ (if pr_mode d = ''inspect'' then inspect_strategy d else alert_strategy d)
     @ (if pr_remote_target d then remote_note d else local_note d) @ nl @ nl @ ''## ''
     @ of_runes [0x8F93, 0x51FA, 0x8981, 0x6C42]
     @ (if pr_mode d = ''inspect'' then inspect_format else alert_format) @ nl @ nl
     @ of_runes [0x8BF7, 0x53EA, 0x4F7F, 0x7528, 0x5DE5, 0x5177, 0x83B7, 0x53D6, 0x4FE1, 0x606F, 0xFF0C, 0x4E0D,
         0x8981, 0x5047, 0x8BBE, 0x6216, 0x7F16, 0x9020, 0x6570, 0x636E, 0x3002]
     @ (if pr_language d \<noteq> ''zh'' then language_note d else '''')"

definition prompt_tmpl :: "prompt_data \<Rightarrow> string + string" where
  "prompt_tmpl d = Inr (prompt_text d)"

section \<open>Contents\<close>

lemma sub_left: "sublist x s \<Longrightarrow> sublist x (p @ s)"
  by (meson sublist_append_leftI sublist_order.order_trans)

lemma sub_right: "sublist x s \<Longrightarrow> sublist x (s @ q)"
  by (meson sublist_append_rightI sublist_order.order_trans)

lemma several_at:
  "i < length cs \<Longrightarrow> sublist (numbered_check (k + i) (cs ! i)) (numbered_checks k cs)"
proof (induction cs arbitrary: i k)
  case (Cons c cs)
  show ?case
  proof (cases i)
    case (Suc j)
    with Cons.prems Cons.IH [of j "k + 1"] show ?thesis by (simp add: sub_left)
  qed simp
qed simp

text \<open>How an alert's prompt shows its \<open>i\<close>-th check.\<close>

definition check_block :: "check_snapshot list \<Rightarrow> nat \<Rightarrow> string" where
  "check_block cs i = (if length cs = 1 then single_check (cs ! i) else numbered_check i (cs ! i))"

lemma several_checks_at:
  assumes "i < length (pr_checks d)"
  shows "sublist (numbered_check i (pr_checks d ! i)) (several_checks d)"
proof -
  have n: "sublist (numbered_check i (pr_checks d ! i)) (numbered_checks 0 (pr_checks d))"
    using several_at [OF assms, of 0] by simp
  show ?thesis unfolding several_checks_def by (rule sub_right [OF n] | rule sub_left)+
qed

lemma alert_task_checks:
  assumes "i < length (pr_checks d)"
  shows "sublist (check_block (pr_checks d) i) (prompt_alert_task d)"
proof -
  let ?choice = "if length (pr_checks d) = 1 then single_check (hd (pr_checks d))
       else if 1 < length (pr_checks d) then several_checks d
       else if pr_descriptions d \<noteq> '''' then alert_context d else ''''"
  have "sublist (check_block (pr_checks d) i) ?choice"
  proof (cases "length (pr_checks d) = 1")
    case True
    with assms have "hd (pr_checks d) = pr_checks d ! i" by (cases "pr_checks d") auto
    with True show ?thesis by (simp add: check_block_def)
  next
    case False
    with assms several_checks_at [OF assms] show ?thesis by (simp add: check_block_def)
  qed
  note part = this
  show ?thesis unfolding prompt_alert_task_def by (rule sub_right [OF part] | rule sub_left)+
qed

lemma prompt_task_part:
  "sublist (if pr_mode d = ''inspect'' then prompt_inspect_task d else prompt_alert_task d) (prompt_text d)"
  unfolding prompt_text_def by (rule sublist_append_rightI | rule sub_left)+

lemma prompt_tools_part: "sublist (prompt_tools d) (prompt_text d)"
  unfolding prompt_text_def by (rule sublist_append_rightI | rule sub_left)+

lemma direct_tools_part: "sublist (pr_direct_tools d) (prompt_tools d)"
  unfolding prompt_tools_def by (rule sublist_append_rightI | rule sub_left)+

lemma catalog_part: "sublist (pr_tool_catalog d) (prompt_tools d)"
  unfolding prompt_tools_def by (rule sublist_append_rightI | rule sub_left)+

lemma language_part:
  "pr_language d \<noteq> ''zh'' \<Longrightarrow> \<exists>s. prompt_text d = s @ language_note d"
  unfolding prompt_text_def by (simp only: append_assoc [symmetric] simp_thms if_True) blast

lemma descriptions_part:
  assumes "pr_checks d = []"
  shows "sublist (pr_descriptions d) (prompt_alert_task d)"
proof (cases "pr_descriptions d = ''''")
  case False
  have "sublist (pr_descriptions d) (alert_context d)"
    unfolding alert_context_def by (rule sublist_order.order_refl | rule sub_left)+
  then have part: "sublist (pr_descriptions d) (if length (pr_checks d) = 1 then single_check (hd (pr_checks d))
       else if 1 < length (pr_checks d) then several_checks d
       else if pr_descriptions d \<noteq> '''' then alert_context d else '''')" using assms False by simp
  show ?thesis unfolding prompt_alert_task_def by (rule sub_right [OF part] | rule sub_left)+
qed simp

text \<open>
  The prompt of an alert's diagnosis shows every check of the request with its name, status, value,
  threshold and description (the plain descriptions when there is none), both tool lists, and ends
  with the language when it is not Chinese.
\<close>

theorem prompt_describes_request:
  assumes "p = build_system_prompt prompt_tmpl req direct catalog host remote lang"
  shows "(\<forall>i < length (rq_checks req). sublist (check_block (rq_checks req) i) p)
     \<and> (rq_checks req = [] \<longrightarrow> sublist (rq_descriptions req) p)
     \<and> sublist direct p \<and> sublist catalog p
     \<and> (lang \<noteq> ''zh'' \<longrightarrow> (\<exists>s. p = s @ nl @ nl @ ''IMPORTANT: You MUST respond in '' @ lang
            @ ''. All output including section headers, analysis, and recommendations must be in '' @ lang @ ''.''))"
proof -
  let ?d = "\<lparr>pr_mode = ModeAlert, pr_plugin = rq_plugin req, pr_target = rq_target req,
          pr_runtime_os = rq_runtime_os req, pr_system_inspect = (ModeAlert = ModeInspect \<and> rq_plugin req = ''system''),
          pr_checks = rq_checks req, pr_descriptions = rq_descriptions req, pr_direct_tools = direct,
          pr_tool_catalog = catalog, pr_remote_target = remote, pr_local_host = host, pr_language = lang\<rparr>"
  have p: "p = prompt_text ?d" using assms by (simp add: build_system_prompt_def render_prompt_def prompt_tmpl_def)
  have task: "sublist (prompt_alert_task ?d) p"
    using prompt_task_part [of ?d] p by (simp add: ModeAlert_def)
  have "sublist (check_block (rq_checks req) i) p" if "i < length (rq_checks req)" for i
    using sublist_order.order_trans [OF alert_task_checks [of i ?d] task] that by simp
  moreover have "rq_checks req = [] \<longrightarrow> sublist (rq_descriptions req) p"
    using sublist_order.order_trans [OF descriptions_part [of ?d] task] by simp
  moreover have "sublist direct p" "sublist catalog p"
    using sublist_order.order_trans [OF direct_tools_part [of ?d] prompt_tools_part [of ?d]]
      sublist_order.order_trans [OF catalog_part [of ?d] prompt_tools_part [of ?d]] p by simp_all
  moreover have "lang \<noteq> ''zh'' \<longrightarrow> (\<exists>s. p = s @ language_note ?d)"
    using language_part [of ?d] p by simp
  ultimately show ?thesis by (simp add: language_note_def)
qed

lemma inspect_ignores_alert:
  "pr_mode d = ''inspect'' \<Longrightarrow> prompt_text (d\<lparr>pr_checks := cs, pr_descriptions := x\<rparr>) = prompt_text d"
  by (simp add: prompt_text_def prompt_inspect_task_def prompt_tools_def inspect_strategy_def remote_note_def
      local_note_def language_note_def prompt_domain_task_def domain_strategy_def)

end
