(* ===== verification/DiagnoseGlobal.thy ===== *)
theory DiagnoseGlobal
  imports Aggregator DiagnoseEngine
begin

text \<open>
  The diagnosis subsystem as the agent holds it (\<open>diagnose/global.go\<close>): the one engine, the
  aggregator in front of it and the goroutine that removes old records.  The steps interleave
  the alerts, the timers of the aggregator, the goroutines of the engine, \<open>Init\<close> and
  \<open>Shutdown\<close>; the mutex makes each of the two one step.  A channel is a number, \<open>gl_closed\<close>
  are the closed ones and \<open>gl_loops\<close> the cleanup loops still running, each with its channel.
\<close>

section \<open>State\<close>

record global_state =
  gl_engine :: "engine_state option"
  gl_agg :: "aggregator option"
  gl_stop :: "nat option"
  gl_loops :: "nat list"
  gl_closed :: "nat list"
  gl_next_chan :: nat
  gl_handed :: "diagnose_request list"

definition no_globals :: global_state where
  "no_globals =
     \<lparr>gl_engine = None, gl_agg = None, gl_stop = None, gl_loops = [], gl_closed = [], gl_next_chan = 0, gl_handed = []\<rparr>"

text \<open>\<open>d\<close> is the loaded state of tokens and cooldowns, \<open>win\<close> the configured window.\<close>

definition global_init :: "ai_config \<Rightarrow> int \<Rightarrow> dstate \<Rightarrow> global_state \<Rightarrow> global_state" where
  "global_init cfg win d g =
     (if \<not> ac_enabled cfg then g
      else g\<lparr>gl_engine := Some (new_engine_state cfg d), gl_agg := Some (new_aggregator win),
             gl_stop := Some (gl_next_chan g), gl_loops := gl_loops g @ [gl_next_chan g],
             gl_next_chan := gl_next_chan g + 1\<rparr>)"

definition global_shutdown :: "(nat \<times> string \<Rightarrow> bool) \<Rightarrow> global_state \<Rightarrow> global_state" where
  "global_shutdown late g =
     (let g = (case gl_stop g of None \<Rightarrow> g | Some ch \<Rightarrow> g\<lparr>gl_closed := gl_closed g @ [ch], gl_stop := None\<rparr>);
          g = (case gl_agg g of None \<Rightarrow> g | Some a \<Rightarrow> g\<lparr>gl_agg := Some (agg_shutdown late a)\<rparr>)
      in case gl_engine g of None \<Rightarrow> g | Some e \<Rightarrow> g\<lparr>gl_engine := Some (engine_shutdown e)\<rparr>)"

definition global_aggregator :: "global_state \<Rightarrow> aggregator option" where
  "global_aggregator g = gl_agg g"

definition global_engine :: "global_state \<Rightarrow> engine_state option" where
  "global_engine g = gl_engine g"

text \<open>The loop of \<open>runPeriodicCleanup\<close>: it returns when its channel is closed, else it cleans up.\<close>

datatype cleanup_wake = Stopped | Ticked

fun periodic_cleanup :: "cleanup_wake list \<Rightarrow> (nat \<Rightarrow> string list) \<Rightarrow> nat \<Rightarrow> string list list \<times> bool" where
  "periodic_cleanup [] removed n = ([], False)"
| "periodic_cleanup (Stopped # ws) removed n = ([], True)"
| "periodic_cleanup (Ticked # ws) removed n =
     (case periodic_cleanup ws removed (n + 1) of (rs, returned) \<Rightarrow> (removed n # rs, returned))"

section \<open>Interleavings\<close>

text \<open>
  An event reaches the aggregator, a timer hands a request to a goroutine that calls
  \<open>engine.Submit\<close>, its guards pass or not, it asks for a slot; the goroutines of the engine work;
  a cleanup loop notices that its channel is closed.  Diagnoses that a session starts directly are
  not steps here.
\<close>

inductive glob_step :: "global_state \<Rightarrow> global_state \<Rightarrow> bool" where
  Alerted: "gl_agg g = Some a \<Longrightarrow>
    glob_step g (g\<lparr>gl_agg := Some (agg_submit ai ev p snap pl ins cfg a)\<rparr>)"
| Fired: "gl_agg g = Some a \<Longrightarrow> (t, key) \<in> set (armed a) \<Longrightarrow> agg_fire t key a = (r, a') \<Longrightarrow>
    glob_step g (g\<lparr>gl_agg := Some a', gl_handed := gl_handed g @ (case r of None \<Rightarrow> [] | Some q \<Rightarrow> [q])\<rparr>)"
| Guarded: "gl_engine g = Some e \<Longrightarrow> req \<in> set (gl_handed g) \<Longrightarrow> submit_checks day now limit req e = (ok, e') \<Longrightarrow>
    glob_step g (g\<lparr>gl_engine := Some (e'\<lparr>es_checked := es_checked e' @ (if ok then [req] else [])\<rparr>),
                   gl_handed := remove1 req (gl_handed g)\<rparr>)"
| Slotted: "gl_engine g = Some e \<Longrightarrow> req \<in> set (es_checked e) \<Longrightarrow>
    glob_step g (g\<lparr>gl_engine := Some (submit_acquire req (e\<lparr>es_checked := remove1 req (es_checked e)\<rparr>))\<rparr>)"
| Worked: "gl_engine g = Some e \<Longrightarrow> eng_step e e' \<Longrightarrow> es_checked e' = es_checked e \<Longrightarrow> es_next e' = es_next e \<Longrightarrow>
    glob_step g (g\<lparr>gl_engine := Some e'\<rparr>)"
| CleanupEnds: "ch \<in> set (gl_loops g) \<Longrightarrow> ch \<in> set (gl_closed g) \<Longrightarrow>
    glob_step g (g\<lparr>gl_loops := remove1 ch (gl_loops g)\<rparr>)"
| ShutDown: "glob_step g (global_shutdown late g)"

inductive glob_run :: "bool \<Rightarrow> global_state \<Rightarrow> bool" where
  start: "glob_run False no_globals"
| init: "glob_run b g \<Longrightarrow> glob_run (b \<or> gl_stop g \<noteq> None) (global_init cfg win d g)"
| step: "glob_run b g \<Longrightarrow> glob_step g g' \<Longrightarrow> glob_run b g'"

text \<open>The flag of \<open>glob_run\<close> says that \<open>Init\<close> was called on an initialised subsystem.\<close>

section \<open>After a shutdown\<close>

lemma eng_step_stopped: "eng_step e e' \<Longrightarrow> es_stopped e \<Longrightarrow> es_stopped e'"
proof (induction rule: eng_step.induct)
  case (Check day now limit req s ok s')
  then show ?case by (auto simp: submit_checks_def)
next
  case (Acquire req s)
  then show ?case by (simp add: submit_acquire_def try_sem_def launch_def)
next
  case (SessionTry s ok s')
  then show ?case by (auto simp: try_sem_def split: if_splits)
next
  case (Release r s s')
  then show ?case by (auto simp: drop_run_def release_sem_def split: if_splits)
next
  case (SessionRelease s s')
  then show ?case by (auto simp: release_sem_def split: if_splits)
qed (simp_all add: launch_def set_phase_def register_in_flight_def unregister_in_flight_def drop_run_def
    stop_engine_def cancel_all_def)

text \<open>What cannot grow once the engine is stopped: the diagnoses started and those past the guards.\<close>

definition started_or_passed :: "engine_state \<Rightarrow> nat" where
  "started_or_passed e = es_next e + length (es_checked e)"

definition quiet :: "nat \<Rightarrow> nat \<Rightarrow> global_state \<Rightarrow> bool" where
  "quiet n m g \<longleftrightarrow>
     (case gl_engine g of None \<Rightarrow> False
      | Some e \<Rightarrow> es_stopped e \<and> n \<le> es_next e \<and> started_or_passed e \<le> m)"

lemma submit_acquire_counts:
  "req \<in> set (es_checked e) \<Longrightarrow>
     started_or_passed (submit_acquire req (e\<lparr>es_checked := remove1 req (es_checked e)\<rparr>)) \<le> started_or_passed e
       \<and> es_next e \<le> es_next (submit_acquire req (e\<lparr>es_checked := remove1 req (es_checked e)\<rparr>))"
  using length_pos_if_in_set [of req "es_checked e"]
  by (auto simp: started_or_passed_def submit_acquire_def try_sem_def launch_def length_remove1)

lemma global_shutdown_parts:
  "gl_engine (global_shutdown late g) = map_option engine_shutdown (gl_engine g)"
  "gl_agg (global_shutdown late g) = map_option (agg_shutdown late) (gl_agg g)"
  "gl_stop (global_shutdown late g) = None"
  "gl_loops (global_shutdown late g) = gl_loops g"
  "gl_closed (global_shutdown late g) = gl_closed g @ (case gl_stop g of None \<Rightarrow> [] | Some ch \<Rightarrow> [ch])"
  "gl_next_chan (global_shutdown late g) = gl_next_chan g"
  by (simp_all add: global_shutdown_def Let_def split: option.split)

lemma engine_shutdown_parts [simp]:
  "es_stopped (engine_shutdown e)" "es_next (engine_shutdown e) = es_next e"
  "es_checked (engine_shutdown e) = es_checked e"
  by (simp_all add: engine_shutdown_def cancel_all_def stop_engine_def)

lemma quiet_step: "glob_step g g' \<Longrightarrow> quiet n m g \<Longrightarrow> quiet n m g'"
proof (induction rule: glob_step.induct)
  case (Guarded g e req day now limit ok e')
  then have "\<not> ok \<and> e' = e" by (simp add: quiet_def submit_checks_def)
  with Guarded show ?case by (simp add: quiet_def started_or_passed_def)
next
  case (Slotted g e req)
  have "es_stopped (submit_acquire req (e\<lparr>es_checked := remove1 req (es_checked e)\<rparr>)) = es_stopped e"
    by (simp add: submit_acquire_def try_sem_def launch_def)
  with Slotted submit_acquire_counts [of req e] show ?case by (auto simp: quiet_def)
next
  case (Worked g e e')
  then show ?case using eng_step_stopped [of e e'] by (simp add: quiet_def started_or_passed_def)
next
  case (ShutDown g late)
  then show ?case
    by (auto simp: quiet_def global_shutdown_parts started_or_passed_def split: option.splits)
qed (simp_all add: quiet_def)

lemma quiet_steps: "glob_step\<^sup>*\<^sup>* g g' \<Longrightarrow> quiet n m g \<Longrightarrow> quiet n m g'"
  by (induction rule: rtranclp_induct) (simp_all add: quiet_step)

section \<open>The aggregator and the cleanup loops\<close>

definition glob_ok :: "bool \<Rightarrow> global_state \<Rightarrow> bool" where
  "glob_ok b g \<longleftrightarrow>
     (case gl_agg g of None \<Rightarrow> True | Some a \<Rightarrow> agg_ok a)
     \<and> (\<forall>ch \<in> set (gl_loops g). ch < gl_next_chan g \<and> (b \<or> ch \<in> set (gl_closed g) \<or> gl_stop g = Some ch))"

lemma glob_step_ok: "glob_step g g' \<Longrightarrow> glob_ok b g \<Longrightarrow> glob_ok b g'"
proof (induction rule: glob_step.induct)
  case (Alerted g a ai ev p snap pl ins cfg)
  then show ?case by (simp add: glob_ok_def agg_submit_ok)
next
  case (Fired g a t key r a')
  then show ?case using agg_fire_ok [of a t key] by (auto simp: glob_ok_def)
next
  case (CleanupEnds ch g)
  then show ?case by (auto simp: glob_ok_def dest: notin_set_remove1 split: option.splits)
next
  case (ShutDown g late)
  then show ?case
    by (auto simp: glob_ok_def global_shutdown_parts agg_shutdown_clears split: option.splits)
qed (simp_all add: glob_ok_def)

lemma glob_run_ok: "glob_run b g \<Longrightarrow> glob_ok b g"
proof (induction rule: glob_run.induct)
  case start
  then show ?case by (simp add: glob_ok_def no_globals_def)
next
  case (init b g cfg win d)
  then show ?case
    by (auto simp: glob_ok_def global_init_def new_aggregator_ok less_Suc_eq split: option.splits)
next
  case (step b g g')
  then show ?case using glob_step_ok by blast
qed
text \<open>
  C17. Once \<open>Shutdown\<close> has run, nothing that happens without a new \<open>Init\<close> starts a diagnosis from
  an alert, except for the submissions that had already passed the guards: their number bounds the
  diagnoses still to come.  The requests that were being collected are dropped, the engine stays
  stopped, and if \<open>Init\<close> was never called twice in a row, every cleanup loop has been told to
  end and can end.
\<close>

theorem shutdown_quiesces:
  assumes "glob_run b g" and "gl_engine g = Some e" and "glob_step\<^sup>*\<^sup>* (global_shutdown late g) g'"
  shows "(\<exists>e'. gl_engine g' = Some e' \<and> es_stopped e' \<and> es_next e \<le> es_next e'
      \<and> es_next e' + length (es_checked e') \<le> es_next e + length (es_checked e))
    \<and> (\<forall>a. gl_agg (global_shutdown late g) = Some a \<longrightarrow> pending a = [] \<and> timers a = [])
    \<and> (\<forall>ch \<in> set (gl_loops (global_shutdown late g)). \<not> b \<longrightarrow>
      glob_step (global_shutdown late g)
        (global_shutdown late g\<lparr>gl_loops := remove1 ch (gl_loops (global_shutdown late g))\<rparr>))"
proof (intro conjI ballI impI)
  have ok: "glob_ok b g" by (rule glob_run_ok [OF assms(1)])
  have "quiet (es_next e) (started_or_passed e) (global_shutdown late g)"
    using assms(2) by (simp add: quiet_def global_shutdown_parts started_or_passed_def)
  then have "quiet (es_next e) (started_or_passed e) g'" by (rule quiet_steps [OF assms(3)])
  then show "\<exists>e'. gl_engine g' = Some e' \<and> es_stopped e' \<and> es_next e \<le> es_next e'
      \<and> es_next e' + length (es_checked e') \<le> es_next e + length (es_checked e)"
    by (auto simp: quiet_def started_or_passed_def split: option.splits)
  show "\<forall>a. gl_agg (global_shutdown late g) = Some a \<longrightarrow> pending a = [] \<and> timers a = []"
    using ok by (auto simp: glob_ok_def global_shutdown_parts agg_shutdown_clears split: option.splits)
  fix ch
  assume b: "\<not> b" and ch: "ch \<in> set (gl_loops (global_shutdown late g))"
  have "glob_ok b (global_shutdown late g)" by (rule glob_step_ok [OF glob_step.ShutDown ok])
  then have "ch \<in> set (gl_closed (global_shutdown late g)) \<or> gl_stop (global_shutdown late g) = Some ch"
    using b ch by (auto simp: glob_ok_def)
  then have "ch \<in> set (gl_closed (global_shutdown late g))" by (simp add: global_shutdown_parts)
  with ch show "glob_step (global_shutdown late g)
        (global_shutdown late g\<lparr>gl_loops := remove1 ch (gl_loops (global_shutdown late g))\<rparr>)"
    by (rule glob_step.CleanupEnds)
qed

text \<open>A second \<open>Init\<close> leaves the first cleanup loop without anybody who can end it.\<close>

theorem second_init_leaks:
  fixes cfg :: ai_config
  assumes "ac_enabled cfg"
  shows "\<exists>g. glob_run True g \<and> gl_loops (global_shutdown late g) = [0, 1] \<and> gl_closed (global_shutdown late g) = [1]"
proof -
  let ?g = "global_init cfg 0 d (global_init cfg 0 d no_globals)"
  have "glob_run (False \<or> gl_stop no_globals \<noteq> None) (global_init cfg 0 d no_globals)"
    by (rule glob_run.init [OF glob_run.start])
  then have "glob_run ((False \<or> gl_stop no_globals \<noteq> None) \<or> gl_stop (global_init cfg 0 d no_globals) \<noteq> None) ?g"
    by (rule glob_run.init)
  then have "glob_run True ?g" using assms by (simp add: global_init_def)
  then show ?thesis
    using assms by (intro exI [of _ ?g]) (simp add: global_init_def global_shutdown_parts no_globals_def)
qed

definition example_globals :: global_state where
  "example_globals =
     global_init (ai_apply_defaults (example_ai True 0)) 0 (new_diagnose_state (\<lambda>_. ''d'') 0) no_globals"

lemma example_enabled: "ac_enabled (ai_apply_defaults (example_ai True 0))"
  by (simp add: ai_apply_defaults_def example_ai_def)

theorem shutdown_quiesces_witness:
  "\<exists>e'. gl_engine (global_shutdown (\<lambda>_. False) example_globals) = Some e' \<and> es_stopped e' \<and> es_next e' = 0
     \<and> glob_step (global_shutdown (\<lambda>_. False) example_globals)
         (global_shutdown (\<lambda>_. False) example_globals\<lparr>gl_loops := []\<rparr>)"
proof -
  have "glob_run (False \<or> gl_stop no_globals \<noteq> None) example_globals"
    unfolding example_globals_def by (rule glob_run.init [OF glob_run.start])
  then have run: "glob_run False example_globals" by (simp add: no_globals_def)
  have e: "gl_engine example_globals = Some (example_state 0 [] [] [] 0)"
    using example_enabled by (simp add: example_globals_def global_init_def example_initial [symmetric])
  have loops: "gl_loops (global_shutdown (\<lambda>_. False) example_globals) = [0]"
    using example_enabled by (simp add: example_globals_def global_init_def global_shutdown_parts no_globals_def)
  note w = shutdown_quiesces [where late = "\<lambda>_. False", OF run e rtranclp.rtrancl_refl]
  have "glob_step (global_shutdown (\<lambda>_. False) example_globals)
      (global_shutdown (\<lambda>_. False) example_globals\<lparr>gl_loops := remove1 0 [0]\<rparr>)"
    using w unfolding loops by simp
  then show ?thesis using w by (auto simp: example_state_def)
qed

end
