(* ===== verification/NameFilter.thy ===== *)
theory NameFilter
  imports GoStrings
begin

text \<open>
  Filters of names by patterns (\<open>pkg/filter/filter.go\<close>) and membership in lists of choices
  (\<open>pkg/choice/choice.go\<close>).  The compilers of regular expressions and of glob patterns are
  parameters; a compiled pattern is the set of strings it matches.
\<close>

section \<open>Choices\<close>

fun choice_contains :: "string \<Rightarrow> string list \<Rightarrow> bool" where
  "choice_contains c [] = False"
| "choice_contains c (x # xs) = (if x = c then True else choice_contains c xs)"

fun choice_contains_prefix :: "string \<Rightarrow> string list \<Rightarrow> bool" where
  "choice_contains_prefix c [] = False"
| "choice_contains_prefix c (x # xs) = (if has_prefix c x then True else choice_contains_prefix c xs)"

definition choice_check :: "string \<Rightarrow> string list \<Rightarrow> string option" where
  "choice_check c available = (if \<not> choice_contains c available then Some (''unknown choice '' @ c) else None)"

fun choice_check_slice :: "string list \<Rightarrow> string list \<Rightarrow> string option" where
  "choice_check_slice [] available = None"
| "choice_check_slice (c # cs) available =
     (case choice_check c available of Some e \<Rightarrow> Some e | None \<Rightarrow> choice_check_slice cs available)"

lemma choice_contains_iff: "choice_contains c xs \<longleftrightarrow> c \<in> set xs"
  by (induction xs) auto

lemma choice_contains_prefix_iff: "choice_contains_prefix c xs \<longleftrightarrow> (\<exists>x \<in> set xs. has_prefix c x)"
  by (induction xs) auto

lemma choice_check_slice_iff: "choice_check_slice cs available = None \<longleftrightarrow> set cs \<subseteq> set available"
  by (induction cs) (auto simp: choice_check_def choice_contains_iff)

section \<open>Filters\<close>

datatype go_filter =
    NameSet "string list"
  | SingleName string
  | GlobFilter "string \<Rightarrow> bool"
  | RegexFilter "(string \<Rightarrow> bool) list"
  | CombinedFilter "go_filter list"

fun regex_match :: "(string \<Rightarrow> bool) list \<Rightarrow> string \<Rightarrow> bool" where
  "regex_match [] s = False"
| "regex_match (re # res) s = (if re s then True else regex_match res s)"

fun filter_match :: "go_filter \<Rightarrow> string \<Rightarrow> bool"
  and any_match :: "go_filter list \<Rightarrow> string \<Rightarrow> bool" where
  "filter_match (NameSet ns) s = (s \<in> set ns)"
| "filter_match (SingleName n) s = (n = s)"
| "filter_match (GlobFilter g) s = g s"
| "filter_match (RegexFilter res) s = regex_match res s"
| "filter_match (CombinedFilter fs) s = any_match fs s"
| "any_match [] s = False"
| "any_match (f # fs) s = (if filter_match f s then True else any_match fs s)"

record pattern_env =
  re_compile :: "string \<Rightarrow> string + (string \<Rightarrow> bool)"
  glob_compile :: "string \<Rightarrow> string + (string \<Rightarrow> bool)"
  quote_pattern :: "string \<Rightarrow> string"

definition is_regex_pattern :: "string \<Rightarrow> bool" where
  "is_regex_pattern s \<longleftrightarrow> 2 \<le> length s \<and> s ! 0 = CHR ''/'' \<and> s ! (length s - 1) = CHR ''/''"

definition regex_body :: "string \<Rightarrow> string" where
  "regex_body p = take (length p - 2) (drop 1 p)"

definition HasMeta :: "string \<Rightarrow> bool" where
  "HasMeta s \<longleftrightarrow> list_ex (\<lambda>c. c \<in> set ''*?['') s"

definition compile_no_glob :: "string list \<Rightarrow> go_filter" where
  "compile_no_glob fs = (if length fs = 1 then SingleName (fs ! 0) else NameSet fs)"

definition compile_glob :: "pattern_env \<Rightarrow> string list \<Rightarrow> string + go_filter" where
  "compile_glob env fs =
     (if \<not> list_ex HasMeta fs then Inr (compile_no_glob fs)
      else case glob_compile env (if length fs = 1 then fs ! 0 else ''{'' @ join '','' fs @ ''}'') of
          Inl e \<Rightarrow> Inl e
        | Inr g \<Rightarrow> Inr (GlobFilter g))"

text \<open>The loop over the patterns, with the glob patterns and the regular expressions so far.\<close>

fun split_patterns ::
  "pattern_env \<Rightarrow> string list \<Rightarrow> string list \<Rightarrow> go_filter list \<Rightarrow> string + string list \<times> go_filter list" where
  "split_patterns env [] globs regexes = Inr (globs, regexes)"
| "split_patterns env (p # ps) globs regexes =
     (if is_regex_pattern p then
        (case re_compile env (regex_body p) of
           Inl e \<Rightarrow> Inl (''invalid regex '' @ quote_pattern env p @ '': '' @ e)
         | Inr re \<Rightarrow> split_patterns env ps globs (regexes @ [RegexFilter [re]]))
      else split_patterns env ps (globs @ [p]) regexes)"

definition compile_filter :: "pattern_env \<Rightarrow> string list \<Rightarrow> string + go_filter option" where
  "compile_filter env fs =
     (if length fs = 0 then Inr None
      else case split_patterns env fs [] [] of
          Inl e \<Rightarrow> Inl e
        | Inr (globs, regexes) \<Rightarrow>
            (case (if 0 < length globs then map_sum (\<lambda>e. e) (\<lambda>g. [g]) (compile_glob env globs) else Inr []) of
               Inl e \<Rightarrow> Inl e
             | Inr gs \<Rightarrow>
                 (case gs @ regexes of
                    [] \<Rightarrow> Inr None
                  | [f] \<Rightarrow> Inr (Some f)
                  | parts \<Rightarrow> Inr (Some (CombinedFilter parts)))))"

record include_exclude =
  ie_include :: "go_filter option"
  ie_exclude :: "go_filter option"
  ie_include_default :: bool
  ie_exclude_default :: bool

definition new_include_exclude_defaults ::
  "pattern_env \<Rightarrow> string list \<Rightarrow> string list \<Rightarrow> bool \<Rightarrow> bool \<Rightarrow> string + include_exclude" where
  "new_include_exclude_defaults env incl excl incl_default excl_default =
     (case compile_filter env incl of
        Inl e \<Rightarrow> Inl e
      | Inr i \<Rightarrow>
          (case compile_filter env excl of
             Inl e \<Rightarrow> Inl e
           | Inr x \<Rightarrow> Inr \<lparr>ie_include = i, ie_exclude = x, ie_include_default = incl_default,
                       ie_exclude_default = excl_default\<rparr>))"

definition new_include_exclude :: "pattern_env \<Rightarrow> string list \<Rightarrow> string list \<Rightarrow> string + include_exclude" where
  "new_include_exclude env incl excl = new_include_exclude_defaults env incl excl True False"

definition include_exclude_match :: "include_exclude \<Rightarrow> string \<Rightarrow> bool" where
  "include_exclude_match f s =
     (let rejected = (case ie_include f of
            Some i \<Rightarrow> \<not> filter_match i s
          | None \<Rightarrow> \<not> ie_include_default f)
      in if rejected then False
         else
           let excluded = (case ie_exclude f of
                 Some x \<Rightarrow> filter_match x s
               | None \<Rightarrow> ie_exclude_default f)
           in \<not> excluded)"

section \<open>A filter matches what one of its patterns matches\<close>

definition pattern_matches :: "pattern_env \<Rightarrow> string \<Rightarrow> string \<Rightarrow> bool" where
  "pattern_matches env p s \<longleftrightarrow>
     (if is_regex_pattern p then (case re_compile env (regex_body p) of Inr re \<Rightarrow> re s | Inl e \<Rightarrow> False)
      else if HasMeta p then (case glob_compile env p of Inr g \<Rightarrow> g s | Inl e \<Rightarrow> False)
      else s = p)"

text \<open>
  What the glob library documents and the code relies on: braces are alternatives separated by
  commas, for parts that use neither themselves and are not empty, and a pattern without special
  bytes is its text.
\<close>

definition plain_part :: "string \<Rightarrow> bool" where
  "plain_part p \<longleftrightarrow> p \<noteq> '''' \<and> set p \<inter> {CHR '','', CHR ''{'', CHR ''}'', CHR 0x5C} = {}
     \<and> (CHR '']'' \<in> set p \<longrightarrow> HasMeta p)"

definition glob_alternatives :: "pattern_env \<Rightarrow> bool" where
  "glob_alternatives env \<longleftrightarrow>
     (\<forall>ps g s. glob_compile env (''{'' @ join '','' ps @ ''}'') = Inr g \<longrightarrow> ps \<noteq> [] \<longrightarrow> list_all plain_part ps \<longrightarrow>
        g s = list_ex (\<lambda>p. case glob_compile env p of Inr h \<Rightarrow> h s | Inl e \<Rightarrow> False) ps)
     \<and> (\<forall>p. plain_part p \<and> \<not> HasMeta p \<longrightarrow> glob_compile env p = Inr (\<lambda>s. s = p))"

lemma any_match_iff: "any_match fs s \<longleftrightarrow> (\<exists>f \<in> set fs. filter_match f s)"
  by (induction fs) auto

lemma regex_match_iff: "regex_match rs s \<longleftrightarrow> (\<exists>r \<in> set rs. r s)"
  by (induction rs) auto

lemma split_patterns_match:
  "split_patterns env fs globs regexes = Inr (gs, rs) \<Longrightarrow>
     gs = globs @ filter (\<lambda>p. \<not> is_regex_pattern p) fs
       \<and> (any_match rs s \<longleftrightarrow> any_match regexes s \<or> (\<exists>p \<in> set fs. is_regex_pattern p \<and> pattern_matches env p s))"
proof (induction env fs globs regexes rule: split_patterns.induct)
  case (1 env globs regexes)
  then show ?case by simp
next
  case (2 env p ps globs regexes)
  then show ?case
    by (auto simp: pattern_matches_def any_match_iff regex_match_iff split: if_splits sum.splits)
qed

lemma compile_glob_match:
  assumes "compile_glob env fs = Inr f" "glob_alternatives env" "list_all plain_part fs" "fs \<noteq> []"
    and "\<forall>p \<in> set fs. \<not> is_regex_pattern p"
  shows "filter_match f s \<longleftrightarrow> (\<exists>p \<in> set fs. pattern_matches env p s)"
proof -
  have lit: "glob_compile env p = Inr (\<lambda>s. s = p)" if "p \<in> set fs" "\<not> HasMeta p" for p
    using assms(2,3) that by (auto simp: glob_alternatives_def list_all_iff)
  have one: "(case glob_compile env p of Inr h \<Rightarrow> h s | Inl e \<Rightarrow> False) = pattern_matches env p s"
    if "p \<in> set fs" for p
    using lit [OF that] assms(5) that by (auto simp: pattern_matches_def)
  consider (none) "\<not> list_ex HasMeta fs" | (single) p where "fs = [p]" "HasMeta p"
    | (many) "list_ex HasMeta fs" "length fs \<noteq> 1"
    using assms(4) by (cases fs; cases "tl fs"; cases "HasMeta (hd fs)") (auto simp: list_ex_iff)
  then show ?thesis
  proof cases
    case none
    then have nm: "\<not> HasMeta p" if "p \<in> set fs" for p
      using that unfolding list_ex_iff by blast
    have "\<forall>p \<in> set fs. pattern_matches env p s = (s = p)"
    proof
      fix p assume p: "p \<in> set fs"
      then have "\<not> is_regex_pattern p" using assms(5) by blast
      with nm [OF p] show "pattern_matches env p s = (s = p)" by (simp add: pattern_matches_def)
    qed
    then have "(\<exists>p \<in> set fs. pattern_matches env p s) \<longleftrightarrow> (\<exists>p \<in> set fs. s = p)" by simp
    moreover have "f = compile_no_glob fs" using none assms(1) by (simp add: compile_glob_def)
    moreover have "filter_match (compile_no_glob fs) s \<longleftrightarrow> s \<in> set fs"
      by (cases fs; cases "tl fs") (auto simp: compile_no_glob_def)
    ultimately show ?thesis by auto
  next
    case single
    with assms(1) one [of p] show ?thesis by (auto simp: compile_glob_def split: sum.splits)
  next
    case many
    with assms(1) obtain g where g: "glob_compile env (''{'' @ join '','' fs @ ''}'') = Inr g" "f = GlobFilter g"
      by (auto simp: compile_glob_def split: sum.splits)
    then have "g s = list_ex (\<lambda>p. case glob_compile env p of Inr h \<Rightarrow> h s | Inl e \<Rightarrow> False) fs"
      using assms(2,3,4) by (auto simp: glob_alternatives_def)
    with g one show ?thesis by (auto simp: list_ex_iff)
  qed
qed

text \<open>
  A compiled filter matches exactly what one of its patterns matches, as a regular expression
  between slashes, as a glob pattern or as a plain name, for glob patterns without commas, braces
  and backslashes; the include and exclude lists combine as documented, an empty list of filters
  leaving the default.
\<close>

theorem filter_is_disjunction:
  assumes "compile_filter env fs = Inr (Some f)" "glob_alternatives env"
    and "\<forall>p \<in> set fs. is_regex_pattern p \<or> plain_part p"
  shows "(filter_match f s \<longleftrightarrow> (\<exists>p \<in> set fs. pattern_matches env p s))
    \<and> (include_exclude_match \<lparr>ie_include = Some f, ie_exclude = None, ie_include_default = b, ie_exclude_default = False\<rparr> s
      \<longleftrightarrow> (\<exists>p \<in> set fs. pattern_matches env p s))
    \<and> (\<forall>ie. new_include_exclude env [] fs = Inr ie \<longrightarrow>
      (include_exclude_match ie s \<longleftrightarrow> \<not> (\<exists>p \<in> set fs. pattern_matches env p s)))"
proof (intro conjI allI impI)
  obtain globs rs where sp: "split_patterns env fs [] [] = Inr (globs, rs)"
    using assms(1) by (auto simp: compile_filter_def split: if_splits sum.splits)
  note spm = split_patterns_match [OF sp]
  have globs: "globs = filter (\<lambda>p. \<not> is_regex_pattern p) fs" using spm by simp
  have plain: "list_all plain_part globs" using assms(3) globs by (auto simp: list_all_iff)
  have gl: "filter_match g s \<longleftrightarrow> (\<exists>p \<in> set globs. pattern_matches env p s)"
    if "compile_glob env globs = Inr g" "globs \<noteq> []" for g
    by (rule compile_glob_match [OF that(1) assms(2) plain that(2)]) (auto simp: globs)
  show *: "filter_match f s \<longleftrightarrow> (\<exists>p \<in> set fs. pattern_matches env p s)"
  proof -
    have "\<exists>parts. (any_match parts s \<longleftrightarrow> filter_match f s)
        \<and> (any_match parts s \<longleftrightarrow> (\<exists>p \<in> set globs. pattern_matches env p s) \<or> any_match rs s)"
    proof (cases "globs = []")
      case True
      with assms(1) sp show ?thesis
        by (intro exI [of _ rs]) (auto simp: compile_filter_def split: if_splits list.splits)
    next
      case False
      with assms(1) sp obtain g where g: "compile_glob env globs = Inr g"
        by (cases "compile_glob env globs") (auto simp: compile_filter_def split: if_splits)
      with assms(1) sp False gl [OF g False] show ?thesis
        by (intro exI [of _ "g # rs"]) (auto simp: compile_filter_def split: if_splits list.splits)
    qed
    with spm globs show ?thesis by auto
  qed
  then show "include_exclude_match \<lparr>ie_include = Some f, ie_exclude = None, ie_include_default = b, ie_exclude_default = False\<rparr> s
      \<longleftrightarrow> (\<exists>p \<in> set fs. pattern_matches env p s)"
    by (simp add: include_exclude_match_def)
  show "include_exclude_match ie s \<longleftrightarrow> \<not> (\<exists>p \<in> set fs. pattern_matches env p s)"
    if "new_include_exclude env [] fs = Inr ie" for ie
    using that assms(1) * by (auto simp: new_include_exclude_def new_include_exclude_defaults_def
        include_exclude_match_def compile_filter_def [of env "[]"])
qed
text \<open>A glob library with no wildcards but the alternatives, and a regular expression that matches everything.\<close>

definition example_glob :: "string \<Rightarrow> string \<Rightarrow> bool" where
  "example_glob p s =
     (if has_prefix p ''{'' then s \<in> set (split_on (CHR '','') (take (length p - 2) (drop 1 p))) else s = p)"

definition example_patterns :: pattern_env where
  "example_patterns =
     \<lparr>re_compile = (\<lambda>_. Inr (\<lambda>_. True)), glob_compile = (\<lambda>p. Inr (example_glob p)), quote_pattern = (\<lambda>p. p)\<rparr>"

lemma split_on_join: "ps \<noteq> [] \<Longrightarrow> \<forall>p \<in> set ps. c \<notin> set p \<Longrightarrow> split_on c (join [c] ps) = ps"
proof (induction ps)
  case (Cons p ps)
  then show ?case
    using split_on_append [of c p "join [c] ps"] by (cases ps) (simp_all add: split_on_none)
qed simp

lemma example_alternatives: "glob_alternatives example_patterns"
proof -
  have plain: "plain_part p \<Longrightarrow> \<not> has_prefix p ''{'' \<and> CHR '','' \<notin> set p" for p
    by (cases p) (auto simp: plain_part_def has_prefix_def)
  have "example_glob (''{'' @ join '','' ps @ ''}'') s = (s \<in> set ps)" if "ps \<noteq> []" "list_all plain_part ps" for ps s
    using split_on_join [of ps "CHR '',''"] that plain by (auto simp: example_glob_def has_prefix_def list_all_iff)
  moreover have "example_glob p = (\<lambda>s. s = p)" if "plain_part p" for p
    using plain [OF that] by (auto simp: example_glob_def)
  ultimately show ?thesis
    by (auto simp: glob_alternatives_def example_patterns_def list_all_iff list_ex_iff)
qed

definition example_filter :: go_filter where
  "example_filter = (case compile_filter example_patterns [''cpu'', ''net*'', ''mem''] of Inr (Some f) \<Rightarrow> f | _ \<Rightarrow> SingleName '''')"

theorem filter_is_disjunction_witness:
  "filter_match example_filter ''mem'' \<and> \<not> filter_match example_filter ''disk''
    \<and> \<not> (\<exists>p \<in> set [''cpu'', ''net*'', ''mem'']. pattern_matches example_patterns p ''disk'')"
proof -
  have c: "compile_filter example_patterns [''cpu'', ''net*'', ''mem''] = Inr (Some example_filter)"
    by (simp add: example_filter_def compile_filter_def is_regex_pattern_def compile_glob_def HasMeta_def example_patterns_def)
  have pl: "\<forall>p \<in> set [''cpu'', ''net*'', ''mem'']. is_regex_pattern p \<or> plain_part p"
    by (simp add: plain_part_def HasMeta_def)
  have "\<not> (\<exists>p \<in> set [''cpu'', ''net*'', ''mem'']. pattern_matches example_patterns p ''disk'')"
    "\<exists>p \<in> set [''cpu'', ''net*'', ''mem'']. pattern_matches example_patterns p ''mem''"
    by (simp_all add: pattern_matches_def is_regex_pattern_def HasMeta_def example_patterns_def example_glob_def has_prefix_def)
  then show ?thesis
    using filter_is_disjunction [OF c example_alternatives pl, of "''mem''"]
      filter_is_disjunction [OF c example_alternatives pl, of "''disk''"] by blast
qed

text \<open>
  The joining of the patterns is textual: a plain name with a comma is a name of its own as long
  as no pattern has a wildcard, and with one it is split into alternatives.
\<close>

theorem comma_splits_names:
  "compile_filter env [''a,b'', ''c''] = Inr (Some (NameSet [''a,b'', ''c'']))"
  "compile_filter env [''a,b'', ''x*''] = compile_filter env [''a'', ''b'', ''x*'']"
  by (simp_all add: compile_filter_def compile_glob_def is_regex_pattern_def HasMeta_def compile_no_glob_def)

end
