(* ===== verification/Tls.thy ===== *)
theory Tls
  imports NameFilter "HOL-Library.Word"
begin

text \<open>
  TLS settings of clients and servers (\<open>pkg/tls/config.go\<close>, \<open>pkg/tls/common.go\<close>).  Version and
  cipher numbers are 16-bit words.  Reading and parsing certificates is the environment's: a pool
  is the list of its files.
\<close>

section \<open>Versions and ciphers\<close>

definition VersionTLS10 :: "16 word" where "VersionTLS10 = 0x0301"
definition VersionTLS11 :: "16 word" where "VersionTLS11 = 0x0302"
definition VersionTLS12 :: "16 word" where "VersionTLS12 = 0x0303"
definition VersionTLS13 :: "16 word" where "VersionTLS13 = 0x0304"

lemmas tls_versions = VersionTLS10_def VersionTLS11_def VersionTLS12_def VersionTLS13_def

definition tlsVersionMap :: "(string \<times> 16 word) list" where
  "tlsVersionMap =
     [(''TLS10'', VersionTLS10), (''TLS11'', VersionTLS11), (''TLS12'', VersionTLS12), (''TLS13'', VersionTLS13)]"

definition tlsCipherMap :: "(string \<times> 16 word) list" where
  "tlsCipherMap =
     [(''TLS_ECDHE_RSA_WITH_CHACHA20_POLY1305'', 0xcca8),
      (''TLS_ECDHE_ECDSA_WITH_CHACHA20_POLY1305'', 0xcca9),
      (''TLS_ECDHE_RSA_WITH_AES_128_GCM_SHA256'', 0xc02f),
      (''TLS_ECDHE_ECDSA_WITH_AES_128_GCM_SHA256'', 0xc02b),
      (''TLS_ECDHE_RSA_WITH_AES_256_GCM_SHA384'', 0xc030),
      (''TLS_ECDHE_ECDSA_WITH_AES_256_GCM_SHA384'', 0xc02c),
      (''TLS_ECDHE_RSA_WITH_AES_128_CBC_SHA256'', 0xc027),
      (''TLS_ECDHE_RSA_WITH_AES_128_CBC_SHA'', 0xc013),
      (''TLS_ECDHE_ECDSA_WITH_AES_128_CBC_SHA256'', 0xc023),
      (''TLS_ECDHE_ECDSA_WITH_AES_128_CBC_SHA'', 0xc009),
      (''TLS_ECDHE_RSA_WITH_AES_256_CBC_SHA'', 0xc014),
      (''TLS_ECDHE_ECDSA_WITH_AES_256_CBC_SHA'', 0xc00a),
      (''TLS_RSA_WITH_AES_128_GCM_SHA256'', 0x009c),
      (''TLS_RSA_WITH_AES_256_GCM_SHA384'', 0x009d),
      (''TLS_RSA_WITH_AES_128_CBC_SHA256'', 0x003c),
      (''TLS_RSA_WITH_AES_128_CBC_SHA'', 0x002f),
      (''TLS_RSA_WITH_AES_256_CBC_SHA'', 0x0035),
      (''TLS_ECDHE_RSA_WITH_3DES_EDE_CBC_SHA'', 0xc012),
      (''TLS_RSA_WITH_3DES_EDE_CBC_SHA'', 0x000a),
      (''TLS_RSA_WITH_RC4_128_SHA'', 0x0005),
      (''TLS_ECDHE_RSA_WITH_RC4_128_SHA'', 0xc011),
      (''TLS_ECDHE_ECDSA_WITH_RC4_128_SHA'', 0xc007),
      (''TLS_AES_128_GCM_SHA256'', 0x1301),
      (''TLS_AES_256_GCM_SHA384'', 0x1302),
      (''TLS_CHACHA20_POLY1305_SHA256'', 0x1303)]"

fun parse_ciphers_loop :: "(string \<Rightarrow> string) \<Rightarrow> string list \<Rightarrow> 16 word list \<Rightarrow> string + 16 word list" where
  "parse_ciphers_loop q [] suites = Inr suites"
| "parse_ciphers_loop q (c # cs) suites =
     (case mget tlsCipherMap c of
        None \<Rightarrow> Inl (''unsupported cipher '' @ q c)
      | Some v \<Rightarrow> parse_ciphers_loop q cs (suites @ [v]))"

definition ParseCiphers :: "(string \<Rightarrow> string) \<Rightarrow> string list \<Rightarrow> string + 16 word list" where
  "ParseCiphers q ciphers = parse_ciphers_loop q ciphers []"

definition ParseTLSVersion :: "(string \<Rightarrow> string) \<Rightarrow> string \<Rightarrow> string + 16 word" where
  "ParseTLSVersion q version =
     (case mget tlsVersionMap version of Some v \<Rightarrow> Inr v | None \<Rightarrow> Inl (''unsupported version '' @ q version))"

section \<open>Configurations\<close>

datatype client_auth = NoClientCert | RequireAndVerifyClientCert

record tls_config =
  tl_insecure :: bool
  tl_root_cas :: "string list option"
  tl_client_cas :: "string list option"
  tl_client_auth :: client_auth
  tl_certificates :: "(string \<times> string) list"
  tl_server_name :: string
  tl_min :: "16 word"
  tl_max :: "16 word"
  tl_ciphers :: "16 word list option"
  tl_verify_names :: "string list option"

definition empty_tls :: tls_config where
  "empty_tls =
     \<lparr>tl_insecure = False, tl_root_cas = None, tl_client_cas = None, tl_client_auth = NoClientCert,
      tl_certificates = [], tl_server_name = '''', tl_min = 0, tl_max = 0, tl_ciphers = None, tl_verify_names = None\<rparr>"

record cert_env =
  ce_read :: "string \<Rightarrow> string + string"
  ce_pem_ok :: "string \<Rightarrow> bool"
  ce_keypair :: "string \<Rightarrow> string \<Rightarrow> string option"
  ce_quote :: "string \<Rightarrow> string"
  ce_dns_names :: "string \<Rightarrow> string + string list"

text \<open>The last error names a read that succeeded: the message ends in the formatted nil error.\<close>

fun make_cert_pool :: "cert_env \<Rightarrow> string list \<Rightarrow> string list \<Rightarrow> string + string list" where
  "make_cert_pool env [] pool = Inr pool"
| "make_cert_pool env (f # fs) pool =
     (case ce_read env f of
        Inl e \<Rightarrow> Inl (''could not read certificate '' @ ce_quote env f @ '': '' @ e)
      | Inr pem \<Rightarrow>
          if \<not> ce_pem_ok env pem then Inl (''could not parse any PEM certificates '' @ ce_quote env f @ '': <nil>'')
          else make_cert_pool env fs (pool @ [f]))"

definition load_certificate :: "cert_env \<Rightarrow> string \<Rightarrow> string \<Rightarrow> tls_config \<Rightarrow> string + tls_config" where
  "load_certificate env cert key t =
     (case ce_keypair env cert key of
        Some e \<Rightarrow> Inl (''could not load keypair '' @ cert @ '':'' @ key @ '': '' @ e)
      | None \<Rightarrow> Inr (t\<lparr>tl_certificates := [(cert, key)]\<rparr>))"

record tls_client_config =
  tc_use :: bool
  tc_ca :: string
  tc_cert :: string
  tc_key :: string
  tc_key_pwd :: string
  tc_insecure :: bool
  tc_server_name :: string
  tc_min_version :: string
  tc_max_version :: string

text \<open>The chains of comparisons of \<open>ClientConfig.TLSConfig\<close>.\<close>

definition client_version :: "string \<Rightarrow> 16 word \<Rightarrow> 16 word" where
  "client_version s v =
     (if s = ''1.0'' then VersionTLS10
      else if s = ''1.1'' then VersionTLS11
      else if s = ''1.2'' then VersionTLS12
      else if s = ''1.3'' then VersionTLS13
      else v)"

definition client_wants_tls :: "tls_client_config \<Rightarrow> bool" where
  "client_wants_tls c \<longleftrightarrow>
     tc_insecure c \<or> tc_ca c \<noteq> '''' \<or> tc_cert c \<noteq> '''' \<or> tc_key c \<noteq> '''' \<or> tc_server_name c \<noteq> ''''
       \<or> tc_min_version c \<noteq> '''' \<or> tc_max_version c \<noteq> ''''"

definition client_cas :: "cert_env \<Rightarrow> tls_client_config \<Rightarrow> tls_config \<Rightarrow> string + tls_config" where
  "client_cas env c t =
     (if tc_ca c \<noteq> '''' then
        (case make_cert_pool env [tc_ca c] [] of
           Inl e \<Rightarrow> Inl e
         | Inr pool \<Rightarrow> Inr (t\<lparr>tl_root_cas := Some pool\<rparr>))
      else Inr t)"

definition client_keypair :: "cert_env \<Rightarrow> tls_client_config \<Rightarrow> tls_config \<Rightarrow> string + tls_config" where
  "client_keypair env c t =
     (if tc_cert c \<noteq> '''' \<and> tc_key c \<noteq> '''' then load_certificate env (tc_cert c) (tc_key c) t else Inr t)"

definition client_names :: "tls_client_config \<Rightarrow> tls_config \<Rightarrow> tls_config" where
  "client_names c t =
     (let t = (if tc_server_name c \<noteq> '''' then t\<lparr>tl_server_name := tc_server_name c\<rparr> else t);
          t = t\<lparr>tl_min := client_version (tc_min_version c) (tl_min t)\<rparr>
      in t\<lparr>tl_max := client_version (tc_max_version c) (tl_max t)\<rparr>)"

definition client_tls :: "cert_env \<Rightarrow> tls_client_config \<Rightarrow> string + tls_config option" where
  "client_tls env c =
     (if \<not> tc_use c \<and> \<not> client_wants_tls c then Inr None
      else case client_cas env c (empty_tls\<lparr>tl_insecure := tc_insecure c\<rparr>) of
          Inl e \<Rightarrow> Inl e
        | Inr t \<Rightarrow>
            (case client_keypair env c t of
               Inl e \<Rightarrow> Inl e
             | Inr t \<Rightarrow> Inr (Some (client_names c t))))"

record tls_server_config =
  ts_cert :: string
  ts_key :: string
  ts_key_pwd :: string
  ts_allowed_cas :: "string list"
  ts_ciphers :: "string list"
  ts_min_version :: string
  ts_max_version :: string
  ts_dns_names :: "string list"

text \<open>The steps of \<open>ServerConfig.TLSConfig\<close>, each returning early with an error.\<close>

definition server_cas :: "cert_env \<Rightarrow> tls_server_config \<Rightarrow> tls_config \<Rightarrow> string + tls_config" where
  "server_cas env c t =
     (if length (ts_allowed_cas c) \<noteq> 0 then
        (case make_cert_pool env (ts_allowed_cas c) [] of
           Inl e \<Rightarrow> Inl e
         | Inr pool \<Rightarrow> Inr (t\<lparr>tl_client_cas := Some pool, tl_client_auth := RequireAndVerifyClientCert\<rparr>))
      else Inr t)"

definition server_keypair :: "cert_env \<Rightarrow> tls_server_config \<Rightarrow> tls_config \<Rightarrow> string + tls_config" where
  "server_keypair env c t =
     (if ts_cert c \<noteq> '''' \<and> ts_key c \<noteq> '''' then load_certificate env (ts_cert c) (ts_key c) t else Inr t)"

definition server_ciphers :: "cert_env \<Rightarrow> tls_server_config \<Rightarrow> tls_config \<Rightarrow> string + tls_config" where
  "server_ciphers env c t =
     (if length (ts_ciphers c) \<noteq> 0 then
        (case ParseCiphers (ce_quote env) (ts_ciphers c) of
           Inl e \<Rightarrow> Inl (''could not parse server cipher suites '' @ join '','' (ts_ciphers c) @ '': '' @ e)
         | Inr cs \<Rightarrow> Inr (t\<lparr>tl_ciphers := Some cs\<rparr>))
      else Inr t)"

definition server_version ::
  "cert_env \<Rightarrow> string \<Rightarrow> string \<Rightarrow> (16 word \<Rightarrow> tls_config) \<Rightarrow> tls_config \<Rightarrow> string + tls_config" where
  "server_version env what s upd t =
     (if s \<noteq> '''' then
        (case ParseTLSVersion (ce_quote env) s of
           Inl e \<Rightarrow> Inl (''could not parse tls '' @ what @ '' version '' @ ce_quote env s @ '': '' @ e)
         | Inr v \<Rightarrow> Inr (upd v))
      else Inr t)"

definition server_versions :: "cert_env \<Rightarrow> tls_server_config \<Rightarrow> tls_config \<Rightarrow> string + tls_config" where
  "server_versions env c t =
     (case server_version env ''max'' (ts_max_version c) (\<lambda>v. t\<lparr>tl_max := v\<rparr>) t of
        Inl e \<Rightarrow> Inl e
      | Inr t \<Rightarrow> server_version env ''min'' (ts_min_version c) (\<lambda>v. t\<lparr>tl_min := v\<rparr>) t)"

text \<open>\<open>fmt_word\<close> is the verb \<open>%q\<close> on a number.\<close>

definition server_tls :: "cert_env \<Rightarrow> (16 word \<Rightarrow> string) \<Rightarrow> tls_server_config \<Rightarrow> string + tls_config option" where
  "server_tls env fmt_word c =
     (if ts_cert c = '''' \<and> ts_key c = '''' \<and> length (ts_allowed_cas c) = 0 then Inr None
      else case server_cas env c empty_tls of
          Inl e \<Rightarrow> Inl e
        | Inr t \<Rightarrow>
            (case server_keypair env c t of
               Inl e \<Rightarrow> Inl e
             | Inr t \<Rightarrow>
                 (case server_ciphers env c t of
                    Inl e \<Rightarrow> Inl e
                  | Inr t \<Rightarrow>
                      (case server_versions env c t of
                         Inl e \<Rightarrow> Inl e
                       | Inr t \<Rightarrow>
                           if tl_min t \<noteq> 0 \<and> tl_max t \<noteq> 0 \<and> tl_max t < tl_min t then
                             Inl (''tls min version '' @ fmt_word (tl_min t)
                               @ '' can'' @ [CHR 0x27] @ ''t be greater than tls max version '' @ fmt_word (tl_max t))
                           else
                             Inr (Some (if 0 < length (ts_allowed_cas c) \<and> 0 < length (ts_dns_names c)
                                        then t\<lparr>tl_verify_names := Some (ts_dns_names c)\<rparr> else t))))))"

fun any_allowed :: "string list \<Rightarrow> string list \<Rightarrow> bool" where
  "any_allowed [] allow = False"
| "any_allowed (n # ns) allow = (if choice_contains n allow then True else any_allowed ns allow)"

text \<open>
  \<open>verifyPeerCertificate\<close>; \<open>None\<close> accepts.  \<open>fmt_names\<close> formats a list; the raw certificates
  are never empty here.
\<close>

definition verify_peer :: "cert_env \<Rightarrow> (string list \<Rightarrow> string) \<Rightarrow> tls_server_config \<Rightarrow> string list \<Rightarrow> string option" where
  "verify_peer env fmt_names c raw_certs =
     (case ce_dns_names env (raw_certs ! 0) of
        Inl e \<Rightarrow> Some (''could not validate peer certificate: '' @ e)
      | Inr names \<Rightarrow>
          if any_allowed names (ts_dns_names c) then None
          else Some (''peer certificate not in allowed DNS Name list: '' @ fmt_names names))"

section \<open>What comes out\<close>

definition tls_version_values :: "16 word set" where
  "tls_version_values = {VersionTLS10, VersionTLS11, VersionTLS12, VersionTLS13}"

text \<open>A well-formed configuration: known versions, known ciphers, client certificates verified when pools are set.\<close>

definition tls_ok :: "tls_config \<Rightarrow> bool" where
  "tls_ok t \<longleftrightarrow>
     tl_min t \<in> insert 0 tls_version_values \<and> tl_max t \<in> insert 0 tls_version_values
       \<and> (\<forall>cs. tl_ciphers t = Some cs \<longrightarrow> set cs \<subseteq> snd ` set tlsCipherMap)
       \<and> (tl_client_auth t = RequireAndVerifyClientCert \<longleftrightarrow> tl_client_cas t \<noteq> None)
       \<and> (\<forall>ns. tl_verify_names t = Some ns \<longrightarrow> tl_client_auth t = RequireAndVerifyClientCert \<and> ns \<noteq> [])"

lemma any_allowed_iff: "any_allowed ns allow \<longleftrightarrow> set ns \<inter> set allow \<noteq> {}"
  by (induction ns) (auto simp: choice_contains_iff)

lemma parse_ciphers_loop_known:
  "parse_ciphers_loop q cs suites = Inr ws \<Longrightarrow> set suites \<subseteq> snd ` set tlsCipherMap \<Longrightarrow>
     set ws \<subseteq> snd ` set tlsCipherMap \<and> length ws = length suites + length cs"
proof (induction q cs suites rule: parse_ciphers_loop.induct)
  case (2 q c cs suites)
  then show ?case by (force split: option.splits dest: map_of_SomeD)
qed simp

lemma tls_version_known: "ParseTLSVersion q s = Inr v \<Longrightarrow> v \<in> tls_version_values"
  by (auto simp: ParseTLSVersion_def tlsVersionMap_def tls_version_values_def split: option.splits if_splits)

lemma client_version_known: "v \<in> insert 0 tls_version_values \<Longrightarrow> client_version s v \<in> insert 0 tls_version_values"
  by (simp add: client_version_def tls_version_values_def)

lemma empty_tls_ok: "tls_ok empty_tls"
  by (simp add: tls_ok_def empty_tls_def)

lemma load_certificate_ok: "load_certificate env cert key t = Inr t' \<Longrightarrow> tls_ok t' = tls_ok t \<and> tl_client_auth t' = tl_client_auth t"
  by (auto simp: load_certificate_def tls_ok_def split: option.splits)

lemma make_cert_pool_all: "make_cert_pool env fs pool = Inr p \<Longrightarrow> p = pool @ fs"
  by (induction env fs pool rule: make_cert_pool.induct) (auto split: sum.splits if_splits)

lemma server_steps_ok:
  "server_cas env c t = Inr t' \<Longrightarrow> tls_ok t \<Longrightarrow> tls_ok t'"
  "server_keypair env c t = Inr t' \<Longrightarrow> tls_ok t \<Longrightarrow> tls_ok t'"
  "server_ciphers env c t = Inr t' \<Longrightarrow> tls_ok t \<Longrightarrow> tls_ok t'"
  "server_versions env c t = Inr t' \<Longrightarrow> tls_ok t \<Longrightarrow> tls_ok t'"
proof -
  show "server_cas env c t = Inr t' \<Longrightarrow> tls_ok t \<Longrightarrow> tls_ok t'"
    by (auto simp: server_cas_def tls_ok_def split: if_splits sum.splits)
  show "server_keypair env c t = Inr t' \<Longrightarrow> tls_ok t \<Longrightarrow> tls_ok t'"
    by (auto simp: server_keypair_def load_certificate_ok split: if_splits)
  show "server_ciphers env c t = Inr t' \<Longrightarrow> tls_ok t \<Longrightarrow> tls_ok t'"
    using parse_ciphers_loop_known [of "ce_quote env" "ts_ciphers c" "[]"]
    by (auto simp: server_ciphers_def ParseCiphers_def tls_ok_def split: if_splits sum.splits)
  show "server_versions env c t = Inr t' \<Longrightarrow> tls_ok t \<Longrightarrow> tls_ok t'"
    by (auto simp: server_versions_def server_version_def tls_ok_def dest: tls_version_known
        split: if_splits sum.splits)
qed
lemma server_tls_steps:
  assumes "server_tls env fw c = Inr (Some t)"
  obtains t1 t2 t3 t4 where "server_cas env c empty_tls = Inr t1" "server_keypair env c t1 = Inr t2"
    "server_ciphers env c t2 = Inr t3" "server_versions env c t3 = Inr t4"
    "\<not> (tl_min t4 \<noteq> 0 \<and> tl_max t4 \<noteq> 0 \<and> tl_max t4 < tl_min t4)"
    "t = (if 0 < length (ts_allowed_cas c) \<and> 0 < length (ts_dns_names c) then t4\<lparr>tl_verify_names := Some (ts_dns_names c)\<rparr> else t4)"
  using assms unfolding server_tls_def
  by (cases "server_cas env c empty_tls"; simp split: if_splits sum.splits)

lemma server_cas_set:
  "server_cas env c empty_tls = Inr t \<Longrightarrow>
     tl_client_cas t = (if ts_allowed_cas c = [] then None else Some (ts_allowed_cas c))"
  by (auto simp: server_cas_def empty_tls_def dest: make_cert_pool_all split: if_splits sum.splits)

lemma server_frames:
  "server_keypair env c t = Inr t' \<Longrightarrow> tl_client_cas t' = tl_client_cas t"
  "server_ciphers env c t = Inr t' \<Longrightarrow> tl_client_cas t' = tl_client_cas t"
  "server_versions env c t = Inr t' \<Longrightarrow> tl_client_cas t' = tl_client_cas t"
  by (auto simp: server_keypair_def server_ciphers_def server_versions_def server_version_def load_certificate_def
      split: if_splits sum.splits option.splits)

lemma server_tls_valid:
  assumes "server_tls env fw c = Inr (Some t)"
  shows "tls_ok t \<and> (tl_min t = 0 \<or> tl_max t = 0 \<or> tl_min t \<le> tl_max t)
    \<and> tl_client_cas t = (if ts_allowed_cas c = [] then None else Some (ts_allowed_cas c))"
  using assms
proof (cases rule: server_tls_steps)
  case (1 t1 t2 t3 t4)
  have cas: "tl_client_cas t4 = (if ts_allowed_cas c = [] then None else Some (ts_allowed_cas c))"
    using server_cas_set [OF 1(1)] server_frames(1) [OF 1(2)] server_frames(2) [OF 1(3)] server_frames(3) [OF 1(4)] by simp
  have ok: "tls_ok t4"
    using server_steps_ok(1) [OF 1(1) empty_tls_ok] server_steps_ok(2) [OF 1(2)] server_steps_ok(3) [OF 1(3)]
      server_steps_ok(4) [OF 1(4)] by simp
  with 1(5,6) cas show ?thesis by (auto simp: tls_ok_def not_less split: if_splits)
qed

lemma client_steps:
  "client_cas env c t = Inr t' \<Longrightarrow> tls_ok t \<Longrightarrow> tl_root_cas t = None \<Longrightarrow>
     tls_ok t' \<and> tl_insecure t' = tl_insecure t \<and> tl_root_cas t' = (if tc_ca c = '''' then None else Some [tc_ca c])"
  "client_keypair env c t = Inr t' \<Longrightarrow> tls_ok t \<Longrightarrow>
     tls_ok t' \<and> tl_insecure t' = tl_insecure t \<and> tl_root_cas t' = tl_root_cas t"
  "tls_ok t \<Longrightarrow>
     tls_ok (client_names c t) \<and> tl_insecure (client_names c t) = tl_insecure t
       \<and> tl_root_cas (client_names c t) = tl_root_cas t"
proof -
  show "client_cas env c t = Inr t' \<Longrightarrow> tls_ok t \<Longrightarrow> tl_root_cas t = None \<Longrightarrow>
     tls_ok t' \<and> tl_insecure t' = tl_insecure t \<and> tl_root_cas t' = (if tc_ca c = '''' then None else Some [tc_ca c])"
    by (auto simp: client_cas_def tls_ok_def simp del: make_cert_pool.simps
        dest: make_cert_pool_all split: if_splits sum.splits)
  show "client_keypair env c t = Inr t' \<Longrightarrow> tls_ok t \<Longrightarrow>
     tls_ok t' \<and> tl_insecure t' = tl_insecure t \<and> tl_root_cas t' = tl_root_cas t"
    by (auto simp: client_keypair_def load_certificate_def tls_ok_def split: if_splits option.splits)
  show "tls_ok t \<Longrightarrow> tls_ok (client_names c t) \<and> tl_insecure (client_names c t) = tl_insecure t
       \<and> tl_root_cas (client_names c t) = tl_root_cas t"
    using client_version_known by (simp add: client_names_def tls_ok_def Let_def)
qed

lemma client_tls_valid:
  assumes "client_tls env c = Inr (Some t)"
  shows "tls_ok t \<and> tl_insecure t = tc_insecure c \<and> tl_root_cas t = (if tc_ca c = '''' then None else Some [tc_ca c])"
proof -
  obtain t1 t2 where s: "client_cas env c (empty_tls\<lparr>tl_insecure := tc_insecure c\<rparr>) = Inr t1"
    "client_keypair env c t1 = Inr t2" "t = client_names c t2"
    using assms by (auto simp: client_tls_def split: if_splits sum.splits)
  have "tls_ok (empty_tls\<lparr>tl_insecure := tc_insecure c\<rparr>)" "tl_root_cas (empty_tls\<lparr>tl_insecure := tc_insecure c\<rparr>) = None"
    using empty_tls_ok by (simp_all add: tls_ok_def empty_tls_def)
  from client_steps(1) [OF s(1) this] client_steps(2) [OF s(2)] client_steps(3) [of t2 c]
  show ?thesis by (simp add: s(3))
qed

lemma client_tls_none: "client_tls env c = Inr None \<longleftrightarrow> \<not> tc_use c \<and> \<not> client_wants_tls c"
  by (simp add: client_tls_def Let_def split: if_split sum.split)

lemma verify_peer_allowed:
  "verify_peer env fmt c certs = None \<Longrightarrow>
     \<exists>names. ce_dns_names env (certs ! 0) = Inr names \<and> set names \<inter> set (ts_dns_names c) \<noteq> {}"
  by (auto simp: verify_peer_def any_allowed_iff split: if_splits sum.splits)

text \<open>
  C40. Every TLS configuration that is built is well formed: its versions and ciphers are known
  ones, client certificates are required exactly when there is a pool to verify them with, which
  holds all the files asked for, and a list of allowed names comes with that requirement.  A
  server's minimum version is not above its maximum; any client setting but the key's password
  switches TLS on; a peer is accepted only with an allowed name.
\<close>

theorem tls_configs_valid:
  shows "(server_tls env fw sc = Inr (Some t) \<longrightarrow>
      tls_ok t \<and> (tl_min t = 0 \<or> tl_max t = 0 \<or> tl_min t \<le> tl_max t)
        \<and> tl_client_cas t = (if ts_allowed_cas sc = [] then None else Some (ts_allowed_cas sc)))
    \<and> (client_tls env cc = Inr (Some t') \<longrightarrow>
      tls_ok t' \<and> tl_insecure t' = tc_insecure cc
        \<and> tl_root_cas t' = (if tc_ca cc = '''' then None else Some [tc_ca cc]))
    \<and> (client_tls env cc = Inr None \<longleftrightarrow> \<not> tc_use cc \<and> \<not> client_wants_tls cc)
    \<and> (verify_peer env fmt sc certs = None \<longrightarrow>
      (\<exists>names. ce_dns_names env (certs ! 0) = Inr names \<and> set names \<inter> set (ts_dns_names sc) \<noteq> {}))"
  using server_tls_valid client_tls_valid client_tls_none verify_peer_allowed by blast

definition example_certs :: cert_env where
  "example_certs =
     \<lparr>ce_read = (\<lambda>f. Inr ''pem''), ce_pem_ok = (\<lambda>_. True), ce_keypair = (\<lambda>_ _. None), ce_quote = (\<lambda>s. s),
      ce_dns_names = (\<lambda>_. Inr [''agent''])\<rparr>"

definition example_tls_server :: tls_server_config where
  "example_tls_server =
     \<lparr>ts_cert = ''c'', ts_key = ''k'', ts_key_pwd = '''', ts_allowed_cas = [''ca''],
      ts_ciphers = [''TLS_AES_128_GCM_SHA256''], ts_min_version = ''TLS12'', ts_max_version = ''TLS13'',
      ts_dns_names = [''agent'']\<rparr>"

definition example_tls_client :: "string \<Rightarrow> string \<Rightarrow> tls_client_config" where
  "example_tls_client mn mx =
     \<lparr>tc_use = False, tc_ca = ''ca'', tc_cert = '''', tc_key = '''', tc_key_pwd = '''', tc_insecure = False,
      tc_server_name = '''', tc_min_version = mn, tc_max_version = mx\<rparr>"

definition example_tls :: tls_config where
  "example_tls = empty_tls\<lparr>tl_client_cas := Some [''ca''], tl_client_auth := RequireAndVerifyClientCert,
     tl_certificates := [(''c'', ''k'')], tl_ciphers := Some [0x1301], tl_max := VersionTLS13, tl_min := VersionTLS12,
     tl_verify_names := Some [''agent'']\<rparr>"

theorem tls_configs_valid_witness:
  "tls_ok example_tls \<and> tl_client_cas example_tls = Some [''ca'']
   \<and> (\<exists>t. client_tls example_certs (example_tls_client ''1.2'' '''') = Inr (Some t) \<and> tl_root_cas t = Some [''ca''])
   \<and> (\<exists>names. ce_dns_names example_certs ''raw'' = Inr names \<and> set names \<inter> {''agent''} \<noteq> {})"
proof -
  have s: "server_tls example_certs (\<lambda>_. '''') example_tls_server = Inr (Some example_tls)"
    by (simp add: server_tls_def server_cas_def server_keypair_def server_ciphers_def server_versions_def server_version_def
        load_certificate_def example_tls_server_def example_certs_def example_tls_def empty_tls_def ParseCiphers_def
        tlsCipherMap_def ParseTLSVersion_def tlsVersionMap_def tls_versions)
  obtain t where c: "client_tls example_certs (example_tls_client ''1.2'' '''') = Inr (Some t)"
    by (simp add: client_tls_def client_cas_def client_keypair_def client_names_def example_certs_def example_tls_client_def
      client_wants_tls_def)
  have v: "verify_peer example_certs (\<lambda>_. '''') example_tls_server [''raw''] = None"
    by (simp add: verify_peer_def example_certs_def example_tls_server_def)
  show ?thesis
    using tls_configs_valid [of example_certs "\<lambda>_. ''''" example_tls_server example_tls
        "example_tls_client ''1.2'' ''''" t "\<lambda>_. ''''" "[''raw'']"] s c v
    by (auto simp: example_tls_server_def example_tls_client_def)
qed

text \<open>
  The two kinds of configuration name versions differently, and the client's are not checked: a
  server's name is silently ignored there, and so is a minimum above the maximum.
\<close>

theorem client_versions_unchecked:
  "\<exists>t. client_tls example_certs (example_tls_client ''TLS13'' '''') = Inr (Some t) \<and> tl_min t = 0"
  "\<exists>t. client_tls example_certs (example_tls_client ''1.3'' ''1.0'') = Inr (Some t) \<and> tl_max t < tl_min t"
  by (simp_all add: client_tls_def client_cas_def client_keypair_def client_names_def example_certs_def example_tls_client_def
      client_wants_tls_def client_version_def
      empty_tls_def tls_versions Let_def)

end
