(* ===== verification/ConfigFiles.thy ===== *)
theory ConfigFiles
  imports GoStrings "HOL-Library.Multiset"
begin

text \<open>
  The loading of configuration files (\<open>pkg/cfg/cfg.go\<close>, \<open>pkg/cfg/scan.go\<close>).  The package puts
  together a list of loaders and hands it to the package \<open>multiconfig\<close>, a parameter: \<open>load\<close> is
  \<open>DefaultLoader.Load\<close> on the list.  The listing of a directory is a parameter too.  The lemmas
  say in which order the sources of a setting are applied.
\<close>

section \<open>Formats\<close>

type_synonym config_format = string

definition YamlFormat :: config_format where "YamlFormat = ''yaml''"
definition TomlFormat :: config_format where "TomlFormat = ''toml''"
definition JsonFormat :: config_format where "JsonFormat = ''json''"

record config_with_format =
  cw_config :: string
  cw_format :: config_format
  cw_check_sum :: string

definition check_sum :: "config_with_format \<Rightarrow> string" where
  "check_sum c = cw_check_sum c"

definition set_check_sum :: "string \<Rightarrow> config_with_format \<Rightarrow> config_with_format" where
  "set_check_sum s c = c\<lparr>cw_check_sum := s\<rparr>"

definition guess_format :: "string \<Rightarrow> config_format" where
  "guess_format p =
     (if has_suffix p ''.json'' then JsonFormat
      else if has_suffix p ''.yaml'' \<or> has_suffix p ''.yml'' then YamlFormat
      else TomlFormat)"

section \<open>Loaders\<close>

datatype config_source = ConfigPath string | ConfigReader string

datatype loader =
    TagLoader
  | EnvironmentLoader
  | JSONLoader config_source
  | YAMLLoader config_source
  | TOMLLoader config_source

definition base_loaders :: "loader list" where
  "base_loaders = [TagLoader, EnvironmentLoader]"

definition is_local_override_toml :: "string \<Rightarrow> bool" where
  "is_local_override_toml name = has_suffix (map lower_char name) ''.local.toml''"

text \<open>The loop over the listing: the loaders so far, the TOML files and the local overrides.\<close>

fun sort_files :: "string \<Rightarrow> string list \<Rightarrow> loader list \<times> string list \<times> string list \<Rightarrow> loader list \<times> string list \<times> string list" where
  "sort_files d [] acc = acc"
| "sort_files d (f # fs) (ls, tomls, locals) = sort_files d fs
     (if has_suffix f ''.toml'' then
        (if is_local_override_toml f then (ls, tomls, locals @ [f]) else (ls, tomls @ [f], locals))
      else if has_suffix f ''.json'' then (ls @ [JSONLoader (ConfigPath (path_join [d, f]))], tomls, locals)
      else if has_suffix f ''.yaml'' \<or> has_suffix f ''.yml'' then
        (ls @ [YAMLLoader (ConfigPath (path_join [d, f]))], tomls, locals)
      else (ls, tomls, locals))"

definition dir_loaders :: "string \<Rightarrow> string list \<Rightarrow> loader list" where
  "dir_loaders d files =
     (case sort_files d files (base_loaders, [], []) of
        (ls, tomls, locals) \<Rightarrow>
          ls @ map (\<lambda>f. TOMLLoader (ConfigPath (path_join [d, f]))) (sort tomls @ sort locals))"

definition load_config_by_dir ::
  "(string \<Rightarrow> string + string list) \<Rightarrow> (loader list \<Rightarrow> 'c \<Rightarrow> string option \<times> 'c) \<Rightarrow> string \<Rightarrow> 'c
     \<Rightarrow> string option \<times> 'c" where
  "load_config_by_dir files_under load d ptr =
     (case files_under d of
        Inl e \<Rightarrow> (Some (''failed to list files under: '' @ d @ '' : '' @ e), ptr)
      | Inr files \<Rightarrow> load (dir_loaders d files) ptr)"

text \<open>Configurations that are already in memory: the contents of each format are joined.\<close>

fun join_configs :: "config_with_format list \<Rightarrow> string \<times> string \<times> string \<Rightarrow> string \<times> string \<times> string" where
  "join_configs [] bufs = bufs"
| "join_configs (c # cs) (t, y, j) = join_configs cs
     (if cw_format c = TomlFormat then (t @ [CHR 0x0A, CHR 0x0A] @ cw_config c, y, j)
      else if cw_format c = YamlFormat then (t, y @ cw_config c, j)
      else if cw_format c = JsonFormat then (t, y, j @ cw_config c)
      else (t, y, j))"

definition config_loaders :: "config_with_format list \<Rightarrow> loader list" where
  "config_loaders cs =
     (case join_configs cs ([], [], []) of
        (t, y, j) \<Rightarrow> base_loaders
          @ (if t \<noteq> [] then [TOMLLoader (ConfigReader t)] else [])
          @ (if y \<noteq> [] then [YAMLLoader (ConfigReader y)] else [])
          @ (if j \<noteq> [] then [JSONLoader (ConfigReader j)] else []))"

definition load_configs ::
  "(loader list \<Rightarrow> 'c \<Rightarrow> string option \<times> 'c) \<Rightarrow> config_with_format list \<Rightarrow> 'c \<Rightarrow> string option \<times> 'c" where
  "load_configs load cs ptr = load (config_loaders cs) ptr"

definition single_loaders :: "config_with_format \<Rightarrow> loader list" where
  "single_loaders c = base_loaders
     @ (if cw_format c = TomlFormat then [TOMLLoader (ConfigReader (cw_config c))]
        else if cw_format c = YamlFormat then [YAMLLoader (ConfigReader (cw_config c))]
        else if cw_format c = JsonFormat then [JSONLoader (ConfigReader (cw_config c))]
        else [])"

definition load_single_config ::
  "(loader list \<Rightarrow> 'c \<Rightarrow> string option \<times> 'c) \<Rightarrow> config_with_format \<Rightarrow> 'c \<Rightarrow> string option \<times> 'c" where
  "load_single_config load c ptr = load (single_loaders c) ptr"

section \<open>Reading files one after another\<close>

record scanner =
  sc_data :: string
  sc_err :: "string option"

definition new_file_scanner :: scanner where
  "new_file_scanner = \<lparr>sc_data = [], sc_err = None\<rparr>"

text \<open>\<open>read_file\<close> is \<open>os.ReadFile\<close>: what was read, also before an error, and the error.\<close>

definition scan_read :: "(string \<Rightarrow> string \<times> string option) \<Rightarrow> string \<Rightarrow> scanner \<Rightarrow> scanner" where
  "scan_read read_file f s =
     (if sc_err s = None then (case read_file f of (d, e) \<Rightarrow> s\<lparr>sc_data := d, sc_err := e\<rparr>) else s)"

lemma scan_sticky: "sc_err s \<noteq> None \<Longrightarrow> fold (scan_read rf) fs s = s"
  by (induction fs) (auto simp: scan_read_def)

text \<open>
  After any reads the scanner holds the first error, with what that read returned, and no later
  file; without an error it holds the last file.
\<close>

lemma scanner_keeps_first_error:
  "fold (scan_read rf) fs new_file_scanner =
     (case dropWhile (\<lambda>f. snd (rf f) = None) fs of
        f # _ \<Rightarrow> \<lparr>sc_data = fst (rf f), sc_err = snd (rf f)\<rparr>
      | [] \<Rightarrow> \<lparr>sc_data = (if fs = [] then [] else fst (rf (last fs))), sc_err = None\<rparr>)"
proof -
  have "sc_err s = None \<Longrightarrow> fold (scan_read rf) fs s =
     (case dropWhile (\<lambda>f. snd (rf f) = None) fs of
        f # _ \<Rightarrow> \<lparr>sc_data = fst (rf f), sc_err = snd (rf f)\<rparr>
      | [] \<Rightarrow> \<lparr>sc_data = (if fs = [] then sc_data s else fst (rf (last fs))), sc_err = None\<rparr>)" for s
  proof (induction fs arbitrary: s)
    case (Cons f fs)
    show ?case
    proof (cases "snd (rf f)")
      case None
      have "scan_read rf f s = \<lparr>sc_data = fst (rf f), sc_err = None\<rparr>"
        using Cons.prems None by (cases "rf f") (simp add: scan_read_def)
      with None Cons.IH [of "scan_read rf f s"] show ?thesis
        by (cases "dropWhile (\<lambda>f. snd (rf f) = None) fs") (auto simp del: dropWhile_eq_Nil_conv)
    next
      case (Some e)
      have "scan_read rf f s = \<lparr>sc_data = fst (rf f), sc_err = Some e\<rparr>"
        using Cons.prems Some by (cases "rf f") (simp add: scan_read_def)
      with Some scan_sticky [of "scan_read rf f s" rf fs] show ?thesis by simp
    qed
  qed simp
  from this [of new_file_scanner] show ?thesis by (simp add: new_file_scanner_def)
qed

section \<open>Order of the sources\<close>

definition plain_toml :: "string \<Rightarrow> bool" where
  "plain_toml f \<longleftrightarrow> has_suffix f ''.toml'' \<and> \<not> is_local_override_toml f"

definition local_toml :: "string \<Rightarrow> bool" where
  "local_toml f \<longleftrightarrow> has_suffix f ''.toml'' \<and> is_local_override_toml f"

definition other_loader :: "string \<Rightarrow> string \<Rightarrow> loader option" where
  "other_loader d f =
     (if has_suffix f ''.toml'' then None
      else if has_suffix f ''.json'' then Some (JSONLoader (ConfigPath (path_join [d, f])))
      else if has_suffix f ''.yaml'' \<or> has_suffix f ''.yml'' then Some (YAMLLoader (ConfigPath (path_join [d, f])))
      else None)"

lemma sort_files_spec:
  "sort_files d fs (ls, ts, os) =
     (ls @ List.map_filter (other_loader d) fs, ts @ filter plain_toml fs, os @ filter local_toml fs)"
  by (induction fs arbitrary: ls ts os)
    (auto simp: other_loader_def plain_toml_def local_toml_def List.map_filter_def)

text \<open>
  The loaders of a directory: tags and environment first, then the JSON and YAML files as listed,
  then the TOML files in alphabetical order and last the local overrides in alphabetical order.
  The order of the TOML part does not depend on the order of the listing.
\<close>

lemma dir_loaders_order:
  "dir_loaders d fs = base_loaders @ List.map_filter (other_loader d) fs
     @ map (\<lambda>f. TOMLLoader (ConfigPath (path_join [d, f]))) (sort (filter plain_toml fs) @ sort (filter local_toml fs))"
  by (simp add: dir_loaders_def sort_files_spec)

lemma dir_loaders_listing_order:
  assumes "mset fs = mset gs" and "\<forall>f \<in> set fs. other_loader d f = None"
  shows "dir_loaders d fs = dir_loaders d gs"
proof -
  have s: "sort (filter P fs) = sort (filter P gs)" for P
    using assms(1) by (intro properties_for_sort) (simp_all add: mset_filter)
  have n: "List.map_filter (other_loader d) xs = []" if "set xs = set fs" for xs
    using assms(2) that by (induction xs arbitrary: fs) (auto simp: List.map_filter_def filter_empty_conv)
  show ?thesis
    using n [of fs] n [of gs] mset_eq_setD [OF assms(1)] by (simp only: dir_loaders_order s)
qed

text \<open>
  The effect of a list of loaders under the documented behaviour of \<open>MultiLoader\<close>: the loaders run in
  the order of the list and each one overwrites the settings its source has.  \<open>settings\<close> gives the
  settings of a source.
\<close>

definition run_loaders :: "(loader \<Rightarrow> 'k \<rightharpoonup> 'v) \<Rightarrow> loader list \<Rightarrow> ('k \<rightharpoonup> 'v) \<Rightarrow> ('k \<rightharpoonup> 'v)" where
  "run_loaders settings ls m = fold (\<lambda>l m. m ++ settings l) ls m"

lemma run_loaders_append: "run_loaders st (ls @ ls') m = run_loaders st ls' (run_loaders st ls m)"
  by (simp add: run_loaders_def)

lemma run_loaders_untouched: "\<forall>l \<in> set ls. st l k = None \<Longrightarrow> run_loaders st ls m k = m k"
  by (induction ls arbitrary: m) (auto simp: run_loaders_def map_add_def)

lemma run_loaders_last:
  assumes "st l k = Some v" and "\<forall>l' \<in> set ls'. st l' k = None"
  shows "run_loaders st (ls @ l # ls') m k = Some v"
  using run_loaders_untouched [of ls' st k] assms by (simp add: run_loaders_append) (simp add: run_loaders_def)

text \<open>
  A setting of a local override file wins over every other source: over tags, environment,
  every JSON, YAML and plain TOML file, and over the local files before it in the alphabet.
\<close>

lemma local_override_wins:
  assumes "f \<in> set fs" "local_toml f" "st (TOMLLoader (ConfigPath (path_join [d, f]))) k = Some v"
    and "\<forall>g \<in> set fs. local_toml g \<longrightarrow> st (TOMLLoader (ConfigPath (path_join [d, g]))) k \<noteq> None \<longrightarrow> g \<le> f"
    and "distinct fs"
  shows "run_loaders st (dir_loaders d fs) m k = Some v"
proof -
  let ?l = "\<lambda>f. TOMLLoader (ConfigPath (path_join [d, f]))" and ?s = "sort (filter local_toml fs)"
  have "f \<in> set ?s" using assms(1,2) by simp
  then obtain xs ys where s: "?s = xs @ f # ys" by (metis split_list)
  have d: "distinct (xs @ f # ys)" "sorted (xs @ f # ys)" unfolding s [symmetric] using assms(5) by simp_all
  have ys: "set ys \<subseteq> {g \<in> set fs. local_toml g}" 
  proof -
    have "set ys \<subseteq> set ?s" unfolding s by auto
    then show ?thesis by auto
  qed
  have none: "st (?l g) k = None" if "g \<in> set ys" for g
  proof (rule ccontr)
    assume "st (?l g) k \<noteq> None"
    then have "g \<le> f" using assms(4) ys that by auto
    moreover have "f \<le> g" using d(2) that by (auto simp: sorted_append)
    ultimately show False using d(1) that by auto
  qed
  have "dir_loaders d fs = (base_loaders @ List.map_filter (other_loader d) fs
      @ map ?l (sort (filter plain_toml fs)) @ map ?l xs) @ ?l f # map ?l ys"
    by (simp add: dir_loaders_order s)
  then show ?thesis
    by (simp only:) (rule run_loaders_last [where l = "?l f" and ls' = "map ?l ys"], use assms(3) none in simp_all)
qed

section \<open>Configurations in memory\<close>

lemma formats_distinct [simp]:
  "TomlFormat \<noteq> YamlFormat" "TomlFormat \<noteq> JsonFormat" "YamlFormat \<noteq> JsonFormat"
  "YamlFormat \<noteq> TomlFormat" "JsonFormat \<noteq> TomlFormat" "JsonFormat \<noteq> YamlFormat"
  by (simp_all add: TomlFormat_def YamlFormat_def JsonFormat_def)

lemma join_configs_step:
  "join_configs (c # cs) (t, y, j) = join_configs cs
     (if cw_format c = TomlFormat then t @ [CHR 0x0A, CHR 0x0A] @ cw_config c else t,
      if cw_format c = YamlFormat then y @ cw_config c else y,
      if cw_format c = JsonFormat then j @ cw_config c else j)"
  by simp

declare join_configs.simps(2) [simp del]

lemma join_configs_spec:
  "join_configs cs (t, y, j) =
     (t @ concat (map (\<lambda>c. [CHR 0x0A, CHR 0x0A] @ cw_config c) (filter (\<lambda>c. cw_format c = TomlFormat) cs)),
      y @ concat (map cw_config (filter (\<lambda>c. cw_format c = YamlFormat) cs)),
      j @ concat (map cw_config (filter (\<lambda>c. cw_format c = JsonFormat) cs)))"
proof (induction cs arbitrary: t y j)
  case (Cons c cs)
  show ?case unfolding join_configs_step Cons.IH by simp
qed simp

text \<open>
  Here the formats have the opposite order to that of a directory: TOML first, JSON last, whatever
  the order of the list, and configurations of other formats are ignored.
\<close>

lemma config_loaders_format_order:
  assumes "\<And>fm. filter (\<lambda>c. cw_format c = fm) cs = filter (\<lambda>c. cw_format c = fm) cs'"
  shows "load_configs load cs ptr = load_configs load cs' ptr"
  by (simp add: load_configs_def config_loaders_def join_configs_spec assms)

lemma load_configs_single:
  assumes "cw_format c \<in> {YamlFormat, JsonFormat}" "cw_config c \<noteq> []"
  shows "load_configs load [c] ptr = load_single_config load c ptr"
  using assms
  by (auto simp: load_configs_def load_single_config_def config_loaders_def single_loaders_def
      join_configs_spec)

text \<open>
  Only TOML contents are separated when they are joined: two YAML configurations, the first without a
  final newline, are loaded as one whose lines run together.
\<close>

lemma yaml_configs_run_together:
  "load_configs load [\<lparr>cw_config = ''a: 1'', cw_format = YamlFormat, cw_check_sum = s\<rparr>,
       \<lparr>cw_config = ''b: 2'', cw_format = YamlFormat, cw_check_sum = s'\<rparr>] ptr
   = load_single_config load \<lparr>cw_config = ''a: 1b: 2'', cw_format = YamlFormat, cw_check_sum = ''''\<rparr> ptr"
  by (simp add: load_configs_def load_single_config_def config_loaders_def single_loaders_def
      join_configs_spec)

lemma guess_format_of_names:
  "guess_format (p @ ''.json'') = JsonFormat \<and> guess_format (p @ ''.yaml'') = YamlFormat
   \<and> guess_format (p @ ''.yml'') = YamlFormat \<and> guess_format (p @ ''.toml'') = TomlFormat"
  by (simp add: guess_format_def has_suffix_def)

end
