(* ===== verification/AlertPipeline.thy ===== *)
theory AlertPipeline
  imports ServerConn "HOL-Library.Sublist" "HOL-Library.Multiset"
begin

text \<open>
  The way of an alert to the server (\<open>server/conn.go\<close>): the notifier pushes into the ring buffer, the
  flusher drains it into batches for the send channel, the writer takes them from there to the
  socket, next to heartbeats and the messages of sessions, and after the end of a connection a new
  one goes on with the same buffer.  \<open>ServerConn\<close> has each of these as a function; here they run as
  the goroutines they are, in every interleaving, with the contents of buffer and channel.
\<close>

section \<open>State\<close>

datatype out_msg = AlertBatch "addr list" | HeartbeatMsg nat | OtherMsg string

text \<open>Where the flusher is: at its \<open>select\<close>, before a drain, in the send of a batch, returned.\<close>

datatype flusher = FlIdle | FlDraining | FlSending "addr list" | FlStopped

text \<open>
  \<open>pl_wire\<close>, \<open>pl_gone\<close>, \<open>pl_pushed\<close> and \<open>pl_overwritten\<close> are histories over all connections: what was
  written, what was handed to a connection and not written, what was pushed, and what the buffer
  dropped because it was full.
\<close>

record pipeline =
  pl_ring :: "addr ring"
  pl_chan :: "out_msg list"
  pl_flush :: flusher
  pl_writer :: bool
  pl_heart :: bool
  pl_ctx :: bool
  pl_done :: bool
  pl_wire :: "out_msg list"
  pl_gone :: "out_msg list"
  pl_pushed :: "addr list"
  pl_overwritten :: "addr list"

text \<open>Without a buffer the flusher returns at once.\<close>

definition flush_start :: "'a ring option \<Rightarrow> flusher" where
  "flush_start rg = (if rg = None then FlStopped else FlIdle)"

definition new_pipeline :: "int \<Rightarrow> pipeline" where
  "new_pipeline capacity =
     \<lparr>pl_ring = new_ring_buffer capacity, pl_chan = [], pl_flush = flush_start (init_alert_buffer capacity),
      pl_writer = True, pl_heart = True, pl_ctx = False, pl_done = False, pl_wire = [], pl_gone = [],
      pl_pushed = [], pl_overwritten = []\<rparr>"

section \<open>Operations\<close>

definition push_alert :: "addr \<Rightarrow> pipeline \<Rightarrow> pipeline" where
  "push_alert a s = s\<lparr>pl_ring := ring_push (Some a) (pl_ring s), pl_pushed := pl_pushed s @ [a],
     pl_overwritten := pl_overwritten s @
       (if rb_count (pl_ring s) < rb_cap (pl_ring s) then [] else map the (take 1 (ring_items (pl_ring s))))\<rparr>"

text \<open>One round of \<open>flushAlertEvents\<close> up to its send: nothing left, or a batch.\<close>

definition flush_drain :: "pipeline \<Rightarrow> pipeline option" where
  "flush_drain s =
     (case ring_drain (int alertFlushBatch) (pl_ring s) of
        None \<Rightarrow> None
      | Some (es, r) \<Rightarrow>
          if es = [] then Some (s\<lparr>pl_ring := r, pl_flush := FlIdle\<rparr>)
          else if None \<in> set es then None
          else Some (s\<lparr>pl_ring := r, pl_flush := FlSending (map the es)\<rparr>))"

definition has_room :: "pipeline \<Rightarrow> bool" where
  "has_room s \<longleftrightarrow> length (pl_chan s) < sendChSize"

definition enqueue :: "out_msg \<Rightarrow> pipeline \<Rightarrow> pipeline" where
  "enqueue m s = s\<lparr>pl_chan := pl_chan s @ [m]\<rparr>"

text \<open>The writer's first case: \<open>ok\<close> is the outcome of the write.\<close>

definition write_next :: "bool \<Rightarrow> pipeline \<Rightarrow> pipeline" where
  "write_next ok s =
     (case pl_chan s of
        [] \<Rightarrow> s
      | m # ms \<Rightarrow>
          if ok then s\<lparr>pl_chan := ms, pl_wire := pl_wire s @ [m]\<rparr>
          else s\<lparr>pl_chan := ms, pl_gone := pl_gone s @ [m], pl_ctx := True, pl_writer := False\<rparr>)"

text \<open>A new connection has a channel of its own; the messages in the old one are gone with it.\<close>

definition reconnect :: "pipeline \<Rightarrow> pipeline" where
  "reconnect s = s\<lparr>pl_chan := [], pl_gone := pl_gone s @ pl_chan s, pl_flush := flush_start (Some (pl_ring s)),
     pl_writer := True, pl_heart := True, pl_ctx := False, pl_done := False\<rparr>"

section \<open>Interleavings\<close>

inductive pipe_step :: "pipeline \<Rightarrow> pipeline \<Rightarrow> bool" where
  Push: "pipe_step s (push_alert a s)"
| FlushTick: "pl_flush s = FlIdle \<Longrightarrow> pipe_step s (s\<lparr>pl_flush := FlDraining\<rparr>)"
| FlushDrain: "pl_flush s = FlDraining \<Longrightarrow> flush_drain s = Some s' \<Longrightarrow> pipe_step s s'"
| FlushSent: "pl_flush s = FlSending b \<Longrightarrow> has_room s \<Longrightarrow>
    pipe_step s (enqueue (AlertBatch b) (s\<lparr>pl_flush := FlDraining\<rparr>))"
| FlushDropped: "pl_flush s = FlSending b \<Longrightarrow> pl_done s \<Longrightarrow>
    pipe_step s (s\<lparr>pl_flush := FlIdle, pl_gone := pl_gone s @ [AlertBatch b]\<rparr>)"
| FlushStops: "pl_flush s = FlIdle \<Longrightarrow> pl_ctx s \<Longrightarrow> pipe_step s (s\<lparr>pl_flush := FlStopped\<rparr>)"
| Beat: "pl_heart s \<Longrightarrow> has_room s \<Longrightarrow> pipe_step s (enqueue (HeartbeatMsg n) s)"
| BeatSkipped: "pl_heart s \<Longrightarrow> \<not> has_room s \<Longrightarrow> \<not> pl_done s \<Longrightarrow> pipe_step s s"
| HeartStops: "pl_heart s \<Longrightarrow> pl_ctx s \<or> pl_done s \<Longrightarrow> pipe_step s (s\<lparr>pl_heart := False\<rparr>)"
| Other: "has_room s \<Longrightarrow> pipe_step s (enqueue (OtherMsg m) s)"
| Write: "pl_writer s \<Longrightarrow> pl_chan s \<noteq> [] \<Longrightarrow> pipe_step s (write_next ok s)"
| WriterStops: "pl_writer s \<Longrightarrow> pl_ctx s \<Longrightarrow> pipe_step s (s\<lparr>pl_writer := False\<rparr>)"
| Cancelled: "pipe_step s (s\<lparr>pl_ctx := True\<rparr>)"
| ReaderReturns: "pipe_step s (s\<lparr>pl_ctx := True, pl_done := True\<rparr>)"
| NewConn: "pl_done s \<Longrightarrow> \<not> pl_writer s \<Longrightarrow> \<not> pl_heart s \<Longrightarrow> pl_flush s = FlStopped \<Longrightarrow> pipe_step s (reconnect s)"

inductive_cases pipe_stepE: "pipe_step s s'"

abbreviation pipe_reach :: "int \<Rightarrow> pipeline \<Rightarrow> bool" where
  "pipe_reach capacity s \<equiv> pipe_step\<^sup>*\<^sup>* (new_pipeline capacity) s"

section \<open>Conservation and order\<close>

fun alerts_of :: "out_msg list \<Rightarrow> addr list" where
  "alerts_of [] = []"
| "alerts_of (AlertBatch b # ms) = b @ alerts_of ms"
| "alerts_of (_ # ms) = alerts_of ms"

lemma alerts_of_append [simp]: "alerts_of (ms @ ns) = alerts_of ms @ alerts_of ns"
  by (induction ms rule: alerts_of.induct) auto

fun in_hand :: "flusher \<Rightarrow> addr list" where
  "in_hand (FlSending b) = b"
| "in_hand _ = []"

definition buffered :: "pipeline \<Rightarrow> addr list" where
  "buffered s = map the (ring_items (pl_ring s))"

definition on_the_way :: "pipeline \<Rightarrow> addr list" where
  "on_the_way s = alerts_of (pl_wire s) @ alerts_of (pl_chan s) @ in_hand (pl_flush s) @ buffered s"

definition pipe_ok :: "pipeline \<Rightarrow> bool" where
  "pipe_ok s \<longleftrightarrow> ring_ok (pl_ring s) \<and> None \<notin> set (ring_items (pl_ring s)) \<and> length (pl_chan s) \<le> sendChSize
     \<and> subseq (on_the_way s) (pl_pushed s)
     \<and> mset (pl_pushed s) = mset (on_the_way s) + mset (alerts_of (pl_gone s)) + mset (pl_overwritten s)"

lemma subseq_drop_middle: "subseq (a @ b @ c) d \<Longrightarrow> subseq (a @ c) d"
proof -
  assume d: "subseq (a @ b @ c) d"
  have "subseq c (b @ c)" by (rule list_emb_append2) simp
  then have "subseq (a @ c) (a @ b @ c)" by (intro list_emb_append_mono) simp_all
  with d show ?thesis by (rule subseq_order.order_trans [rotated])
qed

lemma push_ok:
  assumes "pipe_ok s"
  shows "pipe_ok (push_alert a s)"
proof -
  let ?r = "pl_ring s" and ?x = "alerts_of (pl_wire s) @ alerts_of (pl_chan s) @ in_hand (pl_flush s)"
  have r: "ring_ok ?r" "None \<notin> set (ring_items ?r)" using assms by (simp_all add: pipe_ok_def)
  note p = ring_push_step [OF r(1), of "Some a"]
  have sub: "subseq (?x @ buffered s @ [a]) (pl_pushed s @ [a])"
    using assms list_emb_append_mono [of "(=)" "?x @ buffered s" "pl_pushed s" "[a]" "[a]"]
    by (simp add: pipe_ok_def on_the_way_def)
  show ?thesis
  proof (cases "rb_count ?r < rb_cap ?r")
    case True
    with p have "ring_items (ring_push (Some a) ?r) = ring_items ?r @ [Some a]" by simp
    with True p(1) r sub assms show ?thesis
      by (simp add: pipe_ok_def on_the_way_def buffered_def push_alert_def)
  next
    case False
    with p have i: "ring_items (ring_push (Some a) ?r) = tl (ring_items ?r) @ [Some a]" by simp
    have full: "ring_items ?r = take 1 (ring_items ?r) @ tl (ring_items ?r)" by (cases "ring_items ?r") auto
    have b: "buffered s = map the (take 1 (ring_items ?r)) @ map the (tl (ring_items ?r))"
      unfolding buffered_def by (subst full) simp
    have "subseq (?x @ map the (tl (ring_items ?r)) @ [a]) (pl_pushed s @ [a])"
      using subseq_drop_middle [of ?x] sub unfolding b by simp
    moreover have "None \<notin> set (tl (ring_items ?r))" using r(2) by (cases "ring_items ?r") auto
    moreover have "image_mset the (mset (ring_items ?r))
        = image_mset the (mset (tl (ring_items ?r))) + image_mset the (mset (take (Suc 0) (ring_items ?r)))"
      by (cases "ring_items ?r") auto
    ultimately show ?thesis using False p(1) i assms b
      by (simp add: pipe_ok_def on_the_way_def buffered_def push_alert_def)
  qed
qed

lemma drain_ok:
  assumes "pipe_ok s" "pl_flush s = FlDraining" "flush_drain s = Some s'"
  shows "pipe_ok s'"
proof -
  have r: "ring_ok (pl_ring s)" using assms(1) by (simp add: pipe_ok_def)
  obtain es r' where d: "ring_drain (int alertFlushBatch) (pl_ring s) = Some (es, r')" "ring_ok r'"
      "ring_items (pl_ring s) = es @ ring_items r'"
    using ring_drain_step [OF r, of alertFlushBatch] by (metis append_take_drop_id)
  with assms show ?thesis
    by (auto simp: flush_drain_def pipe_ok_def on_the_way_def buffered_def split: if_splits)
qed

lemma write_ok:
  assumes "pipe_ok s"
  shows "pipe_ok (write_next ok s)"
proof (cases "pl_chan s")
  case (Cons m ms)
  have c: "alerts_of (pl_chan s) = alerts_of [m] @ alerts_of ms" using Cons alerts_of_append [of "[m]" ms] by simp
  show ?thesis
  proof (cases ok)
    case True
    with Cons c assms show ?thesis by (simp add: pipe_ok_def on_the_way_def write_next_def buffered_def)
  next
    case False
    then have "subseq (alerts_of (pl_wire s) @ alerts_of ms @ in_hand (pl_flush s) @ buffered s) (pl_pushed s)"
      using assms c subseq_drop_middle [of "alerts_of (pl_wire s)" "alerts_of [m]"] by (simp add: pipe_ok_def on_the_way_def)
    with False Cons c assms show ?thesis by (simp add: pipe_ok_def on_the_way_def write_next_def buffered_def)
  qed
qed (simp add: write_next_def assms)

lemma reconnect_ok:
  assumes "pipe_ok s" "pl_flush s = FlStopped"
  shows "pipe_ok (reconnect s)"
proof -
  have "subseq (alerts_of (pl_wire s) @ buffered s) (pl_pushed s)"
    using assms subseq_drop_middle [of "alerts_of (pl_wire s)" "alerts_of (pl_chan s)" "buffered s"]
    by (simp add: pipe_ok_def on_the_way_def)
  with assms show ?thesis
    by (simp add: pipe_ok_def on_the_way_def reconnect_def flush_start_def buffered_def)
qed

lemma dropped_ok:
  assumes "pipe_ok s" "pl_flush s = FlSending b"
  shows "pipe_ok (s\<lparr>pl_flush := FlIdle, pl_gone := pl_gone s @ [AlertBatch b]\<rparr>)"
proof -
  have "subseq (alerts_of (pl_wire s) @ alerts_of (pl_chan s) @ buffered s) (pl_pushed s)"
    using assms subseq_drop_middle [of "alerts_of (pl_wire s) @ alerts_of (pl_chan s)" b "buffered s"]
    by (simp add: pipe_ok_def on_the_way_def)
  with assms show ?thesis by (simp add: pipe_ok_def on_the_way_def buffered_def)
qed

lemma pipe_ok_step:
  assumes "pipe_step s s'" "pipe_ok s"
  shows "pipe_ok s'"
  using assms
proof (cases rule: pipe_step.cases)
  case (Push a)
  with assms(2) push_ok show ?thesis by simp
next
  case FlushDrain
  with assms(2) drain_ok show ?thesis by blast
next
  case (FlushDropped b)
  with assms(2) dropped_ok show ?thesis by simp
next
  case Write
  with assms(2) write_ok show ?thesis by simp
next
  case NewConn
  with assms(2) reconnect_ok show ?thesis by simp
qed (use assms(2) in \<open>auto simp: pipe_ok_def on_the_way_def buffered_def enqueue_def has_room_def\<close>)

lemma pipe_ok_reach: "pipe_reach capacity s \<Longrightarrow> pipe_ok s"
proof (induction rule: rtranclp_induct)
  case base
  show ?case
    by (simp add: pipe_ok_def new_pipeline_def on_the_way_def buffered_def new_ring_ok new_ring_items
        flush_start_def init_alert_buffer_def)
qed (rule pipe_ok_step)

lemma subseq_mset_eq: "subseq xs ys \<Longrightarrow> mset ys = mset xs + m \<Longrightarrow> m = {#} \<Longrightarrow> xs = ys"
  using subseq_same_length [of xs ys] by (metis add.right_neutral size_mset)

section \<open>Delivery\<close>

text \<open>The writer can empty the channel.\<close>

lemma channel_drains:
  assumes "pl_writer s"
  shows "pipe_step\<^sup>*\<^sup>* s (s\<lparr>pl_chan := [], pl_wire := pl_wire s @ pl_chan s\<rparr>)"
  using assms
proof (induction "pl_chan s" arbitrary: s)
  case Nil
  then have "s\<lparr>pl_chan := [], pl_wire := pl_wire s @ pl_chan s\<rparr> = s" by simp
  then show ?case by simp
next
  case (Cons m ms)
  let ?t = "s\<lparr>pl_chan := ms, pl_wire := pl_wire s @ [m]\<rparr>"
  have c: "pl_chan s = m # ms" using Cons(2) by simp
  have "pipe_step s ?t"
    using pipe_step.Write [of s True] Cons(3) by (simp add: write_next_def c)
  moreover have "pipe_step\<^sup>*\<^sup>* ?t (?t\<lparr>pl_chan := [], pl_wire := pl_wire ?t @ pl_chan ?t\<rparr>)"
    using Cons by (intro Cons(1)) simp_all
  moreover have "?t\<lparr>pl_chan := [], pl_wire := pl_wire ?t @ pl_chan ?t\<rparr> = s\<lparr>pl_chan := [], pl_wire := pl_wire s @ pl_chan s\<rparr>"
    by (simp add: c)
  ultimately show ?case by (metis converse_rtranclp_into_rtranclp)
qed

definition delivered :: "pipeline \<Rightarrow> pipeline \<Rightarrow> bool" where
  "delivered s t \<longleftrightarrow> pipe_step\<^sup>*\<^sup>* s t \<and> pl_pushed t = pl_pushed s \<and> pl_gone t = pl_gone s
     \<and> pl_overwritten t = pl_overwritten s \<and> pl_writer t \<and> pl_chan t = [] \<and> in_hand (pl_flush t) = [] \<and> buffered t = []"

lemma draining_delivers:
  assumes "pl_writer s" "pl_flush s = FlDraining" "pipe_ok s"
  shows "\<exists>t. delivered s t"
  using assms
proof (induction "length (ring_items (pl_ring s))" arbitrary: s rule: less_induct)
  case less
  let ?c = "s\<lparr>pl_chan := [], pl_wire := pl_wire s @ pl_chan s\<rparr>"
  have c: "pipe_step\<^sup>*\<^sup>* s ?c" using channel_drains [OF less.prems(1)] .
  have r: "ring_ok (pl_ring s)" "None \<notin> set (ring_items (pl_ring s))" using less.prems(3) by (simp_all add: pipe_ok_def)
  obtain r' where d: "ring_drain (int alertFlushBatch) (pl_ring s) = Some (take alertFlushBatch (ring_items (pl_ring s)), r')"
      "ring_items r' = drop alertFlushBatch (ring_items (pl_ring s))"
    using ring_drain_step [OF r(1), of alertFlushBatch] by blast
  have b: "0 < alertFlushBatch" by (simp add: alertFlushBatch_def)
  show ?case
  proof (cases "ring_items (pl_ring s) = []")
    case True
    let ?t = "?c\<lparr>pl_ring := r', pl_flush := FlIdle\<rparr>"
    have "pipe_step ?c ?t"
      using True d less.prems(2) by (intro pipe_step.FlushDrain) (simp_all add: flush_drain_def)
    then have "pipe_step\<^sup>*\<^sup>* s ?t" using c by (rule rtranclp.rtrancl_into_rtrancl [rotated])
    moreover have "buffered ?t = []" using True d(2) by (simp add: buffered_def)
    ultimately show ?thesis using less.prems by (intro exI [of _ ?t]) (simp add: delivered_def)
  next
    case False
    let ?b = "map the (take alertFlushBatch (ring_items (pl_ring s)))"
    let ?d = "?c\<lparr>pl_ring := r', pl_flush := FlSending ?b\<rparr>"
    let ?e = "enqueue (AlertBatch ?b) (?d\<lparr>pl_flush := FlDraining\<rparr>)"
    have nn: "None \<notin> set (take alertFlushBatch (ring_items (pl_ring s)))" using r(2) by (meson in_set_takeD)
    have "take alertFlushBatch (ring_items (pl_ring s)) \<noteq> []" using False b by simp
    then have 1: "pipe_step ?c ?d"
      using d less.prems(2) nn by (intro pipe_step.FlushDrain) (simp_all add: flush_drain_def)
    have 2: "pipe_step ?d ?e" by (rule pipe_step.FlushSent) (simp_all add: has_room_def sendChSize_def)
    have se: "pipe_step\<^sup>*\<^sup>* s ?e" using c 1 2 by (meson rtranclp.rtrancl_into_rtrancl)
    have ok: "pipe_ok ?e" using se less.prems(3)
    proof (induction rule: rtranclp_induct)
      case (step y z)
      then show ?case using pipe_ok_step by blast
    qed
    have "length (ring_items (pl_ring ?e)) < length (ring_items (pl_ring s))"
      using d(2) b False [folded length_greater_0_conv] by (simp add: enqueue_def)
    from less.hyps [OF this _ _ ok] obtain t where t: "delivered ?e t" using less.prems(1) by (auto simp: enqueue_def)
    then have "pipe_step\<^sup>*\<^sup>* s t" using se rtranclp_trans unfolding delivered_def by metis
    then have "delivered s t" using t by (simp add: delivered_def enqueue_def)
    then show ?thesis ..
  qed
qed

lemma pipe_delivers:
  assumes "pipe_ok s" "pl_writer s" "pl_flush s \<noteq> FlStopped"
  shows "\<exists>t. delivered s t"
proof -
  have start: "\<exists>t. delivered s t" if "pipe_step\<^sup>*\<^sup>* s u" "pl_writer u" "pl_flush u = FlDraining"
      "pl_pushed u = pl_pushed s" "pl_gone u = pl_gone s" "pl_overwritten u = pl_overwritten s" for u
  proof -
    have "pipe_ok u" using that(1) assms(1) by (induction rule: rtranclp_induct) (auto intro: pipe_ok_step)
    from draining_delivers [OF that(2,3) this] that show ?thesis by (auto simp: delivered_def intro: rtranclp_trans)
  qed
  show ?thesis
  proof (cases "pl_flush s")
    case FlIdle
    with pipe_step.FlushTick [of s] assms(2) show ?thesis by (intro start [of "s\<lparr>pl_flush := FlDraining\<rparr>"]) auto
  next
    case FlDraining
    with assms(2) show ?thesis by (intro start [of s]) auto
  next
    case (FlSending b)
    let ?c = "s\<lparr>pl_chan := [], pl_wire := pl_wire s @ pl_chan s\<rparr>"
    have "pipe_step ?c (enqueue (AlertBatch b) (?c\<lparr>pl_flush := FlDraining\<rparr>))"
      using FlSending by (intro pipe_step.FlushSent) (simp_all add: has_room_def sendChSize_def)
    with channel_drains [OF assms(2)] assms(2) show ?thesis
      by (intro start [of "enqueue (AlertBatch b) (?c\<lparr>pl_flush := FlDraining\<rparr>)"])
        (auto simp: enqueue_def intro: rtranclp.rtrancl_into_rtrancl)
  next
    case FlStopped
    with assms(3) show ?thesis by simp
  qed
qed

text \<open>
  C11. However the goroutines of one connection after another interleave: the alerts on the wire are in
  the order in which they were pushed, none twice; every pushed alert is on the wire, on its way, gone
  with a connection that ended or overwritten by a full buffer, and is accounted for exactly once.  As
  long as the writer and the flusher run, everything on its way can reach the wire with nothing lost.
\<close>

theorem alerts_reach_wire:
  assumes "pipe_reach capacity s"
  shows "subseq (alerts_of (pl_wire s)) (pl_pushed s)
     \<and> mset (pl_pushed s) = mset (alerts_of (pl_wire s)) + mset (alerts_of (pl_chan s)) + mset (in_hand (pl_flush s))
         + mset (buffered s) + mset (alerts_of (pl_gone s)) + mset (pl_overwritten s)
     \<and> length (pl_chan s) \<le> 64
     \<and> (pl_gone s = [] \<and> pl_overwritten s = [] \<longrightarrow>
          alerts_of (pl_wire s) @ alerts_of (pl_chan s) @ in_hand (pl_flush s) @ buffered s = pl_pushed s)
     \<and> (pl_writer s \<and> pl_flush s \<noteq> FlStopped \<longrightarrow>
          (\<exists>t. pipe_step\<^sup>*\<^sup>* s t \<and> pl_pushed t = pl_pushed s
            \<and> mset (pl_pushed t) = mset (alerts_of (pl_wire t)) + mset (alerts_of (pl_gone s)) + mset (pl_overwritten s)))"
proof (intro conjI impI)
  have ok: "pipe_ok s" by (rule pipe_ok_reach [OF assms])
  then show "subseq (alerts_of (pl_wire s)) (pl_pushed s)"
    using subseq_drop_middle [of "alerts_of (pl_wire s)" "alerts_of (pl_chan s) @ in_hand (pl_flush s) @ buffered s" "[]"]
    by (simp add: pipe_ok_def on_the_way_def)
  show "mset (pl_pushed s) = mset (alerts_of (pl_wire s)) + mset (alerts_of (pl_chan s)) + mset (in_hand (pl_flush s))
         + mset (buffered s) + mset (alerts_of (pl_gone s)) + mset (pl_overwritten s)"
    using ok by (simp add: pipe_ok_def on_the_way_def ac_simps)
  show "length (pl_chan s) \<le> 64" using ok by (simp add: pipe_ok_def sendChSize_def)
  show "alerts_of (pl_wire s) @ alerts_of (pl_chan s) @ in_hand (pl_flush s) @ buffered s = pl_pushed s"
    if "pl_gone s = [] \<and> pl_overwritten s = []"
    using ok that subseq_mset_eq [of "on_the_way s" "pl_pushed s" "{#}"] by (simp add: pipe_ok_def on_the_way_def)
  assume "pl_writer s \<and> pl_flush s \<noteq> FlStopped"
  with pipe_delivers [OF ok] obtain t where t: "delivered s t" by blast
  then have "pipe_reach capacity t" using assms by (auto simp: delivered_def intro: rtranclp_trans)
  then have "pipe_ok t" by (rule pipe_ok_reach)
  with t show "\<exists>t. pipe_step\<^sup>*\<^sup>* s t \<and> pl_pushed t = pl_pushed s
            \<and> mset (pl_pushed t) = mset (alerts_of (pl_wire t)) + mset (alerts_of (pl_gone s)) + mset (pl_overwritten s)"
    by (intro exI [of _ t]) (simp add: delivered_def pipe_ok_def on_the_way_def)
qed

theorem alerts_reach_wire_witness:
  "\<exists>t. pipe_step\<^sup>*\<^sup>* (push_alert 7 (new_pipeline 2)) t \<and> pl_pushed t = [7] \<and> alerts_of (pl_wire t) = [7]"
proof -
  let ?s = "push_alert 7 (new_pipeline 2)"
  have "pipe_reach 2 ?s" using pipe_step.Push [of "new_pipeline 2" 7] by blast
  moreover have "pl_writer ?s" "pl_flush ?s \<noteq> FlStopped" "pl_pushed ?s = [7]" "pl_gone ?s = []" "pl_overwritten ?s = []"
    by (simp_all add: push_alert_def new_pipeline_def flush_start_def init_alert_buffer_def new_ring_buffer_def)
  ultimately show ?thesis using alerts_reach_wire [of 2 ?s] by auto
qed

end
